(* ===== verification/Prelude.thy ===== *)
theory Prelude
  imports Main "HOL-Library.Word"
begin

section \<open>Shared notions of the SwitchTrade development\<close>

text \<open>
  Python values as HOL values.  An unbounded Python integer is an \<^typ>\<open>int\<close>; a
  \<^verbatim>\<open>bytes\<close> or \<^verbatim>\<open>bytearray\<close> object is a list of 8-bit words; an exception is the
  left summand of a sum type.  The theory holds the little- and big-endian integer codecs
  the wire formats are built from, Python slicing, the error monad, and the interfaces
  (codecs, state machines) that several components share.
\<close>

unbundle bit_operations_syntax

named_theorems masks \<open>a bit mask written as a literal is a \<open>take_bit\<close>\<close>

subsection \<open>Exceptions\<close>

datatype py_error =
    IndexError
  | KeyError
  | ValueError
  | AssertionError
  | OverflowError
  | RuntimeError

fun bindr :: "'e + 'a \<Rightarrow> ('a \<Rightarrow> 'e + 'b) \<Rightarrow> 'e + 'b" where
  "bindr (Inl e) f = Inl e"
| "bindr (Inr x) f = f x"

lemma bindr_eq_Inr [simp]: "bindr m f = Inr y \<longleftrightarrow> (\<exists>x. m = Inr x \<and> f x = Inr y)"
  by (cases m) auto

lemma bindr_eq_Inl: "bindr m f = Inl e \<longleftrightarrow> m = Inl e \<or> (\<exists>x. m = Inr x \<and> f x = Inl e)"
  by (cases m) auto

text \<open>Indexing with a non-negative index: out of range raises.\<close>

definition py_index :: "'a list \<Rightarrow> nat \<Rightarrow> py_error + 'a" where
  "py_index xs i = (if i < length xs then Inr (xs ! i) else Inl IndexError)"

lemma py_index_ok [simp]: "i < length xs \<Longrightarrow> py_index xs i = Inr (xs ! i)"
  by (simp add: py_index_def)

lemma py_index_err [simp]: "length xs \<le> i \<Longrightarrow> py_index xs i = Inl IndexError"
  by (simp add: py_index_def)

subsection \<open>Bytes and slices\<close>

type_synonym byte = "8 word"
type_synonym bytes = "byte list"

text \<open>\<open>xs[i:j]\<close> for non-negative bounds: clipped at the end of the list, never raises.\<close>

definition py_slice :: "'a list \<Rightarrow> nat \<Rightarrow> nat \<Rightarrow> 'a list" where
  "py_slice xs i j = take (j - i) (drop i xs)"

lemma length_py_slice [simp]: "length (py_slice xs i j) = min (j - i) (length xs - i)"
  by (simp add: py_slice_def min.commute)

lemma slice_append_left: "j \<le> length xs \<Longrightarrow> py_slice (xs @ ys) i j = py_slice xs i j"
  by (cases "i \<le> j") (auto simp: py_slice_def)

lemma slice_append_right:
  "length xs \<le> i \<Longrightarrow> py_slice (xs @ ys) i j = py_slice ys (i - length xs) (j - length xs)"
  by (simp add: py_slice_def)

lemma slice_all [simp]: "length xs \<le> j \<Longrightarrow> py_slice xs 0 j = xs"
  by (simp add: py_slice_def)

lemma nth_py_slice: "k < j - i \<Longrightarrow> i + k < length xs \<Longrightarrow> py_slice xs i j ! k = xs ! (i + k)"
  by (simp add: py_slice_def)

lemma slice_Cons [simp]: "py_slice (x # xs) (Suc i) (Suc j) = py_slice xs i j"
  by (simp add: py_slice_def)

text \<open>\<open>bs.ljust(n, fill)\<close> and py_slice assignment \<open>xs[i:j] = ys\<close> for \<open>i \<le> j\<close>.\<close>

definition ljust :: "nat \<Rightarrow> 'a \<Rightarrow> 'a list \<Rightarrow> 'a list" where
  "ljust n fill xs = xs @ replicate (n - length xs) fill"

lemma length_ljust [simp]: "length (ljust n a xs) = max n (length xs)"
  by (simp add: ljust_def)

lemma ljust_id [simp]: "n \<le> length xs \<Longrightarrow> ljust n a xs = xs"
  by (simp add: ljust_def)

definition slice_assign :: "'a list \<Rightarrow> nat \<Rightarrow> nat \<Rightarrow> 'a list \<Rightarrow> 'a list" where
  "slice_assign xs i j ys = take i xs @ ys @ drop j xs"

lemma length_slice_assign:
  "i \<le> j \<Longrightarrow> j \<le> length xs \<Longrightarrow> length ys = j - i \<Longrightarrow>
     length (slice_assign xs i j ys) = length xs"
  by (simp add: slice_assign_def)

lemma slice_assign_same:
  "i \<le> j \<Longrightarrow> j \<le> length xs \<Longrightarrow> length ys = j - i \<Longrightarrow> py_slice (slice_assign xs i j ys) i j = ys"
  by (simp add: slice_assign_def py_slice_def)

lemma slice_assign_other:
  assumes "i \<le> j" "j \<le> length xs" "length ys = j - i" "b \<le> i \<or> j \<le> a"
  shows "py_slice (slice_assign xs i j ys) a b = py_slice xs a b"
proof (rule nth_equalityI)
  show "length (py_slice (slice_assign xs i j ys) a b) = length (py_slice xs a b)"
    using assms by (simp add: length_slice_assign)
next
  fix k
  assume "k < length (py_slice (slice_assign xs i j ys) a b)"
  then have k: "k < b - a" "a + k < length xs"
    using assms by (auto simp: length_slice_assign)
  from assms(4) have "a + k < i \<or> j \<le> a + k" using k by auto
  then have "slice_assign xs i j ys ! (a + k) = xs ! (a + k)"
    using assms k by (auto simp: slice_assign_def nth_append min_def)
  then show "py_slice (slice_assign xs i j ys) a b ! k = py_slice xs a b ! k"
    using k assms by (simp add: nth_py_slice length_slice_assign)
qed

subsection \<open>Endian codecs\<close>

text \<open>
  \<open>to_le n v\<close> is \<^verbatim>\<open>v.to_bytes(n, "little")\<close> for a value that fits; the callers mask
  the value first, so the reduction modulo \<open>256 ^ n\<close> below is never visible.
\<close>

fun to_le :: "nat \<Rightarrow> int \<Rightarrow> bytes" where
  "to_le 0 v = []"
| "to_le (Suc n) v = word_of_int v # to_le n (v div 256)"

fun from_le :: "bytes \<Rightarrow> int" where
  "from_le [] = 0"
| "from_le (b # bs) = uint b + 256 * from_le bs"

definition to_be :: "nat \<Rightarrow> int \<Rightarrow> bytes" where
  "to_be n v = rev (to_le n v)"

definition from_be :: "bytes \<Rightarrow> int" where
  "from_be bs = from_le (rev bs)"

lemma length_to_le [simp]: "length (to_le n v) = n"
  by (induction n arbitrary: v) auto

lemma length_to_be [simp]: "length (to_be n v) = n"
  by (simp add: to_be_def)

lemma from_le_nonneg [simp]: "0 \<le> from_le bs"
  by (induction bs) auto

lemma uint_byte_le: "uint (b :: byte) \<le> 255"
  using uint_lt2p [of b] by simp

lemma from_le_less: "from_le bs < 256 ^ length bs"
proof (induction bs)
  case (Cons b bs)
  have "uint b \<le> 255" by (rule uint_byte_le)
  with Cons.IH show ?case by simp
qed simp

lemma from_le_to_le: "from_le (to_le n v) = v mod 256 ^ n"
proof (induction n arbitrary: v)
  case 0
  then show ?case by simp
next
  case (Suc n)
  have "from_le (to_le (Suc n) v) = v mod 256 + 256 * ((v div 256) mod 256 ^ n)"
    using Suc.IH by (simp add: uint_word_of_int)
  also have "\<dots> = v mod (256 * 256 ^ n)"
    by (subst zmod_zmult2_eq) auto
  finally show ?case by simp
qed

lemma from_le_to_le_id: "0 \<le> v \<Longrightarrow> v < 256 ^ n \<Longrightarrow> from_le (to_le n v) = v"
  by (simp add: from_le_to_le)

lemma to_le_from_le: "to_le (length bs) (from_le bs) = bs"
proof (induction bs)
  case (Cons b bs)
  have b: "uint b \<le> 255" "0 \<le> uint b" by (auto simp: uint_byte_le)
  have "(uint b + 256 * from_le bs) div 256 = from_le bs"
    using b by simp
  moreover have "word_of_int (uint b + 256 * from_le bs) = b"
    by (rule word_uint_eqI) (use b in \<open>simp add: uint_word_of_int del: of_int_add\<close>)
  ultimately show ?case using Cons.IH by simp
qed simp

lemma from_be_to_be: "from_be (to_be n v) = v mod 256 ^ n"
  by (simp add: from_be_def to_be_def from_le_to_le)

lemma to_be_from_be: "to_be (length bs) (from_be bs) = bs"
  using to_le_from_le [of "rev bs"] by (simp add: from_be_def to_be_def)

lemma from_be_nonneg [simp]: "0 \<le> from_be bs"
  by (simp add: from_be_def)

lemma from_be_less: "from_be bs < 256 ^ length bs"
  using from_le_less [of "rev bs"] by (simp add: from_be_def)

lemma from_le_singleton [simp]: "from_le [b] = uint b"
  by simp

lemma from_le_inj: "length xs = length ys \<Longrightarrow> from_le xs = from_le ys \<Longrightarrow> xs = ys"
  by (metis to_le_from_le)

lemma from_be_inj: "length xs = length ys \<Longrightarrow> from_be xs = from_be ys \<Longrightarrow> xs = ys"
  by (metis to_be_from_be)

lemma from_le_zeros [simp]: "from_le (replicate n 0) = 0"
  by (induction n) auto

lemma from_le_zero_iff: "from_le bs = 0 \<longleftrightarrow> bs = replicate (length bs) 0"
proof
  assume "from_le bs = 0"
  moreover have "from_le (replicate (length bs) 0) = 0"
    by (rule from_le_zeros)
  ultimately show "bs = replicate (length bs) 0"
    by (metis from_le_inj length_replicate)
next
  assume "bs = replicate (length bs) 0"
  then show "from_le bs = 0" by (metis from_le_zeros)
qed

text \<open>\<^verbatim>\<open>v.to_bytes(n, "little")\<close> where the value may not fit.\<close>

definition to_bytes_le :: "nat \<Rightarrow> int \<Rightarrow> py_error + bytes" where
  "to_bytes_le n v = (if 0 \<le> v \<and> v < 256 ^ n then Inr (to_le n v) else Inl OverflowError)"

definition to_bytes_be :: "nat \<Rightarrow> int \<Rightarrow> py_error + bytes" where
  "to_bytes_be n v = (if 0 \<le> v \<and> v < 256 ^ n then Inr (to_be n v) else Inl OverflowError)"

subsection \<open>Masks on integers\<close>

lemma and_mask_1 [masks]: "(x :: int) AND 1 = take_bit 1 x"
  and and_mask_3 [masks]: "x AND 3 = take_bit 2 x"
  and and_mask_7 [masks]: "x AND 7 = take_bit 3 x"
  and and_mask_15 [masks]: "x AND 15 = take_bit 4 x"
  and and_mask_31 [masks]: "x AND 31 = take_bit 5 x"
  and and_mask_127 [masks]: "x AND 127 = take_bit 7 x"
  and and_mask_255 [masks]: "x AND 255 = take_bit 8 x"
  and and_mask_511 [masks]: "x AND 511 = take_bit 9 x"
  and and_mask_16 [masks]: "x AND 65535 = take_bit 16 x"
  and and_mask_32 [masks]: "x AND 4294967295 = take_bit 32 x"
  by (simp_all add: take_bit_eq_mask mask_eq_exp_minus_1)

lemma odd_drop_bit_iff: "odd (drop_bit n x) \<longleftrightarrow> bit (x :: int) n"
  by (simp add: bit_iff_odd_drop_bit)

lemmas bit_expand = bit_simps odd_drop_bit_iff

lemma take_bit_le_bytes: "from_le (to_le n v) = take_bit (8 * n) v"
  by (simp add: from_le_to_le take_bit_eq_mod power_mult)

lemma take_bit_be_bytes: "from_be (to_be n v) = take_bit (8 * n) v"
  by (simp add: from_be_to_be take_bit_eq_mod power_mult)

lemma le_bytes:
  "from_le (to_le 1 v) = take_bit 8 v" "from_le (to_le 2 v) = take_bit 16 v"
  "from_le (to_le 3 v) = take_bit 24 v" "from_le (to_le 4 v) = take_bit 32 v"
  "from_le (to_le 8 v) = take_bit 64 v"
  by (simp_all add: take_bit_le_bytes del: to_le.simps from_le.simps)

lemma be_bytes:
  "from_be (to_be 2 v) = take_bit 16 v" "from_be (to_be 4 v) = take_bit 32 v"
  "from_be (to_be 8 v) = take_bit 64 v"
  by (simp_all add: take_bit_be_bytes)

lemma to_le_1: "to_le 1 v = [word_of_int v]"
  by simp

lemma to_le_2: "to_le 2 v = [word_of_int v, word_of_int (v div 256)]"
  by (simp add: numeral_2_eq_2)

lemma to_le_3: "to_le 3 v = [word_of_int v, word_of_int (v div 256), word_of_int (v div 65536)]"
proof -
  have "v div 65536 = v div 256 div 256"
    using zdiv_zmult2_eq [of 256 v 256] by simp
  then show ?thesis by (simp add: numeral_3_eq_3)
qed

lemma from_le_pair:
  "from_le [word_of_int v, word_of_int (v div 256)] = take_bit 16 v"
  using take_bit_le_bytes [of 2 v] by (simp only: to_le_2) simp

lemma from_le_triple:
  "from_le [word_of_int v, word_of_int (v div 256), word_of_int (v div 65536)] = take_bit 24 v"
  using take_bit_le_bytes [of 3 v] by (simp only: to_le_3) simp

lemma and_high_byte: "(x :: int) AND 0xFF00 = push_bit 8 (take_bit 8 (drop_bit 8 x))"
proof -
  have "x AND push_bit 8 (mask 8) = push_bit 8 (take_bit 8 (drop_bit 8 x))"
    by (rule bit_eqI) (auto simp: bit_simps)
  then show ?thesis by (simp add: mask_eq_exp_minus_1)
qed

lemma or_plus: "0 \<le> b \<Longrightarrow> b < 2 ^ n \<Longrightarrow> push_bit n a OR b = a * 2 ^ n + (b :: int)"
proof -
  assume "0 \<le> b" "b < 2 ^ n"
  then have b: "take_bit n b = b" by (simp add: take_bit_int_eq_self)
  have "push_bit n a AND take_bit n b = 0"
    by (rule bit_eqI) (auto simp: bit_simps)
  then have "push_bit n a + take_bit n b = push_bit n a OR take_bit n b"
    by (rule disjunctive_add_eq_or)
  with b show ?thesis by (simp add: push_bit_eq_mult)
qed

lemma bit_from_le: "bit (from_le bs) k \<longleftrightarrow> k div 8 < length bs \<and> bit (bs ! (k div 8)) (k mod 8)"
proof (induction bs arbitrary: k)
  case (Cons b bs)
  have e: "from_le (b # bs) = push_bit 8 (from_le bs) OR uint b"
    using or_plus [of "uint b" 8 "from_le bs"] uint_lt2p [of b] by (simp add: mult.commute)
  show ?case
  proof (cases "k < 8")
    case True
    then show ?thesis unfolding e by (simp add: bit_simps)
  next
    case False
    then obtain j where j: "k = j + 8" by (metis add.commute le_Suc_ex not_less)
    have "k div 8 = Suc (j div 8)" "k mod 8 = j mod 8" by (simp_all add: j)
    moreover have "\<not> bit (uint b) k"
      using False by (auto simp: bit_simps dest: bit_imp_le_length)
    ultimately show ?thesis
      unfolding e using Cons.IH [of j] by (simp add: bit_or_iff bit_push_bit_iff j)
  qed
qed simp

subsection \<open>Interfaces\<close>

text \<open>
  A wire format: every well-formed value decodes to itself.  A canonical format also
  accepts no second encoding of a value.
\<close>

locale codec =
  fixes enc :: "'a \<Rightarrow> 'b"
    and dec :: "'b \<Rightarrow> 'a option"
    and wf :: "'a \<Rightarrow> bool"
  assumes dec_enc: "wf x \<Longrightarrow> dec (enc x) = Some x"
begin

lemma enc_inj: "wf x \<Longrightarrow> wf y \<Longrightarrow> enc x = enc y \<Longrightarrow> x = y"
  using dec_enc by (metis option.inject)

lemma dec_total: "wf x \<Longrightarrow> dec (enc x) \<noteq> None"
  by (simp add: dec_enc)

lemma map_enc_inj:
  "list_all wf xs \<Longrightarrow> list_all wf ys \<Longrightarrow> map enc xs = map enc ys \<Longrightarrow> xs = ys"
proof (induction xs arbitrary: ys)
  case (Cons x xs)
  then obtain y ys' where "ys = y # ys'" by (cases ys) auto
  with Cons show ?case by (auto dest: enc_inj)
qed simp

end

locale canonical_codec = codec +
  assumes enc_dec: "dec b = Some x \<Longrightarrow> wf x \<and> enc x = b"
begin

lemma dec_iff: "dec b = Some x \<longleftrightarrow> wf x \<and> enc x = b"
  using dec_enc enc_dec by blast

lemma dec_inj: "dec b = Some x \<Longrightarrow> dec c = Some x \<Longrightarrow> b = c"
  using enc_dec by blast

end

text \<open>
  A deterministic state machine with an invariant, and one whose rank never falls.
\<close>

locale machine_inv =
  fixes step :: "'s \<Rightarrow> 'e \<Rightarrow> 's"
    and inv :: "'s \<Rightarrow> bool"
  assumes step_inv: "inv s \<Longrightarrow> inv (step s e)"
begin

lemma run_inv: "inv s \<Longrightarrow> inv (foldl step s es)"
  by (induction es arbitrary: s) (auto simp: step_inv)

end

locale machine_mono = machine_inv +
  fixes rank :: "'s \<Rightarrow> nat"
  assumes step_rank: "inv s \<Longrightarrow> rank s \<le> rank (step s e)"
begin

lemma run_rank: "inv s \<Longrightarrow> rank s \<le> rank (foldl step s es)"
proof (induction es arbitrary: s)
  case (Cons e es)
  from Cons.prems have "rank s \<le> rank (step s e)" by (rule step_rank)
  also have "\<dots> \<le> rank (foldl step (step s e) es)"
    using Cons step_inv by blast
  finally show ?case by simp
qed simp

lemma run_rank_prefix:
  assumes "inv s"
  shows "rank (foldl step s es) \<le> rank (foldl step s (es @ fs))"
  using run_rank [OF run_inv [OF assms]] by simp

end

text \<open>A transition relation with an invariant, and a relation every run is contained in.\<close>

locale transition_inv =
  fixes trans :: "'s \<Rightarrow> 's \<Rightarrow> bool"
    and inv :: "'s \<Rightarrow> bool"
  assumes trans_inv: "trans s t \<Longrightarrow> inv s \<Longrightarrow> inv t"
begin

lemma runs_inv: "trans\<^sup>*\<^sup>* s t \<Longrightarrow> inv s \<Longrightarrow> inv t"
  by (induction rule: rtranclp_induct) (auto intro: trans_inv)

end

locale transition_follows = transition_inv +
  fixes follows :: "'s \<Rightarrow> 's \<Rightarrow> bool"
  assumes follows_refl: "follows s s"
    and follows_trans: "follows s t \<Longrightarrow> follows t u \<Longrightarrow> follows s u"
    and trans_follows: "trans s t \<Longrightarrow> inv s \<Longrightarrow> follows s t"
begin

lemma runs_follow: "trans\<^sup>*\<^sup>* s t \<Longrightarrow> inv s \<Longrightarrow> follows s t"
proof (induction rule: rtranclp_induct)
  case (step t u)
  have "follows t u" by (rule trans_follows [OF step(2) runs_inv [OF step(1) step(4)]])
  with step.IH [OF step.prems] show ?case by (rule follows_trans)
qed (rule follows_refl)

end

end
