(* ===== verification/Charmap.thy ===== *)
theory Charmap
  imports Prelude
begin

section \<open>The Gen-3 character map (\<open>bridge/frlgsim/charmap.py\<close>)\<close>

text \<open>
  Names inside the emulator's records use the game's own character map.  A Python
  \<^verbatim>\<open>str\<close> is the list of its code points.  \<open>charmap_dec\<close> lists the decode table in the
  order the module fills it; \<open>charmap_enc\<close> is its inverse, first byte first, as
  \<^verbatim>\<open>_ENC.setdefault\<close> builds it.
\<close>

type_synonym ustr = "nat list"

definition eos :: byte where
  "eos = 0xFF"

definition charmap_dec :: "(byte \<times> nat) list" where
  "charmap_dec =
     [(0x00, 32), (0xAD, 46), (0xAE, 45), (0xAF, 0xB7), (0xB0, 0x2026),
      (0xB7, 0xA5), (0xB9, 0xD7), (0xBA, 47), (0xB1, 0x201C), (0xB2, 0x201D),
      (0xB3, 0x2018), (0xB4, 0x2019), (0xB5, 0x2642), (0xB6, 0x2640), (0xB8, 44),
      (0xAB, 33), (0xAC, 63)]
     @ map (\<lambda>i. (word_of_nat (0xA1 + i), 48 + i)) [0..<10]
     @ concat (map (\<lambda>i. [(word_of_nat (0xBB + i), 65 + i), (word_of_nat (0xD5 + i), 97 + i)]) [0..<26])"

definition charmap_enc :: "(nat \<times> byte) list" where
  "charmap_enc = map (\<lambda>(b, c). (c, b)) charmap_dec"

definition glyph :: "byte \<Rightarrow> nat" where
  "glyph b = (case map_of charmap_dec b of Some c \<Rightarrow> c | None \<Rightarrow> 46)"

fun charmap_decode :: "bool \<Rightarrow> bytes \<Rightarrow> ustr" where
  "charmap_decode stop [] = []"
| "charmap_decode stop (x # xs) =
     (if x = eos then (if stop then [] else charmap_decode stop xs)
      else glyph x # charmap_decode stop xs)"

fun encode_chars :: "ustr \<Rightarrow> bytes" where
  "encode_chars [] = []"
| "encode_chars (ch # s) =
     (case map_of charmap_enc ch of
        Some b \<Rightarrow> b # encode_chars s
      | None \<Rightarrow> encode_chars s)"

definition charmap_encode :: "ustr \<Rightarrow> nat option \<Rightarrow> byte \<Rightarrow> bytes" where
  "charmap_encode s width pad =
     (case width of
        None \<Rightarrow> encode_chars s
      | Some w \<Rightarrow>
          let out = (if w \<noteq> 0 then take (w - 1) (encode_chars s) else encode_chars s) @ [eos]
          in take w (ljust w pad out))"

subsection \<open>Lemmas\<close>

definition encodable :: "nat \<Rightarrow> bool" where
  "encodable ch \<longleftrightarrow> map_of charmap_enc ch \<noteq> None"

lemma upt_10: "[0..<10] = [0, 1, 2, 3, 4, 5, 6, 7, 8, 9::nat]"
  by (simp add: upt_conv_Cons)

lemma upt_26: "[0..<26] = [0, 1, 2, 3, 4, 5, 6, 7, 8, 9, 10, 11, 12, 13, 14, 15, 16, 17, 18, 19,
    20, 21, 22, 23, 24, 25::nat]"
  by (simp add: upt_conv_Cons)

lemma distinct_charmap_dec: "distinct (map fst charmap_dec)"
  by (simp add: charmap_dec_def upt_10 upt_26)

lemma eos_notin_charmap_dec: "eos \<notin> fst ` set charmap_dec"
  by (simp add: charmap_dec_def upt_10 upt_26 eos_def)

lemma enc_glyph: "map_of charmap_enc ch = Some b \<Longrightarrow> glyph b = ch \<and> b \<noteq> eos"
proof -
  assume "map_of charmap_enc ch = Some b"
  then have "(b, ch) \<in> set charmap_dec"
    by (auto simp: charmap_enc_def dest!: map_of_SomeD)
  then have "map_of charmap_dec b = Some ch" "b \<in> fst ` set charmap_dec"
    using distinct_charmap_dec by (auto simp: image_iff intro: rev_bexI)
  then show ?thesis using eos_notin_charmap_dec by (force simp: glyph_def)
qed

lemma eos_notin_encode_chars: "eos \<notin> set (encode_chars s)"
  by (induction s) (auto split: option.splits dest: enc_glyph)

lemma decode_encode_chars: "charmap_decode stop (encode_chars s) = filter encodable s"
  by (induction s) (auto simp: encodable_def split: option.splits dest: enc_glyph)

lemma decode_stops:
  "eos \<notin> set xs \<Longrightarrow> charmap_decode True (xs @ eos # ys) = charmap_decode True xs"
  by (induction xs) auto

lemma decode_map_glyph: "eos \<notin> set xs \<Longrightarrow> charmap_decode stop xs = map glyph xs"
  by (induction xs) auto

lemma encode_chars_glyphs: "map glyph (encode_chars s) = filter encodable s"
  using decode_encode_chars decode_map_glyph eos_notin_encode_chars by metis

lemma length_charmap_encode [simp]: "length (charmap_encode s (Some w) pad) = w"
  by (auto simp: charmap_encode_def Let_def)

lemma charmap_encode_shape:
  assumes "0 < w"
  shows "\<exists>tl. charmap_encode s (Some w) pad = take (w - 1) (encode_chars s) @ eos # tl"
proof -
  let ?out = "take (w - 1) (encode_chars s) @ [eos]"
  have "length ?out \<le> w" using assms by auto
  then have "charmap_encode s (Some w) pad = ljust w pad ?out"
    using assms by (simp add: charmap_encode_def Let_def)
  also have "\<dots> = take (w - 1) (encode_chars s) @ eos # replicate (w - length ?out) pad"
    by (simp add: ljust_def)
  finally show ?thesis by blast
qed

lemma decode_charmap_encode:
  assumes "0 < w"
  shows "charmap_decode True (charmap_encode s (Some w) pad) = take (w - 1) (filter encodable s)"
proof -
  have n: "eos \<notin> set (take (w - 1) (encode_chars s))"
    using eos_notin_encode_chars by (meson in_set_takeD)
  obtain tl where "charmap_encode s (Some w) pad = take (w - 1) (encode_chars s) @ eos # tl"
    using charmap_encode_shape [OF assms] by blast
  then have "charmap_decode True (charmap_encode s (Some w) pad)
      = map glyph (take (w - 1) (encode_chars s))"
    using n by (simp add: decode_stops decode_map_glyph)
  then show ?thesis by (simp add: take_map [symmetric] encode_chars_glyphs)
qed

end
