(* ===== verification/Rfu.thy ===== *)
theory Rfu
  imports Prelude
begin

section \<open>The 14-byte RFU command slot (\<open>bridge/frlgsim/rfu.py\<close>)\<close>

text \<open>
  The seven 16-bit words a console sends per frame, their little-endian slot, the
  link-layer sub-frame headers of child (two bytes) and parent (three bytes), the rolling
  child tag, and the decoder of received slots.
\<close>

definition comm_slot_length :: nat where "comm_slot_length = 14"
definition rfu_send_block_init :: int where "rfu_send_block_init = 0x8800"
definition rfu_send_block :: int where "rfu_send_block = 0x8900"
definition rfu_send_held_keys :: int where "rfu_send_held_keys = 0xBE00"
definition rfu_ready_exit_standby :: int where "rfu_ready_exit_standby = 0x6600"
definition rfu_ready_close_link :: int where "rfu_ready_close_link = 0x5F00"
definition rfu_send_block_req :: int where "rfu_send_block_req = 0xA100"
definition owner_flag :: int where "owner_flag = 0x80"

lemmas rfu_ops = rfu_send_block_init_def rfu_send_block_def rfu_send_held_keys_def
  rfu_ready_exit_standby_def rfu_ready_close_link_def rfu_send_block_req_def owner_flag_def

definition lcom_null :: int where "lcom_null = 0"
definition lcom_ni_start :: int where "lcom_ni_start = 1"
definition lcom_ni :: int where "lcom_ni = 2"
definition lcom_ni_end :: int where "lcom_ni_end = 3"
definition lcom_uni :: int where "lcom_uni = 4"

lemmas lcoms = lcom_null_def lcom_ni_start_def lcom_ni_def lcom_ni_end_def lcom_uni_def

subsection \<open>Link-layer sub-frame headers\<close>

record llsf =
  ll_state :: int
  ll_ack :: int
  ll_n :: int
  ll_phase :: int
  ll_size :: int

record parent_llsf = llsf +
  ll_bm_slot :: int

definition uni_slot :: "bytes \<Rightarrow> py_error + bytes" where
  "uni_slot cmd =
     bindr (to_bytes_le 2 (push_bit 10 lcom_uni OR int (length cmd))) (\<lambda>h. Inr (h @ cmd))"

definition child_ni_llsf :: "int \<Rightarrow> int \<Rightarrow> int \<Rightarrow> int \<Rightarrow> int \<Rightarrow> bytes" where
  "child_ni_llsf state n phase ack sz =
     to_le 2 (push_bit 10 (state AND 0xF) OR push_bit 9 (ack AND 1) OR push_bit 7 (n AND 3)
              OR push_bit 5 (phase AND 3) OR (sz AND 0x1F))"

definition parse_llsf_child :: "bytes \<Rightarrow> llsf" where
  "parse_llsf_child slot =
     (let f = from_le (py_slice slot 0 2)
      in \<lparr>ll_state = drop_bit 10 f AND 0xF, ll_ack = drop_bit 9 f AND 1,
          ll_n = drop_bit 7 f AND 3, ll_phase = drop_bit 5 f AND 3, ll_size = f AND 0x1F\<rparr>)"

definition parent_ni_llsf :: "int \<Rightarrow> int \<Rightarrow> int \<Rightarrow> int \<Rightarrow> int \<Rightarrow> int \<Rightarrow> bytes" where
  "parent_ni_llsf state n phase ack sz bm_slot =
     to_le 3 (push_bit 14 (state AND 0xF) OR push_bit 18 (bm_slot AND 0xF) OR push_bit 13 (ack AND 1)
              OR push_bit 11 (n AND 3) OR push_bit 9 (phase AND 3) OR (sz AND 0x1FF))"

definition parse_llsf_parent :: "bytes \<Rightarrow> parent_llsf" where
  "parse_llsf_parent slot =
     (let f = from_le (py_slice slot 0 3)
      in \<lparr>ll_state = drop_bit 14 f AND 0xF, ll_ack = drop_bit 13 f AND 1,
          ll_n = drop_bit 11 f AND 3, ll_phase = drop_bit 9 f AND 3, ll_size = f AND 0x1FF,
          ll_bm_slot = drop_bit 18 f AND 0xF\<rparr>)"

subsection \<open>Command words and slots\<close>

definition words_to_slot :: "int list \<Rightarrow> bytes" where
  "words_to_slot words =
     (let w = words @ replicate (7 - length words) 0
      in concat (map (\<lambda>x. to_le 2 (x AND 0xFFFF)) (take 7 w)))"

definition idle_slot :: bytes where
  "idle_slot = replicate comm_slot_length 0"

definition rfu_serialize :: "int list \<Rightarrow> bytes" where
  "rfu_serialize words = words_to_slot words"

definition parent_uni_slot :: "bytes list \<Rightarrow> py_error + bytes" where
  "parent_uni_slot rows =
     (if list_ex (\<lambda>row. length row \<noteq> comm_slot_length) rows \<or> 5 < length rows then Inl ValueError
      else let payload = concat (rows @ replicate (5 - length rows) idle_slot)
           in Inr (parent_ni_llsf lcom_uni 0 0 0 (int (length payload)) 1 @ payload))"

definition parent_reflect_child :: "bytes \<Rightarrow> py_error + bytes" where
  "parent_reflect_child cmd =
     (if length cmd \<noteq> comm_slot_length then Inl ValueError
      else Inr (cmd[0 := cmd ! 0 AND 0x1F]))"

definition init_words :: "int \<Rightarrow> int \<Rightarrow> int list" where
  "init_words count owner =
     [rfu_send_block_init, count AND 0xFFFF, (owner OR owner_flag) AND 0xFFFF, 0, 0, 0, 0]"

definition send_block_words :: "int \<Rightarrow> bytes \<Rightarrow> int list" where
  "send_block_words index chunk =
     (let c = ljust 12 0 (take 12 chunk)
      in (rfu_send_block OR (index AND 0x1F))
         # map (\<lambda>i. from_le (py_slice c i (i + 2))) [0, 2, 4, 6, 8, 10])"

definition held_keys_words :: "int \<Rightarrow> int list" where
  "held_keys_words keycode = [rfu_send_held_keys, keycode AND 0xFFFF, 0, 0, 0, 0, 0]"

definition exit_standby_words :: "int \<Rightarrow> int list" where
  "exit_standby_words count = [rfu_ready_exit_standby, count AND 0xFFFF, 0, 0, 0, 0, 0]"

definition close_link_words :: "int \<Rightarrow> int list" where
  "close_link_words count = [rfu_ready_close_link, count AND 0xFFFF, 0, 0, 0, 0, 0]"

text \<open>\<^verbatim>\<open>SlotBuilder\<close>: its only field is the rolling tag.\<close>

record slot_builder =
  sb_tag :: int

definition slot_builder_init :: slot_builder where
  "slot_builder_init = \<lparr>sb_tag = 0\<rparr>"

definition slot_build :: "slot_builder \<Rightarrow> int list \<Rightarrow> py_error + (bytes \<times> slot_builder)" where
  "slot_build b words =
     bindr (py_index words 0) (\<lambda>w0.
       if w0 AND 0xFFFF = 0 then Inr (idle_slot, b)
       else let w = words[0 := (w0 OR push_bit 5 (sb_tag b)) AND 0xFFFF]
            in Inr (words_to_slot w, b\<lparr>sb_tag := (sb_tag b + 1) AND 7\<rparr>))"

subsection \<open>Decoding a received slot\<close>

definition hex_digit :: "int \<Rightarrow> char" where
  "hex_digit d = (if d < 10 then char_of (nat (48 + d)) else char_of (nat (87 + d)))"

definition hex4 :: "int \<Rightarrow> string" where
  "hex4 v = map (\<lambda>k. hex_digit (drop_bit k v AND 0xF)) [12, 8, 4, 0]"

definition rfucmd_names :: "(int \<times> string) list" where
  "rfucmd_names =
     [(0x0000, ''IDLE''), (0x2F00, ''SEND_PACKET''), (0x5F00, ''READY_CLOSE_LINK''),
      (0x6600, ''READY_EXIT_STANDBY''), (0x7700, ''SEND_PLAYER_IDS''),
      (0x7800, ''SEND_PLAYER_IDS_NEW''), (0x8800, ''SEND_BLOCK_INIT''), (0x8900, ''SEND_BLOCK''),
      (0xA100, ''SEND_BLOCK_REQ''), (0xBE00, ''SEND_HELD_KEYS''), (0xED00, ''DISCONNECT''),
      (0xEE00, ''DISCONNECT_PARENT'')]"

record parsed_slot =
  ps_word0 :: int
  ps_op :: int
  ps_name :: string
  ps_low :: int
  ps_count :: "int option"
  ps_owner_raw :: "int option"
  ps_peer :: "int option"
  ps_index :: "int option"
  ps_frag :: "bytes option"
  ps_reqtype :: "int option"
  ps_keycode :: "int option"

definition rec_of_word0 :: "int \<Rightarrow> parsed_slot" where
  "rec_of_word0 word0 =
     (let op = word0 AND 0xFF00
      in \<lparr>ps_word0 = word0, ps_op = op,
          ps_name = (case map_of rfucmd_names op of Some s \<Rightarrow> s | None \<Rightarrow> ''0x'' @ hex4 op),
          ps_low = word0 AND 0xFF, ps_count = None, ps_owner_raw = None, ps_peer = None,
          ps_index = None, ps_frag = None, ps_reqtype = None, ps_keycode = None\<rparr>)"

text \<open>The fields that depend on the opcode: the if-chain at the end of \<^verbatim>\<open>parse_slot\<close>.\<close>

definition slot_fields :: "bytes \<Rightarrow> parsed_slot \<Rightarrow> py_error + parsed_slot option" where
  "slot_fields slot r =
     (let op = ps_op r; word1 = from_le (py_slice slot 2 4)
      in if op = rfu_send_block_init then
           bindr (py_index slot 4) (\<lambda>o8.
             Inr (Some (r\<lparr>ps_count := Some word1, ps_owner_raw := Some (uint o8),
                          ps_peer := Some (uint o8 AND 0x7F)\<rparr>)))
         else if op = rfu_send_block then
           Inr (Some (r\<lparr>ps_index := Some (ps_word0 r AND 0x1F),
                        ps_frag := Some (ljust 12 0 (py_slice slot 2 14))\<rparr>))
         else if op = rfu_send_block_req then Inr (Some (r\<lparr>ps_reqtype := Some word1\<rparr>))
         else if op = rfu_send_held_keys then Inr (Some (r\<lparr>ps_keycode := Some word1\<rparr>))
         else if op = rfu_ready_exit_standby \<or> op = rfu_ready_close_link then
           Inr (Some (r\<lparr>ps_count := Some word1\<rparr>))
         else Inr (Some r))"

definition parse_slot :: "bytes \<Rightarrow> py_error + parsed_slot option" where
  "parse_slot slot =
     (if length slot < 2 then Inr None
      else if take comm_slot_length slot = replicate (min (length slot) comm_slot_length) 0
      then Inr None
      else slot_fields slot (rec_of_word0 (from_le (py_slice slot 0 2))))"

subsection \<open>Headers decode to the fields they were built from\<close>

lemma take_slice_prefix [simp]: "length xs = n \<Longrightarrow> py_slice (xs @ ys) 0 n = xs"
  by (simp add: py_slice_def)

lemma length_child_ni_llsf [simp]: "length (child_ni_llsf s n p a z) = 2"
  by (simp add: child_ni_llsf_def)

lemma length_parent_ni_llsf [simp]: "length (parent_ni_llsf s n p a z b) = 3"
  by (simp add: parent_ni_llsf_def)

lemma child_fields:
  fixes s a n p z :: int
  defines "f \<equiv> push_bit 10 (take_bit 4 s) OR push_bit 9 (take_bit 1 a) OR push_bit 7 (take_bit 2 n)
      OR push_bit 5 (take_bit 2 p) OR take_bit 5 z"
  shows "take_bit 4 (drop_bit 10 (take_bit 16 f)) = take_bit 4 s"
    and "take_bit 1 (drop_bit 9 (take_bit 16 f)) = take_bit 1 a"
    and "take_bit 2 (drop_bit 7 (take_bit 16 f)) = take_bit 2 n"
    and "take_bit 2 (drop_bit 5 (take_bit 16 f)) = take_bit 2 p"
    and "take_bit 5 (take_bit 16 f) = take_bit 5 z"
  unfolding f_def by (rule bit_eqI; auto simp: bit_expand)+

lemma parent_fields:
  fixes s b a n p z :: int
  defines "f \<equiv> push_bit 14 (take_bit 4 s) OR push_bit 18 (take_bit 4 b) OR push_bit 13 (take_bit 1 a)
      OR push_bit 11 (take_bit 2 n) OR push_bit 9 (take_bit 2 p) OR take_bit 9 z"
  shows "take_bit 4 (drop_bit 14 (take_bit 24 f)) = take_bit 4 s"
    and "take_bit 1 (drop_bit 13 (take_bit 24 f)) = take_bit 1 a"
    and "take_bit 2 (drop_bit 11 (take_bit 24 f)) = take_bit 2 n"
    and "take_bit 2 (drop_bit 9 (take_bit 24 f)) = take_bit 2 p"
    and "take_bit 9 (take_bit 24 f) = take_bit 9 z"
    and "take_bit 4 (drop_bit 18 (take_bit 24 f)) = take_bit 4 b"
    and "take_bit 7 (take_bit 24 f) = take_bit 7 z"
  unfolding f_def by (rule bit_eqI; auto simp: bit_expand)+

lemma parse_child_ni_llsf:
  "parse_llsf_child (child_ni_llsf s n p a z @ rest) =
     \<lparr>ll_state = s AND 0xF, ll_ack = a AND 1, ll_n = n AND 3, ll_phase = p AND 3,
      ll_size = z AND 0x1F\<rparr>"
  unfolding parse_llsf_child_def child_ni_llsf_def Let_def masks
    take_slice_prefix [OF length_to_le] le_bytes child_fields ..

lemma parse_parent_ni_llsf:
  "parse_llsf_parent (parent_ni_llsf s n p a z b @ rest) =
     \<lparr>ll_state = s AND 0xF, ll_ack = a AND 1, ll_n = n AND 3, ll_phase = p AND 3,
      ll_size = z AND 0x1FF, ll_bm_slot = b AND 0xF\<rparr>"
  unfolding parse_llsf_parent_def parent_ni_llsf_def Let_def masks
    take_slice_prefix [OF length_to_le] le_bytes parent_fields ..

lemma uni_slot_ok:
  assumes "length cmd = 14"
  shows "uni_slot cmd = Inr (to_le 2 0x100E @ cmd)"
  using assms by (simp add: uni_slot_def to_bytes_le_def lcoms)

subsection \<open>Command words\<close>

lemma words_to_slot_7:
  "words_to_slot [a, b, c, d, e, f, g] =
     to_le 2 (a AND 0xFFFF) @ to_le 2 (b AND 0xFFFF) @ to_le 2 (c AND 0xFFFF)
     @ to_le 2 (d AND 0xFFFF) @ to_le 2 (e AND 0xFFFF) @ to_le 2 (f AND 0xFFFF)
     @ to_le 2 (g AND 0xFFFF)"
  by (simp add: words_to_slot_def)

lemma length_words_to_slot [simp]: "length (words_to_slot ws) = 14"
proof -
  have "length (concat (map (\<lambda>x. to_le 2 (x AND 0xFFFF)) xs)) = 2 * length xs" for xs
    by (induction xs) auto
  then have "length (words_to_slot ws) = 2 * length (take 7 (ws @ replicate (7 - length ws) 0))"
    by (simp only: words_to_slot_def Let_def)
  then show ?thesis by simp
qed

lemma length_idle_slot [simp]: "length idle_slot = 14"
  by (simp add: idle_slot_def comm_slot_length_def)

lemma words_to_slot_word:
  assumes "length ws = 7" and "k < 7"
  shows "from_le (py_slice (words_to_slot ws) (2 * k) (2 * k + 2)) = take_bit 16 (ws ! k)"
proof -
  obtain a b c d e f g where ws: "ws = [a, b, c, d, e, f, g]"
    using assms(1) by (auto simp: eval_nat_numeral length_Suc_conv)
  have "k \<in> {0, 1, 2, 3, 4, 5, 6}" using assms(2) by auto
  then show ?thesis
    by (auto simp: ws words_to_slot_7 masks to_le_2 py_slice_def take_bit_le_bytes from_le_pair
        simp del: from_le.simps)
qed

lemma slot_word0: "length ws = 7 \<Longrightarrow>
    from_le (py_slice (words_to_slot ws) 0 2) = take_bit 16 (ws ! 0)"
  and slot_word1: "length ws = 7 \<Longrightarrow>
    from_le (py_slice (words_to_slot ws) 2 4) = take_bit 16 (ws ! 1)"
  using words_to_slot_word [of ws 0] words_to_slot_word [of ws 1]
  by (simp_all add: eval_nat_numeral)

lemma tag_transparent:
  fixes w t :: int
  assumes "0 \<le> t" "t < 8"
  shows "take_bit 16 ((w OR push_bit 5 t) AND 0xFFFF) AND 0xFF00 = w AND 0xFF00"
    and "take_bit 16 ((w OR push_bit 5 t) AND 0xFFFF) AND 0x1F = w AND 0x1F"
proof -
  have t: "t = take_bit 3 t" using assms by (simp add: take_bit_int_eq_self)
  have "drop_bit 8 (push_bit 5 (take_bit 3 t)) = 0"
    by (rule bit_eqI) (auto simp: bit_simps)
  then show "take_bit 16 ((w OR push_bit 5 t) AND 0xFFFF) AND 0xFF00 = w AND 0xFF00"
    unfolding and_high_byte masks
    by (subst t) (rule bit_eqI, auto simp: bit_simps bit_eq_iff)
  show "take_bit 16 ((w OR push_bit 5 t) AND 0xFFFF) AND 0x1F = w AND 0x1F"
    unfolding masks by (rule bit_eqI) (auto simp: bit_simps)
qed

lemma nonzero_slot:
  assumes "length slot = 14" and "from_le (py_slice slot 0 2) \<noteq> 0"
  shows "take comm_slot_length slot \<noteq> replicate (min (length slot) comm_slot_length) 0"
proof
  assume "take comm_slot_length slot = replicate (min (length slot) comm_slot_length) 0"
  then have "slot = replicate 14 0" using assms(1) by (simp add: comm_slot_length_def)
  then have "py_slice slot 0 2 = replicate 2 0" by (simp add: py_slice_def)
  then show False using assms(2) by (metis from_le_zeros)
qed

lemma idle_parses_to_none: "parse_slot idle_slot = Inr None"
  by (simp add: parse_slot_def idle_slot_def comm_slot_length_def)

lemma rec_of_word0_fields [simp]:
  "ps_op (rec_of_word0 w) = w AND 0xFF00" "ps_word0 (rec_of_word0 w) = w"
  "ps_low (rec_of_word0 w) = w AND 0xFF"
  by (simp_all add: rec_of_word0_def Let_def)

definition tagged :: "int \<Rightarrow> int list \<Rightarrow> bytes" where
  "tagged t ws = words_to_slot (ws[0 := (ws ! 0 OR push_bit 5 t) AND 0xFFFF])"

definition slot_rec :: "int \<Rightarrow> int \<Rightarrow> parsed_slot" where
  "slot_rec t w0 = rec_of_word0 (take_bit 16 ((w0 OR push_bit 5 t) AND 0xFFFF))"

lemma slot_build_tagged:
  assumes "length ws = 7" and "ws ! 0 AND 0xFFFF \<noteq> 0"
  shows "slot_build b ws = Inr (tagged (sb_tag b) ws, b\<lparr>sb_tag := (sb_tag b + 1) AND 7\<rparr>)"
  using assms by (simp add: slot_build_def tagged_def Let_def)

lemma slot_build_idle:
  assumes "ws \<noteq> []" and "ws ! 0 AND 0xFFFF = 0"
  shows "slot_build b ws = Inr (idle_slot, b)"
  using assms by (simp add: slot_build_def)

lemma op_nonzero: "w AND 0xFF00 \<noteq> 0 \<Longrightarrow> w AND 0xFFFF \<noteq> (0 :: int)"
proof
  assume "w AND 0xFF00 \<noteq> 0" "w AND 0xFFFF = 0"
  moreover have "w AND 0xFF00 = (w AND 0xFFFF) AND 0xFF00" by (simp add: and.assoc)
  ultimately show False by simp
qed

lemma tagged_word0:
  "length ws = 7 \<Longrightarrow> from_le (py_slice (tagged t ws) 0 2) = ps_word0 (slot_rec t (ws ! 0))"
  by (simp add: tagged_def slot_rec_def slot_word0)

lemma tagged_word1: "length ws = 7 \<Longrightarrow> from_le (py_slice (tagged t ws) 2 4) = take_bit 16 (ws ! 1)"
  by (simp add: tagged_def slot_word1)

lemma length_tagged [simp]: "length (tagged t ws) = 14"
  by (simp add: tagged_def)

lemma tagged_op: "0 \<le> t \<Longrightarrow> t < 8 \<Longrightarrow> ps_op (slot_rec t w0) = w0 AND 0xFF00"
  and tagged_index: "0 \<le> t \<Longrightarrow> t < 8 \<Longrightarrow> ps_word0 (slot_rec t w0) AND 0x1F = w0 AND 0x1F"
  using tag_transparent [of t w0] by (simp_all add: slot_rec_def)

lemma slot_rec_unfold: "rec_of_word0 (ps_word0 (slot_rec t w0)) = slot_rec t w0"
  by (simp add: slot_rec_def)

lemma parse_tagged:
  assumes t: "0 \<le> t" "t < 8" and len: "length ws = 7" and nz: "ws ! 0 AND 0xFF00 \<noteq> 0"
  shows "parse_slot (tagged t ws) = slot_fields (tagged t ws) (slot_rec t (ws ! 0))"
proof -
  have "ps_word0 (slot_rec t (ws ! 0)) \<noteq> 0"
  proof
    assume "ps_word0 (slot_rec t (ws ! 0)) = 0"
    then have "ps_op (slot_rec t (ws ! 0)) = 0" by (simp add: slot_rec_def)
    with tagged_op [OF t] nz show False by simp
  qed
  then have "take comm_slot_length (tagged t ws)
      \<noteq> replicate (min (length (tagged t ws)) comm_slot_length) 0"
    by (intro nonzero_slot) (simp_all add: tagged_word0 [OF len])
  then show ?thesis
    unfolding parse_slot_def
    by (simp add: tagged_word0 [OF len] slot_rec_unfold)
qed

lemma low5_op: "(c :: int) AND 0xFF00 = c \<Longrightarrow> (c OR (i AND 0x1F)) AND 0xFF00 = c"
  and low5_index: "c AND 0x1F = 0 \<Longrightarrow> (c OR (i AND 0x1F)) AND 0x1F = i AND 0x1F"
proof -
  have "(i AND 0x1F) AND 0xFF00 = 0"
    unfolding and_high_byte masks by (rule bit_eqI) (auto simp: bit_simps)
  then show "c AND 0xFF00 = c \<Longrightarrow> (c OR (i AND 0x1F)) AND 0xFF00 = c"
    by (simp add: bit.conj_disj_distrib2)
  show "c AND 0x1F = 0 \<Longrightarrow> (c OR (i AND 0x1F)) AND 0x1F = i AND 0x1F"
    by (simp add: bit.conj_disj_distrib2 and.assoc)
qed

lemma pair_word: "to_le 2 (from_le [a, b]) = [a, b]" and pair_word_16: "from_le [a, b] AND 0xFFFF = from_le [a, b]"
proof -
  show "to_le 2 (from_le [a, b]) = [a, b]"
    using to_le_from_le [of "[a, b]"] by (simp add: eval_nat_numeral del: to_le.simps from_le.simps)
  have "take_bit 16 (from_le [a, b]) = from_le [a, b]"
    using from_le_less [of "[a, b]"] by (simp add: take_bit_int_eq_self del: from_le.simps)
  then show "from_le [a, b] AND 0xFFFF = from_le [a, b]" by (simp add: masks del: from_le.simps)
qed

lemma list12: "length (c :: 'a list) = 12 \<Longrightarrow>
   \<exists>a0 a1 a2 a3 a4 a5 a6 a7 a8 a9 a10 a11. c = [a0, a1, a2, a3, a4, a5, a6, a7, a8, a9, a10, a11]"
  by (simp add: eval_nat_numeral length_Suc_conv) blast

lemma tagged_frag:
  assumes "length c = 12"
  shows "py_slice (tagged t (w0 # map (\<lambda>i. from_le (py_slice c i (i + 2))) [0, 2, 4, 6, 8, 10])) 2 14 = c"
proof -
  obtain a0 a1 a2 a3 a4 a5 a6 a7 a8 a9 a10 a11
    where c: "c = [a0, a1, a2, a3, a4, a5, a6, a7, a8, a9, a10, a11]"
    using list12 [OF assms] by blast
  show ?thesis
    unfolding c tagged_def
    by (simp add: words_to_slot_7 py_slice_def pair_word pair_word_16 del: from_le.simps to_le.simps)
qed

lemma send_block_words_7: "length (send_block_words i chunk) = 7"
  by (simp add: send_block_words_def Let_def)

lemma send_block_words_op: "send_block_words i chunk ! 0 AND 0xFF00 = rfu_send_block"
  unfolding send_block_words_def Let_def nth_Cons_0 by (rule low5_op) (simp add: rfu_ops)

lemma parse_send_block:
  assumes "0 \<le> t" and "t < 8"
  shows "\<exists>r. parse_slot (tagged t (send_block_words i chunk)) = Inr (Some r) \<and> ps_op r = rfu_send_block
      \<and> ps_index r = Some (i mod 32) \<and> ps_frag r = Some (ljust 12 0 (take 12 chunk))"
proof -
  let ?c = "ljust 12 0 (take 12 chunk)"
  let ?ws = "send_block_words i chunk"
  have ws: "?ws = (rfu_send_block OR (i AND 0x1F))
      # map (\<lambda>i. from_le (py_slice ?c i (i + 2))) [0, 2, 4, 6, 8, 10]"
    by (simp add: send_block_words_def Let_def)
  have ix: "?ws ! 0 AND 0x1F = i AND 0x1F"
    unfolding ws by (simp only: nth_Cons_0) (rule low5_index, simp add: rfu_ops)
  have nz: "?ws ! 0 AND 0xFF00 \<noteq> 0" by (simp add: send_block_words_op) (simp add: rfu_ops)
  have frag: "py_slice (tagged t ?ws) 2 14 = ?c"
    unfolding ws by (rule tagged_frag) simp
  have "ps_word0 (slot_rec t (?ws ! 0)) AND 0x1F = i AND 0x1F"
    using tagged_index [OF assms] ix by simp
  then show ?thesis
    using parse_tagged [OF assms send_block_words_7 nz] send_block_words_op [of i chunk] frag
    by (simp add: slot_fields_def Let_def masks take_bit_eq_mod tagged_op [OF assms] rfu_ops)
qed

lemma slot_build_send_block:
  "slot_build b (send_block_words i chunk) = Inr (tagged (sb_tag b) (send_block_words i chunk),
     b\<lparr>sb_tag := (sb_tag b + 1) AND 7\<rparr>)"
  by (rule slot_build_tagged [OF send_block_words_7 op_nonzero])
     (simp add: send_block_words_op, simp add: rfu_ops)

lemma parse_init_slot:
  assumes "0 \<le> t" and "t < 8"
  shows "\<exists>r. parse_slot (tagged t (init_words c w)) = Inr (Some r)
            \<and> ps_op r = rfu_send_block_init \<and> ps_count r = Some (c mod 65536)
            \<and> ps_owner_raw r = Some ((w OR 0x80) mod 256) \<and> ps_peer r = Some (w mod 128)"
proof -
  have op: "init_words c w ! 0 AND 0xFF00 = rfu_send_block_init"
    and len: "length (init_words c w) = 7" and w1: "init_words c w ! 1 = c AND 0xFFFF"
    by (simp_all add: init_words_def rfu_ops)
  have nz: "rfu_send_block_init \<noteq> 0" by (simp add: rfu_ops)
  have sf: "from_le (py_slice (tagged t (init_words c w)) 2 4) = c mod 65536"
    using tagged_word1 [OF len] w1 by (simp add: masks) (simp add: take_bit_eq_mod)
  have b4: "tagged t (init_words c w) ! 4 = word_of_int ((w OR 0x80) AND 0xFFFF)"
    by (simp add: tagged_def init_words_def words_to_slot_7 to_le_2 and.assoc owner_flag_def)
  then have "uint (tagged t (init_words c w) ! 4) = (w OR 0x80) mod 256"
    by (simp only: masks uint_word_of_int_eq) (simp add: take_bit_eq_mod mod_mod_cancel)
  moreover have "take_bit 7 (take_bit 8 (take_bit 16 (w OR push_bit 7 1))) = take_bit 7 w"
    by (rule bit_eqI) (auto simp: bit_simps)
  then have "uint (tagged t (init_words c w) ! 4) AND 0x7F = w mod 128"
    using b4 by (simp only: masks uint_word_of_int_eq) (simp add: take_bit_eq_mod)
  ultimately show ?thesis
    using parse_tagged [OF assms len] by (simp add: op nz slot_fields_def tagged_op [OF assms] sf Let_def)
qed

lemma slot_build_init:
  "slot_build b (init_words c w) = Inr (tagged (sb_tag b) (init_words c w),
     b\<lparr>sb_tag := (sb_tag b + 1) AND 7\<rparr>)"
  by (rule slot_build_tagged) (simp_all add: init_words_def rfu_ops)

subsection \<open>Properties\<close>

text \<open>
  a SEND_BLOCK fragment built by the rolling-tag builder decodes on the other side to
  the same fragment index (modulo the five index bits) and the same twelve payload bytes,
  whatever the tag is, and the tag advances by one modulo eight.
\<close>

theorem send_block_slot_roundtrip:
  assumes "0 \<le> sb_tag b" and "sb_tag b < 8"
  shows "\<exists>slot r. slot_build b (send_block_words i chunk)
                    = Inr (slot, b\<lparr>sb_tag := (sb_tag b + 1) mod 8\<rparr>)
      \<and> length slot = 14 \<and> parse_slot slot = Inr (Some r) \<and> ps_op r = rfu_send_block
      \<and> ps_index r = Some (i mod 32) \<and> ps_frag r = Some (ljust 12 0 (take 12 chunk))"
  using parse_send_block [OF assms] by (simp add: slot_build_send_block masks take_bit_eq_mod)

theorem send_block_slot_roundtrip_witness:
  "\<exists>slot r. slot_build \<lparr>sb_tag = 5\<rparr> (send_block_words 3 [1, 2, 3]) = Inr (slot, \<lparr>sb_tag = 6\<rparr>)
      \<and> length slot = 14 \<and> parse_slot slot = Inr (Some r) \<and> ps_op r = rfu_send_block
      \<and> ps_index r = Some 3 \<and> ps_frag r = Some [1, 2, 3, 0, 0, 0, 0, 0, 0, 0, 0, 0]"
  using send_block_slot_roundtrip [of "\<lparr>sb_tag = 5\<rparr>" 3 "[1, 2, 3]"]
  by (simp add: ljust_def eval_nat_numeral)

lemma parse_control_slots:
  assumes "0 \<le> t" and "t < 8"
  shows "(\<exists>r. parse_slot (tagged t (exit_standby_words c)) = Inr (Some r)
            \<and> ps_op r = rfu_ready_exit_standby \<and> ps_count r = Some (c mod 65536))
    \<and> (\<exists>r. parse_slot (tagged t (close_link_words c)) = Inr (Some r)
            \<and> ps_op r = rfu_ready_close_link \<and> ps_count r = Some (c mod 65536))
    \<and> (\<exists>r. parse_slot (tagged t (held_keys_words c)) = Inr (Some r)
            \<and> ps_op r = rfu_send_held_keys \<and> ps_keycode r = Some (c mod 65536))"
proof -
  have op: "exit_standby_words c ! 0 AND 0xFF00 = rfu_ready_exit_standby"
      "close_link_words c ! 0 AND 0xFF00 = rfu_ready_close_link"
      "held_keys_words c ! 0 AND 0xFF00 = rfu_send_held_keys"
    and len: "length (exit_standby_words c) = 7" "length (close_link_words c) = 7"
      "length (held_keys_words c) = 7"
    and w1: "exit_standby_words c ! 1 = c AND 0xFFFF" "close_link_words c ! 1 = c AND 0xFFFF"
      "held_keys_words c ! 1 = c AND 0xFFFF"
    by (simp_all add: exit_standby_words_def close_link_words_def held_keys_words_def rfu_ops)
  have sf: "from_le (py_slice (tagged t ws) 2 4) = c mod 65536"
    if "length ws = 7" "ws ! 1 = c AND 0xFFFF" for ws
    using tagged_word1 [OF that(1)] that(2) by (simp add: masks) (simp add: take_bit_eq_mod)
  have nz: "rfu_ready_exit_standby \<noteq> 0" "rfu_ready_close_link \<noteq> 0" "rfu_send_held_keys \<noteq> 0"
    by (simp_all add: rfu_ops)
  note parse = parse_tagged [OF assms len(1)] parse_tagged [OF assms len(2)]
    parse_tagged [OF assms len(3)]
  note sfs = sf [OF len(1) w1(1)] sf [OF len(2) w1(2)] sf [OF len(3) w1(3)]
  have "\<exists>r. parse_slot (tagged t (exit_standby_words c)) = Inr (Some r)
            \<and> ps_op r = rfu_ready_exit_standby \<and> ps_count r = Some (c mod 65536)"
    using parse(1) by (simp add: op nz slot_fields_def tagged_op [OF assms] sfs Let_def) (simp add: rfu_ops)
  moreover have "\<exists>r. parse_slot (tagged t (close_link_words c)) = Inr (Some r)
            \<and> ps_op r = rfu_ready_close_link \<and> ps_count r = Some (c mod 65536)"
    using parse(2) by (simp add: op nz slot_fields_def tagged_op [OF assms] sfs Let_def) (simp add: rfu_ops)
  moreover have "\<exists>r. parse_slot (tagged t (held_keys_words c)) = Inr (Some r)
            \<and> ps_op r = rfu_send_held_keys \<and> ps_keycode r = Some (c mod 65536)"
    using parse(3) by (simp add: op nz slot_fields_def tagged_op [OF assms] sfs Let_def) (simp add: rfu_ops)
  ultimately show ?thesis by blast
qed

text \<open>
  the control commands survive the slot encoding: the count of a standby or close-link
  round, the count and the owner of a block announcement, and the key code of a held-keys
  slot are read back modulo their field width, under any rolling tag.
\<close>

theorem control_slot_roundtrip:
  assumes "0 \<le> t" and "t < 8"
  shows "(\<exists>r. parse_slot (tagged t (exit_standby_words c)) = Inr (Some r)
            \<and> ps_op r = rfu_ready_exit_standby \<and> ps_count r = Some (c mod 65536))
    \<and> (\<exists>r. parse_slot (tagged t (close_link_words c)) = Inr (Some r)
            \<and> ps_op r = rfu_ready_close_link \<and> ps_count r = Some (c mod 65536))
    \<and> (\<exists>r. parse_slot (tagged t (held_keys_words c)) = Inr (Some r)
            \<and> ps_op r = rfu_send_held_keys \<and> ps_keycode r = Some (c mod 65536))
    \<and> (\<exists>r. parse_slot (tagged t (init_words c w)) = Inr (Some r)
            \<and> ps_op r = rfu_send_block_init \<and> ps_count r = Some (c mod 65536)
            \<and> ps_peer r = Some (w mod 128))"
  using parse_control_slots [OF assms, of c] parse_init_slot [OF assms, of c w] by blast

theorem control_slot_roundtrip_witness:
  "\<exists>r. parse_slot (tagged 7 (init_words 17 1)) = Inr (Some r)
            \<and> ps_op r = rfu_send_block_init \<and> ps_count r = Some 17 \<and> ps_peer r = Some 1"
  using control_slot_roundtrip [of 7 17 1] by simp

text \<open>The slots of a sequence of commands, one builder call each.\<close>

fun slot_builds :: "slot_builder \<Rightarrow> int list list \<Rightarrow> py_error + (bytes list \<times> slot_builder)" where
  "slot_builds b [] = Inr ([], b)"
| "slot_builds b (ws # wss) =
     bindr (slot_build b ws) (\<lambda>(s, b'). bindr (slot_builds b' wss) (\<lambda>(ss, b''). Inr (s # ss, b'')))"

text \<open>
  over any sequence of commands the rolling tag ends at the number of non-idle commands
  modulo eight (idle commands do not advance it), and every slot produced is 14 bytes long.
\<close>

theorem rolling_tag_counts_commands:
  assumes "slot_builds b wss = Inr (slots, b')" and "0 \<le> sb_tag b" and "sb_tag b < 8"
  shows "sb_tag b' = (sb_tag b + int (length (filter (\<lambda>ws. ws ! 0 AND 0xFFFF \<noteq> 0) wss))) mod 8
    \<and> list_all (\<lambda>s. length s = 14) slots \<and> length slots = length wss"
  using assms
proof (induction wss arbitrary: b slots)
  case (Cons ws wss)
  from Cons.prems(1) obtain s b1 ss where
    s: "slot_build b ws = Inr (s, b1)" and ss: "slot_builds b1 wss = Inr (ss, b')" "slots = s # ss"
    by auto
  have ne: "ws \<noteq> []" using s by (auto simp: slot_build_def)
  have b1: "sb_tag b1 = (sb_tag b + (if ws ! 0 AND 0xFFFF \<noteq> 0 then 1 else 0)) mod 8 \<and> length s = 14"
    using s ne Cons.prems by (auto simp: slot_build_def masks take_bit_eq_mod split: if_splits)
  then have "0 \<le> sb_tag b1" "sb_tag b1 < 8" by auto
  from Cons.IH [OF ss(1) this] b1 ss(2) show ?case
    by (auto simp: mod_simps algebra_simps)
qed simp

theorem rolling_tag_counts_commands_witness:
  "sb_tag (snd (projr (slot_builds slot_builder_init [held_keys_words 0, [0], held_keys_words 1]))) = 2"
proof -
  obtain slots b' where r: "slot_builds slot_builder_init
      [held_keys_words 0, [0], held_keys_words 1] = Inr (slots, b')"
    by (simp add: slot_build_def held_keys_words_def rfu_ops slot_builder_init_def)
  have "sb_tag b' = 2"
    using rolling_tag_counts_commands [OF r]
    by (simp add: slot_builder_init_def held_keys_words_def rfu_ops)
  then show ?thesis by (simp only: r sum.sel snd_conv)
qed

end
