(* ===== verification/Gbaframe.thy ===== *)
theory Gbaframe
  imports Rfu
begin

section \<open>The emulator frame (\<open>bridge/frlgsim/gbaframe.py\<close>)\<close>

text \<open>
  A frame is \<open>57 <type> <len:u16 LE> <body>\<close>.  The builders of both seats, and the two
  parsers: \<open>parse_in\<close> for the host's frames and \<open>parse_out\<close> for our own.  The record
  a Python parser returns as a dictionary is a datatype with one constructor per frame type.
\<close>

definition gba_marker :: byte where "gba_marker = 0x57"
definition type_t :: byte where "type_t = 0x54"
definition type_k :: byte where "type_k = 0x4B"
definition type_c :: byte where "type_c = 0x43"
definition type_a :: byte where "type_a = 0x41"
definition type_g :: byte where "type_g = 0x47"

lemmas gba_types = gba_marker_def type_t_def type_k_def type_c_def type_a_def type_g_def

definition build_gba_frame :: "byte \<Rightarrow> bytes \<Rightarrow> py_error + bytes" where
  "build_gba_frame ftype data =
     bindr (to_bytes_le 2 (int (length data))) (\<lambda>ln. Inr ([gba_marker, ftype] @ ln @ data))"

definition build_connect :: "bytes \<Rightarrow> py_error + bytes" where
  "build_connect connect_id = build_gba_frame type_c connect_id"

definition build_accept :: "bytes \<Rightarrow> bytes \<Rightarrow> py_error + bytes" where
  "build_accept host_session_id connect_id =
     (if length host_session_id \<noteq> 2 \<or> length connect_id \<noteq> 2 then Inl ValueError
      else build_gba_frame type_a (host_session_id @ connect_id @ [0, 0]))"

definition build_group_state :: "int \<Rightarrow> py_error + bytes" where
  "build_group_state state = build_gba_frame type_g (to_le 4 (state AND 0xFFFFFFFF))"

definition roundup4 :: "nat \<Rightarrow> nat" where
  "roundup4 n = nat ((int n + 3) AND (NOT 3))"

definition pad4 :: "bytes \<Rightarrow> bytes" where
  "pad4 slot = slot @ replicate (roundup4 (length slot) - length slot) 0"

definition wrap_t :: "bytes \<Rightarrow> int \<Rightarrow> py_error + bytes" where
  "wrap_t slot ts =
     (let body = to_le 4 (ts AND 0xFFFFFFFF) @ [0, word_of_int (int (length slot) AND 0xFF), 0, 0]
                 @ pad4 slot
      in bindr (to_bytes_le 2 (int (length body))) (\<lambda>ln. Inr ([gba_marker, type_t] @ ln @ body)))"

definition wrap_parent_t :: "bytes option \<Rightarrow> int \<Rightarrow> py_error + bytes" where
  "wrap_parent_t slot ts =
     (let body = (case slot of
          None \<Rightarrow> to_le 4 (ts AND 0xFFFFFFFF) @ [1, 0, 0, 0]
        | Some s \<Rightarrow> to_le 4 (ts AND 0xFFFFFFFF)
                    @ [word_of_int (int (length s) AND 0xFF), 0, 0, 0] @ pad4 s)
      in bindr (to_bytes_le 2 (int (length body))) (\<lambda>ln. Inr ([gba_marker, type_t] @ ln @ body)))"

definition build_k :: "int \<Rightarrow> int \<Rightarrow> int \<Rightarrow> bytes" where
  "build_k k_seq mid acked_ts =
     (let body = to_le 4 (k_seq AND 0xFFFFFFFF) @ to_le 4 (mid AND 0xFFFFFFFF)
                 @ to_le 4 (acked_ts AND 0xFFFFFFFF)
      in [gba_marker, type_k] @ to_le 2 (int (length body)) @ body)"

subsection \<open>Parsing the host's frames\<close>

record ni_rec =
  ni_state :: int
  ni_ack :: int
  ni_n :: int
  ni_phase :: int
  ni_size :: int
  ni_payload :: bytes

record t_frame =
  tf_ts :: "int option"
  tf_slot_len :: int
  tf_llsf_state :: "int option"
  tf_slots :: "(nat \<times> bytes) list"
  tf_payload :: bytes
  tf_ni :: "ni_rec option"

datatype in_frame =
    FrameT t_frame
  | FrameA (fa_session: bytes) (fa_connect: bytes)
  | FrameC bytes
  | FrameK int "int option"
  | FrameOther byte

text \<open>The 14-byte rows of a UNI payload, numbered from zero: a trailing partial row is dropped.\<close>

fun uni_rows :: "nat \<Rightarrow> bytes \<Rightarrow> (nat \<times> bytes) list" where
  "uni_rows k p = (if length p < 14 then [] else (k, take 14 p) # uni_rows (Suc k) (drop 14 p))"

declare uni_rows.simps [simp del]

definition parse_t_body :: "bytes \<Rightarrow> t_frame" where
  "parse_t_body body =
     (if length body < 5 then
        \<lparr>tf_ts = None, tf_slot_len = 0, tf_llsf_state = None, tf_slots = [], tf_payload = [],
         tf_ni = None\<rparr>
      else
        let ts = from_le (py_slice body 0 4); slot_len = uint (body ! 4);
            r = \<lparr>tf_ts = Some ts, tf_slot_len = slot_len, tf_llsf_state = None, tf_slots = [],
                 tf_payload = [], tf_ni = None\<rparr>
        in if slot_len \<le> 1 then r
           else
             let slot = py_slice body 8 (8 + nat slot_len);
                 llsf = from_le (py_slice slot 0 3);
                 st = drop_bit 14 llsf AND 0xF; payload = drop 3 slot;
                 r2 = r\<lparr>tf_llsf_state := Some st, tf_payload := payload\<rparr>
             in if st = 4 then r2\<lparr>tf_slots := uni_rows 0 payload\<rparr>
                else r2\<lparr>tf_ni := Some \<lparr>ni_state = st, ni_ack = drop_bit 13 llsf AND 1,
                        ni_n = drop_bit 11 llsf AND 3, ni_phase = drop_bit 9 llsf AND 3,
                        ni_size = llsf AND 0x7F, ni_payload = payload\<rparr>\<rparr>)"

definition parse_in :: "bytes \<Rightarrow> in_frame option" where
  "parse_in payload =
     (if length payload < 4 \<or> payload ! 0 \<noteq> gba_marker then None
      else
        let typ = payload ! 1; ln = nat (from_le (py_slice payload 2 4));
            body = py_slice payload 4 (4 + ln)
        in Some (if typ = type_t then FrameT (parse_t_body body)
                 else if typ = type_a then FrameA (py_slice body 0 2) (py_slice body 2 4)
                 else if typ = type_c then FrameC (py_slice body 0 2)
                 else if typ = type_k then
                   FrameK (from_le (py_slice body 0 4))
                     (if 12 \<le> length body then Some (from_le (py_slice body 8 12)) else None)
                 else FrameOther typ))"

record out_frame =
  of_ts :: int
  of_slot_len :: int
  of_slot :: bytes
  of_llsf :: "llsf option"
  of_cmd :: "bytes option"

definition parse_out :: "bytes \<Rightarrow> out_frame option" where
  "parse_out payload =
     (if length payload < 4 \<or> payload ! 0 \<noteq> gba_marker \<or> payload ! 1 \<noteq> type_t then None
      else
        let ln = nat (from_le (py_slice payload 2 4)); body = py_slice payload 4 (4 + ln)
        in if length body < 8 then None
           else
             let slot_len = uint (body ! 5); slot = py_slice body 8 (8 + nat slot_len);
                 r = \<lparr>of_ts = from_le (py_slice body 0 4), of_slot_len = slot_len, of_slot = slot,
                      of_llsf = None, of_cmd = None\<rparr>
             in if slot_len \<ge> 2 then
                  let h = parse_llsf_child slot
                  in Some (r\<lparr>of_llsf := Some h,
                             of_cmd := (if ll_state h = lcom_uni then Some (py_slice slot 2 16) else None)\<rparr>)
                else Some r)"

subsection \<open>Lemmas\<close>

lemma roundup4_ge: "n \<le> roundup4 n" and roundup4_lt: "roundup4 n < n + 4"
proof -
  have "(int n + 3) AND (NOT 3) = 4 * ((int n + 3) div 4)"
  proof -
    have "(int n + 3) AND (NOT (mask 2)) = push_bit 2 (drop_bit 2 (int n + 3))"
      by (rule bit_eqI) (auto simp: bit_simps not_less dest!: le_Suc_ex)
    then show ?thesis by (simp add: mask_eq_exp_minus_1 push_bit_eq_mult drop_bit_eq_div)
  qed
  then have r: "roundup4 n = nat (4 * ((int n + 3) div 4))" by (simp add: roundup4_def)
  have "int n \<le> 4 * ((int n + 3) div 4)" "4 * ((int n + 3) div 4) < int n + 4" by presburger+
  then show "n \<le> roundup4 n" "roundup4 n < n + 4" unfolding r by linarith+
qed

lemma length_pad4: "length s \<le> length (pad4 s)" "length (pad4 s) < length s + 4"
  using roundup4_ge [of "length s"] roundup4_lt [of "length s"] by (auto simp: pad4_def)

lemma take_pad4 [simp]: "take (length s) (pad4 s) = s"
  by (simp add: pad4_def)

text \<open>The header of any frame gives back its type and its body.\<close>

lemma frame_header:
  fixes ty :: byte
  assumes "length body < 65536"
  defines "fr \<equiv> [gba_marker, ty] @ to_le 2 (int (length body)) @ body"
  shows "\<not> length fr < 4" "fr ! 0 = gba_marker" "fr ! 1 = ty"
    "py_slice fr 4 (4 + nat (from_le (py_slice fr 2 4))) = body"
proof -
  have s: "py_slice fr 2 4 = to_le 2 (int (length body))"
    by (simp add: fr_def py_slice_def)
  have "from_le (py_slice fr 2 4) = int (length body)"
    unfolding s by (rule from_le_to_le_id) (use assms in simp_all)
  then show "py_slice fr 4 (4 + nat (from_le (py_slice fr 2 4))) = body"
    by (simp add: fr_def py_slice_def)
qed (simp_all add: fr_def)

lemma parse_in_frame:
  assumes "length body < 65536"
  shows "parse_in ([gba_marker, ty] @ to_le 2 (int (length body)) @ body) =
     Some (if ty = type_t then FrameT (parse_t_body body)
           else if ty = type_a then FrameA (py_slice body 0 2) (py_slice body 2 4)
           else if ty = type_c then FrameC (py_slice body 0 2)
           else if ty = type_k then
             FrameK (from_le (py_slice body 0 4))
               (if 12 \<le> length body then Some (from_le (py_slice body 8 12)) else None)
           else FrameOther ty)"
  using frame_header [OF assms, of ty] by (simp only: parse_in_def Let_def) simp

lemma uni_rows_concat:
  "list_all (\<lambda>r. length r = 14) rows \<Longrightarrow> uni_rows k (concat rows) = enumerate k rows"
  by (induction rows arbitrary: k) (simp_all add: uni_rows.simps [of _ "[]"] uni_rows.simps [of _ "_ @ _"])

lemma uni_rows_rows: "(m, r) \<in> set (uni_rows k p) \<Longrightarrow> length r = 14"
  by (induction k p rule: uni_rows.induct) (subst (asm) uni_rows.simps, auto split: if_splits)

lemma uint_low_byte: "n < 256 \<Longrightarrow> uint (word_of_int (int n AND 0xFF) :: byte) = int n"
  by (simp only: masks uint_word_of_int_eq) (simp add: take_bit_int_eq_self)

lemma ts_bytes: "from_le (to_le 4 (ts AND 0xFFFFFFFF)) = ts mod 2 ^ 32"
  by (simp add: masks le_bytes) (simp add: take_bit_eq_mod)

lemma wrap_t_ok:
  fixes ts :: int
  assumes "length slot < 256"
  defines "body \<equiv> to_le 4 (ts AND 0xFFFFFFFF)
      @ [0, word_of_int (int (length slot) AND 0xFF), 0, 0] @ pad4 slot"
  shows "wrap_t slot ts = Inr ([gba_marker, type_t] @ to_le 2 (int (length body)) @ body)"
    and "length body < 65536"
  using assms length_pad4 [of slot]
  by (simp_all add: wrap_t_def Let_def to_bytes_le_def)

lemma wrap_parent_t_ok:
  fixes ts :: int
  assumes "length slot < 256"
  defines "body \<equiv> to_le 4 (ts AND 0xFFFFFFFF)
      @ [word_of_int (int (length slot) AND 0xFF), 0, 0, 0] @ pad4 slot"
  shows "wrap_parent_t (Some slot) ts = Inr ([gba_marker, type_t] @ to_le 2 (int (length body)) @ body)"
    and "length body < 65536"
  using assms length_pad4 [of slot]
  by (simp_all add: wrap_parent_t_def Let_def to_bytes_le_def)

lemma parse_out_wrap_t:
  assumes "length slot < 256"
  shows "\<exists>fr. wrap_t slot ts = Inr fr \<and> parse_out fr = Some
     \<lparr>of_ts = ts mod 2 ^ 32, of_slot_len = int (length slot), of_slot = slot,
      of_llsf = (if 2 \<le> length slot then Some (parse_llsf_child slot) else None),
      of_cmd = (if 2 \<le> length slot \<and> ll_state (parse_llsf_child slot) = lcom_uni
                then Some (py_slice slot 2 16) else None)\<rparr>"
proof -
  let ?body = "to_le 4 (ts AND 0xFFFFFFFF)
      @ [0, word_of_int (int (length slot) AND 0xFF), 0, 0] @ pad4 slot"
  let ?fr = "[gba_marker, type_t] @ to_le 2 (int (length ?body)) @ ?body"
  have w: "wrap_t slot ts = Inr ?fr" and l: "length ?body < 65536"
    using wrap_t_ok [OF assms] by auto
  have b: "py_slice ?body 0 4 = to_le 4 (ts AND 0xFFFFFFFF)"
    "?body ! 5 = word_of_int (int (length slot) AND 0xFF)"
    "py_slice ?body 8 (8 + length slot) = slot" "\<not> length ?body < 8"
    by (simp_all add: py_slice_def nth_append)
  have "parse_out ?fr = Some
     \<lparr>of_ts = ts mod 2 ^ 32, of_slot_len = int (length slot), of_slot = slot,
      of_llsf = (if 2 \<le> length slot then Some (parse_llsf_child slot) else None),
      of_cmd = (if 2 \<le> length slot \<and> ll_state (parse_llsf_child slot) = lcom_uni
                then Some (py_slice slot 2 16) else None)\<rparr>"
    unfolding parse_out_def Let_def frame_header(4) [OF l]
    using frame_header(1-3) [OF l, of type_t] b
    by (simp only: uint_low_byte [OF assms] ts_bytes nat_int) simp
  with w show ?thesis by blast
qed

lemma parse_t_body_parent:
  fixes ts :: int
  assumes "length slot < 256" and "2 \<le> length slot"
  defines "body \<equiv> to_le 4 (ts AND 0xFFFFFFFF)
      @ [word_of_int (int (length slot) AND 0xFF), 0, 0, 0] @ pad4 slot"
    and "llsf \<equiv> from_le (py_slice slot 0 3)"
  shows "parse_t_body body =
     \<lparr>tf_ts = Some (ts mod 2 ^ 32), tf_slot_len = int (length slot),
      tf_llsf_state = Some (drop_bit 14 llsf AND 0xF),
      tf_slots = (if drop_bit 14 llsf AND 0xF = 4 then uni_rows 0 (drop 3 slot) else []),
      tf_payload = drop 3 slot,
      tf_ni = (if drop_bit 14 llsf AND 0xF = 4 then None else Some
        \<lparr>ni_state = drop_bit 14 llsf AND 0xF, ni_ack = drop_bit 13 llsf AND 1,
         ni_n = drop_bit 11 llsf AND 3, ni_phase = drop_bit 9 llsf AND 3,
         ni_size = llsf AND 0x7F, ni_payload = drop 3 slot\<rparr>)\<rparr>"
proof -
  have b: "py_slice body 0 4 = to_le 4 (ts AND 0xFFFFFFFF)"
    "body ! 4 = word_of_int (int (length slot) AND 0xFF)"
    "py_slice body 8 (8 + length slot) = slot" "\<not> length body < 5"
    by (simp_all add: body_def py_slice_def nth_append)
  then show ?thesis
    unfolding parse_t_body_def Let_def llsf_def using assms(2)
    by (simp only: uint_low_byte [OF assms(1)] ts_bytes nat_int) simp
qed

lemma parse_in_wrap_parent_t:
  assumes "length slot < 256" and "2 \<le> length slot"
  shows "\<exists>fr. wrap_parent_t (Some slot) ts = Inr fr \<and> parse_in fr = Some (FrameT (parse_t_body
     (to_le 4 (ts AND 0xFFFFFFFF) @ [word_of_int (int (length slot) AND 0xFF), 0, 0, 0] @ pad4 slot)))"
  using wrap_parent_t_ok(1) [OF assms(1), of ts] parse_in_frame [OF wrap_parent_t_ok(2) [OF assms(1)], of type_t ts]
  by (simp only: if_True simp_thms) blast

lemma parse_in_parent_ni:
  assumes "length pay < 253" and "st AND 0xF \<noteq> 4"
  shows "\<exists>fr f. wrap_parent_t (Some (parent_ni_llsf st n ph ack sz b @ pay)) ts = Inr fr
     \<and> parse_in fr = Some (FrameT f) \<and> tf_ts f = Some (ts mod 2 ^ 32)
     \<and> tf_ni f = Some \<lparr>ni_state = st AND 0xF, ni_ack = ack AND 1, ni_n = n AND 3,
                       ni_phase = ph AND 3, ni_size = sz AND 0x7F, ni_payload = pay\<rparr>"
proof -
  let ?slot = "parent_ni_llsf st n ph ack sz b @ pay"
  have l: "length ?slot < 256" "2 \<le> length ?slot" using assms by simp_all
  have "from_le (py_slice ?slot 0 3) = take_bit 24 (push_bit 14 (st AND 0xF) OR push_bit 18 (b AND 0xF)
      OR push_bit 13 (ack AND 1) OR push_bit 11 (n AND 3) OR push_bit 9 (ph AND 3) OR (sz AND 0x1FF))"
    unfolding parent_ni_llsf_def take_slice_prefix [OF length_to_le] le_bytes ..
  note f = parse_t_body_parent [OF l, of ts, unfolded this masks parent_fields]
  show ?thesis
    using parse_in_wrap_parent_t [OF l, of ts] assms(2) f by (auto simp: masks)
qed

subsection \<open>Properties\<close>

text \<open>
  a command sent as a child UNI frame is recovered exactly by the outgoing-frame parser:
  the 14-byte command, the slot length, the UNI header and the 32-bit timestamp.
\<close>

theorem child_uni_frame_roundtrip:
  assumes "length cmd = 14"
  shows "\<exists>slot fr r. uni_slot cmd = Inr slot \<and> wrap_t slot ts = Inr fr \<and> parse_out fr = Some r
     \<and> of_ts r = ts mod 2 ^ 32 \<and> of_slot_len r = 16 \<and> of_cmd r = Some cmd
     \<and> of_llsf r = Some \<lparr>ll_state = lcom_uni, ll_ack = 0, ll_n = 0, ll_phase = 0, ll_size = 14\<rparr>"
proof -
  let ?slot = "to_le 2 0x100E @ cmd"
  have l: "length ?slot < 256" using assms by simp
  have h: "parse_llsf_child ?slot
      = \<lparr>ll_state = lcom_uni, ll_ack = 0, ll_n = 0, ll_phase = 0, ll_size = 14\<rparr>"
    unfolding parse_llsf_child_def Let_def take_slice_prefix [OF length_to_le] le_bytes
    by (simp add: lcoms)
  have "py_slice ?slot 2 16 = cmd" using assms by (simp add: py_slice_def)
  with parse_out_wrap_t [OF l, of ts] h uni_slot_ok [OF assms] assms show ?thesis by auto
qed

theorem child_uni_frame_roundtrip_witness:
  "\<exists>slot fr r. uni_slot idle_slot = Inr slot \<and> wrap_t slot 7 = Inr fr \<and> parse_out fr = Some r
     \<and> of_ts r = 7 \<and> of_cmd r = Some idle_slot"
  using child_uni_frame_roundtrip [of idle_slot 7] by auto

text \<open>
  up to five 14-byte command rows sent in a parent UNI window arrive at the child's
  parser as exactly those rows, numbered from zero and padded with idle rows to five.
\<close>

theorem parent_uni_frame_roundtrip:
  assumes "list_all (\<lambda>r. length r = 14) rows" and "length rows \<le> 5"
  shows "\<exists>slot fr f. parent_uni_slot rows = Inr slot \<and> wrap_parent_t (Some slot) ts = Inr fr
     \<and> parse_in fr = Some (FrameT f) \<and> tf_ts f = Some (ts mod 2 ^ 32)
     \<and> tf_llsf_state f = Some 4 \<and> tf_ni f = None
     \<and> tf_slots f = enumerate 0 (rows @ replicate (5 - length rows) idle_slot)"
proof -
  let ?rows = "rows @ replicate (5 - length rows) idle_slot"
  have all: "list_all (\<lambda>r. length r = 14) ?rows" using assms(1) by (auto simp: list_all_iff)
  have "length (concat rs) = 14 * length rs" if "list_all (\<lambda>r. length r = 14) rs" for rs :: "bytes list"
    using that by (induction rs) auto
  from this [OF all] have len: "length (concat ?rows) = 70" using assms(2) by simp
  let ?slot = "parent_ni_llsf lcom_uni 0 0 0 70 1 @ concat ?rows"
  have slot: "parent_uni_slot rows = Inr ?slot"
  proof -
    have "\<not> list_ex (\<lambda>row. length row \<noteq> comm_slot_length) rows"
      using assms(1) by (auto simp: list_all_iff list_ex_iff comm_slot_length_def)
    then show ?thesis using assms(2) len unfolding parent_uni_slot_def Let_def by simp
  qed
  have l: "length ?slot < 256" "2 \<le> length ?slot" using len by simp_all
  have st: "drop_bit 14 (from_le (py_slice ?slot 0 3)) AND 0xF = 4"
    unfolding parent_ni_llsf_def take_slice_prefix [OF length_to_le] le_bytes masks parent_fields
    by (simp add: lcoms)
  show ?thesis
    using slot parse_in_wrap_parent_t [OF l, of ts]
      parse_t_body_parent [OF l, of ts, unfolded st] uni_rows_concat [OF all, of 0]
    by auto
qed

theorem parent_uni_frame_roundtrip_witness:
  "\<exists>slot fr f. parent_uni_slot [idle_slot] = Inr slot \<and> wrap_parent_t (Some slot) 9 = Inr fr
     \<and> parse_in fr = Some (FrameT f) \<and> length (tf_slots f) = 5"
  using parent_uni_frame_roundtrip [of "[idle_slot]" 9] by auto

end
