(* ===== verification/Block.thy ===== *)
theory Block
  imports Gbaframe
begin

section \<open>Block transfer (\<open>bridge/frlgsim/block.py\<close>)\<close>

text \<open>
  A block is cut into 12-byte fragments.  The receiver keeps a bit mask of the fragments it
  has seen and is idempotent and order-independent; the sender announces the block, streams
  it and, in the faithful mode, holds the last fragment until the reflected mask is full.
\<close>

definition frag_bytes :: nat where "frag_bytes = 12"

definition frag_count :: "nat \<Rightarrow> nat" where
  "frag_count nbytes = max 1 ((nbytes + (frag_bytes - 1)) div frag_bytes)"

definition all_received_mask :: "nat \<Rightarrow> int" where
  "all_received_mask count = push_bit count 1 - 1"

subsection \<open>Receive side\<close>

record recv_block =
  rb_count :: nat
  rb_owner :: "int option"
  rb_flags :: int
  rb_buf :: bytes
  rb_receiving :: bool
  rb_done :: bool
  rb_last_index :: int
  rb_epochs :: nat

definition recv_block_new :: recv_block where
  "recv_block_new = \<lparr>rb_count = 0, rb_owner = None, rb_flags = 0, rb_buf = [], rb_receiving = False,
     rb_done = False, rb_last_index = -1, rb_epochs = 0\<rparr>"

definition on_init :: "nat \<Rightarrow> int option \<Rightarrow> recv_block \<Rightarrow> recv_block" where
  "on_init count owner rb =
     (if \<not> rb_receiving rb \<or> rb_done rb \<or> count \<noteq> rb_count rb then
        rb\<lparr>rb_count := count, rb_owner := owner, rb_flags := 0,
           rb_buf := replicate (count * frag_bytes) 0, rb_receiving := True, rb_done := False,
           rb_last_index := -1, rb_epochs := rb_epochs rb + 1\<rparr>
      else rb)"

definition on_block :: "nat \<Rightarrow> bytes \<Rightarrow> recv_block \<Rightarrow> recv_block" where
  "on_block index frag rb =
     (if \<not> rb_receiving rb \<or> \<not> index < rb_count rb then rb
      else
        let rb2 = rb\<lparr>rb_last_index := int index, rb_flags := rb_flags rb OR push_bit index 1,
               rb_buf := slice_assign (rb_buf rb) (index * frag_bytes) (index * frag_bytes + frag_bytes)
                           (take frag_bytes frag)\<rparr>
        in if rb_flags rb2 = all_received_mask (rb_count rb2) then rb2\<lparr>rb_done := True\<rparr> else rb2)"

definition rb_data :: "recv_block \<Rightarrow> bytes" where
  "rb_data rb = rb_buf rb"

definition rb_consume :: "recv_block \<Rightarrow> bytes \<times> recv_block" where
  "rb_consume rb = (rb_data rb, rb\<lparr>rb_receiving := False, rb_done := False, rb_flags := 0\<rparr>)"

record block_receiver =
  br_peers :: "recv_block list"
  br_last_req :: "int option"
  br_last_cmd :: "nat \<rightharpoonup> parsed_slot"

definition block_receiver_new :: "nat \<Rightarrow> block_receiver" where
  "block_receiver_new max_peers =
     \<lparr>br_peers = replicate max_peers recv_block_new, br_last_req = None, br_last_cmd = Map.empty\<rparr>"

type_synonym completed = "(nat \<times> nat \<times> bytes) list"

text \<open>One positional slot, after \<open>parse_slot\<close> returned a record for it.\<close>

definition feed_parsed ::
  "nat \<Rightarrow> parsed_slot \<Rightarrow> block_receiver \<times> completed \<times> int list
     \<Rightarrow> block_receiver \<times> completed \<times> int list" where
  "feed_parsed mpid d s =
     (case s of (br, cmpl, reqs) \<Rightarrow>
      let br1 = br\<lparr>br_last_cmd := (br_last_cmd br)(mpid \<mapsto> d)\<rparr>
      in if ps_op d = rfu_send_block_req then
           (br1\<lparr>br_last_req := ps_reqtype d\<rparr>, cmpl, reqs @ [the (ps_reqtype d)])
         else if length (br_peers br) \<le> mpid then (br1, cmpl, reqs)
         else if ps_op d = rfu_send_block_init then
           (br1\<lparr>br_peers := (br_peers br)[mpid :=
              on_init (nat (the (ps_count d))) (ps_owner_raw d) (br_peers br ! mpid)]\<rparr>, cmpl, reqs)
         else if ps_op d = rfu_send_block then
           let peer = br_peers br ! mpid;
               peer' = on_block (nat (the (ps_index d))) (the (ps_frag d)) peer
           in (br1\<lparr>br_peers := (br_peers br)[mpid := peer']\<rparr>,
               (if rb_done peer' \<and> \<not> rb_done peer then cmpl @ [(mpid, rb_count peer', rb_data peer')]
                else cmpl), reqs)
         else (br1, cmpl, reqs))"

fun feed_slots ::
  "(nat \<times> bytes) list \<Rightarrow> block_receiver \<times> completed \<times> int list
     \<Rightarrow> py_error + (block_receiver \<times> completed \<times> int list)" where
  "feed_slots [] s = Inr s"
| "feed_slots ((mpid, slot) # rest) s =
     bindr (parse_slot slot) (\<lambda>d. case d of
        None \<Rightarrow> feed_slots rest s
      | Some d \<Rightarrow> feed_slots rest (feed_parsed mpid d s))"

definition feed_frame ::
  "t_frame option \<Rightarrow> block_receiver \<Rightarrow> py_error + (block_receiver \<times> completed \<times> int list)" where
  "feed_frame unwrapped br =
     (case unwrapped of
        None \<Rightarrow> Inr (br, [], [])
      | Some f \<Rightarrow> feed_slots (tf_slots f) (br, [], []))"

subsection \<open>Send side\<close>

datatype send_state = BS_Init | BS_Stream | BS_Hold | BS_Done

record block_sender =
  bs_data :: bytes
  bs_count :: nat
  bs_owner :: int
  bs_state :: send_state
  bs_index :: nat
  bs_init_sends :: nat
  bs_hold_sends :: nat
  bs_rr :: nat
  bs_watchdog_init :: nat
  bs_watchdog_hold :: nat
  bs_trust_pia :: bool

definition block_sender_new :: "bytes \<Rightarrow> int \<Rightarrow> nat \<Rightarrow> nat \<Rightarrow> bool \<Rightarrow> block_sender" where
  "block_sender_new data owner watchdog_init watchdog_hold trust_pia =
     \<lparr>bs_data = data, bs_count = frag_count (length data), bs_owner = owner, bs_state = BS_Init,
      bs_index = 0, bs_init_sends = 0, bs_hold_sends = 0, bs_rr = 0,
      bs_watchdog_init = watchdog_init, bs_watchdog_hold = watchdog_hold, bs_trust_pia = trust_pia\<rparr>"

definition sender_done :: "block_sender \<Rightarrow> bool" where
  "sender_done b \<longleftrightarrow> bs_state b = BS_Done"

definition bs_chunk :: "block_sender \<Rightarrow> nat \<Rightarrow> bytes" where
  "bs_chunk b index = py_slice (bs_data b) (index * frag_bytes) (index * frag_bytes + frag_bytes)"

definition bs_init_acked :: "block_sender \<Rightarrow> recv_block option \<Rightarrow> bool" where
  "bs_init_acked b ack =
     (case ack of None \<Rightarrow> False | Some a \<Rightarrow> rb_receiving a \<and> rb_count a = bs_count b)"

definition bs_missing :: "block_sender \<Rightarrow> recv_block option \<Rightarrow> nat list" where
  "bs_missing b ack =
     (case ack of None \<Rightarrow> []
      | Some a \<Rightarrow> if rb_count a \<noteq> bs_count b then []
                  else filter (\<lambda>i. drop_bit i (rb_flags a) AND 1 = 0) [0..<bs_count b])"

definition idle_words :: "int list" where "idle_words = replicate 7 0"

text \<open>The STREAM branch of \<open>tick\<close>, also reached by falling through from INIT.\<close>

definition bs_stream :: "block_sender \<Rightarrow> int list \<times> block_sender" where
  "bs_stream b =
     (let idx = bs_index b; words = send_block_words (int idx) (bs_chunk b idx)
      in if bs_count b - 1 \<le> idx then
           (words, b\<lparr>bs_state := (if bs_trust_pia b then BS_Done else BS_Hold), bs_hold_sends := 0\<rparr>)
         else (words, b\<lparr>bs_index := idx + 1\<rparr>))"

definition bs_hold :: "recv_block option \<Rightarrow> block_sender \<Rightarrow> int list \<times> block_sender" where
  "bs_hold ack b =
     (let b1 = b\<lparr>bs_hold_sends := bs_hold_sends b + 1\<rparr>; last = bs_count b - 1;
          full = all_received_mask (bs_count b);
          resend_last = (send_block_words (int last) (bs_chunk b1 last), b1)
      in case ack of
           Some a \<Rightarrow>
             if rb_last_index a = int last then
               if rb_flags a = full then (idle_words, b1\<lparr>bs_state := BS_Done\<rparr>)
               else
                 let missing = bs_missing b1 ack
                 in if missing \<noteq> [] then
                      let rr = (bs_rr b + 1) mod length missing; idx = missing ! rr
                      in (send_block_words (int idx) (bs_chunk b1 idx), b1\<lparr>bs_rr := rr\<rparr>)
                    else resend_last
             else resend_last
         | None \<Rightarrow>
             if bs_watchdog_hold b < bs_hold_sends b1 then (idle_words, b1\<lparr>bs_state := BS_Done\<rparr>)
             else resend_last)"

definition bs_tick :: "recv_block option \<Rightarrow> block_sender \<Rightarrow> int list \<times> block_sender" where
  "bs_tick ack b =
     (case bs_state b of
        BS_Done \<Rightarrow> (idle_words, b)
      | BS_Init \<Rightarrow>
          let b1 = b\<lparr>bs_init_sends := bs_init_sends b + 1\<rparr>;
              armed = (if bs_trust_pia b then bs_init_acked b ack \<or> bs_watchdog_init b < bs_init_sends b1
                       else bs_init_acked b ack
                            \<or> (ack = None \<and> bs_watchdog_init b < bs_init_sends b1))
          in if armed then bs_stream (b1\<lparr>bs_state := BS_Stream, bs_index := 0\<rparr>)
             else (init_words (int (bs_count b)) (bs_owner b), b1)
      | BS_Stream \<Rightarrow> bs_stream b
      | BS_Hold \<Rightarrow> bs_hold ack b)"

subsection \<open>The reassembler converges\<close>

lemma all_received_mask_eq: "all_received_mask c = mask c"
  by (simp add: all_received_mask_def mask_eq_exp_minus_1 push_bit_eq_mult)

definition chunk_of :: "bytes \<Rightarrow> nat \<Rightarrow> bytes" where
  "chunk_of data i = py_slice data (i * frag_bytes) (i * frag_bytes + frag_bytes)"

text \<open>
  \<open>rb_track data c S rb\<close>: the reassembler is receiving a block of \<open>c\<close> fragments and
  holds exactly the fragments in \<open>S\<close>, each equal to the corresponding chunk of \<open>data\<close>.
\<close>

definition rb_track :: "bytes \<Rightarrow> nat \<Rightarrow> nat set \<Rightarrow> recv_block \<Rightarrow> bool" where
  "rb_track data c S rb \<longleftrightarrow>
     rb_receiving rb \<and> rb_count rb = c \<and> S \<subseteq> {..<c} \<and> length (rb_buf rb) = c * frag_bytes
     \<and> (\<forall>i. bit (rb_flags rb) i \<longleftrightarrow> i \<in> S)
     \<and> (\<forall>i\<in>S. chunk_of (rb_buf rb) i = chunk_of data i)
     \<and> (rb_done rb \<longleftrightarrow> S = {..<c} \<and> S \<noteq> {})"

lemma full_mask_iff:
  assumes "\<forall>i. bit (f :: int) i \<longleftrightarrow> i \<in> S" and "S \<subseteq> {..<c}"
  shows "f = mask c \<longleftrightarrow> S = {..<c}"
proof -
  have "f = mask c \<longleftrightarrow> (\<forall>i. bit f i \<longleftrightarrow> i < c)"
    by (simp add: bit_eq_iff bit_mask_iff)
  also have "\<dots> \<longleftrightarrow> S = {..<c}" using assms by auto
  finally show ?thesis .
qed

lemma rb_track_init:
  "\<not> rb_receiving rb \<or> rb_done rb \<or> c \<noteq> rb_count rb \<Longrightarrow> rb_track data c {} (on_init c ow rb)"
  by (auto simp: rb_track_def on_init_def)

lemma rb_track_reinit:
  "rb_track data c S rb \<Longrightarrow> \<not> rb_done rb \<Longrightarrow> on_init c ow rb = rb"
  by (auto simp: rb_track_def on_init_def)

lemma chunk_slice_assign:
  assumes "length buf = c * frag_bytes" "i < c" "length ys = frag_bytes" "j < c"
  shows "chunk_of (slice_assign buf (i * frag_bytes) (i * frag_bytes + frag_bytes) ys) j
     = (if j = i then ys else chunk_of buf j)"
proof -
  have le: "i * frag_bytes + frag_bytes \<le> length buf"
    using assms(1,2) by (metis Suc_leI add.commute mult_Suc mult_le_mono1)
  show ?thesis
  proof (cases "j = i")
    case True
    then show ?thesis using le assms(3) by (simp add: chunk_of_def slice_assign_same)
  next
    case False
    then consider "j < i" | "i < j" by linarith
    then have "j * frag_bytes + frag_bytes \<le> i * frag_bytes
        \<or> i * frag_bytes + frag_bytes \<le> j * frag_bytes"
      by cases (auto simp: frag_bytes_def)
    then show ?thesis using False le assms(3) by (simp add: chunk_of_def slice_assign_other)
  qed
qed

lemma rb_track_block:
  assumes tr: "rb_track data c S rb" and len: "length data = c * frag_bytes"
    and fr: "i < c \<Longrightarrow> take frag_bytes frag = chunk_of data i"
  shows "rb_track data c (S \<union> ({i} \<inter> {..<c})) (on_block i frag rb)"
proof (cases "i < c")
  case False
  then show ?thesis using tr by (simp add: rb_track_def on_block_def)
next
  case True
  let ?S = "insert i S"
  let ?buf = "slice_assign (rb_buf rb) (i * frag_bytes) (i * frag_bytes + frag_bytes) (take frag_bytes frag)"
  have c: "rb_receiving rb" "rb_count rb = c" "S \<subseteq> {..<c}" "length (rb_buf rb) = c * frag_bytes"
    using tr by (auto simp: rb_track_def)
  have le: "i * frag_bytes + frag_bytes \<le> c * frag_bytes"
    using True by (metis Suc_leI add.commute mult_Suc mult_le_mono1)
  have lf: "length (take frag_bytes frag) = frag_bytes"
    using fr [OF True] le len by (simp add: chunk_of_def)
  have bits: "\<forall>k. bit (rb_flags rb OR push_bit i 1) k \<longleftrightarrow> k \<in> ?S"
    using tr by (auto simp: rb_track_def bit_simps)
  have sub: "?S \<subseteq> {..<c}" using True c by auto
  have chunks: "\<forall>k\<in>?S. chunk_of ?buf k = chunk_of data k"
  proof
    fix k assume k: "k \<in> ?S"
    with sub have "k < c" by auto
    then have "chunk_of ?buf k = (if k = i then take frag_bytes frag else chunk_of (rb_buf rb) k)"
      by (rule chunk_slice_assign [OF c(4) True lf])
    also have "\<dots> = chunk_of data k" using tr k fr [OF True] by (auto simp: rb_track_def)
    finally show "chunk_of ?buf k = chunk_of data k" .
  qed
  have "length ?buf = c * frag_bytes"
    using le lf c(4) by (simp add: length_slice_assign)
  moreover have done_iff: "rb_flags rb OR push_bit i 1 = all_received_mask c \<longleftrightarrow> ?S = {..<c}"
    unfolding all_received_mask_eq by (rule full_mask_iff [OF bits sub])
  moreover have "rb_done rb \<Longrightarrow> ?S = {..<c}" using tr sub by (auto simp: rb_track_def)
  ultimately have "rb_track data c ?S (on_block i frag rb)"
    using True c sub bits chunks by (auto simp: rb_track_def on_block_def Let_def)
  moreover have "S \<union> ({i} \<inter> {..<c}) = ?S" using True by auto
  ultimately show ?thesis by simp
qed

lemma rb_track_done_data:
  assumes tr: "rb_track data c S rb" and len: "length data = c * frag_bytes" and "rb_done rb"
  shows "rb_data rb = data"
proof (rule nth_equalityI)
  have S: "S = {..<c}" and l: "length (rb_buf rb) = c * frag_bytes"
    using tr assms(3) by (auto simp: rb_track_def)
  show "length (rb_data rb) = length data" using l len by (simp add: rb_data_def)
  fix k assume "k < length (rb_data rb)"
  then have k: "k < c * frag_bytes" using l by (simp add: rb_data_def)
  let ?i = "k div frag_bytes" and ?o = "k mod frag_bytes"
  have i: "?i < c" using k by (simp add: less_mult_imp_div_less)
  have o: "?o < frag_bytes" and ko: "?i * frag_bytes + ?o = k" by (auto simp: frag_bytes_def)
  have "chunk_of (rb_buf rb) ?i ! ?o = chunk_of data ?i ! ?o"
    using tr S i by (auto simp: rb_track_def)
  then show "rb_data rb ! k = data ! k"
    using o ko k l len by (simp add: chunk_of_def nth_py_slice rb_data_def)
qed

lemma rb_track_run:
  assumes "rb_track data c S rb" and "length data = c * frag_bytes"
  shows "rb_track data c (S \<union> (set ixs \<inter> {..<c})) (foldl (\<lambda>rb i. on_block i (chunk_of data i) rb) rb ixs)"
  using assms(1)
proof (induction ixs arbitrary: S rb)
  case (Cons i xs)
  have "i < c \<Longrightarrow> take frag_bytes (chunk_of data i) = chunk_of data i"
    by (simp add: chunk_of_def)
  from Cons.IH [OF rb_track_block [OF Cons.prems assms(2) this]]
  have "rb_track data c ((S \<union> ({i} \<inter> {..<c})) \<union> (set xs \<inter> {..<c}))
      (foldl (\<lambda>rb i. on_block i (chunk_of data i) rb) rb (i # xs))" by simp
  moreover have "(S \<union> ({i} \<inter> {..<c})) \<union> (set xs \<inter> {..<c}) = S \<union> (set (i # xs) \<inter> {..<c})"
    by auto
  ultimately show ?case by (simp only:)
qed simp

text \<open>
  after a fresh announcement of a block of \<open>c\<close> fragments, fragments may arrive in any
  order, any number of times and with stray indices: the block is complete exactly when
  every index below \<open>c\<close> has arrived at least once, and then its bytes are the sender's.
\<close>

theorem block_reassembly_converges:
  fixes ixs :: "nat list" and ow :: "int option"
  assumes "0 < c" and "length data = 12 * c"
    and "\<not> rb_receiving rb0 \<or> rb_done rb0 \<or> c \<noteq> rb_count rb0"
  defines "rb \<equiv> foldl (\<lambda>rb i. on_block i (chunk_of data i) rb) (on_init c ow rb0) ixs"
  shows "(rb_done rb \<longleftrightarrow> {..<c} \<subseteq> set ixs) \<and> (rb_done rb \<longrightarrow> rb_data rb = data)"
proof -
  have len: "length data = c * frag_bytes" using assms(2) by (simp add: frag_bytes_def)
  have tr: "rb_track data c (set ixs \<inter> {..<c}) rb"
    unfolding rb_def using rb_track_run [OF rb_track_init [OF assms(3)] len] by simp
  have ne: "{..<c} \<noteq> {}" using assms(1) by auto
  have "rb_done rb \<longleftrightarrow> set ixs \<inter> {..<c} = {..<c}" using tr ne by (auto simp: rb_track_def)
  then show ?thesis using rb_track_done_data [OF tr len] by auto
qed

theorem block_reassembly_converges_witness:
  "(rb_done (foldl (\<lambda>rb i. on_block i (chunk_of (replicate 24 7) i) rb)
       (on_init 2 None recv_block_new) [1, 1, 5, 0]) \<longleftrightarrow> {..<2} \<subseteq> set [1, 1, 5, 0::nat])"
  using block_reassembly_converges [of 2 "replicate 24 7" recv_block_new None "[1, 1, 5, 0]"]
  by (simp add: recv_block_new_def)

subsection \<open>The sender's trace and its delivery\<close>

fun send_run :: "nat \<Rightarrow> block_sender \<Rightarrow> int list list \<times> block_sender" where
  "send_run 0 b = ([], b)"
| "send_run (Suc n) b =
     (let (ws, b1) = bs_tick None b; (wss, b2) = send_run n b1 in (ws # wss, b2))"

lemma send_run_append:
  "send_run (m + n) b = (let (xs, b1) = send_run m b; (ys, b2) = send_run n b1 in (xs @ ys, b2))"
  by (induction m arbitrary: b) (auto simp: Let_def split: prod.splits)

lemma send_run_stream:
  assumes "bs_state b = BS_Stream" "bs_trust_pia b" "bs_index b + n = bs_count b" "0 < n"
  shows "fst (send_run n b) = map (\<lambda>k. send_block_words (int k) (chunk_of (bs_data b) k)) [bs_index b..<bs_count b]
     \<and> sender_done (snd (send_run n b))"
  using assms
proof (induction n arbitrary: b)
  case (Suc n)
  show ?case
  proof (cases "n = 0")
    case True
    then have c: "bs_count b = Suc (bs_index b)" using Suc.prems(3) by simp
    show ?thesis
      using Suc.prems c True
      by (simp add: bs_tick_def bs_stream_def sender_done_def Let_def bs_chunk_def chunk_of_def)
  next
    case False
    let ?b = "b\<lparr>bs_index := bs_index b + 1\<rparr>"
    have t: "bs_tick None b = (send_block_words (int (bs_index b)) (chunk_of (bs_data b) (bs_index b)), ?b)"
      using Suc.prems False by (simp add: bs_tick_def bs_stream_def Let_def bs_chunk_def chunk_of_def)
    have "bs_index b < bs_count b" using Suc.prems(3) by simp
    then have "[bs_index b..<bs_count b] = bs_index b # [bs_index ?b..<bs_count ?b]"
      by (simp add: upt_conv_Cons)
    moreover have "fst (send_run n ?b)
        = map (\<lambda>k. send_block_words (int k) (chunk_of (bs_data ?b) k)) [bs_index ?b..<bs_count ?b]
        \<and> sender_done (snd (send_run n ?b))"
      by (rule Suc.IH) (use Suc.prems False in simp_all)
    ultimately show ?thesis by (simp add: t Let_def case_prod_beta)
  qed
qed simp

lemma send_run_init:
  assumes "bs_state b = BS_Init" "bs_trust_pia b" "bs_init_sends b + n \<le> bs_watchdog_init b"
  shows "send_run n b = (replicate n (init_words (int (bs_count b)) (bs_owner b)),
                         b\<lparr>bs_init_sends := bs_init_sends b + n\<rparr>)"
  using assms
proof (induction n arbitrary: b)
  case (Suc n)
  let ?b = "b\<lparr>bs_init_sends := bs_init_sends b + 1\<rparr>"
  have t: "bs_tick None b = (init_words (int (bs_count b)) (bs_owner b), ?b)"
    using Suc.prems by (simp add: bs_tick_def Let_def bs_init_acked_def)
  have "send_run n ?b = (replicate n (init_words (int (bs_count ?b)) (bs_owner ?b)),
      ?b\<lparr>bs_init_sends := bs_init_sends ?b + n\<rparr>)"
    by (rule Suc.IH) (use Suc.prems in simp_all)
  then show ?case by (simp add: t Let_def)
qed simp

lemma send_run_trusted:
  fixes ow :: int and w h :: nat
  assumes "c = frag_count (length data)"
  defines "b \<equiv> block_sender_new data ow w h True"
  shows "fst (send_run (w + c) b) = replicate w (init_words (int c) ow)
           @ map (\<lambda>k. send_block_words (int k) (chunk_of data k)) [0..<c]
       \<and> sender_done (snd (send_run (w + c) b))"
proof -
  let ?b1 = "b\<lparr>bs_init_sends := w\<rparr>"
  let ?b2 = "?b1\<lparr>bs_init_sends := w + 1, bs_state := BS_Stream, bs_index := 0\<rparr>"
  have b: "bs_state b = BS_Init" "bs_trust_pia b" "bs_init_sends b = 0" "bs_watchdog_init b = w"
    "bs_count b = c" "bs_data b = data" "bs_owner b = ow"
    by (simp_all add: b_def block_sender_new_def assms(1))
  have c: "0 < c" by (simp add: assms(1) frag_count_def)
  have r1: "send_run w b = (replicate w (init_words (int c) ow), ?b1)"
    using send_run_init [of b w] b by simp
  have "bs_tick None ?b1 = bs_tick None ?b2"
    using b by (simp add: bs_tick_def Let_def bs_init_acked_def)
  then have "send_run c ?b1 = send_run c ?b2"
    using c by (cases c) simp_all
  moreover have "fst (send_run c ?b2) = map (\<lambda>k. send_block_words (int k) (chunk_of (bs_data ?b2) k))
        [bs_index ?b2..<bs_count ?b2] \<and> sender_done (snd (send_run c ?b2))"
    by (rule send_run_stream) (use b c in simp_all)
  ultimately show ?thesis
    using r1 b by (simp add: send_run_append Let_def case_prod_beta)
qed

text \<open>What one delivered command does to the peer, the completed list and the request list.\<close>

type_synonym peer_view = "recv_block \<times> completed \<times> int list"

definition view :: "nat \<Rightarrow> block_receiver \<times> completed \<times> int list \<Rightarrow> peer_view" where
  "view m s = (br_peers (fst s) ! m, snd s)"

definition delivers :: "nat \<Rightarrow> int list \<Rightarrow> (peer_view \<Rightarrow> peer_view) \<Rightarrow> bool" where
  "delivers m ws g \<longleftrightarrow>
     (\<forall>b. slot_build b ws = Inr (tagged (sb_tag b) ws, b\<lparr>sb_tag := (sb_tag b + 1) AND 7\<rparr>))
     \<and> (\<forall>t. 0 \<le> t \<longrightarrow> t < 8 \<longrightarrow> (\<exists>r. parse_slot (tagged t ws) = Inr (Some r)
          \<and> (\<forall>s. m < length (br_peers (fst s)) \<longrightarrow>
                view m (feed_parsed m r s) = g (view m s)
                \<and> length (br_peers (fst (feed_parsed m r s))) = length (br_peers (fst s)))))"

definition view_init :: "nat \<Rightarrow> int \<Rightarrow> peer_view \<Rightarrow> peer_view" where
  "view_init c ow v = (on_init c (Some ((ow OR 0x80) mod 256)) (fst v), snd v)"

definition view_block :: "nat \<Rightarrow> nat \<Rightarrow> bytes \<Rightarrow> peer_view \<Rightarrow> peer_view" where
  "view_block m i frag v =
     (let p = on_block i frag (fst v)
      in (p, (if rb_done p \<and> \<not> rb_done (fst v) then fst (snd v) @ [(m, rb_count p, rb_data p)]
              else fst (snd v)), snd (snd v)))"

lemma delivers_init:
  assumes "c < 65536"
  shows "delivers m (init_words (int c) ow) (view_init c ow)"
  unfolding delivers_def
proof (intro conjI allI impI)
  fix t :: int assume t: "0 \<le> t" "t < 8"
  obtain r where r: "parse_slot (tagged t (init_words (int c) ow)) = Inr (Some r)"
    "ps_op r = rfu_send_block_init" "ps_count r = Some (int c mod 65536)"
    "ps_owner_raw r = Some ((ow OR 0x80) mod 256)"
    using parse_init_slot [OF t] by blast
  have "int c mod 65536 = int c" using assms by simp
  with r show "\<exists>r. parse_slot (tagged t (init_words (int c) ow)) = Inr (Some r) \<and>
       (\<forall>s. m < length (br_peers (fst s)) \<longrightarrow>
          view m (feed_parsed m r s) = view_init c ow (view m s) \<and>
          length (br_peers (fst (feed_parsed m r s))) = length (br_peers (fst s)))"
    by (intro exI [of _ r]) (auto simp: feed_parsed_def view_def view_init_def Let_def rfu_ops
        split: prod.splits)
qed (rule slot_build_init)

lemma delivers_block:
  assumes "i < 32"
  shows "delivers m (send_block_words (int i) ch) (view_block m i (ljust 12 0 (take 12 ch)))"
  unfolding delivers_def
proof (intro conjI allI impI)
  fix t :: int assume t: "0 \<le> t" "t < 8"
  obtain r where r: "parse_slot (tagged t (send_block_words (int i) ch)) = Inr (Some r)"
    "ps_op r = rfu_send_block" "ps_index r = Some (int i mod 32)"
    "ps_frag r = Some (ljust 12 0 (take 12 ch))"
    using parse_send_block [OF t] by blast
  have "int i mod 32 = int i" using assms by simp
  with r show "\<exists>r. parse_slot (tagged t (send_block_words (int i) ch)) = Inr (Some r) \<and>
       (\<forall>s. m < length (br_peers (fst s)) \<longrightarrow>
          view m (feed_parsed m r s) = view_block m i (ljust 12 0 (take 12 ch)) (view m s) \<and>
          length (br_peers (fst (feed_parsed m r s))) = length (br_peers (fst s)))"
    by (intro exI [of _ r]) (auto simp: feed_parsed_def view_def view_block_def Let_def rfu_ops
        split: prod.splits)
qed (rule slot_build_send_block)

lemma delivers_run:
  assumes "list_all2 (delivers m) wss gs" and "0 \<le> sb_tag b" "sb_tag b < 8"
    and "m < length (br_peers (fst s))"
  shows "\<exists>slots b' s'. slot_builds b wss = Inr (slots, b') \<and> feed_slots (map (Pair m) slots) s = Inr s'
     \<and> view m s' = foldl (\<lambda>v g. g v) (view m s) gs"
  using assms
proof (induction wss gs arbitrary: b s rule: list_all2_induct)
  case (Cons ws wss g gs)
  let ?b = "b\<lparr>sb_tag := (sb_tag b + 1) AND 7\<rparr>"
  from Cons.hyps(1) Cons.prems(1,2) obtain r where
    sb: "slot_build b ws = Inr (tagged (sb_tag b) ws, ?b)" and
    ps: "parse_slot (tagged (sb_tag b) ws) = Inr (Some r)" and
    v: "view m (feed_parsed m r s) = g (view m s)" and
    l: "length (br_peers (fst (feed_parsed m r s))) = length (br_peers (fst s))"
    using Cons.prems(3) unfolding delivers_def by metis
  have tag: "0 \<le> sb_tag ?b" "sb_tag ?b < 8" by (simp_all add: masks take_bit_eq_mod)
  have m: "m < length (br_peers (fst (feed_parsed m r s)))" using Cons.prems(3) l by simp
  obtain slots b' s' where "slot_builds ?b wss = Inr (slots, b')"
    "feed_slots (map (Pair m) slots) (feed_parsed m r s) = Inr s'"
    "view m s' = foldl (\<lambda>v g. g v) (view m (feed_parsed m r s)) gs"
    using Cons.IH [OF tag m] by blast
  then show ?case
    by (intro exI [of _ "tagged (sb_tag b) ws # slots"] exI [of _ b'] exI [of _ s'])
       (simp add: sb ps v)
next
  case Nil
  then show ?case by (cases s) auto
qed

lemma chunk_padded:
  assumes "i < c" "length data \<le> c * frag_bytes"
  shows "ljust 12 0 (take 12 (chunk_of data i)) = chunk_of (ljust (c * frag_bytes) 0 data) i"
proof (rule nth_equalityI)
  have le: "i * frag_bytes + frag_bytes \<le> c * frag_bytes"
    using assms(1) by (metis Suc_leI add.commute mult_Suc mult_le_mono1)
  then show "length (ljust 12 0 (take 12 (chunk_of data i))) =
      length (chunk_of (ljust (c * frag_bytes) 0 data) i)"
    using assms(2) by (simp add: chunk_of_def frag_bytes_def)
  fix k assume "k < length (ljust 12 0 (take 12 (chunk_of data i)))"
  then have k: "k < 12" by (simp add: chunk_of_def frag_bytes_def)
  then show "ljust 12 0 (take 12 (chunk_of data i)) ! k = chunk_of (ljust (c * frag_bytes) 0 data) i ! k"
    using le assms(2) by (auto simp: ljust_def chunk_of_def py_slice_def nth_append frag_bytes_def)
qed

lemma blocks_in_order:
  assumes tr: "rb_track data c {} p" and len: "length data = c * frag_bytes" and "k \<le> c"
  shows "let v = foldl (\<lambda>v i. view_block m i (chunk_of data i) v) (p, cm, rq) [0..<k]
     in rb_track data c {..<k} (fst v)
        \<and> snd v = ((if k = c \<and> 0 < c then cm @ [(m, c, data)] else cm), rq)"
  using assms(3)
proof (induction k)
  case 0
  then show ?case using tr by auto
next
  case (Suc k)
  let ?v = "foldl (\<lambda>v i. view_block m i (chunk_of data i) v) (p, cm, rq) [0..<k]"
  let ?p = "on_block k (chunk_of data k) (fst ?v)"
  have IH: "rb_track data c {..<k} (fst ?v)" "snd ?v = (cm, rq)"
    using Suc by (auto simp: Let_def)
  have nd: "\<not> rb_done (fst ?v)" using IH(1) Suc.prems by (auto simp: rb_track_def)
  have "take frag_bytes (chunk_of data k) = chunk_of data k" by (simp add: chunk_of_def)
  then have "rb_track data c ({..<k} \<union> ({k} \<inter> {..<c})) ?p"
    by (intro rb_track_block [OF IH(1) len]) simp
  moreover have "{..<k} \<union> ({k} \<inter> {..<c}) = {..<Suc k}" using Suc.prems by auto
  ultimately have tr': "rb_track data c {..<Suc k} ?p" by simp
  then have d: "rb_done ?p \<longleftrightarrow> Suc k = c" using Suc.prems
    by (auto simp: rb_track_def)
  have "rb_done ?p \<Longrightarrow> rb_data ?p = data \<and> rb_count ?p = c"
    using rb_track_done_data [OF tr' len] tr' by (auto simp: rb_track_def)
  then show ?case
    using tr' d nd IH(2) by (auto simp: view_block_def Let_def)
qed

lemma foldl_fixpoint: "g x = x \<Longrightarrow> foldl (\<lambda>v g. g v) x (replicate n g) = x"
  by (induction n) simp_all

lemma view_init_repeat:
  assumes "\<not> rb_receiving p \<or> rb_done p \<or> c \<noteq> rb_count p" "0 < w"
  shows "foldl (\<lambda>v g. g v) (p, v) (replicate w (view_init c ow))
     = (on_init c (Some ((ow OR 0x80) mod 256)) p, v)"
proof -
  let ?p = "on_init c (Some ((ow OR 0x80) mod 256)) p"
  have tr: "rb_track [] c {} ?p" by (rule rb_track_init [OF assms(1)])
  then have "\<not> rb_done ?p" by (auto simp: rb_track_def)
  with tr have "view_init c ow (?p, v) = (?p, v)"
    by (simp add: view_init_def rb_track_reinit)
  then have "foldl (\<lambda>v g. g v) (?p, v) (replicate (w - 1) (view_init c ow)) = (?p, v)"
    by (rule foldl_fixpoint)
  moreover have "replicate w (view_init c ow) = view_init c ow # replicate (w - 1) (view_init c ow)"
    using assms(2) by (cases w) simp_all
  ultimately show ?thesis by (simp add: view_init_def [of c ow "(p, v)"])
qed

subsection \<open>Delivery and safety of the sender\<close>

text \<open>
  C26: in the fire-and-forget mode the whole path works end to end: the commands the sender
  emits in \<open>watchdog_init\<close> plus \<open>count\<close> ticks, turned into slots by the rolling-tag builder
  and fed to the receiver, complete exactly one block on that peer: the sender's data padded
  with zeros to whole fragments; and the sender is then done.
\<close>

theorem trusted_block_delivery:
  fixes data :: bytes
  defines "c \<equiv> frag_count (length data)"
  assumes "length data \<le> 384" and "0 < w" and "0 \<le> sb_tag b" and "sb_tag b < 8"
    and "m < length (br_peers br)"
    and "\<not> rb_receiving (br_peers br ! m) \<or> rb_done (br_peers br ! m) \<or> c \<noteq> rb_count (br_peers br ! m)"
  shows "\<exists>slots b' br'.
     slot_builds b (fst (send_run (w + c) (block_sender_new data ow w h True))) = Inr (slots, b')
     \<and> feed_slots (map (Pair m) slots) (br, [], []) = Inr (br', [(m, c, ljust (12 * c) 0 data)], [])
     \<and> sender_done (snd (send_run (w + c) (block_sender_new data ow w h True)))"
proof -
  let ?wss = "replicate w (init_words (int c) ow)
      @ map (\<lambda>k. send_block_words (int k) (chunk_of data k)) [0..<c]"
  let ?pad = "ljust (c * frag_bytes) 0 data"
  let ?gs = "replicate w (view_init c ow) @ map (\<lambda>k. view_block m k (chunk_of ?pad k)) [0..<c]"
  have c: "c \<le> 32" "0 < c" and lc: "length data \<le> c * frag_bytes"
    using assms(2) by (auto simp: c_def frag_count_def frag_bytes_def)
  have lp: "length ?pad = c * frag_bytes" using lc by simp
  have run: "fst (send_run (w + c) (block_sender_new data ow w h True)) = ?wss"
    "sender_done (snd (send_run (w + c) (block_sender_new data ow w h True)))"
    using send_run_trusted [of c data w ow h] by (simp_all add: c_def)
  have "list_all2 (delivers m) (map (\<lambda>k. send_block_words (int k) (chunk_of data k)) [0..<c])
      (map (\<lambda>k. view_block m k (chunk_of ?pad k)) [0..<c])"
    using c(1) by (auto simp: list_all2_conv_all_nth chunk_padded [OF _ lc, symmetric]
        intro!: delivers_block)
  moreover have "list_all2 (delivers m) (replicate w (init_words (int c) ow)) (replicate w (view_init c ow))"
    using c by (auto simp: list_all2_conv_all_nth intro!: delivers_init)
  ultimately have "list_all2 (delivers m) ?wss ?gs" by (rule list_all2_appendI [rotated])
  moreover have "m < length (br_peers (fst (br, [], [])))" using assms(6) by simp
  ultimately obtain slots b' s' where r: "slot_builds b ?wss = Inr (slots, b')"
    "feed_slots (map (Pair m) slots) (br, [], []) = Inr s'"
    "view m s' = foldl (\<lambda>v g. g v) (view m (br, [], [])) ?gs"
    using delivers_run [OF _ assms(4,5)] by blast
  let ?p = "on_init c (Some ((ow OR 0x80) mod 256)) (br_peers br ! m)"
  have "rb_track ?pad c {} ?p" by (rule rb_track_init [OF assms(7)])
  from blocks_in_order [OF this lp order.refl, of m "[]" "[]"] c(2)
  have "snd (view m s') = ([(m, c, ?pad)], [])"
    using r(3) by (simp add: view_def view_init_repeat [OF assms(7,3)] foldl_map Let_def)
  moreover have "?pad = ljust (12 * c) 0 data" by (simp add: frag_bytes_def mult.commute)
  ultimately have "s' = (fst s', [(m, c, ljust (12 * c) 0 data)], [])"
    by (cases s') (simp add: view_def)
  then have "feed_slots (map (Pair m) slots) (br, [], []) = Inr (fst s', [(m, c, ljust (12 * c) 0 data)], [])"
    using r(2) by simp
  then show ?thesis using r(1) run by (simp only:) blast
qed

theorem trusted_block_delivery_witness:
  "\<exists>slots b' br'.
     slot_builds slot_builder_init (fst (send_run (4 + 2) (block_sender_new (replicate 20 9) 1 4 6 True)))
       = Inr (slots, b')
     \<and> feed_slots (map (Pair 1) slots) (block_receiver_new 5, [], [])
       = Inr (br', [(1, 2, ljust (12 * 2) 0 (replicate 20 9))], [])
     \<and> sender_done (snd (send_run (4 + 2) (block_sender_new (replicate 20 9) 1 4 6 True)))"
proof -
  have fc: "frag_count (length (replicate 20 (9::byte))) = 2"
    by (simp add: frag_count_def frag_bytes_def)
  show ?thesis
    by (rule trusted_block_delivery [of "replicate 20 9" 4 slot_builder_init 1 "block_receiver_new 5" 1 6,
          unfolded fc])
       (simp_all add: slot_builder_init_def block_receiver_new_def recv_block_new_def)
qed

text \<open>
  in the faithful mode, while the reflection of the host is available, the sender leaves
  the HOLD state only when the reflection has seen the last fragment and its mask is full;
  until then every tick sends a fragment of the block, and never an idle slot.
\<close>

theorem hold_ends_only_when_confirmed:
  assumes "bs_state b = BS_Hold" and "bs_tick (Some a) b = (ws, b')"
  shows "(bs_state b' = BS_Done \<longleftrightarrow>
            rb_last_index a = int (bs_count b - 1) \<and> rb_flags a = all_received_mask (bs_count b))
       \<and> (bs_state b' \<noteq> BS_Done \<longrightarrow> bs_state b' = BS_Hold \<and>
            (\<exists>i. ws = send_block_words (int i) (bs_chunk b i)))"
  using assms
  by (auto simp: bs_tick_def bs_hold_def Let_def bs_chunk_def split: if_splits)

theorem hold_ends_only_when_confirmed_witness:
  "bs_state (snd (bs_tick (Some (on_init 2 None recv_block_new))
      ((block_sender_new (replicate 20 9) 1 4 6 False)\<lparr>bs_state := BS_Hold\<rparr>))) \<noteq> BS_Done"
proof -
  let ?a = "on_init 2 None recv_block_new"
  let ?b = "(block_sender_new (replicate 20 9) 1 4 6 False)\<lparr>bs_state := BS_Hold\<rparr>"
  obtain ws b' where t: "bs_tick (Some ?a) ?b = (ws, b')" by (cases "bs_tick (Some ?a) ?b")
  have "bs_state ?b = BS_Hold" by simp
  from hold_ends_only_when_confirmed [OF this t] have "bs_state b' \<noteq> BS_Done"
    by (simp add: on_init_def recv_block_new_def block_sender_new_def frag_count_def frag_bytes_def)
  then show ?thesis unfolding t snd_conv .
qed

end
