(* ===== verification/Reliable.thy ===== *)
theory Reliable
  imports Complex_Main "HOL-Library.Sublist" Prelude
begin

section \<open>The Pia reliable layer (\<open>bridge/frlgsim/reliable.py\<close>)\<close>

text \<open>
  The sliding-window link (\<^verbatim>\<open>ReliableLink\<close>), the bulk acknowledgement, and the
  tiling of application blobs into messages.  Sequence numbers are 16-bit words, so the
  wrap-around of \<^verbatim>\<open>(x + 1) & 0xFFFF\<close> is the word addition.  Times, round-trip samples and
  timeouts, which the code holds as Python numbers, are exact rationals.  The dictionary of
  unacknowledged frames is an association list in insertion order, because the acknowledged
  frames contribute their round-trip samples in that order.
\<close>

type_synonym seq16 = "16 word"

definition rto_base_ms :: rat where "rto_base_ms = 33"
definition rto_rtt_factor :: rat where "rto_rtt_factor = 7 / 5"
definition rtt_window :: nat where "rtt_window = 7"
definition flagsa_gba :: byte where "flagsa_gba = 0x07"

definition build_bulk_ack :: "seq16 \<Rightarrow> bytes \<Rightarrow> int \<Rightarrow> bytes" where
  "build_bulk_ack next_expected msk stream_id =
     [word_of_int (stream_id AND 0xFF), 1] @ to_be 2 (uint next_expected) @ msk"

definition parse_bulk_ack :: "bytes \<Rightarrow> seq16 option \<times> bytes" where
  "parse_bulk_ack payload =
     (if length payload < 4 then (None, [])
      else (Some (word_of_int (from_be (py_slice payload 2 4))), ljust 16 0 (py_slice payload 4 20)))"

definition seq_lt :: "seq16 \<Rightarrow> seq16 \<Rightarrow> bool" where
  "seq_lt a b = (let d = b - a in d \<noteq> 0 \<and> d < 0x8000)"

subsection \<open>The link\<close>

record entry =
  e_flags :: byte
  e_inner :: bytes
  e_lasttx :: rat
  e_resends :: nat
  e_acked :: bool

record reliable_link =
  rl_out_seq :: seq16
  rl_window_lo :: seq16
  rl_unacked :: "(seq16 \<times> entry) list"
  rl_recv_next :: seq16
  rl_recv_buf :: "(seq16 \<times> bytes) list"
  rl_recv_ooo :: "seq16 list"
  rl_max_inflight :: nat
  rl_rtt :: "rat list"
  rl_jitter_k :: rat
  rl_dup_nack :: nat
  rl_rto_ceil :: "rat option"
  rl_rto_backoff :: rat
  rl_rto_bootstrap :: "rat option"
  rl_peer_gap :: "seq16 option"
  rl_gap_nacks :: nat

definition reliable_link_new ::
  "seq16 \<Rightarrow> nat \<Rightarrow> rat \<Rightarrow> nat \<Rightarrow> rat option \<Rightarrow> rat \<Rightarrow> rat option \<Rightarrow> reliable_link" where
  "reliable_link_new start max_inflight jitter_k dup_nack ceil backoff bootstrap =
     \<lparr>rl_out_seq = start, rl_window_lo = start, rl_unacked = [], rl_recv_next = start,
      rl_recv_buf = [], rl_recv_ooo = [], rl_max_inflight = max_inflight, rl_rtt = [],
      rl_jitter_k = jitter_k, rl_dup_nack = max 1 dup_nack, rl_rto_ceil = ceil,
      rl_rto_backoff = backoff, rl_rto_bootstrap = bootstrap, rl_peer_gap = None, rl_gap_nacks = 0\<rparr>"

text \<open>Dictionary assignment: an existing key keeps its place.\<close>

fun alist_put :: "'k \<Rightarrow> 'v \<Rightarrow> ('k \<times> 'v) list \<Rightarrow> ('k \<times> 'v) list" where
  "alist_put k v [] = [(k, v)]"
| "alist_put k v ((k', v') # xs) = (if k' = k then (k, v) # xs else (k', v') # alist_put k v xs)"

definition alist_del :: "'k \<Rightarrow> ('k \<times> 'v) list \<Rightarrow> ('k \<times> 'v) list" where
  "alist_del k xs = filter (\<lambda>(k', v). k' \<noteq> k) xs"

definition rl_inflight :: "reliable_link \<Rightarrow> nat" where
  "rl_inflight l = length (rl_unacked l)"

definition rl_send_low :: "reliable_link \<Rightarrow> seq16" where
  "rl_send_low l = (if rl_unacked l \<noteq> [] then rl_window_lo l else rl_out_seq l)"

definition rl_queue :: "bytes \<Rightarrow> byte \<Rightarrow> rat \<Rightarrow> reliable_link \<Rightarrow> seq16 \<times> reliable_link" where
  "rl_queue inner flagsA now_ms l =
     (let s = rl_out_seq l
      in (s, l\<lparr>rl_out_seq := s + 1,
               rl_unacked := alist_put s \<lparr>e_flags = flagsA, e_inner = inner, e_lasttx = now_ms,
                                         e_resends = 0, e_acked = False\<rparr> (rl_unacked l)\<rparr>))"

definition add_rtt_sample :: "rat option \<Rightarrow> rat list \<Rightarrow> rat list" where
  "add_rtt_sample rtt_ms rtt =
     (case rtt_ms of None \<Rightarrow> rtt
      | Some x \<Rightarrow> if x < 0 then rtt
                  else let r = rtt @ [x]
                       in if rtt_window < length r then drop (length r - rtt_window) r else r)"

definition median :: "rat list \<Rightarrow> rat" where
  "median xs = sort xs ! (length xs div 2)"

definition clamp_rto :: "rat option \<Rightarrow> rat \<Rightarrow> rat" where
  "clamp_rto ceil r = (case ceil of None \<Rightarrow> r | Some c \<Rightarrow> min r c)"

definition rl_rto :: "reliable_link \<Rightarrow> rat option" where
  "rl_rto l =
     (if rl_rtt l \<noteq> [] then
        let med = median (rl_rtt l);
            base = rto_base_ms + rto_rtt_factor * med;
            mad = sum_list (map (\<lambda>x. \<bar>x - med\<bar>) (rl_rtt l)) / of_nat (length (rl_rtt l));
            r = (if rl_jitter_k l \<noteq> 0 then base + rl_jitter_k l * mad else base)
        in Some (clamp_rto (rl_rto_ceil l) r)
      else case rl_rto_bootstrap l of
             None \<Rightarrow> None
           | Some b \<Rightarrow> Some (clamp_rto (rl_rto_ceil l) b))"

subsection \<open>Acknowledgements\<close>

definition ack_arrived :: "seq16 \<Rightarrow> int \<Rightarrow> seq16 \<Rightarrow> bool" where
  "ack_arrived ack_id maskint s =
     (seq_lt s ack_id
      \<or> (maskint \<noteq> 0 \<and>
          (let i = s - ack_id - 1 in i < 128 \<and> drop_bit (unat i) maskint AND 1 \<noteq> 0)))"

fun ack_entries ::
  "seq16 \<Rightarrow> int \<Rightarrow> rat option \<Rightarrow> (seq16 \<times> entry) list \<Rightarrow> rat list \<Rightarrow> (seq16 \<times> entry) list \<times> rat list" where
  "ack_entries ack_id maskint now_ms [] rtt = ([], rtt)"
| "ack_entries ack_id maskint now_ms ((s, e) # es) rtt =
     (let hit = ack_arrived ack_id maskint s \<and> \<not> e_acked e;
          rtt' = (case now_ms of None \<Rightarrow> rtt
                  | Some now \<Rightarrow> if hit \<and> e_resends e = 0
                                 then add_rtt_sample (Some (now - e_lasttx e)) rtt else rtt);
          e' = (if hit then e\<lparr>e_acked := True\<rparr> else e);
          (es', rtt'') = ack_entries ack_id maskint now_ms es rtt'
      in ((s, e') # es', rtt''))"

text \<open>Free the contiguous acknowledged run at the window base.\<close>

function free_acked :: "seq16 \<Rightarrow> (seq16 \<times> entry) list \<Rightarrow> seq16 \<times> (seq16 \<times> entry) list" where
  "free_acked lo un =
     (case map_of un lo of
        Some e \<Rightarrow> if e_acked e then free_acked (lo + 1) (alist_del lo un) else (lo, un)
      | None \<Rightarrow> (lo, un))"
  by pat_completeness auto
termination
proof (relation "measure (\<lambda>(lo, un). length un)")
  fix lo :: seq16 and un :: "(seq16 \<times> entry) list" and e
  assume "map_of un lo = Some e"
  then have "(lo, e) \<in> set un" by (rule map_of_SomeD)
  then show "((lo + 1, alist_del lo un), lo, un) \<in> measure (\<lambda>(lo, un). length un)"
    by (auto simp: alist_del_def intro: length_filter_less)
qed simp

declare free_acked.simps [simp del]

definition track_gap :: "seq16 \<Rightarrow> int \<Rightarrow> reliable_link \<Rightarrow> reliable_link" where
  "track_gap ack_id maskint l =
     (if maskint \<noteq> 0 \<and> (case map_of (rl_unacked l) ack_id of None \<Rightarrow> False | Some e \<Rightarrow> \<not> e_acked e) then
        if rl_peer_gap l = Some ack_id then l\<lparr>rl_gap_nacks := rl_gap_nacks l + 1\<rparr>
        else l\<lparr>rl_peer_gap := Some ack_id, rl_gap_nacks := 1\<rparr>
      else l\<lparr>rl_peer_gap := None, rl_gap_nacks := 0\<rparr>)"

definition rl_on_ack :: "seq16 option \<Rightarrow> bytes option \<Rightarrow> rat option \<Rightarrow> reliable_link \<Rightarrow> reliable_link" where
  "rl_on_ack ack msk now_ms l =
     (case ack of None \<Rightarrow> l
      | Some ack_id \<Rightarrow>
          let maskint = (case msk of None \<Rightarrow> 0 | Some m \<Rightarrow> from_le m);
              (un, rtt) = ack_entries ack_id maskint now_ms (rl_unacked l) (rl_rtt l);
              (lo, un') = free_acked (rl_window_lo l) un
          in track_gap ack_id maskint
               (l\<lparr>rl_unacked := un', rl_rtt := rtt, rl_window_lo := lo\<rparr>))"

subsection \<open>Retransmission\<close>

definition retransmit_due :: "rat \<Rightarrow> rat option \<Rightarrow> reliable_link \<Rightarrow> seq16 \<Rightarrow> entry \<Rightarrow> bool" where
  "retransmit_due now_ms base_rto l s e =
     (if rl_peer_gap l = Some s \<and> e_resends e = 0 \<and> rl_dup_nack l \<le> rl_gap_nacks l then True
      else case base_rto of
             None \<Rightarrow> False
           | Some base \<Rightarrow>
               clamp_rto (rl_rto_ceil l) (base * rl_rto_backoff l ^ e_resends e) \<le> now_ms - e_lasttx e)"

fun due_loop ::
  "rat \<Rightarrow> nat option \<Rightarrow> rat option \<Rightarrow> reliable_link \<Rightarrow> seq16 list \<Rightarrow> (seq16 \<times> byte \<times> bytes) list
     \<Rightarrow> (seq16 \<times> byte \<times> bytes) list \<times> reliable_link" where
  "due_loop now_ms lm base_rto l [] out = (out, l)"
| "due_loop now_ms lm base_rto l (s # ss) out =
     (case map_of (rl_unacked l) s of
        None \<Rightarrow> due_loop now_ms lm base_rto l ss out
      | Some e \<Rightarrow>
          if e_acked e then due_loop now_ms lm base_rto l ss out
          else if retransmit_due now_ms base_rto l s e then
            let l' = l\<lparr>rl_unacked := alist_put s (e\<lparr>e_lasttx := now_ms, e_resends := e_resends e + 1\<rparr>)
                                       (rl_unacked l)\<rparr>;
                out' = out @ [(s, e_flags e, e_inner e)]
            in (case lm of
                  Some n \<Rightarrow> if n \<le> length out' then (out', l') else due_loop now_ms lm base_rto l' ss out'
                | None \<Rightarrow> due_loop now_ms lm base_rto l' ss out')
          else (case lm of Some n \<Rightarrow> (out, l) | None \<Rightarrow> due_loop now_ms lm base_rto l ss out))"

definition rl_due_retransmits ::
  "rat \<Rightarrow> nat option \<Rightarrow> reliable_link \<Rightarrow> (seq16 \<times> byte \<times> bytes) list \<times> reliable_link" where
  "rl_due_retransmits now_ms lm l =
     due_loop now_ms lm (rl_rto l) l
       (sort_key (\<lambda>s. unat (s - rl_window_lo l)) (map fst (rl_unacked l))) []"

subsection \<open>Receive side\<close>

function drain_buf :: "seq16 \<Rightarrow> (seq16 \<times> bytes) list \<Rightarrow> bytes list \<times> seq16 \<times> (seq16 \<times> bytes) list" where
  "drain_buf nxt buf =
     (case map_of buf nxt of
        None \<Rightarrow> ([], nxt, buf)
      | Some p \<Rightarrow> let (out, n, b) = drain_buf (nxt + 1) (alist_del nxt buf) in (p # out, n, b))"
  by pat_completeness auto
termination
proof (relation "measure (\<lambda>(nxt, buf). length buf)")
  fix nxt :: seq16 and buf :: "(seq16 \<times> bytes) list" and p
  assume "map_of buf nxt = Some p"
  then have "(nxt, p) \<in> set buf" by (rule map_of_SomeD)
  then show "((nxt + 1, alist_del nxt buf), nxt, buf) \<in> measure (\<lambda>(nxt, buf). length buf)"
    by (auto simp: alist_del_def intro: length_filter_less)
qed simp

declare drain_buf.simps [simp del]

definition rl_on_data :: "seq16 \<Rightarrow> bytes \<Rightarrow> reliable_link \<Rightarrow> bytes list \<times> reliable_link" where
  "rl_on_data s payload l =
     (if s = rl_recv_next l then
        let (out, n, b) = drain_buf (rl_recv_next l + 1) (rl_recv_buf l)
        in (payload # out, l\<lparr>rl_recv_next := n, rl_recv_buf := b\<rparr>)
      else if seq_lt (rl_recv_next l) s then
        ([], l\<lparr>rl_recv_buf := alist_put s payload (rl_recv_buf l)\<rparr>)
      else ([], l))"

function drain_ooo :: "seq16 \<Rightarrow> seq16 list \<Rightarrow> seq16 \<times> seq16 list" where
  "drain_ooo nxt ooo =
     (if nxt \<in> set ooo then drain_ooo (nxt + 1) (filter (\<lambda>s. s \<noteq> nxt) ooo) else (nxt, ooo))"
  by pat_completeness auto
termination
  by (relation "measure (\<lambda>(nxt, ooo). length ooo)") (auto intro: length_filter_less)

declare drain_ooo.simps [simp del]

definition rl_note_received :: "seq16 \<Rightarrow> reliable_link \<Rightarrow> reliable_link" where
  "rl_note_received s l =
     (if s = rl_recv_next l then
        let (n, ooo) = drain_ooo (rl_recv_next l + 1) (rl_recv_ooo l)
        in l\<lparr>rl_recv_next := n, rl_recv_ooo := ooo\<rparr>
      else if seq_lt (rl_recv_next l) s then
        l\<lparr>rl_recv_ooo := (if s \<in> set (rl_recv_ooo l) then rl_recv_ooo l else rl_recv_ooo l @ [s])\<rparr>
      else l)"

definition set_mask_bit :: "seq16 \<Rightarrow> bytes \<Rightarrow> seq16 \<Rightarrow> bytes" where
  "set_mask_bit nxt msk s =
     (let i = s - nxt - 1
      in if i < 128 then
           let k = unat i in msk[k div 8 := (msk ! (k div 8)) OR push_bit (k mod 8) 1]
         else msk)"

definition rl_ack_payload :: "reliable_link \<Rightarrow> bytes" where
  "rl_ack_payload l =
     build_bulk_ack (rl_recv_next l)
       (foldl (set_mask_bit (rl_recv_next l)) (replicate 16 0) (rl_recv_ooo l)) 0"

subsection \<open>Messages\<close>

record message =
  m_flags :: byte
  m_proto :: "byte option"
  m_size :: nat
  m_payload :: bytes
  m_msgflags :: byte
  m_hdr :: bytes

record msg_ctx =
  mc_mf :: byte
  mc_size :: "nat option"
  mc_proto :: "byte option"

text \<open>
  The optional header fields after the flag byte, in the code's order; \<open>None\<close> is one of
  the \<^verbatim>\<open>break\<close>s on a truncated header.
\<close>

definition msg_field_mf :: "byte \<Rightarrow> msg_ctx \<times> bytes \<Rightarrow> (msg_ctx \<times> bytes) option" where
  "msg_field_mf fl s =
     (if fl AND 1 = 0 then Some s
      else case snd s of [] \<Rightarrow> None | m # r \<Rightarrow> Some ((fst s)\<lparr>mc_mf := m\<rparr>, r))"

definition msg_field_size :: "byte \<Rightarrow> msg_ctx \<times> bytes \<Rightarrow> (msg_ctx \<times> bytes) option" where
  "msg_field_size fl s =
     (if fl AND 2 = 0 then Some s
      else if length (snd s) < 2 then None
      else Some ((fst s)\<lparr>mc_size := Some (nat (from_be (take 2 (snd s))))\<rparr>, drop 2 (snd s)))"

definition msg_field_proto :: "byte \<Rightarrow> msg_ctx \<times> bytes \<Rightarrow> (msg_ctx \<times> bytes) option" where
  "msg_field_proto fl s =
     (if fl AND 4 = 0 then Some s
      else case snd s of [] \<Rightarrow> None | p # r \<Rightarrow> Some ((fst s)\<lparr>mc_proto := Some p\<rparr>, r))"

definition msg_field_port :: "byte \<Rightarrow> msg_ctx \<times> bytes \<Rightarrow> (msg_ctx \<times> bytes) option" where
  "msg_field_port fl s =
     (if fl AND 8 = 0 then Some s
      else case snd s of [] \<Rightarrow> None | p # r \<Rightarrow> Some (fst s, r))"

definition msg_header :: "byte \<Rightarrow> msg_ctx \<Rightarrow> bytes \<Rightarrow> (msg_ctx \<times> bytes) option" where
  "msg_header fl ctx r =
     Option.bind (msg_field_mf fl (ctx, r)) (\<lambda>s1. Option.bind (msg_field_size fl s1)
       (\<lambda>s2. Option.bind (msg_field_proto fl s2) (msg_field_port fl)))"

lemma msg_field_le:
  "msg_field_mf fl s = Some s' \<Longrightarrow> length (snd s') \<le> length (snd s)"
  "msg_field_size fl s = Some s' \<Longrightarrow> length (snd s') \<le> length (snd s)"
  "msg_field_proto fl s = Some s' \<Longrightarrow> length (snd s') \<le> length (snd s)"
  "msg_field_port fl s = Some s' \<Longrightarrow> length (snd s') \<le> length (snd s)"
  by (auto simp: msg_field_mf_def msg_field_size_def msg_field_proto_def msg_field_port_def
      split: if_splits list.splits)

lemma msg_header_le: "msg_header fl ctx r = Some (c, rest) \<Longrightarrow> length rest \<le> length r"
  unfolding msg_header_def bind_eq_Some_conv by (fastforce dest: msg_field_le)

function parse_msgs :: "msg_ctx \<Rightarrow> bytes \<Rightarrow> message list \<times> bytes" where
  "parse_msgs ctx [] = ([], [])"
| "parse_msgs ctx (fl # r) =
     (if fl = 0xFF \<or> fl AND 0xF0 \<noteq> 0 then ([], fl # r)
      else if fl = 0 \<and> mc_size ctx = None then ([], fl # r)
      else case msg_header fl ctx r of
          None \<Rightarrow> ([], fl # r)
        | Some (c, rest) \<Rightarrow>
            (case mc_size c of
               None \<Rightarrow> ([], fl # r)
             | Some sz \<Rightarrow>
                 if length rest < sz then ([], fl # r)
                 else let m = \<lparr>m_flags = fl, m_proto = mc_proto c, m_size = sz, m_payload = take sz rest,
                               m_msgflags = mc_mf c, m_hdr = fl # take (length r - length rest) r\<rparr>;
                          (ms, tl) = parse_msgs c (drop sz rest)
                      in (m # ms, tl)))"
  by pat_completeness auto
termination
  by (relation "measure (\<lambda>(ctx, d). length d)") (auto dest: msg_header_le)

definition parse_messages :: "bytes \<Rightarrow> message list \<times> nat" where
  "parse_messages data =
     (let (ms, rest) = parse_msgs \<lparr>mc_mf = 0, mc_size = None, mc_proto = None\<rparr> data
      in (ms, length data - length rest))"

definition message_serialize :: "message \<Rightarrow> bytes" where
  "message_serialize m = m_hdr m @ m_payload m"

definition build_message :: "byte \<Rightarrow> bytes \<Rightarrow> byte option \<Rightarrow> py_error + bytes" where
  "build_message proto payload msgflags =
     bindr (to_bytes_be 2 (int (length payload))) (\<lambda>ln.
       Inr ((case msgflags of None \<Rightarrow> [0x02 OR 0x04] | Some mf \<Rightarrow> [0x02 OR 0x04 OR 0x01, mf])
            @ ln @ [proto] @ payload))"

record rel_frame =
  rf_flags :: byte
  rf_seq :: seq16
  rf_ack :: seq16
  rf_payload :: bytes

definition build_reliable :: "seq16 \<Rightarrow> seq16 \<Rightarrow> bytes \<Rightarrow> byte \<Rightarrow> py_error + bytes" where
  "build_reliable s ack inner flagsA =
     bindr (to_bytes_be 2 (int (length inner))) (\<lambda>ln.
       Inr ([flagsA] @ ln @ to_be 2 (uint s) @ to_be 2 (uint ack) @ [0] @ inner))"

definition parse_reliable :: "bytes \<Rightarrow> (rel_frame \<times> int) option" where
  "parse_reliable payload =
     (if length payload < 8 then None
      else let ln = from_be (py_slice payload 1 3)
           in Some (\<lparr>rf_flags = payload ! 0, rf_seq = word_of_int (from_be (py_slice payload 3 5)),
                    rf_ack = word_of_int (from_be (py_slice payload 5 7)),
                    rf_payload = py_slice payload 8 (8 + nat ln)\<rparr>, ln))"

definition rstrip_ff :: "bytes \<Rightarrow> bytes" where
  "rstrip_ff bs = rev (dropWhile (\<lambda>b. b = 0xFF) (rev bs))"

definition parse_app :: "bytes \<Rightarrow> message list \<times> int option \<times> nat" where
  "parse_app data =
     (let (ms, consumed) = parse_messages data; tl = drop consumed data; stripped = rstrip_ff tl
      in (ms, (if length stripped = 2 then Some (from_be stripped) else None), length tl))"

definition build_app :: "bytes list \<Rightarrow> int \<Rightarrow> nat \<Rightarrow> py_error + bytes" where
  "build_app messages station_id pad =
     bindr (to_bytes_be 2 station_id) (\<lambda>st. Inr (concat messages @ st @ replicate pad 0xFF))"

subsection \<open>The send window\<close>

definition seqs :: "seq16 \<Rightarrow> nat \<Rightarrow> seq16 list" where
  "seqs lo n = map (\<lambda>j. lo + of_nat j) [0..<n]"

lemma seqs_0 [simp]: "seqs lo 0 = []"
  by (simp add: seqs_def)

lemma seqs_Suc: "seqs lo (Suc n) = lo # seqs (lo + 1) n"
  by (simp add: seqs_def upt_conv_Cons map_Suc_upt [symmetric] algebra_simps del: upt_Suc)

lemma seqs_snoc: "seqs lo (Suc n) = seqs lo n @ [lo + of_nat n]"
  by (simp add: seqs_def)

lemma length_seqs [simp]: "length (seqs lo n) = n"
  by (simp add: seqs_def)

lemma distinct_seqs: "n \<le> 65536 \<Longrightarrow> distinct (seqs lo n)"
  by (auto simp: seqs_def distinct_map inj_on_def dest!: arg_cong [where f = unat])
     (simp add: unat_of_nat)

definition win_inv :: "reliable_link \<Rightarrow> bool" where
  "win_inv l \<longleftrightarrow> map fst (rl_unacked l) = seqs (rl_window_lo l) (length (rl_unacked l))
     \<and> rl_out_seq l = rl_window_lo l + of_nat (length (rl_unacked l))
     \<and> length (rl_unacked l) \<le> rl_max_inflight l \<and> rl_max_inflight l \<le> 128"

lemma alist_put_new: "k \<notin> fst ` set xs \<Longrightarrow> alist_put k v xs = xs @ [(k, v)]"
  by (induction xs) auto

lemma alist_put_keys: "k \<in> fst ` set xs \<Longrightarrow> map fst (alist_put k v xs) = map fst xs"
  by (induction xs) force+

lemma length_alist_put: "k \<in> fst ` set xs \<Longrightarrow> length (alist_put k v xs) = length xs"
  by (metis alist_put_keys length_map)

lemma map_of_alist_put: "map_of (alist_put k v xs) = (map_of xs)(k \<mapsto> v)"
  by (induction xs) auto

lemma alist_del_notin: "k \<notin> fst ` set xs \<Longrightarrow> alist_del k xs = xs"
  by (induction xs) (auto simp: alist_del_def)

lemma map_of_alist_del: "map_of (alist_del k xs) = (map_of xs)(k := None)"
  by (induction xs) (auto simp: alist_del_def)

lemma win_inv_queue:
  assumes "win_inv l" "rl_inflight l < rl_max_inflight l" "rl_queue inner fl now l = (s, l')"
  shows "win_inv l' \<and> s = rl_out_seq l \<and> s \<notin> fst ` set (rl_unacked l)"
proof -
  let ?n = "length (rl_unacked l)"
  have n: "?n < 128" using assms(1,2) by (simp add: win_inv_def rl_inflight_def)
  have "distinct (seqs (rl_window_lo l) (Suc ?n))" by (rule distinct_seqs) (use n in simp)
  then have "rl_out_seq l \<notin> set (map fst (rl_unacked l))"
    using assms(1) by (simp add: win_inv_def seqs_snoc)
  then have new: "rl_out_seq l \<notin> fst ` set (rl_unacked l)" by simp
  then show ?thesis
    using assms by (auto simp: rl_queue_def Let_def alist_put_new win_inv_def seqs_snoc rl_inflight_def
        simp del: of_nat_Suc) (simp add: algebra_simps)
qed

definition mark_acked :: "seq16 \<Rightarrow> int \<Rightarrow> seq16 \<times> entry \<Rightarrow> seq16 \<times> entry" where
  "mark_acked a m x = (fst x, if ack_arrived a m (fst x) then (snd x)\<lparr>e_acked := True\<rparr> else snd x)"

lemma ack_entries_mark: "fst (ack_entries a m now es rtt) = map (mark_acked a m) es"
proof (induction a m now es rtt rule: ack_entries.induct)
  case (2 a m now s e es rtt)
  have "e_acked e \<Longrightarrow> e\<lparr>e_acked := True\<rparr> = e" by simp
  then show ?case using 2 by (auto simp: mark_acked_def Let_def case_prod_beta)
qed simp

lemma free_acked_dropWhile:
  assumes "map fst un = seqs lo (length un)" "length un \<le> 65536"
  shows "free_acked lo un =
     (lo + of_nat (length (takeWhile (\<lambda>x. e_acked (snd x)) un)), dropWhile (\<lambda>x. e_acked (snd x)) un)"
  using assms
proof (induction un arbitrary: lo)
  case Nil
  then show ?case by (simp add: free_acked.simps)
next
  case (Cons x un)
  obtain e where x: "x = (lo, e)" and un: "map fst un = seqs (lo + 1) (length un)"
    using Cons.prems(1) by (cases x) (simp add: seqs_Suc)
  have "distinct (seqs lo (Suc (length un)))" by (rule distinct_seqs) (use Cons.prems(2) in simp)
  then have "lo \<notin> set (map fst un)" by (simp add: seqs_Suc un)
  then have d: "alist_del lo (x # un) = un"
    using alist_del_notin [of lo un] by (simp add: x alist_del_def)
  have "free_acked (lo + 1) un = (lo + 1 + of_nat (length (takeWhile (\<lambda>x. e_acked (snd x)) un)),
      dropWhile (\<lambda>x. e_acked (snd x)) un)"
    by (rule Cons.IH [OF un]) (use Cons.prems(2) in simp)
  then show ?case
    using d by (subst free_acked.simps) (simp add: x algebra_simps)
qed

lemma track_gap_frame [simp]:
  "rl_unacked (track_gap a m l) = rl_unacked l" "rl_window_lo (track_gap a m l) = rl_window_lo l"
  "rl_out_seq (track_gap a m l) = rl_out_seq l" "rl_max_inflight (track_gap a m l) = rl_max_inflight l"
  "rl_recv_next (track_gap a m l) = rl_recv_next l" "rl_recv_ooo (track_gap a m l) = rl_recv_ooo l"
  "rl_recv_buf (track_gap a m l) = rl_recv_buf l"
  by (auto simp: track_gap_def)

lemma seqs_drop: "k \<le> n \<Longrightarrow> drop k (seqs lo n) = seqs (lo + of_nat k) (n - k)"
proof (induction k arbitrary: lo n)
  case (Suc k)
  then obtain m where n: "n = Suc m" by (cases n) auto
  have "drop k (seqs (lo + 1) m) = seqs (lo + 1 + of_nat k) (m - k)" using Suc n by simp
  then show ?case by (simp add: n seqs_Suc algebra_simps)
qed simp

abbreviation maskint :: "bytes option \<Rightarrow> int" where
  "maskint msk \<equiv> (case msk of None \<Rightarrow> 0 | Some m \<Rightarrow> from_le m)"

lemma on_ack_unacked:
  assumes "win_inv l"
  defines "marked \<equiv> \<lambda>a msk. map (mark_acked a (maskint msk)) (rl_unacked l)"
  shows "rl_unacked (rl_on_ack (Some a) msk now l) = dropWhile (\<lambda>x. e_acked (snd x)) (marked a msk)"
    and "rl_window_lo (rl_on_ack (Some a) msk now l)
         = rl_window_lo l + of_nat (length (takeWhile (\<lambda>x. e_acked (snd x)) (marked a msk)))"
proof -
  have k: "map fst (marked a msk) = seqs (rl_window_lo l) (length (marked a msk))"
    "length (marked a msk) \<le> 65536"
    using assms by (simp_all add: win_inv_def mark_acked_def comp_def)
  note f = free_acked_dropWhile [OF k]
  have m: "fst (ack_entries a (maskint msk) now (rl_unacked l) (rl_rtt l)) = marked a msk"
    by (simp add: ack_entries_mark marked_def)
  show "rl_unacked (rl_on_ack (Some a) msk now l) = dropWhile (\<lambda>x. e_acked (snd x)) (marked a msk)"
    "rl_window_lo (rl_on_ack (Some a) msk now l)
         = rl_window_lo l + of_nat (length (takeWhile (\<lambda>x. e_acked (snd x)) (marked a msk)))"
    by (simp_all add: rl_on_ack_def Let_def case_prod_beta m f)
qed

lemma on_ack_frame [simp]:
  "rl_out_seq (rl_on_ack a msk now l) = rl_out_seq l"
  "rl_max_inflight (rl_on_ack a msk now l) = rl_max_inflight l"
  by (auto simp: rl_on_ack_def Let_def case_prod_beta split: option.splits)

lemma win_inv_on_ack:
  assumes "win_inv l"
  shows "win_inv (rl_on_ack ack msk now l)"
proof (cases ack)
  case None
  then show ?thesis using assms by (simp add: rl_on_ack_def)
next
  case (Some a)
  let ?M = "map (mark_acked a (maskint msk)) (rl_unacked l)"
  let ?k = "length (takeWhile (\<lambda>x. e_acked (snd x)) ?M)"
  have k: "?k \<le> length ?M" by (rule length_takeWhile_le)
  have dw: "dropWhile (\<lambda>x. e_acked (snd x)) ?M = drop ?k ?M" by (rule dropWhile_eq_drop)
  have fst: "map fst ?M = seqs (rl_window_lo l) (length ?M)"
    using assms by (simp add: win_inv_def mark_acked_def comp_def)
  have "map fst (drop ?k ?M) = drop ?k (seqs (rl_window_lo l) (length ?M))"
    by (simp only: drop_map [symmetric] fst)
  also have "\<dots> = seqs (rl_window_lo l + of_nat ?k) (length ?M - ?k)"
    by (rule seqs_drop [OF k])
  finally have "map fst (drop ?k ?M) = seqs (rl_window_lo l + of_nat ?k) (length ?M - ?k)" .
  moreover have "length ?M = length (rl_unacked l)" by simp
  ultimately show ?thesis
    using assms k unfolding Some win_inv_def on_ack_unacked [OF assms] dw on_ack_frame
    by (simp only: length_drop) (auto simp: of_nat_diff intro: order.trans [OF diff_le_self])
qed

text \<open>Retransmission only restamps entries: no key, count or base changes.\<close>

definition same_window :: "reliable_link \<Rightarrow> reliable_link \<Rightarrow> bool" where
  "same_window l l' \<longleftrightarrow> map fst (rl_unacked l') = map fst (rl_unacked l)
     \<and> rl_window_lo l' = rl_window_lo l \<and> rl_out_seq l' = rl_out_seq l
     \<and> rl_max_inflight l' = rl_max_inflight l \<and> rl_recv_next l' = rl_recv_next l
     \<and> (\<forall>s e'. map_of (rl_unacked l') s = Some e' \<longrightarrow>
          (\<exists>e. map_of (rl_unacked l) s = Some e \<and> e_acked e' = e_acked e
               \<and> e_inner e' = e_inner e \<and> e_flags e' = e_flags e))"

lemma same_window_refl: "same_window l l"
  by (simp add: same_window_def)

lemma same_window_trans: "same_window a b \<Longrightarrow> same_window b c \<Longrightarrow> same_window a c"
  unfolding same_window_def by metis

lemma same_window_stamp:
  assumes "map_of (rl_unacked l) s = Some e"
  shows "same_window l (l\<lparr>rl_unacked := alist_put s (e\<lparr>e_lasttx := t, e_resends := r\<rparr>) (rl_unacked l)\<rparr>)"
proof -
  have "s \<in> fst ` set (rl_unacked l)" using assms by (force dest: map_of_SomeD)
  then show ?thesis using assms by (auto simp: same_window_def alist_put_keys map_of_alist_put)
qed

definition resend_ok :: "reliable_link \<Rightarrow> seq16 list \<Rightarrow> seq16 \<times> byte \<times> bytes \<Rightarrow> bool" where
  "resend_ok l ss x \<longleftrightarrow> (case x of (s, fl, inner) \<Rightarrow> s \<in> set ss \<and>
     (\<exists>e. map_of (rl_unacked l) s = Some e \<and> \<not> e_acked e \<and> e_inner e = inner \<and> e_flags e = fl))"

lemma resend_ok_mono:
  assumes "same_window l l'" "set ss \<subseteq> set ss'" "resend_ok l' ss x"
  shows "resend_ok l ss' x"
  using assms unfolding resend_ok_def same_window_def by (cases x) (auto, metis)

lemma due_loop_spec:
  assumes "due_loop now lm base l ss out = (out', l')"
  shows "same_window l l' \<and> (\<exists>ext. out' = out @ ext \<and> (\<forall>x\<in>set ext. resend_ok l ss x)
     \<and> subseq (map fst ext) ss
     \<and> (\<forall>n. lm = Some n \<longrightarrow> length out' \<le> max n (length out + 1)))"
  using assms
proof (induction ss arbitrary: l out)
  case Nil
  then show ?case by (auto simp: same_window_refl)
next
  case (Cons s ss)
  have skip: ?case if "due_loop now lm base l ss out = (out', l')"
    using Cons.IH [OF that] resend_ok_mono [OF same_window_refl, of ss "s # ss" l]
    by (fastforce intro: list_emb_Cons)
  have stop: ?case if "(out, l) = (out', l')"
    using that by (auto simp: same_window_refl)
  show ?case
  proof (cases "map_of (rl_unacked l) s")
    case None
    then show ?thesis using Cons.prems skip by simp
  next
    case (Some e)
    let ?l = "l\<lparr>rl_unacked := alist_put s (e\<lparr>e_lasttx := now, e_resends := e_resends e + 1\<rparr>)
        (rl_unacked l)\<rparr>"
    let ?out = "out @ [(s, e_flags e, e_inner e)]"
    have w: "same_window l ?l" by (rule same_window_stamp [OF Some])
    consider "e_acked e" | "\<not> e_acked e" "\<not> retransmit_due now base l s e"
      | "\<not> e_acked e" "retransmit_due now base l s e" by blast
    then show ?thesis
    proof cases
      case 1
      then show ?thesis using Cons.prems Some skip by simp
    next
      case 2
      then show ?thesis using Cons.prems Some skip stop by (auto split: option.splits)
    next
      case 3
      have ok: "resend_ok l (s # ss) (s, e_flags e, e_inner e)"
        using Some 3(1) by (simp add: resend_ok_def)
      show ?thesis
      proof (cases "(out', l') = (?out, ?l)")
        case True
        then show ?thesis using w ok by (auto intro!: exI [of _ "[(s, e_flags e, e_inner e)]"])
      next
        case False
        then have rec: "due_loop now lm base ?l ss ?out = (out', l')"
          and lt: "\<forall>n. lm = Some n \<longrightarrow> length ?out < n"
          using Cons.prems Some 3 by (auto simp: Let_def split: option.splits if_splits)
        obtain ext where ih: "same_window ?l l'" "out' = ?out @ ext" "\<forall>x\<in>set ext. resend_ok ?l ss x"
          "subseq (map fst ext) ss" "\<forall>n. lm = Some n \<longrightarrow> length out' \<le> max n (length ?out + 1)"
          using Cons.IH [OF rec] by blast
        have "\<forall>x\<in>set ext. resend_ok l (s # ss) x"
          using ih(3) resend_ok_mono [OF w, of ss "s # ss"] by auto
        moreover have "\<forall>n. lm = Some n \<longrightarrow> length out' \<le> max n (length out + 1)"
          using ih(5) lt by fastforce
        ultimately show ?thesis
          using same_window_trans [OF w ih(1)] ih(2,4) ok
          by (intro conjI exI [of _ "(s, e_flags e, e_inner e) # ext"]) auto
      qed
    qed
  qed
qed

lemma due_retransmits_spec:
  assumes "win_inv l" "rl_due_retransmits now lm l = (out, l')"
  shows "same_window l l' \<and> (\<forall>x\<in>set out. resend_ok l (map fst (rl_unacked l)) x)
     \<and> subseq (map fst out) (map fst (rl_unacked l))
     \<and> (\<forall>n. lm = Some n \<longrightarrow> length out \<le> max n 1)"
proof -
  have len: "length (rl_unacked l) \<le> 128" using assms(1) by (simp add: win_inv_def)
  have "sorted (map (\<lambda>s. unat (s - rl_window_lo l)) (seqs (rl_window_lo l) (length (rl_unacked l))))"
    using len by (auto simp: seqs_def sorted_iff_nth_mono unat_of_nat)
  then have "sort_key (\<lambda>s. unat (s - rl_window_lo l)) (map fst (rl_unacked l)) = map fst (rl_unacked l)"
    using assms(1) by (simp add: win_inv_def sorted_sort_id sort_key_id_if_sorted)
  then show ?thesis
    using due_loop_spec [of now lm "rl_rto l" l "map fst (rl_unacked l)" "[]" out l'] assms(2)
    by (auto simp: rl_due_retransmits_def)
qed

lemma win_inv_same_window: "win_inv l \<Longrightarrow> same_window l l' \<Longrightarrow> win_inv l'"
  unfolding win_inv_def same_window_def by (metis length_map)

subsection \<open>In-order delivery\<close>

text \<open>
  The sender's frame number \<open>k\<close> carries payload \<open>p k\<close> and sequence number
  \<open>s0 + k\<close> modulo \<open>2 ^ 16\<close>.  \<open>buf_holds p s0 B buf\<close>: the reorder buffer holds exactly the
  frames numbered in \<open>B\<close>.
\<close>

definition buf_holds :: "(nat \<Rightarrow> bytes) \<Rightarrow> seq16 \<Rightarrow> nat set \<Rightarrow> (seq16 \<times> bytes) list \<Rightarrow> bool" where
  "buf_holds p s0 B buf \<longleftrightarrow> (\<forall>k\<in>B. map_of buf (s0 + of_nat k) = Some (p k))
     \<and> (\<forall>s x. map_of buf s = Some x \<longrightarrow> (\<exists>k\<in>B. s = s0 + of_nat k))"

lemma of_nat_seq_inj:
  assumes "(of_nat j :: seq16) = of_nat k" "j \<le> k" "k < j + 65536"
  shows "j = k"
proof -
  have "(of_nat (k - j) :: seq16) = 0" using assms(1,2) by (simp add: of_nat_diff)
  then have "unat (of_nat (k - j) :: seq16) = 0" by simp
  then have "(k - j) mod 65536 = 0" by (simp only: unat_of_nat) simp
  then show ?thesis using assms(2,3) by simp
qed

lemma window_inj:
  assumes "B \<subseteq> {n..<n + 32768}" "j \<in> B" "k \<in> B" "s0 + (of_nat j :: seq16) = s0 + of_nat k"
  shows "j = k"
proof (cases "j \<le> k")
  case True
  have "n \<le> j" "k < n + 32768" using assms(1-3) by auto
  then have "k < j + 65536" by simp
  then show ?thesis using of_nat_seq_inj [of j k] True assms(4) by simp
next
  case False
  have "n \<le> k" "j < n + 32768" using assms(1-3) by auto
  then have "j < k + 65536" by simp
  then show ?thesis using of_nat_seq_inj [of k j] False assms(4) by simp
qed

lemma buf_holds_del:
  assumes "buf_holds p s0 B buf" "B \<subseteq> {n..<n + 32768}" "k \<in> B"
  shows "buf_holds p s0 (B - {k}) (alist_del (s0 + of_nat k) buf)"
  using assms window_inj [OF assms(2) _ assms(3)] unfolding buf_holds_def map_of_alist_del
  by (auto split: if_splits)

lemma buf_holds_put:
  assumes "buf_holds p s0 B buf" "insert k B \<subseteq> {n..<n + 32768}"
  shows "buf_holds p s0 (insert k B) (alist_put (s0 + of_nat k) (p k) buf)"
proof -
  have inj: "\<And>j. j \<in> B \<Longrightarrow> s0 + (of_nat j :: seq16) = s0 + of_nat k \<Longrightarrow> j = k"
    using window_inj [OF assms(2)] by blast
  have "map_of (alist_put (s0 + of_nat k) (p k) buf) (s0 + of_nat j) = Some (p j)"
    if "j \<in> insert k B" for j
    using that inj [of j] assms(1) by (auto simp: map_of_alist_put buf_holds_def)
  moreover have "\<exists>j\<in>insert k B. s = s0 + of_nat j"
    if "map_of (alist_put (s0 + of_nat k) (p k) buf) s = Some x" for s x
    using that assms(1) by (auto simp: map_of_alist_put buf_holds_def split: if_splits)
  ultimately show ?thesis unfolding buf_holds_def by blast
qed

lemma drain_buf_spec:
  assumes "buf_holds p s0 B buf" "B \<subseteq> {n..<n + 32768}"
  shows "\<exists>m b. drain_buf (s0 + of_nat n) buf = (map p [n..<n + m], s0 + of_nat (n + m), b)
     \<and> {n..<n + m} \<subseteq> B \<and> n + m \<notin> B \<and> buf_holds p s0 (B - {n..<n + m}) b"
  using assms
proof (induction "length buf" arbitrary: n B buf rule: less_induct)
  case less
  show ?case
  proof (cases "n \<in> B")
    case False
    have "map_of buf (s0 + of_nat n) = None"
    proof (cases "map_of buf (s0 + of_nat n)")
      case (Some x)
      then obtain k where k: "k \<in> B" "s0 + (of_nat n :: seq16) = s0 + of_nat k"
        using less.prems(1) by (auto simp: buf_holds_def)
      then have "n = k" using of_nat_seq_inj [of n k] less.prems(2) by fastforce
      then show ?thesis using k(1) False by simp
    qed simp
    then show ?thesis
      using less.prems(1) False by (subst drain_buf.simps) (auto intro: exI [of _ 0])
  next
    case True
    let ?b = "alist_del (s0 + of_nat n) buf"
    have look: "map_of buf (s0 + of_nat n) = Some (p n)"
      using less.prems(1) True by (simp add: buf_holds_def)
    then have "length ?b < length buf"
      by (auto simp: alist_del_def intro: length_filter_less dest: map_of_SomeD)
    moreover have "buf_holds p s0 (B - {n}) ?b" by (rule buf_holds_del [OF less.prems True])
    moreover have "B - {n} \<subseteq> {Suc n..<Suc n + 32768}" using less.prems(2) by fastforce
    ultimately obtain m b where ih:
      "drain_buf (s0 + of_nat (Suc n)) ?b = (map p [Suc n..<Suc n + m], s0 + of_nat (Suc n + m), b)"
      "{Suc n..<Suc n + m} \<subseteq> B - {n}" "Suc n + m \<notin> B - {n}"
      "buf_holds p s0 (B - {n} - {Suc n..<Suc n + m}) b"
      using less.hyps by blast
    have B: "B - {n..<n + Suc m} = B - {n} - {Suc n..<Suc n + m}" by auto
    have "map p [n..<n + Suc m] = p n # map p [Suc n..<Suc n + m]"
      by (simp add: upt_conv_Cons del: upt_Suc)
    moreover have e: "s0 + of_nat n + 1 = s0 + (of_nat (Suc n) :: seq16)" by simp
    ultimately have dr: "drain_buf (s0 + of_nat n) buf = (map p [n..<n + Suc m], s0 + of_nat (n + Suc m), b)"
      using ih(1) look
      by (subst drain_buf.simps, unfold e) (simp del: upt_Suc of_nat_Suc add: case_prod_beta)
    have "{n..<n + Suc m} = insert n {Suc n..<Suc n + m}" by auto
    moreover have "insert n {Suc n..<Suc n + m} \<subseteq> B" using ih(2) True by blast
    ultimately have "{n..<n + Suc m} \<subseteq> B" by simp
    moreover have "n + Suc m \<notin> B" using ih(3) by auto
    ultimately show ?thesis using dr ih(4) unfolding B [symmetric] by blast
  qed
qed

text \<open>\<open>rx_inv p s0 S n l\<close>: frames \<open>S\<close> have arrived, \<open>n\<close> have been delivered.\<close>

definition rx_inv :: "(nat \<Rightarrow> bytes) \<Rightarrow> seq16 \<Rightarrow> nat set \<Rightarrow> nat \<Rightarrow> reliable_link \<Rightarrow> bool" where
  "rx_inv p s0 S n l \<longleftrightarrow> rl_recv_next l = s0 + of_nat n \<and> {..<n} \<subseteq> S \<and> n \<notin> S
     \<and> S \<subseteq> {..<n + 32768} \<and> buf_holds p s0 (S - {..<n}) (rl_recv_buf l)"

lemma uint_minus_of_nat:
  assumes "0 < d" "d \<le> 32768"
  shows "uint (- (of_nat d) :: seq16) = 65536 - int d"
proof -
  have u: "uint (of_nat d :: seq16) = int d"
    using assms by (simp add: unsigned_of_nat take_bit_nat_eq_self)
  have L: "(2 :: int) ^ LENGTH(16) = 65536" by simp
  have "uint (- (of_nat d) :: seq16) = - int d mod 65536"
    unfolding uint_word_ariths(4) u L ..
  also have "\<dots> = 65536 - int d" using assms by (simp add: zmod_zminus1_eq_if)
  finally show ?thesis .
qed

definition in_window :: "nat \<Rightarrow> nat \<Rightarrow> bool" where
  "in_window n k \<longleftrightarrow> n \<le> k + 32768 \<and> k < n + 32768"

lemma seq_lt_window:
  assumes "in_window n k"
  shows "seq_lt (s0 + of_nat n) (s0 + of_nat k) \<longleftrightarrow> n < k"
    and "s0 + (of_nat k :: seq16) = s0 + of_nat n \<longleftrightarrow> k = n"
proof -
  show eq: "s0 + (of_nat k :: seq16) = s0 + of_nat n \<longleftrightarrow> k = n"
    using of_nat_seq_inj [of k n] of_nat_seq_inj [of n k] assms
    by (cases "k \<le> n") (auto simp: in_window_def)
  show "seq_lt (s0 + of_nat n) (s0 + of_nat k) \<longleftrightarrow> n < k"
  proof (cases "n < k")
    case True
    then have d: "s0 + of_nat k - (s0 + of_nat n) = (of_nat (k - n) :: seq16)" by (simp add: of_nat_diff)
    have lt: "k - n < 32768" using assms True by (simp add: in_window_def)
    then have "unat (of_nat (k - n) :: seq16) = k - n" by (simp add: unat_of_nat)
    then have "(of_nat (k - n) :: seq16) < 0x8000" using lt by (simp add: word_less_nat_alt)
    then show ?thesis using True eq d by (auto simp: seq_lt_def Let_def)
  next
    case False
    then have d: "of_nat k - of_nat n = - (of_nat (n - k) :: seq16)" by (simp add: of_nat_diff)
    have le: "n - k \<le> 32768" using assms unfolding in_window_def by linarith
    have "uint (- (of_nat (n - k)) :: seq16) = 65536 - int (n - k)" if "k \<noteq> n"
      by (rule uint_minus_of_nat) (use that False le in auto)
    then have ge: "uint (of_nat k - of_nat n :: seq16) \<ge> 32768" if "k \<noteq> n"
      using that le unfolding d by linarith
    have "\<not> seq_lt (s0 + of_nat n) (s0 + of_nat k)"
    proof (cases "k = n")
      case False
      from ge [OF this] show ?thesis by (simp add: seq_lt_def word_less_def)
    qed (simp add: seq_lt_def)
    with False show ?thesis by simp
  qed
qed

lemma rx_inv_step:
  assumes inv: "rx_inv p s0 S n l" and win: "in_window n k"
  shows "\<exists>m l'. rl_on_data (s0 + of_nat k) (p k) l = (map p [n..<n + m], l')
     \<and> rx_inv p s0 (insert k S) (n + m) l'"
proof -
  have rn: "rl_recv_next l = s0 + of_nat n" and below: "{..<n} \<subseteq> S" and gap: "n \<notin> S"
    and top: "S \<subseteq> {..<n + 32768}" and buf: "buf_holds p s0 (S - {..<n}) (rl_recv_buf l)"
    using inv by (auto simp: rx_inv_def)
  have sub: "S - {..<n} \<subseteq> {n..<n + 32768}" using top by auto
  note lt = seq_lt_window(1) [OF win, of s0] and eq = seq_lt_window(2) [OF win, of s0]
  consider "k = n" | "n < k" | "k < n" by linarith
  then show ?thesis
  proof cases
    case 1
    have "S - {..<n} \<subseteq> {Suc n..<Suc n + 32768}"
    proof
      fix x assume x: "x \<in> S - {..<n}"
      then have "x \<noteq> n" using gap by auto
      then show "x \<in> {Suc n..<Suc n + 32768}" using x sub by fastforce
    qed
    from drain_buf_spec [OF buf this] obtain m b where d:
      "drain_buf (s0 + of_nat (Suc n)) (rl_recv_buf l) = (map p [Suc n..<Suc n + m], s0 + of_nat (Suc n + m), b)"
      "{Suc n..<Suc n + m} \<subseteq> S - {..<n}" "Suc n + m \<notin> S - {..<n}"
      "buf_holds p s0 (S - {..<n} - {Suc n..<Suc n + m}) b" by blast
    have e: "s0 + of_nat n + 1 = s0 + (of_nat (Suc n) :: seq16)" by simp
    have out: "p n # map p [Suc n..<Suc n + m] = map p [n..<n + Suc m]"
      by (simp add: upt_conv_Cons del: upt_Suc)
    let ?l = "l\<lparr>rl_recv_next := s0 + of_nat (n + Suc m), rl_recv_buf := b\<rparr>"
    have data: "rl_on_data (s0 + of_nat k) (p k) l = (map p [n..<n + Suc m], ?l)"
      using d(1) 1 rn out unfolding rl_on_data_def
      by (simp add: case_prod_beta e del: upt_Suc of_nat_Suc of_nat_add)
    have B: "insert k S - {..<n + Suc m} = S - {..<n} - {Suc n..<Suc n + m}"
    proof (rule set_eqI)
      fix x
      show "x \<in> insert k S - {..<n + Suc m} \<longleftrightarrow> x \<in> S - {..<n} - {Suc n..<Suc n + m}"
        using 1 gap by (cases "x = n") auto
    qed
    have "{..<n + Suc m} = {..<n} \<union> {n} \<union> {Suc n..<Suc n + m}" by auto
    then have "{..<n + Suc m} \<subseteq> insert k S" using 1 below d(2) by blast
    moreover have "n + Suc m \<notin> insert k S" using 1 d(3) by auto
    moreover have "insert k S \<subseteq> {..<n + Suc m + 32768}" using 1 top by (auto dest: subsetD)
    ultimately have "rx_inv p s0 (insert k S) (n + Suc m) ?l"
      using d(4) unfolding rx_inv_def B by (simp del: of_nat_Suc of_nat_add)
    with data show ?thesis by blast
  next
    case 2
    let ?l = "l\<lparr>rl_recv_buf := alist_put (s0 + of_nat k) (p k) (rl_recv_buf l)\<rparr>"
    have "rl_on_data (s0 + of_nat k) (p k) l = ([], ?l)"
      using 2 lt eq rn by (simp add: rl_on_data_def)
    moreover have "insert k (S - {..<n}) \<subseteq> {n..<n + 32768}"
      using sub 2 win by (auto simp: in_window_def)
    then have "buf_holds p s0 (insert k S - {..<n}) (rl_recv_buf ?l)"
      using buf_holds_put [OF buf, of k n] 2 by (simp add: insert_Diff_if)
    then have "rx_inv p s0 (insert k S) n ?l"
      using 2 rn below gap top win by (auto simp: rx_inv_def in_window_def)
    ultimately show ?thesis by (intro exI [of _ 0] exI [of _ ?l]) simp
  next
    case 3
    have "rl_on_data (s0 + of_nat k) (p k) l = ([], l)"
      using 3 lt eq rn by (simp add: rl_on_data_def)
    moreover have "insert k S = S" using 3 below by auto
    ultimately show ?thesis using inv by (intro exI [of _ 0] exI [of _ l]) simp
  qed
qed

text \<open>
  A run of arrivals, the number of frames deliverable from it, and the pacing the
  sender's window guarantees: every arrival is within half the sequence space.
\<close>

definition rx_feed :: "(seq16 \<times> bytes) list \<Rightarrow> reliable_link \<Rightarrow> bytes list \<times> reliable_link" where
  "rx_feed arrivals l =
     foldl (\<lambda>(out, l) (s, x). let (o1, l') = rl_on_data s x l in (out @ o1, l')) ([], l) arrivals"

definition delivered :: "nat list \<Rightarrow> nat" where
  "delivered ks = length (takeWhile (\<lambda>k. k \<in> set ks) [0..<Suc (length ks)])"

definition paced :: "nat list \<Rightarrow> bool" where
  "paced ks \<longleftrightarrow> (\<forall>i\<in>set [0..<length ks]. in_window (delivered (take i ks)) (ks ! i))"

lemma delivered_unique:
  assumes "{..<n} \<subseteq> set ks" "n \<notin> set ks"
  shows "delivered ks = n"
proof -
  have "card {..<n} \<le> card (set ks)" using assms(1) by (intro card_mono) auto
  then have n: "n < Suc (length ks)" using card_length [of ks] by simp
  then have "[0..<Suc (length ks)] = [0..<n] @ n # [Suc n..<Suc (length ks)]"
    by (metis le0 less_imp_le upt_add_eq_append upt_conv_Cons le_add_diff_inverse)
  then show ?thesis using assms by (auto simp: delivered_def takeWhile_append simp del: upt_Suc)
qed

lemma paced_snoc: "paced (ks @ [k]) \<longleftrightarrow> paced ks \<and> in_window (delivered ks) k"
  by (auto simp: paced_def nth_append less_Suc_eq)

lemma rx_feed_spec:
  assumes "paced ks"
  shows "\<exists>l'. rx_feed (map (\<lambda>k. (s0 + of_nat k, p k)) ks) (reliable_link_new s0 mx jk dn ceil bo bs)
       = (map p [0..<delivered ks], l') \<and> rx_inv p s0 (set ks) (delivered ks) l'"
  using assms
proof (induction ks rule: rev_induct)
  case Nil
  show ?case
    by (auto simp: rx_feed_def delivered_def rx_inv_def reliable_link_new_def buf_holds_def)
next
  case (snoc k ks)
  let ?f = "rx_feed (map (\<lambda>k. (s0 + of_nat k, p k)) ks) (reliable_link_new s0 mx jk dn ceil bo bs)"
  from snoc obtain l where l: "?f = (map p [0..<delivered ks], l)" "rx_inv p s0 (set ks) (delivered ks) l"
    by (auto simp: paced_snoc)
  from snoc.prems have "in_window (delivered ks) k" by (simp add: paced_snoc)
  from rx_inv_step [OF l(2) this] obtain m l' where m:
    "rl_on_data (s0 + of_nat k) (p k) l = (map p [delivered ks..<delivered ks + m], l')"
    "rx_inv p s0 (insert k (set ks)) (delivered ks + m) l'" by blast
  then have "delivered (ks @ [k]) = delivered ks + m"
    by (intro delivered_unique) (auto simp: rx_inv_def)
  moreover have "[0..<delivered ks + m] = [0..<delivered ks] @ [delivered ks..<delivered ks + m]"
    by (rule upt_add_eq_append) simp
  ultimately show ?case
    using l(1) m by (simp add: rx_feed_def case_prod_beta)
qed

text \<open>
  C25: A receiver fed data frames in any order, with gaps and duplicates, delivers their
  payloads in sequence order, each once and none before its predecessors, across any
  wrap-around of the sequence number, provided every arrival is within half the sequence
  space of the next expected frame: what it has delivered is always the longest complete
  prefix of the stream.
\<close>

theorem reliable_in_order_delivery:
  assumes "paced ks"
  shows "fst (rx_feed (map (\<lambda>k. (start + of_nat k, p k)) ks) (reliable_link_new start mx jk dn ceil bo bs))
       = map p [0..<delivered ks]"
  using rx_feed_spec [OF assms, of start p mx jk dn ceil bo bs] by auto

theorem reliable_in_order_delivery_witness:
  "fst (rx_feed (map (\<lambda>k. (0xFFFE + of_nat k, [of_nat k])) [2, 0, 2, 1, 0, 4])
         (reliable_link_new 0xFFFE 128 0 1 None 1 None)) = map (\<lambda>k. [of_nat k]) [0..<3]"
proof -
  have p: "paced [2, 0, 2, 1, 0, 4]" and d: "delivered [2, 0, 2, 1, 0, 4] = 3"
    by (simp_all add: paced_def delivered_def in_window_def upt_rec)
  show ?thesis
    using reliable_in_order_delivery [OF p, where start = "0xFFFE" and p = "\<lambda>k. [of_nat k]" and mx = "128"
        and jk = "0" and dn = "1" and ceil = None and bo = "1" and bs = None] unfolding d .
qed

subsection \<open>Selective acknowledgement\<close>

lemma bit_list_update_or:
  assumes "j < length m" "k div 8 < length m" "b < 8"
  shows "bit (m[j := m ! j OR push_bit b (1 :: byte)] ! (k div 8)) (k mod 8)
     \<longleftrightarrow> bit (m ! (k div 8)) (k mod 8) \<or> (k = 8 * j + b)"
proof (cases "j = k div 8")
  case True
  have "k = 8 * j + b \<longleftrightarrow> k mod 8 = b" using assms(3) True
    by (metis add_left_cancel mult_div_mod_eq)
  moreover have "bit (push_bit b (1 :: byte)) (k mod 8) \<longleftrightarrow> k mod 8 = b"
    using assms(3) by (auto simp: bit_simps)
  ultimately show ?thesis using assms True by (simp add: bit_or_iff)
next
  case False
  then have "k \<noteq> 8 * j + b" using assms(3) by auto
  then show ?thesis using False by simp
qed

lemma set_mask_bit_fold:
  assumes "length m = 16" "k < 128"
  shows "bit (from_le (foldl (set_mask_bit nxt) m ooo)) k
     \<longleftrightarrow> bit (from_le m) k \<or> (\<exists>s\<in>set ooo. unat (s - nxt - 1) = k)"
  using assms(1)
proof (induction ooo arbitrary: m)
  case (Cons s ooo)
  let ?i = "s - nxt - 1"
  have len: "length (set_mask_bit nxt m s) = 16" using Cons.prems by (simp add: set_mask_bit_def Let_def)
  have "bit (from_le (set_mask_bit nxt m s)) k \<longleftrightarrow> bit (from_le m) k \<or> unat ?i = k"
  proof (cases "?i < 128")
    case True
    then have u: "unat ?i < 128" by (simp add: word_less_nat_alt)
    have "k = 8 * (unat ?i div 8) + unat ?i mod 8 \<longleftrightarrow> unat ?i = k" by auto
    moreover have "k div 8 < 16" using assms(2) by simp
    ultimately show ?thesis
      using bit_list_update_or [of "unat ?i div 8" m k "unat ?i mod 8"] True u assms(2) Cons.prems
      by (simp add: set_mask_bit_def Let_def bit_from_le)
  next
    case False
    then have "128 \<le> unat ?i" by (simp add: word_less_nat_alt not_less)
    then show ?thesis using False assms(2) by (auto simp: set_mask_bit_def Let_def)
  qed
  then show ?case using Cons.IH [OF len] by auto
qed simp

lemma length_mask_fold [simp]: "length (foldl (set_mask_bit nxt) m ooo) = length m"
  by (induction ooo arbitrary: m) (auto simp: set_mask_bit_def Let_def)

definition ack_of :: "reliable_link \<Rightarrow> seq16 option \<times> bytes" where
  "ack_of l = parse_bulk_ack (rl_ack_payload l)"

lemma seq_be [simp]: "word_of_int (from_be (to_be 2 (uint s))) = (s :: seq16)"
  using uint_lt2p [of s] by (simp add: from_be_to_be)

lemma ack_of_eq:
  "ack_of l = (Some (rl_recv_next l),
     foldl (set_mask_bit (rl_recv_next l)) (replicate 16 0) (rl_recv_ooo l))"
  by (simp add: seq_be ack_of_def parse_bulk_ack_def rl_ack_payload_def build_bulk_ack_def py_slice_def
      numeral_eq_Suc seq_be [unfolded numeral_2_eq_2])

text \<open>
  The bulk acknowledgement a receiver sends reads back at the sender as exactly the
  frames received: a frame counts as arrived if and only if it lies below the receiver's
  next expected number or is one of the frames noted out of order within the 128-frame
  reach of the selective mask.
\<close>

theorem selective_ack_exact:
  "let (a, msk) = ack_of l
   in a = Some (rl_recv_next l) \<and>
      ack_arrived (rl_recv_next l) (from_le msk) s =
        (seq_lt s (rl_recv_next l)
         \<or> (s \<in> set (rl_recv_ooo l) \<and> unat (s - rl_recv_next l - 1) < 128))"
proof -
  let ?m = "foldl (set_mask_bit (rl_recv_next l)) (replicate 16 0) (rl_recv_ooo l)"
  let ?i = "s - rl_recv_next l - 1"
  have "odd (drop_bit (unat ?i) (from_le ?m)) \<longleftrightarrow> s \<in> set (rl_recv_ooo l)" if i: "unat ?i < 128"
  proof -
    have "odd (drop_bit (unat ?i) (from_le ?m)) \<longleftrightarrow> (\<exists>s'\<in>set (rl_recv_ooo l). unat (s' - rl_recv_next l - 1) = unat ?i)"
      unfolding odd_drop_bit_iff using set_mask_bit_fold [of "replicate 16 0" "unat ?i"] i by simp
    then show ?thesis by (auto simp: word_unat_eq_iff [symmetric])
  qed
  moreover have "drop_bit (unat ?i) (from_le ?m) AND 1 \<noteq> 0 \<longleftrightarrow> odd (drop_bit (unat ?i) (from_le ?m))"
    by (simp add: and_one_eq odd_iff_mod_2_eq_one)
  moreover have "?i < 128 \<longleftrightarrow> unat ?i < 128" by (simp add: word_less_nat_alt)
  moreover have "odd (drop_bit (unat ?i) (from_le ?m)) \<Longrightarrow> from_le ?m \<noteq> 0" by auto
  ultimately show ?thesis
    unfolding ack_of_eq prod.case ack_arrived_def Let_def by metis
qed

subsection \<open>The link as a state machine\<close>

text \<open>
  The operations the driver performs; a frame is queued only while the window has room,
  which is the driver's guard \<^verbatim>\<open>inflight() < max_inflight\<close>.
\<close>

datatype rl_op =
    Op_queue bytes byte rat
  | Op_ack "seq16 option" "bytes option" "rat option"
  | Op_resend rat "nat option"
  | Op_data seq16 bytes
  | Op_note seq16

fun rl_step :: "reliable_link \<Rightarrow> rl_op \<Rightarrow> reliable_link" where
  "rl_step l (Op_queue inner fl now) =
     (if rl_inflight l < rl_max_inflight l then snd (rl_queue inner fl now l) else l)"
| "rl_step l (Op_ack a m now) = rl_on_ack a m now l"
| "rl_step l (Op_resend now lm) = snd (rl_due_retransmits now lm l)"
| "rl_step l (Op_data s x) = snd (rl_on_data s x l)"
| "rl_step l (Op_note s) = rl_note_received s l"

lemma rl_on_data_frame [simp]:
  "rl_unacked (snd (rl_on_data s x l)) = rl_unacked l"
  "rl_window_lo (snd (rl_on_data s x l)) = rl_window_lo l"
  "rl_out_seq (snd (rl_on_data s x l)) = rl_out_seq l"
  "rl_max_inflight (snd (rl_on_data s x l)) = rl_max_inflight l"
  by (auto simp: rl_on_data_def case_prod_beta Let_def)

lemma rl_note_received_frame [simp]:
  "rl_unacked (rl_note_received s l) = rl_unacked l"
  "rl_window_lo (rl_note_received s l) = rl_window_lo l"
  "rl_out_seq (rl_note_received s l) = rl_out_seq l"
  "rl_max_inflight (rl_note_received s l) = rl_max_inflight l"
  by (auto simp: rl_note_received_def case_prod_beta Let_def)

lemma max_inflight_queue [simp]: "rl_max_inflight (snd (rl_queue x f t l)) = rl_max_inflight l"
  by (simp add: rl_queue_def Let_def)

lemma win_inv_step: "win_inv l \<Longrightarrow> win_inv (rl_step l opn)"
proof (cases opn)
  case (Op_queue x f t)
  assume "win_inv l"
  then show ?thesis using Op_queue win_inv_queue [of l x f t]
    by (cases "rl_queue x f t l") auto
next
  case (Op_resend t n)
  assume "win_inv l"
  then show ?thesis
    using Op_resend due_retransmits_spec [of l t n] win_inv_same_window
    by (cases "rl_due_retransmits t n l") auto
next
  case (Op_ack a m t)
  assume "win_inv l"
  then show ?thesis using Op_ack win_inv_on_ack by simp
qed (auto simp: win_inv_def)

interpretation link: machine_inv rl_step win_inv
  by unfold_locales (rule win_inv_step)

lemma rl_step_max [simp]: "rl_max_inflight (rl_step l opn) = rl_max_inflight l"
proof (cases opn)
  case (Op_resend t n)
  have "same_window l (snd (rl_due_retransmits t n l))"
    unfolding rl_due_retransmits_def using due_loop_spec prod.collapse by metis
  then show ?thesis using Op_resend by (simp add: same_window_def)
qed (auto simp: on_ack_frame)

lemma run_max: "rl_max_inflight (foldl rl_step l ops) = rl_max_inflight l"
  by (induction ops arbitrary: l) auto

text \<open>
  C35: Whatever sequence of sends, acknowledgements, retransmissions and receptions the link
  goes through, the unacknowledged frames are exactly the consecutive sequence numbers from
  the window base up to the next number to hand out, and never more than the configured
  window of at most 128: no number is handed out twice while its frame is outstanding, even
  after the counter wraps.
\<close>

theorem send_window_invariant:
  assumes "mx \<le> 128" "l = foldl rl_step (reliable_link_new start mx jk dn ceil bo bs) ops"
  shows "map fst (rl_unacked l) = seqs (rl_window_lo l) (rl_inflight l)
     \<and> rl_out_seq l = rl_window_lo l + of_nat (rl_inflight l)
     \<and> rl_inflight l \<le> mx \<and> distinct (map fst (rl_unacked l))"
proof -
  let ?l0 = "reliable_link_new start mx jk dn ceil bo bs"
  have "win_inv ?l0" using assms(1) by (simp add: win_inv_def reliable_link_new_def)
  then have inv: "win_inv l" unfolding assms(2) by (rule link.run_inv)
  moreover have "rl_max_inflight l = mx"
    unfolding assms(2) run_max by (simp add: reliable_link_new_def)
  ultimately show ?thesis
    using distinct_seqs [of "rl_inflight l" "rl_window_lo l"]
    by (simp add: win_inv_def rl_inflight_def)
qed

theorem send_window_invariant_witness:
  "rl_inflight (foldl rl_step (reliable_link_new 0xFFFF 2 0 1 None 1 None)
     [Op_queue [1] 7 0, Op_queue [2] 7 0, Op_queue [3] 7 0, Op_ack (Some 0) None None]) \<le> 2"
  by (rule send_window_invariant [OF _ refl, THEN conjunct2, THEN conjunct2, THEN conjunct1]) simp

text \<open>
  An acknowledgement releases only acknowledged frames.  A frame that leaves the send
  buffer had been acknowledged before or is acknowledged now; the frames that stay keep
  their content and order, and the oldest of them is not acknowledged, so the window base
  never passes a hole.
\<close>

theorem ack_releases_only_arrived:
  assumes "win_inv l" "l' = rl_on_ack (Some a) msk now l"
  shows "(\<forall>(s, e)\<in>set (rl_unacked l). s \<notin> fst ` set (rl_unacked l')
            \<longrightarrow> e_acked e \<or> ack_arrived a (case msk of None \<Rightarrow> 0 | Some m \<Rightarrow> from_le m) s)
     \<and> (\<exists>k. map (\<lambda>(s, e). (s, e_flags e, e_inner e)) (rl_unacked l')
            = drop k (map (\<lambda>(s, e). (s, e_flags e, e_inner e)) (rl_unacked l))
          \<and> rl_window_lo l' = rl_window_lo l + of_nat k)
     \<and> (rl_unacked l' \<noteq> [] \<longrightarrow> \<not> e_acked (snd (hd (rl_unacked l'))))"
proof -
  let ?M = "map (mark_acked a (maskint msk)) (rl_unacked l)"
  let ?P = "\<lambda>x :: seq16 \<times> entry. e_acked (snd x)"
  note u = on_ack_unacked [OF assms(1), of a msk now, folded assms(2)]
  let ?c = "\<lambda>(s :: seq16, e). (s, e_flags e, e_inner e)"
  have same: "map ?c ?M = map ?c (rl_unacked l)" by (auto simp: mark_acked_def)
  have "e_acked e \<or> ack_arrived a (maskint msk) s"
    if "(s, e) \<in> set (rl_unacked l)" "s \<notin> fst ` set (rl_unacked l')" for s e
  proof -
    let ?x = "mark_acked a (maskint msk) (s, e)"
    have "?x \<in> set ?M" using that(1) by auto
    moreover have "?x \<notin> set (rl_unacked l')" using that(2) by (auto simp: mark_acked_def image_iff)
    ultimately have "?x \<in> set (takeWhile ?P ?M)"
      unfolding u(1) by (metis (no_types, lifting) Un_iff set_append takeWhile_dropWhile_id)
    then have "?P ?x" by (rule set_takeWhileD [THEN conjunct2])
    then show ?thesis by (auto simp: mark_acked_def split: if_splits)
  qed
  moreover have "map ?c (rl_unacked l') = drop (length (takeWhile ?P ?M)) (map ?c (rl_unacked l))"
    by (simp only: u(1) dropWhile_eq_drop drop_map [symmetric] same)
  moreover have "rl_unacked l' \<noteq> [] \<Longrightarrow> \<not> ?P (hd (rl_unacked l'))"
    unfolding u(1) by (rule hd_dropWhile)
  ultimately show ?thesis using u(2) by (intro conjI exI) auto
qed

theorem ack_releases_only_arrived_witness:
  "let l = foldl rl_step (reliable_link_new 0xFFFF 4 0 1 None 1 None)
             [Op_queue [1] 7 0, Op_queue [2] 7 0, Op_queue [3] 7 0]
   in \<forall>(s, e)\<in>set (rl_unacked l).
        s \<notin> fst ` set (rl_unacked (rl_on_ack (Some 0) (Some [1]) None l))
          \<longrightarrow> e_acked e \<or> ack_arrived 0 (from_le [1]) s"
proof -
  let ?l = "foldl rl_step (reliable_link_new 0xFFFF 4 0 1 None 1 None)
             [Op_queue [1] 7 0, Op_queue [2] 7 0, Op_queue [3] 7 0]"
  have "win_inv ?l" by (rule link.run_inv) (simp add: win_inv_def reliable_link_new_def)
  from ack_releases_only_arrived [OF this refl, of 0 "Some [1]" None]
  show ?thesis unfolding Let_def by simp
qed

text \<open>
  Retransmission picks only frames the peer has not acknowledged, unchanged in flags and
  payload, each at most once per call and oldest first, and with a limit returns at most
  that many; it only restamps the entries it resends and leaves the window as it was.
\<close>

theorem retransmits_only_unacked:
  assumes "win_inv l" "rl_due_retransmits now lm l = (out, l')"
  shows "(\<forall>(s, fl, inner)\<in>set out. \<exists>e. map_of (rl_unacked l) s = Some e \<and> \<not> e_acked e
            \<and> e_inner e = inner \<and> e_flags e = fl)
     \<and> subseq (map fst out) (map fst (rl_unacked l))
     \<and> (\<forall>n. lm = Some n \<longrightarrow> length out \<le> max n 1)
     \<and> map fst (rl_unacked l') = map fst (rl_unacked l) \<and> win_inv l'"
  using due_retransmits_spec [OF assms] win_inv_same_window [OF assms(1)]
  by (auto simp: resend_ok_def same_window_def)

theorem retransmits_only_unacked_witness:
  "let l = foldl rl_step (reliable_link_new 0xFFFF 4 0 1 None 1 (Some 10)) [Op_queue [1] 7 0, Op_queue [2] 7 5]
   in length (fst (rl_due_retransmits 20 (Some 1) l)) \<le> 1"
proof -
  let ?l = "foldl rl_step (reliable_link_new 0xFFFF 4 0 1 None 1 (Some 10)) [Op_queue [1] 7 0, Op_queue [2] 7 5]"
  have "win_inv ?l" by (rule link.run_inv) (simp add: win_inv_def reliable_link_new_def)
  from retransmits_only_unacked [OF this surjective_pairing, of 20 "Some 1"]
  show ?thesis unfolding Let_def by simp
qed

subsection \<open>Tiling\<close>

text \<open>Each optional field consumes a prefix of what is left.\<close>

definition consumes :: "bytes \<Rightarrow> bytes \<Rightarrow> bool" where
  "consumes r r' \<longleftrightarrow> (\<exists>k. r' = drop k r)"

lemma consumes_refl: "consumes r r"
  unfolding consumes_def by (rule exI [of _ 0]) simp

lemma consumes_trans: "consumes a b \<Longrightarrow> consumes b c \<Longrightarrow> consumes a c"
  unfolding consumes_def by force

lemma consumes_drop: "consumes r (drop k r)"
  unfolding consumes_def by blast

lemma consumes_Cons: "consumes (x # r) r"
  unfolding consumes_def by (rule exI [of _ 1]) simp

lemma msg_field_consumes:
  "msg_field_mf fl s = Some s' \<Longrightarrow> consumes (snd s) (snd s')"
  "msg_field_size fl s = Some s' \<Longrightarrow> consumes (snd s) (snd s')"
  "msg_field_proto fl s = Some s' \<Longrightarrow> consumes (snd s) (snd s')"
  "msg_field_port fl s = Some s' \<Longrightarrow> consumes (snd s) (snd s')"
  by (auto simp: msg_field_mf_def msg_field_size_def msg_field_proto_def msg_field_port_def
      consumes_refl consumes_drop consumes_Cons split: if_splits list.splits)

lemma msg_header_split:
  assumes "msg_header fl ctx r = Some (c, rest)"
  shows "take (length r - length rest) r @ rest = r"
proof -
  obtain s1 s2 s3 where f: "msg_field_mf fl (ctx, r) = Some s1" "msg_field_size fl s1 = Some s2"
    "msg_field_proto fl s2 = Some s3" "msg_field_port fl s3 = Some (c, rest)"
    using assms unfolding msg_header_def bind_eq_Some_conv by auto
  have "consumes r rest"
    using msg_field_consumes(1) [OF f(1)] msg_field_consumes(2) [OF f(2)] msg_field_consumes(3) [OF f(3)]
      msg_field_consumes(4) [OF f(4)] consumes_trans by (metis fst_conv snd_conv)
  then obtain k where k: "rest = drop k r" by (auto simp: consumes_def)
  have "take (length r - length (drop k r)) r = take k r" by (cases "k \<le> length r") auto
  then show ?thesis by (simp add: k)
qed

text \<open>One round of the loop: the message, the inherited header and the rest.\<close>

definition tile_one :: "byte \<Rightarrow> msg_ctx \<Rightarrow> bytes \<Rightarrow> (message \<times> msg_ctx \<times> bytes) option" where
  "tile_one fl ctx r =
     (if fl = 0xFF \<or> fl AND 0xF0 \<noteq> 0 \<or> fl = 0 \<and> mc_size ctx = None then None
      else case msg_header fl ctx r of
          None \<Rightarrow> None
        | Some (c, rest) \<Rightarrow>
            (case mc_size c of
               None \<Rightarrow> None
             | Some sz \<Rightarrow>
                 if length rest < sz then None
                 else Some (\<lparr>m_flags = fl, m_proto = mc_proto c, m_size = sz, m_payload = take sz rest,
                             m_msgflags = mc_mf c, m_hdr = fl # take (length r - length rest) r\<rparr>,
                            c, drop sz rest)))"

lemma parse_msgs_tile:
  "parse_msgs ctx (fl # r) =
     (case tile_one fl ctx r of
        None \<Rightarrow> ([], fl # r)
      | Some (m, c, r') \<Rightarrow> (m # fst (parse_msgs c r'), snd (parse_msgs c r')))"
  by (simp add: tile_one_def case_prod_beta Let_def split: option.splits)

declare parse_msgs.simps(2) [simp del]

lemma tile_one_serialize:
  assumes "tile_one fl ctx r = Some (m, c, r')"
  shows "message_serialize m @ r' = fl # r" "length (m_payload m) = m_size m" "m_hdr m \<noteq> []"
  using assms msg_header_split [of fl ctx r]
  by (auto simp: tile_one_def message_serialize_def split: if_splits option.splits)

lemma parse_msgs_lossless:
  "concat (map message_serialize (fst (parse_msgs ctx d))) @ snd (parse_msgs ctx d) = d
   \<and> (\<forall>m\<in>set (fst (parse_msgs ctx d)). length (m_payload m) = m_size m)"
proof (induction "length d" arbitrary: ctx d rule: less_induct)
  case less
  show ?case
  proof (cases d)
    case (Cons fl r)
    show ?thesis
    proof (cases "tile_one fl ctx r")
      case (Some x)
      then obtain m c r' where t: "tile_one fl ctx r = Some (m, c, r')" by (cases x) auto
      note ser = tile_one_serialize [OF t]
      have "length r' < length d"
        using arg_cong [OF ser(1), of length] ser(3)
        by (cases "m_hdr m") (simp_all add: Cons message_serialize_def)
      from less [OF this, of c] show ?thesis
        using ser by (simp add: Cons parse_msgs_tile t)
    qed (simp add: Cons parse_msgs_tile)
  qed simp
qed

text \<open>
  Tiling a blob loses nothing: the parsed messages serialise, in order, to exactly the
  consumed prefix of the blob, whatever mix of explicit and inherited header fields it used,
  and each message's payload has the size its header announced.
\<close>

theorem tiling_lossless:
  "let (ms, consumed) = parse_messages data
   in concat (map message_serialize ms) = take consumed data \<and> consumed \<le> length data
      \<and> list_all (\<lambda>m. length (m_payload m) = m_size m) ms"
proof -
  let ?p = "parse_msgs \<lparr>mc_mf = 0, mc_size = None, mc_proto = None\<rparr> data"
  have l: "concat (map message_serialize (fst ?p)) @ snd ?p = data"
    "\<forall>m\<in>set (fst ?p). length (m_payload m) = m_size m"
    using parse_msgs_lossless by blast+
  have "length data - length (snd ?p) = length (concat (map message_serialize (fst ?p)))"
    using arg_cong [OF l(1), of length] by simp
  then have "take (length data - length (snd ?p)) data = concat (map message_serialize (fst ?p))"
    by (metis append_eq_conv_conj l(1))
  then show ?thesis
    using l(2) by (simp add: parse_messages_def case_prod_beta list_all_iff)
qed

text \<open>The parser on a built message.\<close>

definition built_ok :: "byte \<times> bytes \<times> byte option \<Rightarrow> message \<Rightarrow> bool" where
  "built_ok x m \<longleftrightarrow> (case x of (p, pl, mf) \<Rightarrow> m_proto m = Some p \<and> m_payload m = pl
     \<and> (\<forall>f. mf = Some f \<longrightarrow> m_msgflags m = f) \<and> build_message p pl mf = Inr (message_serialize m))"

lemma tile_build_message:
  assumes "build_message p pl mf = Inr b"
  shows "\<exists>fl r m c. b @ rest = fl # r \<and> tile_one fl ctx r = Some (m, c, rest) \<and> built_ok (p, pl, mf) m"
proof -
  have len: "length pl < 65536" and b: "b = (case mf of None \<Rightarrow> [6] | Some f \<Rightarrow> [7, f])
      @ to_be 2 (int (length pl)) @ [p] @ pl"
    using assms by (auto simp: build_message_def to_bytes_be_def split: if_splits option.splits)
  obtain x y where xy: "to_be 2 (int (length pl)) = [x, y]"
    by (metis (no_types, opaque_lifting) length_to_be length_0_conv length_Suc_conv numeral_2_eq_2)
  have v: "nat (from_be [x, y]) = length pl"
    unfolding xy [symmetric] using len by (simp add: from_be_to_be)
  show ?thesis
    using assms v
    by (cases mf)
       (auto simp: b xy tile_one_def msg_header_def msg_field_mf_def msg_field_size_def msg_field_proto_def
          msg_field_port_def built_ok_def message_serialize_def Suc_diff_le)
qed

text \<open>A footer stops the tiling when its first byte is no header flag byte.\<close>

lemma parse_msgs_stop: "b = 0xFF \<or> b AND 0xF0 \<noteq> 0 \<Longrightarrow> parse_msgs ctx (b # r) = ([], b # r)"
  by (auto simp: parse_msgs_tile tile_one_def)

lemma parse_msgs_built:
  assumes "list_all2 (\<lambda>(p, pl, mf) b. build_message p pl mf = Inr b) xs bs"
    and "\<And>ctx. parse_msgs ctx rest = ([], rest)"
  shows "\<exists>ms. parse_msgs ctx (concat bs @ rest) = (ms, rest) \<and> list_all2 built_ok xs ms"
  using assms(1)
proof (induction xs bs arbitrary: ctx rule: list_all2_induct)
  case Nil
  then show ?case by (simp add: assms(2))
next
  case (Cons x xs b bs)
  obtain p pl mf where x: "x = (p, pl, mf)" by (cases x)
  with Cons.hyps have "build_message p pl mf = Inr b" by simp
  from tile_build_message [OF this, of "concat bs @ rest" ctx] obtain fl r m c where
    t: "b @ concat bs @ rest = fl # r" "tile_one fl ctx r = Some (m, c, concat bs @ rest)" "built_ok x m"
    unfolding x by blast
  obtain ms where "parse_msgs c (concat bs @ rest) = (ms, rest)" "list_all2 built_ok xs ms"
    using Cons.IH by blast
  then show ?case using t by (intro exI [of _ "m # ms"]) (simp add: parse_msgs_tile)
qed

lemma and_high_nibble: "(v :: int) AND 0xF0 = 0 \<longleftrightarrow> v div 16 mod 16 = 0"
proof -
  have "v AND push_bit 4 (mask 4) = push_bit 4 (take_bit 4 (drop_bit 4 v))"
    by (rule bit_eqI) (auto simp: bit_simps)
  then show ?thesis
    by (simp add: mask_eq_exp_minus_1 push_bit_eq_mult take_bit_eq_mod drop_bit_eq_div)
qed

lemma rstrip_ff_pad: "l \<noteq> 0xFF \<Longrightarrow> rstrip_ff ([h, l] @ replicate n 0xFF) = [h, l]"
  by (simp add: rstrip_ff_def dropWhile_append)

text \<open>
  An application blob reads back as it was built: every message with its protocol,
  payload and (when given) message flags, byte for byte in order, then the station footer
  and the padding, for every footer whose high byte cannot start a message header and whose
  low byte cannot be taken for padding, as both stations' footers are.
\<close>

theorem app_blob_roundtrip:
  assumes built: "list_all2 (\<lambda>(p, pl, mf) b. build_message p pl mf = Inr b) xs bs"
    and app: "build_app bs st pad = Inr blob"
    and high: "0x1000 \<le> st" and low: "st mod 256 \<noteq> 255"
  shows "case parse_app blob of (ms, station, tail) \<Rightarrow>
     list_all2 built_ok xs ms \<and> station = Some st \<and> tail = 2 + pad"
proof -
  have st: "0 \<le> st" "st < 65536" and blob: "blob = concat bs @ to_be 2 st @ replicate pad 0xFF"
    using app by (auto simp: build_app_def to_bytes_be_def split: if_splits)
  have be: "to_be 2 st = [word_of_int (st div 256), word_of_int st]"
    by (simp add: to_be_def to_le_2)
  let ?h = "word_of_int (st div 256) :: byte" and ?l = "word_of_int st :: byte"
  have h: "uint ?h = st div 256" using st by (simp add: uint_word_of_int)
  have "?l \<noteq> 0xFF"
  proof
    assume "?l = 0xFF"
    then have "uint ?l = 255" by simp
    then show False using low by (simp add: uint_word_of_int)
  qed
  note strip = rstrip_ff_pad [OF this, of ?h pad]
  have "?h AND 0xF0 \<noteq> 0"
  proof
    assume "?h AND 0xF0 = 0"
    then have "uint (?h AND 0xF0) = 0" by simp
    then have "uint ?h AND 0xF0 = 0" by (simp only: unsigned_and_eq) simp
    then have "(st div 256) div 16 mod 16 = 0" unfolding h and_high_nibble .
    then show False using high st by (simp flip: zdiv_zmult2_eq)
  qed
  then have stop: "parse_msgs ctx (to_be 2 st @ replicate pad 0xFF) = ([], to_be 2 st @ replicate pad 0xFF)" for ctx
    by (simp add: be parse_msgs_stop)
  obtain ms where ms: "parse_msgs \<lparr>mc_mf = 0, mc_size = None, mc_proto = None\<rparr> blob
      = (ms, to_be 2 st @ replicate pad 0xFF)" "list_all2 built_ok xs ms"
    using parse_msgs_built [OF built stop] unfolding blob by blast
  have "from_be (to_be 2 st) = st" using st by (simp add: from_be_to_be)
  then have "parse_app blob = (ms, Some st, 2 + pad)"
    using ms(1) strip by (simp add: parse_app_def parse_messages_def blob be Let_def)
  then show ?thesis using ms(2) by simp
qed

theorem app_blob_roundtrip_witness:
  "\<exists>a b blob. build_message 10 [1, 2] (Some 3) = Inr a \<and> build_message 13 [] None = Inr b
     \<and> build_app [a, b] 0x7620 3 = Inr blob
     \<and> (case parse_app blob of (ms, station, tail) \<Rightarrow> station = Some 0x7620 \<and> tail = 5)"
proof -
  obtain a where a: "build_message 10 [1, 2] (Some 3) = Inr a" by (simp add: build_message_def to_bytes_be_def)
  obtain b where b: "build_message 13 [] None = Inr b" by (simp add: build_message_def to_bytes_be_def)
  obtain blob where blob: "build_app [a, b] 0x7620 3 = Inr blob" by (simp add: build_app_def to_bytes_be_def)
  have "list_all2 (\<lambda>(p, pl, mf) b. build_message p pl mf = Inr b)
      [(10, [1, 2], Some 3), (13, [], None)] [a, b]" using a b by simp
  from app_blob_roundtrip [OF this blob] have
    "case parse_app blob of (ms, station, tail) \<Rightarrow> station = Some 0x7620 \<and> tail = 2 + 3" by auto
  then have r: "case parse_app blob of (ms, station, tail) \<Rightarrow> station = Some 0x7620 \<and> tail = 5" by simp
  show ?thesis by (intro exI conjI, rule a, rule b, rule blob, rule r)
qed

subsection \<open>The reliable sub-header\<close>

definition rel_wf :: "rel_frame \<Rightarrow> bool" where
  "rel_wf f \<longleftrightarrow> length (rf_payload f) < 65536"

definition rel_encode :: "rel_frame \<Rightarrow> py_error + bytes" where
  "rel_encode f = build_reliable (rf_seq f) (rf_ack f) (rf_payload f) (rf_flags f)"

definition rel_decode :: "py_error + bytes \<Rightarrow> rel_frame option" where
  "rel_decode b = (case b of Inl e \<Rightarrow> None | Inr bs \<Rightarrow> map_option fst (parse_reliable bs))"

lemma parse_build_reliable:
  assumes "build_reliable s a inner fl = Inr b"
  shows "parse_reliable b = Some (\<lparr>rf_flags = fl, rf_seq = s, rf_ack = a, rf_payload = inner\<rparr>, int (length inner))"
proof -
  have len: "length inner < 65536"
    and b: "b = fl # to_be 2 (int (length inner)) @ to_be 2 (uint s) @ to_be 2 (uint a) @ 0 # inner"
    using assms by (auto simp: build_reliable_def to_bytes_be_def split: if_splits)
  have two: "\<exists>x y. to_be 2 v = [x, y]" for v :: int by (simp add: to_be_def to_le_2)
  obtain l1 l2 where l: "to_be 2 (int (length inner)) = [l1, l2]" using two by blast
  obtain s1 s2 where s: "to_be 2 (uint s) = [s1, s2]" using two by blast
  obtain a1 a2 where a: "to_be 2 (uint a) = [a1, a2]" using two by blast
  have "from_be [l1, l2] = int (length inner)"
    unfolding l [symmetric] using len by (simp add: from_be_to_be)
  moreover have "word_of_int (from_be [s1, s2]) = s" "word_of_int (from_be [a1, a2]) = a"
    unfolding s [symmetric] a [symmetric] by simp_all
  ultimately show ?thesis
    unfolding b l s a by (simp add: parse_reliable_def py_slice_def numeral_eq_Suc Let_def)
qed

interpretation rel: codec rel_encode rel_decode rel_wf
proof
  fix f
  assume "rel_wf f"
  then obtain b where "build_reliable (rf_seq f) (rf_ack f) (rf_payload f) (rf_flags f) = Inr b"
    by (auto simp: rel_wf_def build_reliable_def to_bytes_be_def)
  then show "rel_decode (rel_encode f) = Some f"
    by (simp add: rel_encode_def rel_decode_def parse_build_reliable)
qed

text \<open>
  A reliable frame survives the wire: the sub-header built for any sequence number,
  window base, flags and payload below 64 KiB parses back to the same values, so two frames
  that differ never look alike, and a larger payload is refused.
\<close>

theorem reliable_header_roundtrip:
  assumes "length inner < 65536" "length inner' < 65536"
  shows "(\<exists>b. build_reliable s a inner fl = Inr b \<and> parse_reliable b =
            Some (\<lparr>rf_flags = fl, rf_seq = s, rf_ack = a, rf_payload = inner\<rparr>, int (length inner)))
     \<and> (build_reliable s a inner fl = build_reliable s' a' inner' fl' \<longrightarrow>
            s = s' \<and> a = a' \<and> inner = inner' \<and> fl = fl')
     \<and> (65536 \<le> length big \<longrightarrow> build_reliable s a big fl = Inl OverflowError)"
proof -
  let ?f = "\<lambda>s a i fl. \<lparr>rf_flags = fl, rf_seq = s, rf_ack = a, rf_payload = i\<rparr>"
  have "\<exists>b. build_reliable s a inner fl = Inr b"
    using assms(1) by (simp add: build_reliable_def to_bytes_be_def)
  moreover have "?f s a inner fl = ?f s' a' inner' fl'"
    if "build_reliable s a inner fl = build_reliable s' a' inner' fl'"
    by (rule rel.enc_inj) (use that assms in \<open>simp_all add: rel_wf_def rel_encode_def\<close>)
  moreover have "65536 \<le> length big \<Longrightarrow> build_reliable s a big fl = Inl OverflowError"
    by (simp add: build_reliable_def to_bytes_be_def)
  ultimately show ?thesis
    using parse_build_reliable by blast
qed

theorem reliable_header_roundtrip_witness:
  "\<exists>b. build_reliable 0xFFF0 0xFFF1 [9] 7 = Inr b \<and> parse_reliable b =
     Some (\<lparr>rf_flags = 7, rf_seq = 0xFFF0, rf_ack = 0xFFF1, rf_payload = [9]\<rparr>, 1)"
  using reliable_header_roundtrip [where s = "0xFFF0" and a = "0xFFF1" and inner = "[9]" and inner' = "[]"
      and fl = "7"] by simp

end
