(* ===== verification/Ni.thy ===== *)
theory Ni
  imports Charmap Gbaframe
begin

section \<open>The NI game-data handshake (\<open>bridge/frlgsim/ni.py\<close>)\<close>

text \<open>
  The child's single-pass NI sender, which windows its source over four phases, the
  acknowledgement slots of both sides, the parent's join-status transfer, and the receiver
  that decides when the host's transfer is complete.  \<open>next_slot\<close> contains a loop that skips
  exhausted phases; it is a \<open>partial_function\<close>, so that a loop that never ends is \<open>None\<close>.
\<close>

datatype ni_state = Send_start | Sending | Send_last | Send_null | Ni_done

definition window_count :: nat where "window_count = 4"
definition child_frame_size :: nat where "child_frame_size = 2"
definition rfu_serial_game :: int where "rfu_serial_game = 0x0002"
definition rfu_status_join_group_ok :: int where "rfu_status_join_group_ok = 5"
definition ni_header_size :: int where "ni_header_size = 7"
definition activity_trade :: int where "activity_trade = 0x04"

definition build_game_data :: "int \<Rightarrow> int \<Rightarrow> ustr \<Rightarrow> int \<Rightarrow> int \<Rightarrow> bool \<Rightarrow> bytes \<Rightarrow> bytes" where
  "build_game_data version_low trainer_id ot_name language activity started partner_info =
     (let compat = (language AND 0xF) OR push_bit 10 (version_low AND 0xF);
          rgd = slice_assign (replicate 13 0) 0 2 (to_le 2 (compat AND 0xFFFF));
          rgd = slice_assign rgd 2 4 (to_le 2 (trainer_id AND 0xFFFF));
          rgd = slice_assign rgd 4 8 (ljust 4 0 (take 4 partner_info));
          rgd = slice_assign rgd 8 10 (to_le 2 0);
          rgd = rgd[10 := word_of_int ((activity AND 0x7F) OR push_bit 7 (if started then 1 else 0)),
                    11 := 0, 12 := 0];
          gname = ljust 15 0 rgd;
          uname = charmap_encode ot_name (Some 9) 0
      in to_le 2 rfu_serial_game @ gname @ uname)"

definition ni_header :: "int \<Rightarrow> int \<Rightarrow> int \<Rightarrow> bytes" where
  "ni_header data_type payload_size data_size =
     [word_of_int (data_type AND 0xFF)] @ to_le 2 (payload_size AND 0xFFFF)
     @ to_le 4 (data_size AND 0xFFFFFFFF)"

subsection \<open>The sender\<close>

record ni_sender =
  ns_src :: bytes
  ns_data_size :: nat
  ns_data_type :: int
  ns_payload_size :: nat
  ns_state :: ni_state
  ns_phase :: nat
  ns_n :: "int list"
  ns_remain :: int
  ns_now :: "nat list"
  ns_header :: bytes

text \<open>For a sub-frame size of at least the two bytes of the child header.\<close>

definition ni_sender_new :: "bytes \<Rightarrow> nat \<Rightarrow> int \<Rightarrow> ni_sender" where
  "ni_sender_new src sub_frame_size data_type =
     (let dt = data_type AND 0xFF; ps = sub_frame_size - child_frame_size
      in \<lparr>ns_src = src, ns_data_size = length src, ns_data_type = dt, ns_payload_size = ps,
          ns_state = Send_start, ns_phase = 0, ns_n = replicate window_count 1,
          ns_remain = ni_header_size, ns_now = replicate window_count 0,
          ns_header = ni_header dt (int ps) (int (length src))\<rparr>)"

definition ns_done :: "ni_sender \<Rightarrow> bool" where
  "ns_done s \<longleftrightarrow> ns_state s = Ni_done"

definition ni_emit :: "int \<Rightarrow> int \<Rightarrow> nat \<Rightarrow> int \<Rightarrow> bytes \<Rightarrow> bytes" where
  "ni_emit state_lcom n phase sz payload = child_ni_llsf state_lcom n (int phase) 0 sz @ payload"

partial_function (option) skip_phases :: "nat list \<Rightarrow> nat \<Rightarrow> nat \<Rightarrow> nat option" where
  "skip_phases now data_size phase =
     (if data_size \<le> now ! phase then skip_phases now data_size ((phase + 1) mod window_count)
      else Some phase)"

text \<open>One call: \<open>None\<close> when the phase loop does not end, else the slot (or the final \<open>None\<close>).\<close>

definition next_slot :: "ni_sender \<Rightarrow> (bytes option \<times> ni_sender) option" where
  "next_slot s =
     (case ns_state s of
        Send_start \<Rightarrow>
          let sz = min (ns_remain s) (int (ns_payload_size s));
              slot = ni_emit lcom_ni_start (ns_n s ! 0) 0 sz (take (nat sz) (ns_header s))
          in Some (Some slot, s\<lparr>ns_state := Sending, ns_phase := 0, ns_n := replicate window_count 1,
                 ns_now := map (\<lambda>i. ns_payload_size s * i) [0..<window_count],
                 ns_remain := int (ns_data_size s)\<rparr>)
      | Sending \<Rightarrow>
          (case skip_phases (ns_now s) (ns_data_size s) (ns_phase s) of
             None \<Rightarrow> None
           | Some ph \<Rightarrow>
               let off = ns_now s ! ph;
                   sz = min (ns_payload_size s) (ns_data_size s - off);
                   slot = ni_emit lcom_ni (ns_n s ! ph) ph (int sz) (py_slice (ns_src s) off (off + sz));
                   rem = ns_remain s - int sz;
                   s' = s\<lparr>ns_remain := rem, ns_now := (ns_now s)[ph := off + 4 * ns_payload_size s],
                          ns_phase := (ph + 1) mod window_count\<rparr>
               in Some (Some slot,
                        if rem \<le> 0 then s'\<lparr>ns_state := Send_last, ns_phase := 0\<rparr> else s'))
      | Send_last \<Rightarrow>
          Some (Some (ni_emit lcom_ni_end 0 0 0 []), s\<lparr>ns_state := Send_null\<rparr>)
      | Send_null \<Rightarrow>
          Some (Some (ni_emit lcom_null 1 0 0 []), s\<lparr>ns_state := Ni_done\<rparr>)
      | Ni_done \<Rightarrow> Some (None, s))"

subsection \<open>Acknowledgements and the receiver\<close>

definition recv_ack_slot :: "int \<Rightarrow> int \<Rightarrow> int \<Rightarrow> bytes" where
  "recv_ack_slot state n phase = child_ni_llsf state n phase 1 0"

definition parent_recv_ack_slot :: "int \<Rightarrow> int \<Rightarrow> int \<Rightarrow> bytes" where
  "parent_recv_ack_slot state n phase = parent_ni_llsf state n phase 1 0 1"

definition parent_join_status_slots :: "int \<Rightarrow> bytes list" where
  "parent_join_status_slots status =
     (let header = ni_header 0 5 1
      in [parent_ni_llsf lcom_ni_start 1 0 0 5 1 @ take 5 header,
          parent_ni_llsf lcom_ni_start 2 0 0 2 1 @ drop 5 header,
          parent_ni_llsf lcom_ni 1 0 0 1 1 @ [word_of_int (status AND 0xFF)],
          parent_ni_llsf lcom_ni_end 0 0 0 0 1,
          parent_ni_llsf lcom_null 1 0 0 0 1])"

record ni_receiver =
  nr_complete :: bool
  nr_status :: "byte option"

definition ni_receiver_new :: ni_receiver where
  "ni_receiver_new = \<lparr>nr_complete = False, nr_status = None\<rparr>"

definition on_host_ni :: "ni_rec option \<Rightarrow> ni_receiver \<Rightarrow> bytes option \<times> ni_receiver" where
  "on_host_ni rec r =
     (case rec of
        None \<Rightarrow> (None, r)
      | Some x \<Rightarrow>
          if ni_ack x \<noteq> 0 then (None, r)
          else
            let r1 = (if ni_state x = lcom_ni \<and> ni_payload x \<noteq> []
                      then r\<lparr>nr_status := Some (hd (ni_payload x))\<rparr> else r)
            in if ni_state x = lcom_null then (None, r1\<lparr>nr_complete := True\<rparr>)
               else
                 let r2 = (if ni_state x = lcom_ni_end then r1\<lparr>nr_complete := True\<rparr> else r1)
                 in if ni_state x \<in> {lcom_ni_start, lcom_ni, lcom_ni_end}
                    then (Some (recv_ack_slot (ni_state x) (ni_n x) (ni_phase x)), r2)
                    else (None, r2))"

subsection \<open>A whole transfer\<close>

text \<open>Calls until the sender reports the end, at most \<open>k\<close> of them.\<close>

fun ni_calls :: "nat \<Rightarrow> ni_sender \<Rightarrow> (bytes list \<times> ni_sender) option" where
  "ni_calls 0 s = Some ([], s)"
| "ni_calls (Suc k) s =
     (case next_slot s of
        None \<Rightarrow> None
      | Some (None, s') \<Rightarrow> Some ([], s')
      | Some (Some x, s') \<Rightarrow> map_option (\<lambda>(xs, t). (x # xs, t)) (ni_calls k s'))"

text \<open>The source cut into payload-sized pieces.\<close>

fun pieces :: "nat \<Rightarrow> 'a list \<Rightarrow> 'a list list" where
  "pieces p xs = (if p = 0 \<or> xs = [] then [] else take p xs # pieces p (drop p xs))"

declare pieces.simps [simp del]

lemma concat_pieces: "0 < p \<Longrightarrow> concat (pieces p xs) = xs"
  by (induction p xs rule: pieces.induct) (subst pieces.simps, auto)

lemma length_pieces: "0 < p \<Longrightarrow> x \<in> set (pieces p xs) \<Longrightarrow> length x \<le> p \<and> x \<noteq> []"
proof (induction p xs rule: pieces.induct)
  case (1 p xs)
  then show ?case by (cases "xs = []") (auto simp: pieces.simps [of p xs] pieces.simps [of p "[]"])
qed

definition ni_data_slot :: "nat \<Rightarrow> bytes \<Rightarrow> bytes" where
  "ni_data_slot k c = ni_emit lcom_ni 1 (k mod 4) (int (length c)) c"

text \<open>The sender after \<open>k\<close> data slots, while source bytes are left.\<close>

definition sending_at :: "bytes \<Rightarrow> nat \<Rightarrow> nat \<Rightarrow> ni_sender \<Rightarrow> bool" where
  "sending_at src p k s \<longleftrightarrow> ns_state s = Sending \<and> ns_src s = src \<and> ns_data_size s = length src
     \<and> ns_payload_size s = p \<and> ns_phase s = k mod 4 \<and> ns_n s = replicate 4 1
     \<and> ns_remain s = int (length src) - int (k * p)
     \<and> ns_now s = map (\<lambda>i. p * (k + (i + 3 * k) mod 4)) [0..<4] \<and> k * p < length src"

lemma now_step:
  assumes "i < (4 :: nat)"
  shows "(if i = k mod 4 then p * k + 4 * p else p * (k + (i + 3 * k) mod 4))
     = p * (Suc k + (i + 3 * Suc k) mod 4)"
proof -
  have a: "(i + 3 * Suc k) mod 4 = 3 \<and> (i + 3 * k) mod 4 = 0" if "i = k mod 4"
    using that by presburger
  have b: "(i + 3 * k) mod 4 = Suc ((i + 3 * Suc k) mod 4)" if "i \<noteq> k mod 4"
  proof -
    have i: "i = 0 \<or> i = 1 \<or> i = 2 \<or> i = 3" using assms by linarith
    have m: "(j + 3 * k) mod 4 = (j + 3 * (k mod 4)) mod 4" for j
      by (metis mod_add_right_eq mod_mult_right_eq)
    have S: "i + 3 * Suc k = (i + 3) + 3 * k" by simp
    have "k mod 4 < 4" by simp
    then have "k mod 4 = 0 \<or> k mod 4 = 1 \<or> k mod 4 = 2 \<or> k mod 4 = 3" by linarith
    then show ?thesis using i that unfolding S m by (elim disjE) (simp_all only:, simp_all)
  qed
  show ?thesis
  proof (cases "i = k mod 4")
    case True
    have "p * k + 4 * p = p * (Suc k + 3)" by (simp add: algebra_simps)
    then show ?thesis using True a [OF True] by (simp only: if_True simp_thms)
  next
    case False
    have "k + Suc ((i + 3 * Suc k) mod 4) = Suc k + (i + 3 * Suc k) mod 4" by simp
    then show ?thesis using False b [OF False] by (simp only: if_False simp_thms)
  qed
qed

lemma sending_step:
  assumes at: "sending_at src p k s" and p: "0 < p"
  shows "\<exists>s'. next_slot s = Some (Some (ni_data_slot k (take p (drop (k * p) src))), s')
     \<and> (if Suc k * p < length src then sending_at src p (Suc k) s' else ns_state s' = Send_last)"
proof -
  let ?off = "ns_now s ! (k mod 4)"
  have k4: "k mod 4 < 4" by simp
  have off: "?off = k * p"
  proof -
    have "(k mod 4 + 3 * k) mod 4 = 0" by presburger
    then show ?thesis using at k4 by (simp add: sending_at_def mult.commute)
  qed
  have len: "length (take p (drop (k * p) src)) = min p (length src - k * p)" by simp
  have now: "(ns_now s)[k mod 4 := k * p + 4 * p] = map (\<lambda>i. p * (Suc k + (i + 3 * Suc k) mod 4)) [0..<4]"
  proof (rule nth_equalityI)
    show "length ((ns_now s)[k mod 4 := k * p + 4 * p]) = length (map (\<lambda>i. p * (Suc k + (i + 3 * Suc k) mod 4)) [0..<4])"
      using at by (simp add: sending_at_def)
  next
    fix i assume "i < length ((ns_now s)[k mod 4 := k * p + 4 * p])"
    then have i: "i < 4" using at by (simp add: sending_at_def)
    then show "(ns_now s)[k mod 4 := k * p + 4 * p] ! i
        = map (\<lambda>i. p * (Suc k + (i + 3 * Suc k) mod 4)) [0..<4] ! i"
      using at now_step [OF i, of k p, symmetric] by (auto simp: sending_at_def nth_list_update mult.commute [of k p] simp del: mult_Suc_right)
  qed
  have skip: "skip_phases (ns_now s) (length src) (k mod 4) = Some (k mod 4)"
    by (subst skip_phases.simps, unfold off) (use at in \<open>simp add: sending_at_def\<close>)
  have n: "ns_n s ! (k mod 4) = 1" using at by (simp add: sending_at_def)
  have slice: "py_slice src (k * p) (k * p + min p (length src - k * p)) = take p (drop (k * p) src)"
    by (simp add: py_slice_def min_def)
  define r where "r = ns_remain s - int (min p (length src - k * p))"
  have rem: "r \<le> 0 \<longleftrightarrow> \<not> Suc k * p < length src"
    "Suc k * p < length src \<Longrightarrow> r = int (length src) - int (Suc k * p)"
  proof -
    have r: "r = int (length src) - int (k * p) - int (min p (length src - k * p))"
      and lt: "k * p < length src" using at by (simp_all add: r_def sending_at_def)
    have S: "Suc k * p = k * p + p" by simp
    show "r \<le> 0 \<longleftrightarrow> \<not> Suc k * p < length src"
      "Suc k * p < length src \<Longrightarrow> r = int (length src) - int (Suc k * p)"
      using lt unfolding r S by linarith+
  qed
  have ph: "(k mod 4 + 1) mod window_count = Suc k mod 4" by (simp add: window_count_def mod_Suc_eq)
  let ?s = "s\<lparr>ns_remain := r, ns_now := (ns_now s)[k mod 4 := k * p + 4 * p], ns_phase := Suc k mod 4\<rparr>"
  have st: "ns_state s = Sending" "ns_data_size s = length src" "ns_payload_size s = p"
    "ns_phase s = k mod 4" "ns_src s = src" using at by (simp_all add: sending_at_def)
  have "next_slot s = Some (Some (ni_data_slot k (take p (drop (k * p) src))),
      if r \<le> 0 then ?s\<lparr>ns_state := Send_last, ns_phase := 0\<rparr> else ?s)"
    unfolding next_slot_def st ni_state.case skip option.case Let_def off n slice ph r_def
      ni_data_slot_def len ..
  moreover have "Suc k * p < length src \<Longrightarrow> sending_at src p (Suc k) ?s"
    using at rem(2) now by (simp add: sending_at_def)
  ultimately show ?thesis using rem(1) by auto
qed

lemma sending_run:
  assumes "sending_at src p k s" "0 < p"
  shows "\<exists>s'. ns_state s' = Send_last \<and> (\<forall>j. ni_calls (length (pieces p (drop (k * p) src)) + j) s
     = map_option (\<lambda>(xs, t). (map (\<lambda>(i, c). ni_data_slot i c)
                                (enumerate k (pieces p (drop (k * p) src))) @ xs, t)) (ni_calls j s'))"
  using assms
proof (induction "length src - k * p" arbitrary: k s rule: less_induct)
  case less
  let ?c = "take p (drop (k * p) src)"
  have lt: "k * p < length src" using less.prems(1) by (simp add: sending_at_def)
  have pcs: "pieces p (drop (k * p) src) = ?c # pieces p (drop (Suc k * p) src)"
    using lt less.prems(2) by (subst pieces.simps) (simp add: add.commute)
  obtain s1 where s1: "next_slot s = Some (Some (ni_data_slot k ?c), s1)"
    "if Suc k * p < length src then sending_at src p (Suc k) s1 else ns_state s1 = Send_last"
    using sending_step [OF less.prems] by blast
  show ?case
  proof (cases "Suc k * p < length src")
    case True
    then have at1: "sending_at src p (Suc k) s1" using s1(2) by simp
    have "length src - Suc k * p < length src - k * p" using lt less.prems(2) by simp
    from less.hyps [OF this at1 less.prems(2)] obtain s' where ih: "ns_state s' = Send_last"
      "\<And>j. ni_calls (length (pieces p (drop (Suc k * p) src)) + j) s1
         = map_option (\<lambda>(xs, t). (map (\<lambda>(i, c). ni_data_slot i c)
              (enumerate (Suc k) (pieces p (drop (Suc k * p) src))) @ xs, t)) (ni_calls j s')" by blast
    show ?thesis
      by (rule exI [of _ s']) (simp add: pcs s1(1) ih option.map_comp comp_def case_prod_unfold del: mult_Suc)
  next
    case False
    then have "pieces p (drop (Suc k * p) src) = []" by (subst pieces.simps) simp
    then show ?thesis
      using s1 False by (intro exI [of _ s1]) (simp add: pcs)
  qed
qed

lemma nat_int_sub2: "2 < n \<Longrightarrow> nat (int n - 2) = n - 2"
  by linarith

lemma sending_start:
  assumes "src \<noteq> []" "2 < sub"
  shows "\<exists>s. next_slot (ni_sender_new src sub dt)
      = Some (Some (ni_emit lcom_ni_start 1 0 (min 7 (int (sub - 2)))
          (take (min 7 (sub - 2)) (ni_header (dt AND 0xFF) (int (sub - 2)) (int (length src))))), s)
    \<and> sending_at src (sub - 2) 0 s"
  using assms nat_int_sub2 [of sub]
  by (auto simp: next_slot_def ni_sender_new_def Let_def sending_at_def window_count_def
      child_frame_size_def ni_header_size_def min_def)

text \<open>
  C38: The NI sender terminates and sends its source once, in order: for every non-empty
  source and every sub-frame size above the two header bytes, calling it until it reports the
  end takes exactly three control slots and one slot per piece; the slots are NI_START, the
  pieces numbered over the four phases, NI_END and NULL, and the pieces concatenate to the
  source.
\<close>

theorem ni_transfer_complete:
  assumes "src \<noteq> []" "2 < sub" "length (pieces (sub - 2) src) + 3 < fuel"
  shows "\<exists>h t. ni_calls fuel (ni_sender_new src sub dt)
       = Some (ni_emit lcom_ni_start 1 0 (min 7 (int (sub - 2))) h
               # map (\<lambda>(k, c). ni_emit lcom_ni 1 (k mod 4) (int (length c)) c)
                     (enumerate 0 (pieces (sub - 2) src))
               @ [ni_emit lcom_ni_end 0 0 0 [], ni_emit lcom_null 1 0 0 []], t)
     \<and> ns_done t \<and> concat (pieces (sub - 2) src) = src
     \<and> (\<forall>c\<in>set (pieces (sub - 2) src). length c \<le> sub - 2 \<and> c \<noteq> [])"
proof -
  let ?p = "sub - 2"
  have p: "0 < ?p" using assms(2) by simp
  obtain s where s: "next_slot (ni_sender_new src sub dt) = Some (Some (ni_emit lcom_ni_start 1 0
      (min 7 (int ?p)) (take (min 7 ?p) (ni_header (dt AND 0xFF) (int ?p) (int (length src))))), s)"
    "sending_at src ?p 0 s" using sending_start [OF assms(1,2)] by blast
  obtain s' where s': "ns_state s' = Send_last"
    "\<And>j. ni_calls (length (pieces ?p src) + j) s
       = map_option (\<lambda>(xs, t). (map (\<lambda>(i, c). ni_data_slot i c) (enumerate 0 (pieces ?p src)) @ xs, t))
           (ni_calls j s')"
    using sending_run [OF s(2) p] by auto
  obtain j where j: "fuel = Suc (length (pieces ?p src) + Suc (Suc (Suc j)))"
    using less_imp_Suc_add [OF assms(3)] by (auto simp: numeral_eq_Suc)
  let ?t = "s'\<lparr>ns_state := Ni_done\<rparr>"
  have "ni_calls (Suc (Suc (Suc j))) s' = Some ([ni_emit lcom_ni_end 0 0 0 [], ni_emit lcom_null 1 0 0 []], ?t)"
    using s'(1) by (simp add: next_slot_def)
  then have "ni_calls (length (pieces ?p src) + Suc (Suc (Suc j))) s
      = Some (map (\<lambda>(i, c). ni_data_slot i c) (enumerate 0 (pieces ?p src))
              @ [ni_emit lcom_ni_end 0 0 0 [], ni_emit lcom_null 1 0 0 []], ?t)"
    by (simp only: s'(2) option.map prod.case)
  then have "ni_calls fuel (ni_sender_new src sub dt)
      = Some (ni_emit lcom_ni_start 1 0 (min 7 (int ?p))
                (take (min 7 ?p) (ni_header (dt AND 0xFF) (int ?p) (int (length src))))
              # map (\<lambda>(k, c). ni_emit lcom_ni 1 (k mod 4) (int (length c)) c) (enumerate 0 (pieces ?p src))
              @ [ni_emit lcom_ni_end 0 0 0 [], ni_emit lcom_null 1 0 0 []], ?t)"
    unfolding j by (simp only: ni_calls.simps(2) s(1) option.case prod.case option.map ni_data_slot_def)
  moreover have "ns_done ?t" by (simp add: ns_done_def)
  ultimately show ?thesis
    using concat_pieces [OF p, of src] length_pieces [OF p] by blast
qed

theorem ni_transfer_complete_witness:
  "\<exists>h t. ni_calls 7 (ni_sender_new (replicate 26 9) 14 1)
       = Some ([ni_emit lcom_ni_start 1 0 7 h,
                ni_emit lcom_ni 1 0 12 (replicate 12 9), ni_emit lcom_ni 1 1 12 (replicate 12 9),
                ni_emit lcom_ni 1 2 2 [9, 9],
                ni_emit lcom_ni_end 0 0 0 [], ni_emit lcom_null 1 0 0 []], t) \<and> ns_done t"
proof -
  have p: "pieces 12 (replicate 26 9) = [replicate 12 9, replicate 12 9, [9 :: byte, 9]]"
    by (simp add: pieces.simps numeral_eq_Suc)
  show ?thesis
    using ni_transfer_complete [of "replicate 26 9" 14 7 1] by (auto simp: p numeral_2_eq_2 simp del: ni_calls.simps)
qed

text \<open>
  An empty source makes the phase loop run forever: after NI_START every window is past the
  end of the source, so the second call does not return.
\<close>

lemma skip_phases_stuck:
  assumes "skip_phases now n ph = Some y"
  shows "(\<forall>i<4. n \<le> now ! i) \<longrightarrow> ph < 4 \<longrightarrow> False"
proof (rule skip_phases.raw_induct [OF _ assms, of "\<lambda>now n ph y. (\<forall>i<4. n \<le> now ! i) \<longrightarrow> ph < 4 \<longrightarrow> False"])
  fix f :: "nat list \<Rightarrow> nat \<Rightarrow> nat \<Rightarrow> nat option" and now n ph y
  assume "\<And>now n ph y. f now n ph = Some y \<Longrightarrow> (\<forall>i<4. n \<le> now ! i) \<longrightarrow> ph < 4 \<longrightarrow> False"
    and "(if n \<le> now ! ph then f now n ((ph + 1) mod window_count) else Some ph) = Some y"
  then show "(\<forall>i<4. n \<le> now ! i) \<longrightarrow> ph < 4 \<longrightarrow> False"
    by (auto simp: window_count_def split: if_splits)
      (metis mod_less_divisor zero_less_numeral)
qed

lemma empty_source_hangs:
  "next_slot (snd (the (next_slot (ni_sender_new [] sub dt)))) = None"
proof -
  let ?s = "snd (the (next_slot (ni_sender_new [] sub dt)))"
  have "skip_phases (ns_now ?s) 0 0 = None"
    using skip_phases_stuck [of "ns_now ?s" 0 0] by (cases "skip_phases (ns_now ?s) 0 0") auto
  then show ?thesis
    by (simp add: next_slot_def ni_sender_new_def Let_def)
qed

subsection \<open>The game data\<close>

lemma length4_cases:
  assumes "length xs = 4"
  obtains a b c d where "xs = [a, b, c, d]"
  using assms by (auto simp: numeral_eq_Suc length_Suc_conv)

lemma length_build_game_data [simp]: "length (build_game_data v t name lang act st partner) = 26"
  by (simp add: build_game_data_def Let_def length_slice_assign)

text \<open>
  The 26-byte game data holds what it was built from, whatever the arguments: the serial
  number, language and version in their bit fields, the trainer id modulo 65536, the activity
  with its started flag, and a name field that decodes to the first eight encodable characters
  of the trainer name.  The length assertion of the code never fails.
\<close>

theorem game_data_fields:
  "let d = build_game_data v t name lang act st partner
   in length d = 26 \<and> from_le (py_slice d 0 2) = rfu_serial_game
     \<and> from_le (py_slice d 2 4) AND 0xF = lang AND 0xF
     \<and> drop_bit 10 (from_le (py_slice d 2 4)) AND 0xF = v AND 0xF
     \<and> from_le (py_slice d 4 6) = t mod 65536
     \<and> uint (d ! 12) AND 0x7F = act AND 0x7F \<and> bit (d ! 12) 7 = st
     \<and> charmap_decode True (py_slice d 17 26) = take 8 (filter encodable name)"
proof -
  define d where "d = build_game_data v t name lang act st partner"
  let ?compat = "(lang AND 0xF) OR push_bit 10 (v AND 0xF)"
  define a where "a = ((act AND 0x7F) OR push_bit 7 (if st then 1 else 0 :: int))"
  obtain p0 p1 p2 p3 where p: "ljust 4 0 (take 4 partner) = [p0, p1, p2, p3 :: byte]"
  proof -
    have "length (ljust 4 0 (take 4 partner)) = 4" by simp
    then show ?thesis using that by (rule length4_cases)
  qed
  have d: "d = to_le 2 rfu_serial_game @ to_le 2 (?compat AND 0xFFFF) @ to_le 2 (t AND 0xFFFF)
      @ [p0, p1, p2, p3] @ [0, 0, word_of_int a, 0, 0, 0, 0] @ charmap_encode name (Some 9) 0"
    unfolding d_def build_game_data_def Let_def p a_def [symmetric]
    by (simp add: slice_assign_def ljust_def to_le_2 numeral_eq_Suc list_update_append)
  have parts: "py_slice d 0 2 = to_le 2 rfu_serial_game" "py_slice d 2 4 = to_le 2 (?compat AND 0xFFFF)"
    "py_slice d 4 6 = to_le 2 (t AND 0xFFFF)" "py_slice d 17 26 = charmap_encode name (Some 9) 0"
    "d ! 12 = word_of_int a"
    by (simp_all add: d py_slice_def to_le_2 numeral_eq_Suc)
  have c: "take_bit 4 (take_bit 16 (take_bit 16 (take_bit 4 lang OR push_bit 10 (take_bit 4 v)))) = take_bit 4 lang"
    "take_bit 4 (drop_bit 10 (take_bit 16 (take_bit 16 (take_bit 4 lang OR push_bit 10 (take_bit 4 v))))) = take_bit 4 v"
    by (rule bit_eqI; auto simp: bit_expand)+
  have "take_bit 7 (uint (word_of_int a :: byte)) = take_bit 7 act" "bit (word_of_int a :: byte) 7 = st"
    unfolding a_def masks by (rule bit_eqI, auto simp: bit_expand)
  moreover have "from_le (to_le 2 (?compat AND 0xFFFF)) AND 0xF = lang AND 0xF"
    "drop_bit 10 (from_le (to_le 2 (?compat AND 0xFFFF))) AND 0xF = v AND 0xF"
    unfolding le_bytes masks c by simp_all
  moreover have "from_le (to_le 2 (t AND 0xFFFF)) = t mod 65536"
    unfolding le_bytes masks by (simp add: take_bit_eq_mod)
  moreover have "from_le (to_le 2 rfu_serial_game) = rfu_serial_game"
    by (rule from_le_to_le_id) (simp_all add: rfu_serial_game_def)
  moreover have "charmap_decode True (charmap_encode name (Some 9) 0) = take 8 (filter encodable name)"
    using decode_charmap_encode [of 9 name 0] by simp
  moreover have "length d = 26" by (simp add: d_def)
  ultimately show ?thesis
    unfolding d_def [symmetric] Let_def parts and_mask_127 by blast
qed

definition host_ni_run :: "ni_rec option list \<Rightarrow> ni_receiver \<Rightarrow> bytes option list \<times> ni_receiver" where
  "host_ni_run recs r =
     foldl (\<lambda>(acks, r) x. let (a, r') = on_host_ni x r in (acks @ [a], r')) ([], r) recs"

definition ni_of_frame :: "bytes \<Rightarrow> ni_rec option" where
  "ni_of_frame fr = (case parse_in fr of Some (FrameT f) \<Rightarrow> tf_ni f | _ \<Rightarrow> None)"

lemma ni_of_wrapped:
  assumes "length pay < 253" "st AND 0xF \<noteq> 4"
  shows "\<exists>fr. wrap_parent_t (Some (parent_ni_llsf st n ph ack sz b @ pay)) ts = Inr fr
     \<and> ni_of_frame fr = Some \<lparr>ni_state = st AND 0xF, ni_ack = ack AND 1, ni_n = n AND 3,
                              ni_phase = ph AND 3, ni_size = sz AND 0x7F, ni_payload = pay\<rparr>"
  using parse_in_parent_ni [OF assms, of n ph ack sz b ts] by (auto simp: ni_of_frame_def)

text \<open>
  The child's receiver takes the parent's join-status transfer to completion.  Fed the
  five sub-frames as the child's own frame parser decodes them, it acknowledges the first
  four by mirroring their state, number and phase, does not acknowledge the terminator, and
  ends complete with the status byte the parent sent; before NI_END it is not complete.
\<close>

theorem join_status_accepted:
  "\<exists>frs. list_all2 (\<lambda>sl fr. wrap_parent_t (Some sl) ts = Inr fr) (parent_join_status_slots status) frs
     \<and> host_ni_run (map ni_of_frame frs) ni_receiver_new
        = ([Some (recv_ack_slot lcom_ni_start 1 0), Some (recv_ack_slot lcom_ni_start 2 0),
            Some (recv_ack_slot lcom_ni 1 0), Some (recv_ack_slot lcom_ni_end 0 0), None],
           \<lparr>nr_complete = True, nr_status = Some (word_of_int status)\<rparr>)
     \<and> \<not> nr_complete (snd (host_ni_run (map ni_of_frame (take 3 frs)) ni_receiver_new))"
proof -
  let ?h = "ni_header 0 5 1"
  have st: "word_of_int (status AND 0xFF) = (word_of_int status :: byte)"
    unfolding masks by (rule bit_eqI) (auto simp: bit_simps)
  have l: "length (take 5 ?h) < 253" "length (drop 5 ?h) < 253" by (simp_all add: ni_header_def)
  have nz: "lcom_ni_start AND 0xF \<noteq> 4" "lcom_ni AND 0xF \<noteq> 4" "lcom_ni_end AND 0xF \<noteq> 4" "lcom_null AND 0xF \<noteq> 4"
    by (simp_all add: lcoms)
  obtain f1 where f1: "wrap_parent_t (Some (parent_ni_llsf lcom_ni_start 1 0 0 5 1 @ take 5 ?h)) ts = Inr f1"
    "ni_of_frame f1 = Some \<lparr>ni_state = 1, ni_ack = 0, ni_n = 1, ni_phase = 0, ni_size = 5, ni_payload = take 5 ?h\<rparr>"
    using ni_of_wrapped [OF l(1) nz(1), of 1 0 0 5 1 ts] by (auto simp: lcoms)
  obtain f2 where f2: "wrap_parent_t (Some (parent_ni_llsf lcom_ni_start 2 0 0 2 1 @ drop 5 ?h)) ts = Inr f2"
    "ni_of_frame f2 = Some \<lparr>ni_state = 1, ni_ack = 0, ni_n = 2, ni_phase = 0, ni_size = 2, ni_payload = drop 5 ?h\<rparr>"
    using ni_of_wrapped [OF l(2) nz(1), of 2 0 0 2 1 ts] by (auto simp: lcoms)
  obtain f3 where f3: "wrap_parent_t (Some (parent_ni_llsf lcom_ni 1 0 0 1 1 @ [word_of_int status])) ts = Inr f3"
    "ni_of_frame f3 = Some \<lparr>ni_state = 2, ni_ack = 0, ni_n = 1, ni_phase = 0, ni_size = 1, ni_payload = [word_of_int status]\<rparr>"
    using ni_of_wrapped [OF _ nz(2), of "[word_of_int status]" 1 0 0 1 1 ts] by (auto simp: lcoms)
  obtain f4 where f4: "wrap_parent_t (Some (parent_ni_llsf lcom_ni_end 0 0 0 0 1)) ts = Inr f4"
    "ni_of_frame f4 = Some \<lparr>ni_state = 3, ni_ack = 0, ni_n = 0, ni_phase = 0, ni_size = 0, ni_payload = []\<rparr>"
    using ni_of_wrapped [OF _ nz(3), of "[]" 0 0 0 0 1 ts] by (auto simp: lcoms)
  obtain f5 where f5: "wrap_parent_t (Some (parent_ni_llsf lcom_null 1 0 0 0 1)) ts = Inr f5"
    "ni_of_frame f5 = Some \<lparr>ni_state = 0, ni_ack = 0, ni_n = 1, ni_phase = 0, ni_size = 0, ni_payload = []\<rparr>"
    using ni_of_wrapped [OF _ nz(4), of "[]" 1 0 0 0 1 ts] by (auto simp: lcoms)
  show ?thesis
    by (rule exI [of _ "[f1, f2, f3, f4, f5]"])
       (use f1(1) f2(1) f3(1) f4(1) f5(1) in \<open>simp add: parent_join_status_slots_def st f1(2) f2(2) f3(2)
          f4(2) f5(2) host_ni_run_def on_host_ni_def ni_receiver_new_def lcoms Let_def\<close>)
qed

end
