(* ===== verification/Barrier.thy ===== *)
theory Barrier
  imports Rfu
begin

section \<open>The standby and close-link barrier (\<open>bridge/frlgsim/barrier.py\<close>)\<close>

text \<open>
  \<^verbatim>\<open>BarrierResponder\<close>: the child's side of the READY_EXIT_STANDBY and READY_CLOSE_LINK
  rounds, entered either because its own state machine initiates a barrier or because the
  host broadcasts one, with the two frame watchdogs.  Log lines are not modelled.
\<close>

datatype bar_mode = Bar_idle | Bar_standby | Bar_close

definition initiate_timeout :: nat where "initiate_timeout = 120"
definition idle_timeout :: nat where "idle_timeout = 90"

record barrier =
  br_mode :: bar_mode
  br_initiated :: bool
  br_host_count :: "int option"
  br_local_count :: int
  br_since_host :: nat
  br_since_initiate :: nat
  br_rounds :: nat
  br_max_emits :: "nat option"
  br_burst_for :: "int option"
  br_burst_n :: nat

definition barrier_new :: barrier where
  "barrier_new =
     \<lparr>br_mode = Bar_idle, br_initiated = False, br_host_count = None, br_local_count = 0,
      br_since_host = 0, br_since_initiate = 0, br_rounds = 0, br_max_emits = None,
      br_burst_for = None, br_burst_n = 0\<rparr>"

definition br_active :: "barrier \<Rightarrow> bool" where
  "br_active b \<longleftrightarrow> br_mode b \<noteq> Bar_idle"

definition reset_to_idle :: "barrier \<Rightarrow> barrier" where
  "reset_to_idle b =
     (if br_mode b = Bar_standby
      then b\<lparr>br_mode := Bar_idle, br_initiated := False, br_since_initiate := 0, br_burst_for := None\<rparr>
      else b)"

definition br_initiate :: "bar_mode \<Rightarrow> barrier \<Rightarrow> barrier" where
  "br_initiate kind b =
     (if kind = Bar_close then
        if br_mode b \<noteq> Bar_close
        then b\<lparr>br_mode := Bar_close, br_initiated := True, br_since_host := 0, br_since_initiate := 0\<rparr>
        else b
      else if br_mode b = Bar_standby then b
      else b\<lparr>br_mode := Bar_standby, br_initiated := True, br_host_count := None, br_since_host := 0,
             br_since_initiate := 0, br_burst_for := None\<rparr>)"

subsection \<open>Receiving the host's barrier slot\<close>

definition on_host_standby :: "int \<Rightarrow> barrier \<Rightarrow> bool \<times> barrier" where
  "on_host_standby count b =
     (let prev_host = br_host_count b;
          b1 = b\<lparr>br_since_host := 0, br_host_count := Some count\<rparr>
      in if br_initiated b1 \<and> br_mode b1 = Bar_standby then
           if count = br_local_count b1 then
             (True, b1\<lparr>br_local_count := br_local_count b1 + 1, br_rounds := br_rounds b1 + 1,
                       br_mode := Bar_idle, br_initiated := False, br_since_initiate := 0\<rparr>)
           else (False, b1)
         else if count < br_local_count b1 then (False, b1)
         else
           let b2 = (if br_mode b1 \<noteq> Bar_standby then b1\<lparr>br_mode := Bar_standby, br_initiated := False\<rparr>
                     else if prev_host \<noteq> None \<and> Some count \<noteq> prev_host
                     then b1\<lparr>br_rounds := br_rounds b1 + 1\<rparr> else b1)
           in (False, b2\<lparr>br_local_count := count, br_since_initiate := 0\<rparr>))"

definition on_host_close :: "int \<Rightarrow> barrier \<Rightarrow> barrier" where
  "on_host_close count b =
     (let b1 = b\<lparr>br_since_host := 0, br_host_count := Some count, br_local_count := count\<rparr>
      in if br_mode b1 \<noteq> Bar_close then b1\<lparr>br_mode := Bar_close, br_initiated := False\<rparr> else b1)"

definition slot_count :: "parsed_slot \<Rightarrow> int" where
  "slot_count p = (case ps_count p of Some c \<Rightarrow> c | None \<Rightarrow> 0)"

definition on_in_slot :: "parsed_slot option \<Rightarrow> barrier \<Rightarrow> bool \<times> barrier" where
  "on_in_slot parsed b =
     (case parsed of
        None \<Rightarrow> (False, b)
      | Some p \<Rightarrow>
          if ps_op p = rfu_ready_exit_standby then on_host_standby (slot_count p) b
          else if ps_op p = rfu_ready_close_link then (False, on_host_close (slot_count p) b)
          else (False, b))"

subsection \<open>The watchdogs and the emitted command\<close>

definition observe_frame :: "bool \<Rightarrow> barrier \<Rightarrow> barrier" where
  "observe_frame saw b =
     (if br_mode b \<noteq> Bar_standby then b
      else if saw then b\<lparr>br_since_host := 0, br_since_initiate := 0\<rparr>
      else
        let b1 = b\<lparr>br_since_host := br_since_host b + 1\<rparr>
        in if br_initiated b1 then
             let b2 = b1\<lparr>br_since_initiate := br_since_initiate b1 + 1\<rparr>
             in if initiate_timeout < br_since_initiate b2
                then b2\<lparr>br_mode := Bar_idle, br_initiated := False\<rparr> else b2
           else if idle_timeout < br_since_host b1
           then b1\<lparr>br_local_count := br_local_count b1 + 1, br_rounds := br_rounds b1 + 1,
                   br_mode := Bar_idle\<rparr>
           else b1)"

definition want_emit :: "barrier \<Rightarrow> int list option \<times> barrier" where
  "want_emit b =
     (if br_mode b = Bar_idle then (None, b)
      else
        let go = (\<lambda>b. (Some (if br_mode b = Bar_standby then exit_standby_words (br_local_count b)
                              else close_link_words (br_local_count b)), b))
        in case br_max_emits b of
             None \<Rightarrow> go b
           | Some m \<Rightarrow>
               let b1 = (if br_burst_for b \<noteq> Some (br_local_count b)
                         then b\<lparr>br_burst_for := Some (br_local_count b), br_burst_n := 0\<rparr> else b)
               in if m \<le> br_burst_n b1 then (None, b1)
                  else go (b1\<lparr>br_burst_n := br_burst_n b1 + 1\<rparr>))"

lemmas barrier_defs = reset_to_idle_def br_initiate_def on_host_standby_def on_host_close_def
  observe_frame_def want_emit_def Let_def

subsection \<open>Runs\<close>

text \<open>
  Everything that can happen to the responder: the engine initiates or resets, the host
  broadcasts a standby or a close, a frame passes, a command is emitted.
\<close>

datatype bar_event =
    Ev_initiate bar_mode
  | Ev_reset
  | Ev_standby nat
  | Ev_close nat
  | Ev_frame bool
  | Ev_emit

fun bar_step :: "barrier \<Rightarrow> bar_event \<Rightarrow> barrier" where
  "bar_step b (Ev_initiate k) = br_initiate k b"
| "bar_step b Ev_reset = reset_to_idle b"
| "bar_step b (Ev_standby c) = snd (on_host_standby (int c) b)"
| "bar_step b (Ev_close c) = on_host_close (int c) b"
| "bar_step b (Ev_frame saw) = observe_frame saw b"
| "bar_step b Ev_emit = snd (want_emit b)"

definition bar_inv :: "barrier \<Rightarrow> bool" where
  "bar_inv b \<longleftrightarrow> 0 \<le> br_local_count b \<and> (br_mode b = Bar_idle \<longrightarrow> \<not> br_initiated b)
     \<and> (br_mode b = Bar_standby \<longrightarrow>
          (if br_initiated b then br_since_host b \<le> br_since_initiate b
                                 \<and> br_since_initiate b \<le> initiate_timeout
           else br_since_host b \<le> idle_timeout))"

lemma bar_inv_step: "bar_inv b \<Longrightarrow> bar_inv (bar_step b e)"
  by (cases e) (auto simp: bar_inv_def barrier_defs initiate_timeout_def idle_timeout_def
      split: if_splits option.splits)

interpretation bar: machine_inv bar_step bar_inv
  by unfold_locales (rule bar_inv_step)

text \<open>Without a close, which mirrors any count, the round counter never falls.\<close>

definition standby_step :: "barrier \<Rightarrow> bar_event \<Rightarrow> barrier" where
  "standby_step b e = (case e of Ev_close c \<Rightarrow> b | _ \<Rightarrow> bar_step b e)"

lemma bar_inv_standby_step: "bar_inv b \<Longrightarrow> bar_inv (standby_step b e)"
  using bar_inv_step [of b e] by (auto simp: standby_step_def split: bar_event.splits)

lemma count_step: "bar_inv b \<Longrightarrow> br_local_count b \<le> br_local_count (standby_step b e)"
  by (cases e) (auto simp: standby_step_def bar_inv_def barrier_defs split: if_splits option.splits)

interpretation standby: machine_mono standby_step bar_inv "\<lambda>b. nat (br_local_count b)"
  by unfold_locales (auto simp: bar_inv_standby_step intro: nat_mono count_step)

lemma standby_step_run:
  "list_all (\<lambda>e. case e of Ev_close c \<Rightarrow> False | _ \<Rightarrow> True) es \<Longrightarrow>
     foldl bar_step b es = foldl standby_step b es"
  by (induction es arbitrary: b) (auto simp: standby_step_def split: bar_event.splits)

lemma bar_inv_new: "bar_inv barrier_new"
  by (simp add: bar_inv_def barrier_new_def)

subsection \<open>Properties\<close>

text \<open>
  The round counter of the standby barrier only moves forward: in every run without a
  close, whatever the host broadcasts, including stale rebroadcasts of finished rounds, the
  local count after a longer run is at least the count after any prefix of it.
\<close>

theorem barrier_count_monotone:
  assumes "list_all (\<lambda>e. case e of Ev_close c \<Rightarrow> False | _ \<Rightarrow> True) (es @ fs)"
  shows "br_local_count (foldl bar_step barrier_new es)
       \<le> br_local_count (foldl bar_step barrier_new (es @ fs))"
proof -
  have "nat (br_local_count (foldl standby_step barrier_new es))
      \<le> nat (br_local_count (foldl standby_step barrier_new (es @ fs)))"
    by (rule standby.run_rank_prefix [OF bar_inv_new])
  moreover have "bar_inv (foldl standby_step barrier_new (es @ fs))"
    by (rule standby.run_inv [OF bar_inv_new])
  ultimately show ?thesis
    using assms standby_step_run [of es] standby_step_run [of "es @ fs"]
    by (simp add: bar_inv_def nat_le_eq_zle)
qed

theorem barrier_count_monotone_witness:
  "br_local_count (foldl bar_step barrier_new [Ev_initiate Bar_standby, Ev_standby 0])
     \<le> br_local_count (foldl bar_step barrier_new ([Ev_initiate Bar_standby, Ev_standby 0] @ [Ev_standby 0]))"
  by (rule barrier_count_monotone) simp

text \<open>The silent frames a standby still survives.\<close>

definition patience :: "barrier \<Rightarrow> nat" where
  "patience b = (if br_mode b \<noteq> Bar_standby then 0
     else if br_initiated b then Suc initiate_timeout - br_since_initiate b
     else Suc idle_timeout - br_since_host b)"

lemma patience_step: "bar_inv b \<Longrightarrow> patience (observe_frame False b) = patience b - 1"
  by (auto simp: patience_def bar_inv_def observe_frame_def Let_def initiate_timeout_def idle_timeout_def)

lemma patience_zero: "bar_inv b \<Longrightarrow> patience b = 0 \<longleftrightarrow> br_mode b \<noteq> Bar_standby"
  by (auto simp: patience_def bar_inv_def)

lemma patience_le: "patience b \<le> 121"
  by (auto simp: patience_def initiate_timeout_def idle_timeout_def)

definition silent :: "nat \<Rightarrow> barrier \<Rightarrow> barrier" where
  "silent k b = foldl bar_step b (replicate k (Ev_frame False))"

lemma silent_Suc: "silent (Suc k) b = silent k (observe_frame False b)"
  by (simp add: silent_def)

lemma silent_patience: "bar_inv b \<Longrightarrow> patience (silent k b) = patience b - k"
proof (induction k arbitrary: b)
  case (Suc k)
  have "bar_inv (observe_frame False b)" using bar_inv_step [OF Suc.prems, of "Ev_frame False"] by simp
  then show ?case using Suc.IH patience_step [OF Suc.prems] by (simp add: silent_Suc)
qed (simp add: silent_def)

lemma silent_count:
  assumes "bar_inv b"
  shows "br_local_count (silent k b)
     = br_local_count b + (if patience b \<noteq> 0 \<and> patience b \<le> k \<and> \<not> br_initiated b then 1 else 0)"
  using assms
proof (induction k arbitrary: b)
  case (Suc k)
  let ?b = "observe_frame False b"
  have inv: "bar_inv ?b" using bar_inv_step [OF Suc.prems, of "Ev_frame False"] by simp
  have "br_local_count ?b = br_local_count b + (if patience b = 1 \<and> \<not> br_initiated b then 1 else 0)"
    "patience ?b \<noteq> 0 \<Longrightarrow> br_initiated ?b = br_initiated b"
    using Suc.prems by (auto simp: patience_def bar_inv_def observe_frame_def Let_def initiate_timeout_def
        idle_timeout_def)
  then show ?case
    using Suc.IH [OF inv] patience_step [OF Suc.prems]
    by (cases "patience b = 0"; cases "patience b = 1") (auto simp: silent_Suc)
qed (auto simp: silent_def)

text \<open>
  No barrier can hang the program against a silent host: from every reachable state, 121
  further frames without a host barrier slot leave no standby active.  A round the program
  initiated is released without advancing the count, because no round passed; a round the
  host initiated counts as passed and advances it by one.
\<close>

theorem barrier_released:
  assumes "b = foldl bar_step barrier_new es" "121 \<le> k"
  shows "br_mode (silent k b) \<noteq> Bar_standby
     \<and> br_local_count (silent k b)
        = br_local_count b + (if br_mode b = Bar_standby \<and> \<not> br_initiated b then 1 else 0)"
proof -
  have inv: "bar_inv b" unfolding assms(1) by (rule bar.run_inv [OF bar_inv_new])
  have "bar_inv (silent k b)" unfolding silent_def by (rule bar.run_inv [OF inv])
  moreover have "patience (silent k b) = 0"
    using silent_patience [OF inv, of k] patience_le [of b] assms(2) by simp
  ultimately show ?thesis
    using silent_count [OF inv, of k] patience_zero [OF inv] patience_le [of b] assms(2)
    by (auto simp: patience_zero)
qed

theorem barrier_released_witness:
  "br_mode (silent 121 (foldl bar_step barrier_new [Ev_initiate Bar_standby, Ev_emit])) \<noteq> Bar_standby"
  by (rule barrier_released [OF refl, THEN conjunct1]) simp

text \<open>The command the responder emits, read back as the host's echo.\<close>

lemma exit_standby_echo:
  assumes "0 \<le> t" "t < 8" "0 \<le> c" "c < 65536"
  shows "\<exists>r. parse_slot (tagged t (exit_standby_words c)) = Inr (Some r)
     \<and> ps_op r = rfu_ready_exit_standby \<and> slot_count r = c"
  using parse_control_slots [OF assms(1,2), of c] assms(3,4) by (auto simp: slot_count_def)

text \<open>
  A round completes when the host echoes it.  After the program initiates a standby in
  any reachable state that is not already standing by, the command it emits carries its own
  count, and once the slot parser reads that command back in the host's position, under any
  rolling tag, the round completes: the handler reports it, the count and the number of
  rounds go up by one, and no barrier is active.  A host slot with a different count
  completes nothing.
\<close>

theorem initiated_round_completes:
  assumes "b = foldl bar_step barrier_new es" "br_mode b \<noteq> Bar_standby" "br_local_count b < 65536"
    "br_max_emits b = None" and t: "0 \<le> t" "t < 8"
  defines "b0 \<equiv> br_initiate Bar_standby b"
  shows "\<exists>w r b1 b2. want_emit b0 = (Some w, b1) \<and> parse_slot (tagged t w) = Inr (Some r)
     \<and> on_in_slot (Some r) b1 = (True, b2) \<and> br_local_count b2 = br_local_count b + 1
     \<and> br_rounds b2 = br_rounds b + 1 \<and> \<not> br_active b2
     \<and> (\<forall>c. int c \<noteq> br_local_count b \<longrightarrow> \<not> fst (on_host_standby (int c) b1))"
proof -
  have inv: "bar_inv b" unfolding assms(1) by (rule bar.run_inv [OF bar_inv_new])
  then have c: "0 \<le> br_local_count b" by (simp add: bar_inv_def)
  from exit_standby_echo [OF t c assms(3)] obtain r where
    r: "parse_slot (tagged t (exit_standby_words (br_local_count b))) = Inr (Some r)"
      "ps_op r = rfu_ready_exit_standby" "slot_count r = br_local_count b" by blast
  have e: "want_emit b0 = (Some (exit_standby_words (br_local_count b)), b0)"
    using assms(2,4) by (simp add: b0_def br_initiate_def want_emit_def)
  show ?thesis
    by (intro exI conjI, rule e, rule r(1))
       (use r(2,3) assms(2) in \<open>auto simp: b0_def br_initiate_def on_in_slot_def on_host_standby_def
          br_active_def Let_def\<close>)
qed

theorem initiated_round_completes_witness:
  "\<exists>w r b1 b2. want_emit (br_initiate Bar_standby (foldl bar_step barrier_new [Ev_initiate Bar_standby, Ev_standby 0]))
       = (Some w, b1) \<and> parse_slot (tagged 5 w) = Inr (Some r)
     \<and> on_in_slot (Some r) b1 = (True, b2) \<and> br_local_count b2 = 2"
proof -
  let ?b = "foldl bar_step barrier_new [Ev_initiate Bar_standby, Ev_standby 0]"
  have "br_mode ?b \<noteq> Bar_standby" "br_local_count ?b = 1" "br_max_emits ?b = None"
    by (simp_all add: barrier_new_def br_initiate_def on_host_standby_def)
  then show ?thesis
    using initiated_round_completes [OF refl, of "[Ev_initiate Bar_standby, Ev_standby 0]" 5] by auto
qed

fun emits :: "nat \<Rightarrow> barrier \<Rightarrow> int list option list" where
  "emits 0 b = []"
| "emits (Suc k) b = (let (w, b') = want_emit b in w # emits k b')"

definition spent :: "barrier \<Rightarrow> nat" where
  "spent b = (if br_burst_for b = Some (br_local_count b) then br_burst_n b else 0)"

definition own_words :: "barrier \<Rightarrow> int list" where
  "own_words b = (if br_mode b = Bar_standby then exit_standby_words (br_local_count b)
                  else close_link_words (br_local_count b))"

lemma want_emit_bounded:
  assumes "br_active b" "br_max_emits b = Some m"
  shows "fst (want_emit b) = (if spent b < m then Some (own_words b) else None)"
    and "spent (snd (want_emit b)) = (if spent b < m then Suc (spent b) else spent b)"
    and "br_active (snd (want_emit b))" "br_max_emits (snd (want_emit b)) = Some m"
    "own_words (snd (want_emit b)) = own_words b"
  using assms by (auto simp: want_emit_def spent_def own_words_def br_active_def Let_def)

lemma emits_bounded:
  assumes "br_active b" "br_max_emits b = Some m"
  shows "emits k b = replicate (min k (m - spent b)) (Some (own_words b))
     @ replicate (k - (m - spent b)) None"
  using assms
proof (induction k arbitrary: b)
  case (Suc k)
  note w = want_emit_bounded [OF Suc.prems]
  have ih: "emits k (snd (want_emit b)) = replicate (min k (m - spent (snd (want_emit b)))) (Some (own_words b))
     @ replicate (k - (m - spent (snd (want_emit b)))) None"
    using Suc.IH [OF w(3,4)] by (simp only: w(5))
  show ?case
  proof (cases "spent b < m")
    case True
    then have "m - spent b = Suc (m - Suc (spent b))" by simp
    then show ?thesis using True ih by (simp add: case_prod_beta Let_def w(1,2))
  next
    case False
    then show ?thesis using ih by (simp add: case_prod_beta Let_def w(1,2))
  qed
qed simp

text \<open>
  With a burst bound, a barrier emits that many commands for its count and then stays
  quiet: of any number of consecutive frames exactly the first \<open>m\<close> carry the command.
\<close>

theorem burst_bounded:
  assumes "br_mode b \<noteq> Bar_standby" "br_local_count b = c"
  shows "emits k (br_initiate Bar_standby (b\<lparr>br_max_emits := Some m\<rparr>))
     = replicate (min k m) (Some (exit_standby_words c)) @ replicate (k - m) None"
proof -
  let ?b = "br_initiate Bar_standby (b\<lparr>br_max_emits := Some m\<rparr>)"
  have "br_active ?b" "br_max_emits ?b = Some m" "spent ?b = 0" "own_words ?b = exit_standby_words c"
    using assms by (simp_all add: br_initiate_def br_active_def spent_def own_words_def)
  then show ?thesis using emits_bounded [of ?b m k] by simp
qed

theorem burst_bounded_witness:
  "emits 5 (br_initiate Bar_standby (barrier_new\<lparr>br_max_emits := Some 3\<rparr>))
     = replicate 3 (Some (exit_standby_words 0)) @ replicate 2 None"
  using burst_bounded [of barrier_new 0 5 3] by (simp add: barrier_new_def)

text \<open>
  A close is left again when the host broadcasts a standby round: the mode falls back to
  STANDBY.
\<close>

lemma close_not_terminal:
  "br_mode (snd (on_host_standby 0 (br_initiate Bar_close barrier_new))) = Bar_standby"
  by (simp add: on_host_standby_def br_initiate_def barrier_new_def Let_def)

end
