(* ===== verification/Linkstate.thy ===== *)
theory Linkstate
  imports Rfu
begin

section \<open>The overworld held-keys engine (\<open>bridge/frlgsim/linkstate.py\<close>)\<close>

text \<open>
  \<^verbatim>\<open>LinkState\<close>: one held-keys command per frame with a rolling liveness count, a one-shot
  READY when the player sits and a one-shot EXIT_ROOM when it leaves.  The constructor's
  assertion that the wire id is 1 is an error value; log and console sinks are not modelled.
\<close>

definition key_empty :: int where "key_empty = 0x11"
definition key_ready :: int where "key_ready = 0x16"
definition key_exit_room :: int where "key_exit_room = 0x17"
definition key_idle :: int where "key_idle = 0x1A"

definition pls_idle :: int where "pls_idle = 0x80"
definition pls_ready :: int where "pls_ready = 0x82"
definition pls_exiting :: int where "pls_exiting = 0x83"

lemmas link_keys = key_empty_def key_ready_def key_exit_room_def key_idle_def
  pls_idle_def pls_ready_def pls_exiting_def

datatype link_mode = Pre_seat | Seated | Exiting | Send_nothing

record link_state =
  ls_partner :: int
  ls_mode :: link_mode
  ls_count :: int
  ls_pending :: "int option"
  ls_seated :: bool
  ls_exiting :: bool
  ls_own :: int

definition link_state_new :: "int \<Rightarrow> py_error + link_state" where
  "link_state_new self_id =
     (if self_id \<noteq> 1 then Inl AssertionError
      else Inr \<lparr>ls_partner = self_id XOR 1, ls_mode = Pre_seat, ls_count = 0, ls_pending = None,
                ls_seated = False, ls_exiting = False, ls_own = pls_idle\<rparr>)"

definition ls_sit :: "link_state \<Rightarrow> link_state" where
  "ls_sit s = (if ls_seated s then s else s\<lparr>ls_seated := True, ls_pending := Some key_ready\<rparr>)"

definition ls_exit :: "link_state \<Rightarrow> link_state" where
  "ls_exit s = (if ls_exiting s then s
     else s\<lparr>ls_exiting := True, ls_pending := Some key_exit_room, ls_mode := Exiting\<rparr>)"

definition host_exiting :: "link_state \<Rightarrow> link_state" where
  "host_exiting s = (if ls_mode s = Exiting then s\<lparr>ls_mode := Send_nothing\<rparr> else s)"

definition ls_emit :: "int \<Rightarrow> link_state \<Rightarrow> int list \<times> link_state" where
  "ls_emit keycode s =
     (let s1 = s\<lparr>ls_count := (ls_count s + 1) AND 0xFF\<rparr>;
          w1 = push_bit 8 (ls_count s1 AND 0xFF) OR (keycode AND 0xFF);
          s2 = (if keycode = key_ready then s1\<lparr>ls_own := pls_ready\<rparr>
                else if keycode = key_exit_room then s1\<lparr>ls_own := pls_exiting\<rparr>
                else if keycode = key_idle then s1\<lparr>ls_own := pls_idle\<rparr> else s1)
      in ([rfu_send_held_keys, w1, 0, 0, 0, 0, 0], s2))"

definition ls_tick :: "link_state \<Rightarrow> int list \<times> link_state" where
  "ls_tick s =
     (case ls_pending s of
        Some key \<Rightarrow>
          let s1 = s\<lparr>ls_pending := None\<rparr>;
              s2 = (if key = key_ready then s1\<lparr>ls_mode := Seated\<rparr> else s1)
          in ls_emit key s2
      | None \<Rightarrow> ls_emit key_empty s)"

definition key_of :: "int list \<Rightarrow> py_error + int" where
  "key_of words = bindr (py_index words 1) (\<lambda>w. Inr (w AND 0xFF))"

definition nonce_of :: "int list \<Rightarrow> py_error + int" where
  "nonce_of words = bindr (py_index words 1) (\<lambda>w. Inr (drop_bit 8 w AND 0xFF))"

subsection \<open>Runs\<close>

datatype link_event = Ls_sit | Ls_exit | Ls_host_exiting | Ls_tick

fun ls_step :: "link_state \<times> int list list \<Rightarrow> link_event \<Rightarrow> link_state \<times> int list list" where
  "ls_step (s, out) Ls_sit = (ls_sit s, out)"
| "ls_step (s, out) Ls_exit = (ls_exit s, out)"
| "ls_step (s, out) Ls_host_exiting = (host_exiting s, out)"
| "ls_step (s, out) Ls_tick = (let (w, s') = ls_tick s in (s', out @ [w]))"

definition keys :: "int list list \<Rightarrow> int list" where
  "keys out = map (\<lambda>w. w ! 1 AND 0xFF) out"

text \<open>
  What a run has emitted: the \<open>i\<close>-th command is a held-keys command with count \<open>i + 1\<close>; the
  two one-shot keys appear at most once each, counting a pending one.
\<close>

definition ls_inv :: "link_state \<times> int list list \<Rightarrow> bool" where
  "ls_inv x \<longleftrightarrow> (case x of (s, out) \<Rightarrow>
     ls_count s = int (length out) mod 256
     \<and> (\<forall>i<length out. length (out ! i) = 7 \<and> out ! i ! 0 = rfu_send_held_keys
          \<and> out ! i ! 1 div 256 = int (Suc i) mod 256)
     \<and> set (keys out) \<subseteq> {key_empty, key_ready, key_exit_room}
     \<and> ls_pending s \<in> {None, Some key_ready, Some key_exit_room}
     \<and> count_list (keys out) key_ready + (if ls_pending s = Some key_ready then 1 else 0)
         \<le> (if ls_seated s then 1 else 0)
     \<and> count_list (keys out) key_exit_room + (if ls_pending s = Some key_exit_room then 1 else 0)
         \<le> (if ls_exiting s then 1 else 0))"

lemma held_word:
  assumes "0 \<le> c" "c < 256" "0 \<le> k" "k < 256"
  shows "push_bit 8 (c AND 0xFF) OR (k AND 0xFF) = c * 256 + (k :: int)"
  using or_plus [of k 8 c] assms by (simp add: masks take_bit_int_eq_self)

lemma ls_emit_words:
  assumes "ls_count s = int n mod 256" "key \<in> {key_empty, key_ready, key_exit_room}"
  shows "fst (ls_emit key s) = [rfu_send_held_keys, int (Suc n) mod 256 * 256 + key, 0, 0, 0, 0, 0]"
    and "ls_count (snd (ls_emit key s)) = int (Suc n) mod 256"
    and "ls_pending (snd (ls_emit key s)) = ls_pending s"
    and "ls_seated (snd (ls_emit key s)) = ls_seated s" "ls_exiting (snd (ls_emit key s)) = ls_exiting s"
proof -
  have c: "(ls_count s + 1) AND 0xFF = int (Suc n) mod 256"
    unfolding masks take_bit_eq_mod by (simp add: assms(1) mod_simps add.commute)
  have "push_bit 8 (((ls_count s + 1) AND 0xFF) AND 0xFF) OR (key AND 0xFF) = int (Suc n) mod 256 * 256 + key"
    unfolding c by (rule held_word) (use assms(2) in \<open>auto simp: link_keys\<close>)
  then show "fst (ls_emit key s) = [rfu_send_held_keys, int (Suc n) mod 256 * 256 + key, 0, 0, 0, 0, 0]"
    by (simp add: ls_emit_def Let_def)
  show "ls_count (snd (ls_emit key s)) = int (Suc n) mod 256"
    using c by (simp add: ls_emit_def Let_def)
qed (simp_all add: ls_emit_def Let_def)

definition tick_key :: "link_state \<Rightarrow> int" where
  "tick_key s = (case ls_pending s of Some k \<Rightarrow> k | None \<Rightarrow> key_empty)"

lemma keys_distinct [simp]:
  "key_empty \<noteq> key_ready" "key_ready \<noteq> key_empty" "key_empty \<noteq> key_exit_room" "key_exit_room \<noteq> key_empty"
  "key_ready \<noteq> key_exit_room" "key_exit_room \<noteq> key_ready"
  by (simp_all add: link_keys)

lemma ls_tick_words:
  assumes n: "ls_count s = int n mod 256" and p: "ls_pending s \<in> {None, Some key_ready, Some key_exit_room}"
  shows "fst (ls_tick s) = [rfu_send_held_keys, int (Suc n) mod 256 * 256 + tick_key s, 0, 0, 0, 0, 0]
     \<and> ls_count (snd (ls_tick s)) = int (Suc n) mod 256
     \<and> ls_pending (snd (ls_tick s)) = None
     \<and> ls_seated (snd (ls_tick s)) = ls_seated s \<and> ls_exiting (snd (ls_tick s)) = ls_exiting s
     \<and> tick_key s \<in> {key_empty, key_ready, key_exit_room}"
proof -
  consider "ls_pending s = None" | "ls_pending s = Some key_ready" | "ls_pending s = Some key_exit_room"
    using p by auto
  then show ?thesis
  proof cases
    case 1
    then show ?thesis using ls_emit_words [of s n key_empty] n by (simp add: ls_tick_def tick_key_def)
  next
    case 2
    then show ?thesis
      using ls_emit_words [of "s\<lparr>ls_pending := None, ls_mode := Seated\<rparr>" n key_ready] n
      by (simp add: ls_tick_def tick_key_def Let_def)
  next
    case 3
    then show ?thesis using ls_emit_words [of "s\<lparr>ls_pending := None\<rparr>" n key_exit_room] n
      by (simp add: ls_tick_def tick_key_def Let_def)
  qed
qed

lemma word_key: "0 \<le> k \<Longrightarrow> k < 256 \<Longrightarrow> (c * 256 + k) AND 0xFF = (k :: int)"
  unfolding masks take_bit_eq_mod by simp

lemma ls_inv_step: "ls_inv x \<Longrightarrow> ls_inv (ls_step x e)"
proof (cases x; cases e)
  fix s out
  assume inv: "ls_inv x" and x: "x = (s, out)" and e: "e = Ls_tick"
  have n: "ls_count s = int (length out) mod 256"
    and p: "ls_pending s \<in> {None, Some key_ready, Some key_exit_room}"
    using inv by (simp_all add: ls_inv_def x)
  from ls_tick_words [OF n p] obtain s' where t:
    "ls_tick s = ([rfu_send_held_keys, int (Suc (length out)) mod 256 * 256 + tick_key s, 0, 0, 0, 0, 0], s')"
    "ls_count s' = int (Suc (length out)) mod 256" "ls_pending s' = None" "ls_seated s' = ls_seated s"
    "ls_exiting s' = ls_exiting s" and tk: "tick_key s \<in> {key_empty, key_ready, key_exit_room}"
    by (cases "ls_tick s") auto
  let ?v = "int (Suc (length out)) mod 256 * 256 + tick_key s"
  let ?w = "[rfu_send_held_keys, ?v, 0, 0, 0, 0, 0]"
  have r: "0 \<le> tick_key s" "tick_key s < 256" using tk by (auto simp: link_keys)
  have k: "?v AND 0xFF = tick_key s" by (rule word_key [OF r])
  have d: "?v div 256 = int (Suc (length out)) mod 256" using r by simp
  have step: "ls_step x e = (s', out @ [?w])" by (simp add: x e t(1))
  have ks: "keys (out @ [?w]) = keys out @ [tick_key s]"
    unfolding keys_def using k by simp
  have pend: "tick_key s = key_ready \<longleftrightarrow> ls_pending s = Some key_ready"
    "tick_key s = key_exit_room \<longleftrightarrow> ls_pending s = Some key_exit_room"
    using p by (auto simp: tick_key_def)
  have each: "\<forall>i<length (out @ [?w]). length ((out @ [?w]) ! i) = 7 \<and> (out @ [?w]) ! i ! 0 = rfu_send_held_keys
      \<and> (out @ [?w]) ! i ! 1 div 256 = int (Suc i) mod 256"
  proof (intro allI impI)
    fix i assume "i < length (out @ [?w])"
    then consider "i < length out" | "i = length out" by fastforce
    then show "length ((out @ [?w]) ! i) = 7 \<and> (out @ [?w]) ! i ! 0 = rfu_send_held_keys
      \<and> (out @ [?w]) ! i ! 1 div 256 = int (Suc i) mod 256"
    proof cases
      case 1
      then show ?thesis using inv by (simp add: ls_inv_def x nth_append)
    next
      case 2
      then show ?thesis using d by (simp add: nth_append del: of_nat_Suc)
    qed
  qed
  have counts: "count_list (keys out) key_ready + (if ls_pending s = Some key_ready then 1 else 0)
         \<le> (if ls_seated s then 1 else 0 :: nat)"
    "count_list (keys out) key_exit_room + (if ls_pending s = Some key_exit_room then 1 else 0)
         \<le> (if ls_exiting s then 1 else 0 :: nat)"
    "set (keys out) \<subseteq> {key_empty, key_ready, key_exit_room}"
    using inv by (simp_all add: ls_inv_def x)
  have cnt: "count_list (keys out @ [tick_key s]) key_ready
        = count_list (keys out) key_ready + (if ls_pending s = Some key_ready then 1 else 0)"
    "count_list (keys out @ [tick_key s]) key_exit_room
        = count_list (keys out) key_exit_room + (if ls_pending s = Some key_exit_room then 1 else 0)"
    using pend by simp_all
  have "set (keys out @ [tick_key s]) \<subseteq> {key_empty, key_ready, key_exit_room}"
    using counts(3) tk by simp
  moreover have "length (out @ [?w]) = Suc (length out)" by simp
  ultimately show "ls_inv (ls_step x e)"
    unfolding step ls_inv_def prod.case ks cnt t(2-5) using each counts(1,2) by simp
next
  fix s out
  assume "ls_inv x" "x = (s, out)" "e = Ls_sit"
  then show "ls_inv (ls_step x e)"
    by (auto simp: ls_inv_def ls_sit_def link_keys split: if_splits)
next
  fix s out
  assume "ls_inv x" "x = (s, out)" "e = Ls_exit"
  then show "ls_inv (ls_step x e)"
    by (auto simp: ls_inv_def ls_exit_def link_keys split: if_splits)
next
  fix s out
  assume "ls_inv x" "x = (s, out)" "e = Ls_host_exiting"
  then show "ls_inv (ls_step x e)"
    by (auto simp: ls_inv_def host_exiting_def)
qed

interpretation held: machine_inv ls_step ls_inv
  by unfold_locales (rule ls_inv_step)

lemma ls_inv_new: "link_state_new 1 = Inr s \<Longrightarrow> ls_inv (s, [])"
  by (auto simp: link_state_new_def ls_inv_def keys_def link_keys)

text \<open>
  The held-keys engine never falls silent and signals once.  Over any sequence of sits,
  exits, host exits and frames, every frame emits a held-keys command whose count is the
  frame's number modulo 256 and whose key is the keepalive, READY or EXIT_ROOM; READY and
  EXIT_ROOM are each emitted at most once.
\<close>

theorem held_keys_once:
  assumes "link_state_new 1 = Inr s0" "(s, out) = foldl ls_step (s0, []) es"
  shows "(\<forall>i<length out. out ! i ! 0 = rfu_send_held_keys \<and> nonce_of (out ! i) = Inr (int (Suc i) mod 256)
            \<and> (\<exists>k\<in>{key_empty, key_ready, key_exit_room}. key_of (out ! i) = Inr k))
     \<and> length out = count_list es Ls_tick
     \<and> count_list (keys out) key_ready \<le> 1 \<and> count_list (keys out) key_exit_room \<le> 1"
proof -
  have inv: "ls_inv (s, out)"
    unfolding assms(2) by (rule held.run_inv [OF ls_inv_new [OF assms(1)]])
  have len: "length (snd (foldl ls_step x es)) = length (snd x) + count_list es Ls_tick" for x
  proof (induction es arbitrary: x)
    case (Cons e es)
    then show ?case by (cases x; cases e) (auto simp: case_prod_beta)
  qed simp
  have "nonce_of (out ! i) = Inr (int (Suc i) mod 256)
      \<and> (\<exists>k\<in>{key_empty, key_ready, key_exit_room}. key_of (out ! i) = Inr k)"
    if "i < length out" for i
  proof -
    have o: "length (out ! i) = 7" "out ! i ! 1 div 256 = int (Suc i) mod 256"
      using inv that by (simp_all add: ls_inv_def)
    have "drop_bit 8 (out ! i ! 1) AND 0xFF = int (Suc i) mod 256"
      unfolding masks take_bit_eq_mod drop_bit_eq_div using o(2) by simp
    moreover have "out ! i ! 1 AND 0xFF \<in> set (keys out)"
      using that by (auto simp: keys_def)
    ultimately show ?thesis
      using inv o(1) by (auto simp: nonce_of_def key_of_def ls_inv_def)
  qed
  moreover have "length out = count_list es Ls_tick"
    using len [of "(s0, [])"] assms(2) by (metis add_0 list.size(3) snd_conv)
  ultimately show ?thesis using inv by (auto simp: ls_inv_def split: if_splits)
qed

theorem held_keys_once_witness:
  "\<exists>s0 s out. link_state_new 1 = Inr s0 \<and> (s, out) = foldl ls_step (s0, []) [Ls_tick, Ls_sit, Ls_tick, Ls_sit, Ls_tick]
     \<and> length out = 3 \<and> count_list (keys out) key_ready \<le> 1"
proof -
  obtain s0 where s0: "link_state_new 1 = Inr s0" by (simp add: link_state_new_def)
  obtain s out where r: "(s, out) = foldl ls_step (s0, []) [Ls_tick, Ls_sit, Ls_tick, Ls_sit, Ls_tick]"
    by (metis surj_pair)
  from held_keys_once [OF s0 r] s0 r show ?thesis by (intro exI conjI) auto
qed

text \<open>
  Sitting signals READY on exactly the next frame: the frame after the first sit emits
  READY and moves to SEATED, and the frames after it emit the keepalive until another signal.
  Leaving signals EXIT_ROOM on the next frame and stays in EXITING until the host exits.
\<close>

theorem seat_and_exit_signals:
  "(\<not> ls_seated s \<longrightarrow>
       (let (w, s1) = ls_tick (ls_sit s); (w2, s2) = ls_tick s1
        in key_of w = Inr key_ready \<and> ls_mode s1 = Seated \<and> ls_own s1 = pls_ready
           \<and> key_of w2 = Inr key_empty \<and> ls_mode s2 = Seated))
     \<and> (\<not> ls_exiting s \<longrightarrow>
       (let (w, s1) = ls_tick (ls_exit s); (w2, s2) = ls_tick s1
        in key_of w = Inr key_exit_room \<and> ls_mode s1 = Exiting \<and> ls_own s1 = pls_exiting
           \<and> key_of w2 = Inr key_empty \<and> ls_mode s2 = Exiting
           \<and> ls_mode (host_exiting s2) = Send_nothing))"
proof -
  have k: "((push_bit 8 c AND 0xFF00) OR (x AND 0xFF)) AND 0xFF = x AND 0xFF" for c x :: int
    unfolding masks and_high_byte by (rule bit_eqI) (auto simp: bit_simps)
  have "key_of (fst (ls_emit x t)) = Inr (x AND 0xFF)" for x t
    by (simp add: ls_emit_def key_of_def Let_def k)
  moreover have "ls_mode (snd (ls_emit x t)) = ls_mode t" "ls_pending (snd (ls_emit x t)) = ls_pending t" for x t
    by (simp_all add: ls_emit_def Let_def)
  moreover have "ls_own (snd (ls_emit key_ready t)) = pls_ready"
    "ls_own (snd (ls_emit key_exit_room t)) = pls_exiting" for t
    by (simp_all add: ls_emit_def Let_def link_keys)
  ultimately show ?thesis
    by (simp add: ls_tick_def ls_sit_def ls_exit_def case_prod_beta Let_def host_exiting_def link_keys)
qed

theorem seat_and_exit_signals_witness:
  "\<exists>s. link_state_new 1 = Inr s \<and> key_of (fst (ls_tick (ls_sit s))) = Inr key_ready
     \<and> key_of (fst (ls_tick (ls_exit s))) = Inr key_exit_room"
proof -
  obtain s where s: "link_state_new 1 = Inr s" by (simp add: link_state_new_def)
  then have "\<not> ls_seated s" "\<not> ls_exiting s" by (auto simp: link_state_new_def)
  with seat_and_exit_signals [of s] s show ?thesis by (auto simp: case_prod_beta Let_def)
qed

text \<open>
  A sit between an exit and the next frame overwrites the pending EXIT_ROOM: the key is lost.
\<close>

lemma sit_overrides_exit:
  assumes "\<not> ls_seated s" "\<not> ls_exiting s"
  shows "let (w, s1) = ls_tick (ls_sit (ls_exit s))
     in key_of w = Inr key_ready \<and> ls_pending s1 = None \<and> ls_exit s1 = s1"
proof -
  let ?s = "ls_sit (ls_exit s)"
  have "ls_pending ?s = Some key_ready" "ls_exiting ?s" using assms by (simp_all add: ls_sit_def ls_exit_def)
  moreover have "key_of (fst (ls_emit key_ready t)) = Inr key_ready" for t
    by (simp add: ls_emit_def key_of_def Let_def link_keys and_high_byte masks)
       (rule bit_eqI, auto simp: bit_simps)
  ultimately show ?thesis
    by (simp add: ls_tick_def case_prod_beta Let_def) (simp add: ls_emit_def ls_exit_def Let_def)
qed

end
