(* ===== verification/Linkplayer.thy ===== *)
theory Linkplayer
  imports Charmap
begin

section \<open>The link-player block and the trainer card (\<open>bridge/frlgsim/linkplayer.py\<close>)\<close>

text \<open>
  The 28-byte \<^verbatim>\<open>struct LinkPlayer\<close>, its 60-byte block with the two magics the host
  compares, and the 100-byte trainer-card buffer.  \<open>lp_pack\<close> writes version and field2
  unmasked, so a value outside 16 bits is an overflow error.
\<close>

definition gamefreak_magic :: bytes where
  "gamefreak_magic = [0x47, 0x61, 0x6D, 0x65, 0x46, 0x72, 0x65, 0x61, 0x6B, 0x20, 0x69, 0x6E,
                      0x63, 0x2E, 0, 0]"

definition link_player_block_size :: nat where "link_player_block_size = 60"
definition party_size :: nat where "party_size = 6"

record link_player =
  lp_name :: ustr
  lp_trainer_id :: int
  lp_version :: int
  lp_field2 :: int
  lp_progress_flags :: int
  lp_never_read :: int
  lp_progress_flags_copy :: int
  lp_gender :: int
  lp_link_type :: int
  lp_player_id :: int
  lp_language :: int

definition lp_pack :: "link_player \<Rightarrow> py_error + bytes" where
  "lp_pack p =
     bindr (to_bytes_le 2 (lp_version p)) (\<lambda>ver.
     bindr (to_bytes_le 2 (lp_field2 p)) (\<lambda>f2.
       Inr (ver @ f2 @ to_le 4 (lp_trainer_id p AND 0xFFFFFFFF)
            @ charmap_encode (lp_name p) (Some 8) 0
            @ [word_of_int (lp_progress_flags p AND 0xFF), word_of_int (lp_never_read p AND 0xFF),
               word_of_int (lp_progress_flags_copy p AND 0xFF), word_of_int (lp_gender p AND 0xFF)]
            @ to_le 4 (lp_link_type p AND 0xFFFFFFFF)
            @ to_le 2 (lp_player_id p AND 0xFFFF)
            @ to_le 2 (lp_language p AND 0xFFFF))))"

definition lp_unpack :: "bytes \<Rightarrow> py_error + link_player" where
  "lp_unpack b =
     bindr (py_index b 16) (\<lambda>b16. bindr (py_index b 17) (\<lambda>b17.
     bindr (py_index b 18) (\<lambda>b18. bindr (py_index b 19) (\<lambda>b19.
       Inr \<lparr>lp_name = charmap_decode True (py_slice b 8 16),
            lp_trainer_id = from_le (py_slice b 4 8),
            lp_version = from_le (py_slice b 0 2), lp_field2 = from_le (py_slice b 2 4),
            lp_progress_flags = uint b16, lp_never_read = uint b17,
            lp_progress_flags_copy = uint b18, lp_gender = uint b19,
            lp_link_type = from_le (py_slice b 20 24), lp_player_id = from_le (py_slice b 24 26),
            lp_language = from_le (py_slice b 26 28)\<rparr>))))"

definition lp_build_block :: "link_player \<Rightarrow> py_error + bytes" where
  "lp_build_block p =
     bindr (lp_pack p) (\<lambda>m.
       let blk = gamefreak_magic @ m @ gamefreak_magic
       in if length blk = link_player_block_size then Inr blk else Inl AssertionError)"

definition lp_parse_block :: "bytes \<Rightarrow> py_error + (link_player \<times> bool)" where
  "lp_parse_block b =
     (let magic1 = py_slice b 0 16; struct = py_slice b 16 44; magic2 = py_slice b 44 60;
          ok = (take 14 magic1 = take 14 gamefreak_magic \<and> take 14 magic2 = take 14 gamefreak_magic)
      in bindr (lp_unpack struct) (\<lambda>p. Inr (p, ok)))"

subsection \<open>The trainer card\<close>

definition trainer_card_size :: nat where "trainer_card_size = 0x60"
definition trainer_card_block_size :: nat where "trainer_card_block_size = 100"
definition tc_off_gender :: nat where "tc_off_gender = 0x00"
definition tc_off_trainer_id :: nat where "tc_off_trainer_id = 0x0E"
definition tc_off_player_name :: nat where "tc_off_player_name = 0x30"
definition tc_off_version :: nat where "tc_off_version = 0x38"
definition tc_off_mon_species :: nat where "tc_off_mon_species = 0x54"
definition tc_off_wonder_card :: nat where "tc_off_wonder_card = trainer_card_size"

lemmas tc_offsets = trainer_card_size_def trainer_card_block_size_def tc_off_gender_def
  tc_off_trainer_id_def tc_off_player_name_def tc_off_version_def tc_off_mon_species_def
  tc_off_wonder_card_def

fun put_species :: "nat \<Rightarrow> int list \<Rightarrow> bytes \<Rightarrow> bytes" where
  "put_species i [] buf = buf"
| "put_species i (sp # sps) buf =
     (let off = tc_off_mon_species + i * 2
      in put_species (Suc i) sps (slice_assign buf off (off + 2) (to_le 2 (sp AND 0xFFFF))))"

definition build_trainer_card :: "link_player \<Rightarrow> int \<Rightarrow> int list option \<Rightarrow> bytes" where
  "build_trainer_card p wonder_card_id mon_species =
     (let c0 = replicate trainer_card_block_size 0;
          c1 = c0[tc_off_gender := word_of_int (lp_gender p AND 0xFF)];
          c2 = slice_assign c1 tc_off_trainer_id (tc_off_trainer_id + 2)
                 (to_le 2 (lp_trainer_id p AND 0xFFFF));
          c3 = slice_assign c2 tc_off_player_name (tc_off_player_name + 8)
                 (charmap_encode (lp_name p) (Some 8) 0);
          c4 = c3[tc_off_version := word_of_int (lp_version p AND 0xFF)];
          c5 = (case mon_species of None \<Rightarrow> c4 | Some sps \<Rightarrow> put_species 0 (take party_size sps) c4)
      in slice_assign c5 tc_off_wonder_card (tc_off_wonder_card + 2)
           (to_le 2 (wonder_card_id AND 0xFFFF)))"

subsection \<open>Properties\<close>

definition lp_wf :: "link_player \<Rightarrow> bool" where
  "lp_wf p \<longleftrightarrow> list_all encodable (lp_name p) \<and> length (lp_name p) \<le> 7
     \<and> 0 \<le> lp_version p \<and> lp_version p < 65536 \<and> 0 \<le> lp_field2 p \<and> lp_field2 p < 65536
     \<and> 0 \<le> lp_trainer_id p \<and> lp_trainer_id p < 2 ^ 32
     \<and> 0 \<le> lp_progress_flags p \<and> lp_progress_flags p < 256
     \<and> 0 \<le> lp_never_read p \<and> lp_never_read p < 256
     \<and> 0 \<le> lp_progress_flags_copy p \<and> lp_progress_flags_copy p < 256
     \<and> 0 \<le> lp_gender p \<and> lp_gender p < 256
     \<and> 0 \<le> lp_link_type p \<and> lp_link_type p < 2 ^ 32
     \<and> 0 \<le> lp_player_id p \<and> lp_player_id p < 65536
     \<and> 0 \<le> lp_language p \<and> lp_language p < 65536"

lemma le_slots:
  "length a = 2 \<Longrightarrow> length b = 2 \<Longrightarrow> length c = 4 \<Longrightarrow> length d = 8 \<Longrightarrow> length e = 4 \<Longrightarrow> length f = 4 \<Longrightarrow>
   length g = 2 \<Longrightarrow> length h = 2 \<Longrightarrow>
   let s = a @ b @ c @ d @ e @ f @ g @ h
   in length s = 28 \<and> py_slice s 0 2 = a \<and> py_slice s 2 4 = b \<and> py_slice s 4 8 = c \<and> py_slice s 8 16 = d
      \<and> s ! 16 = e ! 0 \<and> s ! 17 = e ! 1 \<and> s ! 18 = e ! 2 \<and> s ! 19 = e ! 3
      \<and> py_slice s 20 24 = f \<and> py_slice s 24 26 = g \<and> py_slice s 26 28 = h"
  by (simp add: py_slice_def nth_append)

lemma charmap_name_id:
  "list_all encodable s \<Longrightarrow> length s \<le> 7 \<Longrightarrow> charmap_decode True (charmap_encode s (Some 8) 0) = s"
  using decode_charmap_encode [of 8 s 0] by (simp add: list_all_iff filter_id_conv)

lemma byte_id: "0 \<le> v \<Longrightarrow> v < 256 \<Longrightarrow> uint (word_of_int (v AND 0xFF) :: byte) = v"
  by (simp add: masks uint_word_of_int take_bit_eq_mod)

lemma unpack_pack:
  assumes "lp_wf p"
  shows "\<exists>m. lp_pack p = Inr m \<and> length m = 28 \<and> lp_unpack m = Inr p"
proof -
  let ?e = "[word_of_int (lp_progress_flags p AND 0xFF), word_of_int (lp_never_read p AND 0xFF),
     word_of_int (lp_progress_flags_copy p AND 0xFF), word_of_int (lp_gender p AND 0xFF)] :: bytes"
  let ?m = "to_le 2 (lp_version p) @ to_le 2 (lp_field2 p) @ to_le 4 (lp_trainer_id p AND 0xFFFFFFFF)
            @ charmap_encode (lp_name p) (Some 8) 0 @ ?e @ to_le 4 (lp_link_type p AND 0xFFFFFFFF)
            @ to_le 2 (lp_player_id p AND 0xFFFF) @ to_le 2 (lp_language p AND 0xFFFF)"
  have pack: "lp_pack p = Inr ?m"
    using assms by (simp add: lp_pack_def to_bytes_le_def lp_wf_def)
  note s = le_slots [of "to_le 2 (lp_version p)" "to_le 2 (lp_field2 p)" "to_le 4 (lp_trainer_id p AND 0xFFFFFFFF)"
      "charmap_encode (lp_name p) (Some 8) 0" ?e "to_le 4 (lp_link_type p AND 0xFFFFFFFF)"
      "to_le 2 (lp_player_id p AND 0xFFFF)" "to_le 2 (lp_language p AND 0xFFFF)", unfolded Let_def]
  have v: "from_le (to_le 2 (lp_version p)) = lp_version p" "from_le (to_le 2 (lp_field2 p)) = lp_field2 p"
    "from_le (to_le 4 (lp_trainer_id p AND 0xFFFFFFFF)) = lp_trainer_id p"
    "from_le (to_le 4 (lp_link_type p AND 0xFFFFFFFF)) = lp_link_type p"
    "from_le (to_le 2 (lp_player_id p AND 0xFFFF)) = lp_player_id p"
    "from_le (to_le 2 (lp_language p AND 0xFFFF)) = lp_language p"
    "charmap_decode True (charmap_encode (lp_name p) (Some 8) 0) = lp_name p"
    using assms by (simp_all add: lp_wf_def le_bytes masks take_bit_int_eq_self charmap_name_id)
  have b: "uint (word_of_int (lp_progress_flags p AND 0xFF) :: byte) = lp_progress_flags p"
    "uint (word_of_int (lp_never_read p AND 0xFF) :: byte) = lp_never_read p"
    "uint (word_of_int (lp_progress_flags_copy p AND 0xFF) :: byte) = lp_progress_flags_copy p"
    "uint (word_of_int (lp_gender p AND 0xFF) :: byte) = lp_gender p"
    using assms by (simp_all add: lp_wf_def byte_id)
  have "lp_unpack ?m = Inr p"
    using s unfolding lp_unpack_def by (simp add: v b del: to_le.simps append_assoc)
  then show ?thesis using pack s by simp
qed

definition lp_decode :: "py_error + bytes \<Rightarrow> link_player option" where
  "lp_decode b = (case b of Inl e \<Rightarrow> None
     | Inr bs \<Rightarrow> (case lp_parse_block bs of Inr (p, ok) \<Rightarrow> if ok then Some p else None | Inl e \<Rightarrow> None))"

lemma parse_build_block:
  assumes "lp_wf p"
  shows "\<exists>b. lp_build_block p = Inr b \<and> length b = 60 \<and> lp_parse_block (b @ residue) = Inr (p, True)"
proof -
  obtain m where m: "lp_pack p = Inr m" "length m = 28" "lp_unpack m = Inr p"
    using unpack_pack [OF assms] by blast
  let ?b = "gamefreak_magic @ m @ gamefreak_magic"
  have g: "length gamefreak_magic = 16" by (simp add: gamefreak_magic_def)
  have "lp_build_block p = Inr ?b" "length ?b = 60"
    using m g by (simp_all add: lp_build_block_def link_player_block_size_def)
  moreover have "py_slice (?b @ residue) 0 16 = gamefreak_magic" "py_slice (?b @ residue) 16 44 = m"
    "py_slice (?b @ residue) 44 60 = gamefreak_magic"
    using m g by (simp_all add: py_slice_def)
  then have "lp_parse_block (?b @ residue) = Inr (p, True)"
    using m(3) by (simp add: lp_parse_block_def)
  ultimately show ?thesis by blast
qed

interpretation link_player: codec lp_build_block lp_decode lp_wf
proof
  fix p
  assume "lp_wf p"
  from parse_build_block [OF this, of "[]"] show "lp_decode (lp_build_block p) = Some p"
    by (auto simp: lp_decode_def)
qed

text \<open>
  The player block round-trips: a player whose fields fit the structure and whose name
  is at most seven encodable characters is packed without error into 60 bytes that the
  parser, reading the front of the 200-byte exchange buffer with any residue behind it,
  accepts with both magics and decodes to the same player; two players that differ in any
  field have different blocks.
\<close>

theorem link_player_block_roundtrip:
  assumes "lp_wf p" "lp_wf q"
  shows "(\<exists>b. lp_build_block p = Inr b \<and> length b = 60 \<and> lp_parse_block (b @ residue) = Inr (p, True))
     \<and> (lp_build_block p = lp_build_block q \<longrightarrow> p = q)"
  using parse_build_block [OF assms(1)] link_player.enc_inj [OF assms] by blast

definition emu_player :: link_player where
  "emu_player = \<lparr>lp_name = [69, 77, 85], lp_trainer_id = 0x47ED8822, lp_version = 0x4005,
     lp_field2 = 0x8000, lp_progress_flags = 0, lp_never_read = 0, lp_progress_flags_copy = 0,
     lp_gender = 0, lp_link_type = 0, lp_player_id = 0, lp_language = 2\<rparr>"

lemma encodable_upper: "i < 26 \<Longrightarrow> encodable (65 + i)"
proof -
  assume "i < 26"
  then have "(word_of_nat (0xBB + i), 65 + i) \<in> set charmap_dec"
    by (auto simp: charmap_dec_def)
  then have "65 + i \<in> fst ` set charmap_enc" by (force simp: charmap_enc_def)
  then show ?thesis by (simp add: encodable_def map_of_eq_None_iff)
qed

theorem link_player_block_roundtrip_witness:
  "\<exists>b. lp_build_block emu_player = Inr b \<and> length b = 60 \<and> lp_parse_block (b @ [1]) = Inr (emu_player, True)"
proof -
  have "encodable 69" "encodable 77" "encodable 85"
    using encodable_upper [of 4] encodable_upper [of 12] encodable_upper [of 20] by simp_all
  then have "lp_wf emu_player" by (simp add: lp_wf_def emu_player_def)
  from link_player_block_roundtrip [OF this this, of "[1]"] show ?thesis by blast
qed

subsection \<open>The card's fields\<close>

lemma length_put_species:
  "tc_off_mon_species + 2 * (i + length sps) \<le> length buf \<Longrightarrow> length (put_species i sps buf) = length buf"
  by (induction i sps buf rule: put_species.induct) (auto simp: length_slice_assign Let_def)

lemma put_species_before:
  "tc_off_mon_species + 2 * (i + length sps) \<le> length buf \<Longrightarrow> b \<le> tc_off_mon_species + 2 * i
     \<Longrightarrow> py_slice (put_species i sps buf) a b = py_slice buf a b"
  by (induction i sps buf rule: put_species.induct)
     (auto simp: length_slice_assign Let_def slice_assign_other)

lemma put_species_nth:
  assumes "tc_off_mon_species + 2 * (i + length sps) \<le> length buf" "k < length sps"
  shows "from_le (py_slice (put_species i sps buf) (tc_off_mon_species + 2 * (i + k))
      (tc_off_mon_species + 2 * (i + k) + 2)) = sps ! k mod 65536"
  using assms
proof (induction i sps buf arbitrary: k rule: put_species.induct)
  case (2 i sp sps buf)
  let ?b = "slice_assign buf (tc_off_mon_species + i * 2) (tc_off_mon_species + i * 2 + 2) (to_le 2 (sp AND 0xFFFF))"
  have len: "length ?b = length buf" using 2(2) by (simp add: length_slice_assign)
  show ?case
  proof (cases k)
    case 0
    have "py_slice (put_species (Suc i) sps ?b) (tc_off_mon_species + 2 * i) (tc_off_mon_species + 2 * i + 2)
        = py_slice ?b (tc_off_mon_species + 2 * i) (tc_off_mon_species + 2 * i + 2)"
      by (rule put_species_before) (use len 2(2) in simp_all)
    also have "\<dots> = to_le 2 (sp AND 0xFFFF)"
      using 2(2) by (simp add: slice_assign_same mult.commute)
    finally show ?thesis
      using 0 by (simp add: Let_def le_bytes masks take_bit_eq_mod del: to_le.simps)
  next
    case (Suc j)
    have "from_le (py_slice (put_species (Suc i) sps ?b) (tc_off_mon_species + 2 * (Suc i + j))
        (tc_off_mon_species + 2 * (Suc i + j) + 2)) = sps ! j mod 65536"
      by (rule 2(1)) (use len 2(2,3) Suc in simp_all)
    then show ?thesis using Suc by (simp add: Let_def)
  qed
qed simp

text \<open>
  The trainer card carries the player it is built for: the buffer is 100 bytes whatever
  the arguments, the trainer id, the name, up to six species and the wonder-card id read
  back from their offsets, and species after the sixth are ignored.
\<close>

theorem trainer_card_fields:
  "let c = build_trainer_card p wid (Some sps)
   in length c = 100 \<and> from_le (py_slice c 0x0E 0x10) = lp_trainer_id p mod 65536
      \<and> charmap_decode True (py_slice c 0x30 0x38) = take 7 (filter encodable (lp_name p))
      \<and> (\<forall>k<min 6 (length sps). from_le (py_slice c (0x54 + 2 * k) (0x54 + 2 * k + 2)) = sps ! k mod 65536)
      \<and> from_le (py_slice c 96 98) = wid mod 65536"
proof -
  define c1 where "c1 = (replicate 100 0 :: bytes)[0 := word_of_int (lp_gender p AND 0xFF)]"
  define c2 where "c2 = slice_assign c1 14 16 (to_le 2 (lp_trainer_id p AND 0xFFFF))"
  define c3 where "c3 = slice_assign c2 48 56 (charmap_encode (lp_name p) (Some 8) 0)"
  define c4 where "c4 = c3[56 := word_of_int (lp_version p AND 0xFF)]"
  define c5 where "c5 = put_species 0 (take 6 sps) c4"
  define c where "c = slice_assign c5 96 98 (to_le 2 (wid AND 0xFFFF))"
  have c: "build_trainer_card p wid (Some sps) = c"
    by (simp add: build_trainer_card_def Let_def tc_offsets party_size_def c_def c5_def c4_def c3_def
        c2_def c1_def)
  have l: "length c1 = 100" "length c2 = 100" "length c3 = 100" "length c4 = 100"
    by (simp_all add: c4_def c3_def c2_def c1_def length_slice_assign)
  have l5: "length c5 = 100"
    unfolding c5_def by (subst length_put_species) (simp_all add: l tc_offsets)
  then have len: "length c = 100" by (simp add: c_def length_slice_assign)
  have keep4: "py_slice c4 a b = py_slice c3 a b" if "b \<le> 56" for a b
    by (rule nth_equalityI) (use that l(3) in \<open>auto simp: c4_def nth_py_slice nth_list_update\<close>)
  have keep: "py_slice c a b = py_slice c4 a b" if "b \<le> 84" for a b
    using that l(4) l5 by (simp add: c_def slice_assign_other c5_def put_species_before tc_offsets)
  have "py_slice c 14 16 = to_le 2 (lp_trainer_id p AND 0xFFFF)"
    using l by (simp add: keep keep4 c3_def slice_assign_other c2_def slice_assign_same)
  moreover have "py_slice c 48 56 = charmap_encode (lp_name p) (Some 8) 0"
    using l by (simp add: keep keep4 c3_def slice_assign_same)
  moreover have "py_slice c 96 98 = to_le 2 (wid AND 0xFFFF)"
    using l5 by (simp add: c_def slice_assign_same)
  moreover have "from_le (py_slice c (84 + 2 * k) (84 + 2 * k + 2)) = sps ! k mod 65536"
    if "k < min 6 (length sps)" for k
  proof -
    have "py_slice c (84 + 2 * k) (84 + 2 * k + 2) = py_slice c5 (84 + 2 * k) (84 + 2 * k + 2)"
      using that l5 by (simp add: c_def slice_assign_other)
    then show ?thesis
      using put_species_nth [of 0 "take 6 sps" c4 k] that l(4) by (simp add: c5_def tc_offsets)
  qed
  ultimately show ?thesis
    unfolding c Let_def using len decode_charmap_encode [of 8 "lp_name p" 0]
    by (simp add: le_bytes masks take_bit_eq_mod del: to_le.simps)
qed

theorem trainer_card_fields_witness:
  "from_le (py_slice (build_trainer_card emu_player 0 (Some [25, 6])) 0x54 0x56) = 25 \<and>
   from_le (py_slice (build_trainer_card emu_player 0 (Some [25, 6])) 0x56 0x58) = 6"
proof -
  have "\<forall>k<2. from_le (py_slice (build_trainer_card emu_player 0 (Some [25, 6]))
       (0x54 + 2 * k) (0x54 + 2 * k + 2)) = [25, 6] ! k mod 65536"
    using trainer_card_fields [of emu_player 0 "[25, 6]"] unfolding Let_def by simp
  from spec [OF this, of 0] spec [OF this, of 1] show ?thesis by simp
qed

end
