(* ===== verification/Stats.thy ===== *)
theory Stats
  imports Prelude
begin

section \<open>Levels and battle stats (\<open>bridge/frlgsim/basestats.py\<close>, \<open>stats.py\<close>)\<close>

text \<open>
  The base-stat table, the experience curves, and the 20-byte party tail derived from a
  decrypted mon.  The table is transcribed row by row, in the three parts of the file:
  species, then HP, Attack, Defense, Speed, Special Attack, Special Defense and growth rate.
\<close>

definition base_stats_1 :: "(int \<times> int list) list" where
  "base_stats_1 = [
    (1, [45, 49, 49, 45, 65, 65, 3]),
    (2, [60, 62, 63, 60, 80, 80, 3]),
    (3, [80, 82, 83, 80, 100, 100, 3]),
    (4, [39, 52, 43, 65, 60, 50, 3]),
    (5, [58, 64, 58, 80, 80, 65, 3]),
    (6, [78, 84, 78, 100, 109, 85, 3]),
    (7, [44, 48, 65, 43, 50, 64, 3]),
    (8, [59, 63, 80, 58, 65, 80, 3]),
    (9, [79, 83, 100, 78, 85, 105, 3]),
    (10, [45, 30, 35, 45, 20, 20, 0]),
    (11, [50, 20, 55, 30, 25, 25, 0]),
    (12, [60, 45, 50, 70, 80, 80, 0]),
    (13, [40, 35, 30, 50, 20, 20, 0]),
    (14, [45, 25, 50, 35, 25, 25, 0]),
    (15, [65, 80, 40, 75, 45, 80, 0]),
    (16, [40, 45, 40, 56, 35, 35, 3]),
    (17, [63, 60, 55, 71, 50, 50, 3]),
    (18, [83, 80, 75, 91, 70, 70, 3]),
    (19, [30, 56, 35, 72, 25, 35, 0]),
    (20, [55, 81, 60, 97, 50, 70, 0]),
    (21, [40, 60, 30, 70, 31, 31, 0]),
    (22, [65, 90, 65, 100, 61, 61, 0]),
    (23, [35, 60, 44, 55, 40, 54, 0]),
    (24, [60, 85, 69, 80, 65, 79, 0]),
    (25, [35, 55, 30, 90, 50, 40, 0]),
    (26, [60, 90, 55, 100, 90, 80, 0]),
    (27, [50, 75, 85, 40, 20, 30, 0]),
    (28, [75, 100, 110, 65, 45, 55, 0]),
    (29, [55, 47, 52, 41, 40, 40, 3]),
    (30, [70, 62, 67, 56, 55, 55, 3]),
    (31, [90, 82, 87, 76, 75, 85, 3]),
    (32, [46, 57, 40, 50, 40, 40, 3]),
    (33, [61, 72, 57, 65, 55, 55, 3]),
    (34, [81, 92, 77, 85, 85, 75, 3]),
    (35, [70, 45, 48, 35, 60, 65, 4]),
    (36, [95, 70, 73, 60, 85, 90, 4]),
    (37, [38, 41, 40, 65, 50, 65, 0]),
    (38, [73, 76, 75, 100, 81, 100, 0]),
    (39, [115, 45, 20, 20, 45, 25, 4]),
    (40, [140, 70, 45, 45, 75, 50, 4]),
    (41, [40, 45, 35, 55, 30, 40, 0]),
    (42, [75, 80, 70, 90, 65, 75, 0]),
    (43, [45, 50, 55, 30, 75, 65, 3]),
    (44, [60, 65, 70, 40, 85, 75, 3]),
    (45, [75, 80, 85, 50, 100, 90, 3]),
    (46, [35, 70, 55, 25, 45, 55, 0]),
    (47, [60, 95, 80, 30, 60, 80, 0]),
    (48, [60, 55, 50, 45, 40, 55, 0]),
    (49, [70, 65, 60, 90, 90, 75, 0]),
    (50, [10, 55, 25, 95, 35, 45, 0]),
    (51, [35, 80, 50, 120, 50, 70, 0]),
    (52, [40, 45, 35, 90, 40, 40, 0]),
    (53, [65, 70, 60, 115, 65, 65, 0]),
    (54, [50, 52, 48, 55, 65, 50, 0]),
    (55, [80, 82, 78, 85, 95, 80, 0]),
    (56, [40, 80, 35, 70, 35, 45, 0]),
    (57, [65, 105, 60, 95, 60, 70, 0]),
    (58, [55, 70, 45, 60, 70, 50, 5]),
    (59, [90, 110, 80, 95, 100, 80, 5]),
    (60, [40, 50, 40, 90, 40, 40, 3]),
    (61, [65, 65, 65, 90, 50, 50, 3]),
    (62, [90, 85, 95, 70, 70, 90, 3]),
    (63, [25, 20, 15, 90, 105, 55, 3]),
    (64, [40, 35, 30, 105, 120, 70, 3]),
    (65, [55, 50, 45, 120, 135, 85, 3]),
    (66, [70, 80, 50, 35, 35, 35, 3]),
    (67, [80, 100, 70, 45, 50, 60, 3]),
    (68, [90, 130, 80, 55, 65, 85, 3]),
    (69, [50, 75, 35, 40, 70, 30, 3]),
    (70, [65, 90, 50, 55, 85, 45, 3]),
    (71, [80, 105, 65, 70, 100, 60, 3]),
    (72, [40, 40, 35, 70, 50, 100, 5]),
    (73, [80, 70, 65, 100, 80, 120, 5]),
    (74, [40, 80, 100, 20, 30, 30, 3]),
    (75, [55, 95, 115, 35, 45, 45, 3]),
    (76, [80, 110, 130, 45, 55, 65, 3]),
    (77, [50, 85, 55, 90, 65, 65, 0]),
    (78, [65, 100, 70, 105, 80, 80, 0]),
    (79, [90, 65, 65, 15, 40, 40, 0]),
    (80, [95, 75, 110, 30, 100, 80, 0]),
    (81, [25, 35, 70, 45, 95, 55, 0]),
    (82, [50, 60, 95, 70, 120, 70, 0]),
    (83, [52, 65, 55, 60, 58, 62, 0]),
    (84, [35, 85, 45, 75, 35, 35, 0]),
    (85, [60, 110, 70, 100, 60, 60, 0]),
    (86, [65, 45, 55, 45, 45, 70, 0]),
    (87, [90, 70, 80, 70, 70, 95, 0]),
    (88, [80, 80, 50, 25, 40, 50, 0]),
    (89, [105, 105, 75, 50, 65, 100, 0]),
    (90, [30, 65, 100, 40, 45, 25, 5]),
    (91, [50, 95, 180, 70, 85, 45, 5]),
    (92, [30, 35, 30, 80, 100, 35, 3]),
    (93, [45, 50, 45, 95, 115, 55, 3]),
    (94, [60, 65, 60, 110, 130, 75, 3]),
    (95, [35, 45, 160, 70, 30, 45, 0]),
    (96, [60, 48, 45, 42, 43, 90, 0]),
    (97, [85, 73, 70, 67, 73, 115, 0]),
    (98, [30, 105, 90, 50, 25, 25, 0]),
    (99, [55, 130, 115, 75, 50, 50, 0]),
    (100, [40, 30, 50, 100, 55, 55, 0]),
    (101, [60, 50, 70, 140, 80, 80, 0]),
    (102, [60, 40, 80, 40, 60, 45, 5]),
    (103, [95, 95, 85, 55, 125, 65, 5]),
    (104, [50, 50, 95, 35, 40, 50, 0]),
    (105, [60, 80, 110, 45, 50, 80, 0]),
    (106, [50, 120, 53, 87, 35, 110, 0]),
    (107, [50, 105, 79, 76, 35, 110, 0]),
    (108, [90, 55, 75, 30, 60, 75, 0]),
    (109, [40, 65, 95, 35, 60, 45, 0]),
    (110, [65, 90, 120, 60, 85, 70, 0]),
    (111, [80, 85, 95, 25, 30, 30, 5]),
    (112, [105, 130, 120, 40, 45, 45, 5]),
    (113, [250, 5, 5, 50, 35, 105, 4]),
    (114, [65, 55, 115, 60, 100, 40, 0]),
    (115, [105, 95, 80, 90, 40, 80, 0]),
    (116, [30, 40, 70, 60, 70, 25, 0]),
    (117, [55, 65, 95, 85, 95, 45, 0]),
    (118, [45, 67, 60, 63, 35, 50, 0]),
    (119, [80, 92, 65, 68, 65, 80, 0]),
    (120, [30, 45, 55, 85, 70, 55, 5]),
    (121, [60, 75, 85, 115, 100, 85, 5]),
    (122, [40, 45, 65, 90, 100, 120, 0]),
    (123, [70, 110, 80, 105, 55, 80, 0]),
    (124, [65, 50, 35, 95, 115, 95, 0]),
    (125, [65, 83, 57, 105, 95, 85, 0]),
    (126, [65, 95, 57, 93, 100, 85, 0]),
    (127, [65, 125, 100, 85, 55, 70, 5]),
    (128, [75, 100, 95, 110, 40, 70, 5]),
    (129, [20, 10, 55, 80, 15, 20, 5]),
    (130, [95, 125, 79, 81, 60, 100, 5])]"

definition base_stats_2 :: "(int \<times> int list) list" where
  "base_stats_2 = [
    (131, [130, 85, 80, 60, 85, 95, 5]),
    (132, [48, 48, 48, 48, 48, 48, 0]),
    (133, [55, 55, 50, 55, 45, 65, 0]),
    (134, [130, 65, 60, 65, 110, 95, 0]),
    (135, [65, 65, 60, 130, 110, 95, 0]),
    (136, [65, 130, 60, 65, 95, 110, 0]),
    (137, [65, 60, 70, 40, 85, 75, 0]),
    (138, [35, 40, 100, 35, 90, 55, 0]),
    (139, [70, 60, 125, 55, 115, 70, 0]),
    (140, [30, 80, 90, 55, 55, 45, 0]),
    (141, [60, 115, 105, 80, 65, 70, 0]),
    (142, [80, 105, 65, 130, 60, 75, 5]),
    (143, [160, 110, 65, 30, 65, 110, 5]),
    (144, [90, 85, 100, 85, 95, 125, 5]),
    (145, [90, 90, 85, 100, 125, 90, 5]),
    (146, [90, 100, 90, 90, 125, 85, 5]),
    (147, [41, 64, 45, 50, 50, 50, 5]),
    (148, [61, 84, 65, 70, 70, 70, 5]),
    (149, [91, 134, 95, 80, 100, 100, 5]),
    (150, [106, 110, 90, 130, 154, 90, 5]),
    (151, [100, 100, 100, 100, 100, 100, 3]),
    (152, [45, 49, 65, 45, 49, 65, 3]),
    (153, [60, 62, 80, 60, 63, 80, 3]),
    (154, [80, 82, 100, 80, 83, 100, 3]),
    (155, [39, 52, 43, 65, 60, 50, 3]),
    (156, [58, 64, 58, 80, 80, 65, 3]),
    (157, [78, 84, 78, 100, 109, 85, 3]),
    (158, [50, 65, 64, 43, 44, 48, 3]),
    (159, [65, 80, 80, 58, 59, 63, 3]),
    (160, [85, 105, 100, 78, 79, 83, 3]),
    (161, [35, 46, 34, 20, 35, 45, 0]),
    (162, [85, 76, 64, 90, 45, 55, 0]),
    (163, [60, 30, 30, 50, 36, 56, 0]),
    (164, [100, 50, 50, 70, 76, 96, 0]),
    (165, [40, 20, 30, 55, 40, 80, 4]),
    (166, [55, 35, 50, 85, 55, 110, 4]),
    (167, [40, 60, 40, 30, 40, 40, 4]),
    (168, [70, 90, 70, 40, 60, 60, 4]),
    (169, [85, 90, 80, 130, 70, 80, 0]),
    (170, [75, 38, 38, 67, 56, 56, 5]),
    (171, [125, 58, 58, 67, 76, 76, 5]),
    (172, [20, 40, 15, 60, 35, 35, 0]),
    (173, [50, 25, 28, 15, 45, 55, 4]),
    (174, [90, 30, 15, 15, 40, 20, 4]),
    (175, [35, 20, 65, 20, 40, 65, 4]),
    (176, [55, 40, 85, 40, 80, 105, 4]),
    (177, [40, 50, 45, 70, 70, 45, 0]),
    (178, [65, 75, 70, 95, 95, 70, 0]),
    (179, [55, 40, 40, 35, 65, 45, 3]),
    (180, [70, 55, 55, 45, 80, 60, 3]),
    (181, [90, 75, 75, 55, 115, 90, 3]),
    (182, [75, 80, 85, 50, 90, 100, 3]),
    (183, [70, 20, 50, 40, 20, 50, 4]),
    (184, [100, 50, 80, 50, 50, 80, 4]),
    (185, [70, 100, 115, 30, 30, 65, 0]),
    (186, [90, 75, 75, 70, 90, 100, 3]),
    (187, [35, 35, 40, 50, 35, 55, 3]),
    (188, [55, 45, 50, 80, 45, 65, 3]),
    (189, [75, 55, 70, 110, 55, 85, 3]),
    (190, [55, 70, 55, 85, 40, 55, 4]),
    (191, [30, 30, 30, 30, 30, 30, 3]),
    (192, [75, 75, 55, 30, 105, 85, 3]),
    (193, [65, 65, 45, 95, 75, 45, 0]),
    (194, [55, 45, 45, 15, 25, 25, 0]),
    (195, [95, 85, 85, 35, 65, 65, 0]),
    (196, [65, 65, 60, 110, 130, 95, 0]),
    (197, [95, 65, 110, 65, 60, 130, 0]),
    (198, [60, 85, 42, 91, 85, 42, 3]),
    (199, [95, 75, 80, 30, 100, 110, 0]),
    (200, [60, 60, 60, 85, 85, 85, 4]),
    (201, [48, 72, 48, 48, 72, 48, 0]),
    (202, [190, 33, 58, 33, 33, 58, 0]),
    (203, [70, 80, 65, 85, 90, 65, 0]),
    (204, [50, 65, 90, 15, 35, 35, 0]),
    (205, [75, 90, 140, 40, 60, 60, 0]),
    (206, [100, 70, 70, 45, 65, 65, 0]),
    (207, [65, 75, 105, 85, 35, 65, 3]),
    (208, [75, 85, 200, 30, 55, 65, 0]),
    (209, [60, 80, 50, 30, 40, 40, 4]),
    (210, [90, 120, 75, 45, 60, 60, 4]),
    (211, [65, 95, 75, 85, 55, 55, 0]),
    (212, [70, 130, 100, 65, 55, 80, 0]),
    (213, [20, 10, 230, 5, 10, 230, 3]),
    (214, [80, 125, 75, 85, 40, 95, 5]),
    (215, [55, 95, 55, 115, 35, 75, 3]),
    (216, [60, 80, 50, 40, 50, 50, 0]),
    (217, [90, 130, 75, 55, 75, 75, 0]),
    (218, [40, 40, 40, 20, 70, 40, 0]),
    (219, [50, 50, 120, 30, 80, 80, 0]),
    (220, [50, 50, 40, 50, 30, 30, 5]),
    (221, [100, 100, 80, 50, 60, 60, 5]),
    (222, [55, 55, 85, 35, 65, 85, 4]),
    (223, [35, 65, 35, 65, 65, 35, 0]),
    (224, [75, 105, 75, 45, 105, 75, 0]),
    (225, [45, 55, 45, 75, 65, 45, 4]),
    (226, [65, 40, 70, 70, 80, 140, 5]),
    (227, [65, 80, 140, 70, 40, 70, 5]),
    (228, [45, 60, 30, 65, 80, 50, 5]),
    (229, [75, 90, 50, 95, 110, 80, 5]),
    (230, [75, 95, 95, 85, 95, 95, 0]),
    (231, [90, 60, 60, 40, 40, 40, 0]),
    (232, [90, 120, 120, 50, 60, 60, 0]),
    (233, [85, 80, 90, 60, 105, 95, 0]),
    (234, [73, 95, 62, 85, 85, 65, 5]),
    (235, [55, 20, 35, 75, 20, 45, 4]),
    (236, [35, 35, 35, 35, 35, 35, 0]),
    (237, [50, 95, 95, 70, 35, 110, 0]),
    (238, [45, 30, 15, 65, 85, 65, 0]),
    (239, [45, 63, 37, 95, 65, 55, 0]),
    (240, [45, 75, 37, 83, 70, 55, 0]),
    (241, [95, 80, 105, 100, 40, 70, 5]),
    (242, [255, 10, 10, 55, 75, 135, 4]),
    (243, [90, 85, 75, 115, 115, 100, 5]),
    (244, [115, 115, 85, 100, 90, 75, 5]),
    (245, [100, 75, 115, 85, 90, 115, 5]),
    (246, [50, 64, 50, 41, 45, 50, 5]),
    (247, [70, 84, 70, 51, 65, 70, 5]),
    (248, [100, 134, 110, 61, 95, 100, 5]),
    (249, [106, 90, 130, 110, 90, 154, 5]),
    (250, [106, 130, 90, 90, 110, 154, 5]),
    (251, [100, 100, 100, 100, 100, 100, 3]),
    (277, [40, 45, 35, 70, 65, 55, 3]),
    (278, [50, 65, 45, 95, 85, 65, 3]),
    (279, [70, 85, 65, 120, 105, 85, 3]),
    (280, [45, 60, 40, 45, 70, 50, 3]),
    (281, [60, 85, 60, 55, 85, 60, 3]),
    (282, [80, 120, 70, 80, 110, 70, 3]),
    (283, [50, 70, 50, 40, 50, 50, 3]),
    (284, [70, 85, 70, 50, 60, 70, 3]),
    (285, [100, 110, 90, 60, 85, 90, 3])]"

definition base_stats_3 :: "(int \<times> int list) list" where
  "base_stats_3 = [
    (286, [35, 55, 35, 35, 30, 30, 0]),
    (287, [70, 90, 70, 70, 60, 60, 0]),
    (288, [38, 30, 41, 60, 30, 41, 0]),
    (289, [78, 70, 61, 100, 50, 61, 0]),
    (290, [45, 45, 35, 20, 20, 30, 0]),
    (291, [50, 35, 55, 15, 25, 25, 0]),
    (292, [60, 70, 50, 65, 90, 50, 0]),
    (293, [50, 35, 55, 15, 25, 25, 0]),
    (294, [60, 50, 70, 65, 50, 90, 0]),
    (295, [40, 30, 30, 30, 40, 50, 3]),
    (296, [60, 50, 50, 50, 60, 70, 3]),
    (297, [80, 70, 70, 70, 90, 100, 3]),
    (298, [40, 40, 50, 30, 30, 30, 3]),
    (299, [70, 70, 40, 60, 60, 40, 3]),
    (300, [90, 100, 60, 80, 90, 60, 3]),
    (301, [31, 45, 90, 40, 30, 30, 1]),
    (302, [61, 90, 45, 160, 50, 50, 1]),
    (303, [1, 90, 45, 40, 30, 30, 1]),
    (304, [40, 55, 30, 85, 30, 30, 3]),
    (305, [60, 85, 60, 125, 50, 50, 3]),
    (306, [60, 40, 60, 35, 40, 60, 2]),
    (307, [60, 130, 80, 70, 60, 60, 2]),
    (308, [60, 60, 60, 60, 60, 60, 4]),
    (309, [40, 30, 30, 85, 55, 30, 0]),
    (310, [60, 50, 100, 65, 85, 70, 0]),
    (311, [40, 30, 32, 65, 50, 52, 0]),
    (312, [70, 60, 62, 60, 80, 82, 0]),
    (313, [130, 70, 35, 60, 70, 35, 2]),
    (314, [170, 90, 45, 60, 90, 45, 2]),
    (315, [50, 45, 45, 50, 35, 35, 4]),
    (316, [70, 65, 65, 70, 55, 55, 4]),
    (317, [60, 90, 70, 40, 60, 120, 3]),
    (318, [40, 40, 55, 55, 40, 70, 0]),
    (319, [60, 70, 105, 75, 70, 120, 0]),
    (320, [30, 45, 135, 30, 45, 90, 0]),
    (321, [70, 85, 140, 20, 85, 70, 0]),
    (322, [50, 75, 75, 50, 65, 65, 3]),
    (323, [50, 48, 43, 60, 46, 41, 0]),
    (324, [110, 78, 73, 60, 76, 71, 0]),
    (325, [43, 30, 55, 97, 40, 65, 4]),
    (326, [43, 80, 65, 35, 50, 35, 2]),
    (327, [63, 120, 85, 55, 90, 55, 2]),
    (328, [20, 15, 20, 80, 10, 55, 1]),
    (329, [95, 60, 79, 81, 100, 125, 1]),
    (330, [45, 90, 20, 65, 65, 20, 5]),
    (331, [70, 120, 40, 95, 95, 40, 5]),
    (332, [45, 100, 45, 10, 45, 45, 3]),
    (333, [50, 70, 50, 70, 50, 50, 3]),
    (334, [80, 100, 80, 100, 80, 80, 3]),
    (335, [72, 60, 30, 25, 20, 30, 2]),
    (336, [144, 120, 60, 50, 40, 60, 2]),
    (337, [40, 45, 40, 65, 65, 40, 5]),
    (338, [70, 75, 60, 105, 105, 60, 5]),
    (339, [60, 60, 40, 35, 65, 45, 0]),
    (340, [70, 100, 70, 40, 105, 75, 0]),
    (341, [70, 40, 50, 25, 55, 50, 3]),
    (342, [90, 60, 70, 45, 75, 70, 3]),
    (343, [110, 80, 90, 65, 95, 90, 3]),
    (344, [50, 85, 40, 35, 85, 40, 3]),
    (345, [70, 115, 60, 55, 115, 60, 3]),
    (346, [50, 50, 50, 50, 50, 50, 0]),
    (347, [80, 80, 80, 80, 80, 80, 0]),
    (348, [70, 55, 65, 70, 95, 85, 4]),
    (349, [70, 95, 85, 70, 55, 65, 4]),
    (350, [50, 20, 40, 20, 20, 40, 4]),
    (351, [60, 25, 35, 60, 70, 80, 4]),
    (352, [80, 45, 65, 80, 90, 110, 4]),
    (353, [60, 50, 40, 95, 85, 75, 0]),
    (354, [60, 40, 50, 95, 75, 85, 0]),
    (355, [50, 85, 85, 50, 55, 55, 4]),
    (356, [30, 40, 55, 60, 40, 55, 0]),
    (357, [60, 60, 75, 80, 60, 75, 0]),
    (358, [45, 40, 60, 50, 40, 75, 1]),
    (359, [75, 70, 90, 80, 70, 105, 1]),
    (360, [95, 23, 48, 23, 23, 48, 0]),
    (361, [20, 40, 90, 25, 30, 90, 4]),
    (362, [40, 70, 130, 25, 60, 130, 4]),
    (363, [50, 60, 45, 65, 100, 80, 3]),
    (364, [60, 60, 60, 30, 35, 35, 5]),
    (365, [80, 80, 80, 90, 55, 55, 5]),
    (366, [150, 160, 100, 100, 95, 65, 5]),
    (367, [70, 43, 53, 40, 43, 53, 2]),
    (368, [100, 73, 83, 55, 73, 83, 2]),
    (369, [99, 68, 83, 51, 72, 87, 5]),
    (370, [64, 51, 23, 28, 51, 23, 3]),
    (371, [84, 71, 43, 48, 71, 43, 3]),
    (372, [104, 91, 63, 68, 91, 63, 3]),
    (373, [35, 64, 85, 32, 74, 55, 1]),
    (374, [55, 104, 105, 52, 94, 75, 1]),
    (375, [55, 84, 105, 52, 114, 75, 1]),
    (376, [65, 130, 60, 75, 75, 60, 3]),
    (377, [44, 75, 35, 45, 63, 33, 4]),
    (378, [64, 115, 65, 65, 83, 63, 4]),
    (379, [73, 100, 60, 65, 100, 60, 2]),
    (380, [73, 115, 60, 90, 60, 60, 1]),
    (381, [100, 90, 130, 55, 45, 65, 5]),
    (382, [50, 70, 100, 30, 40, 40, 5]),
    (383, [60, 90, 140, 40, 50, 50, 5]),
    (384, [70, 110, 180, 50, 60, 60, 5]),
    (385, [70, 70, 70, 70, 70, 70, 0]),
    (386, [65, 73, 55, 85, 47, 75, 1]),
    (387, [65, 47, 55, 85, 73, 75, 2]),
    (388, [66, 41, 77, 23, 61, 87, 1]),
    (389, [86, 81, 97, 43, 81, 107, 1]),
    (390, [45, 95, 50, 75, 40, 50, 1]),
    (391, [75, 125, 100, 45, 70, 80, 1]),
    (392, [28, 25, 25, 40, 45, 35, 5]),
    (393, [38, 35, 35, 50, 65, 55, 5]),
    (394, [68, 65, 65, 80, 125, 115, 5]),
    (395, [45, 75, 60, 50, 40, 30, 5]),
    (396, [65, 95, 100, 50, 60, 50, 5]),
    (397, [95, 135, 80, 100, 110, 80, 5]),
    (398, [40, 55, 80, 30, 35, 60, 5]),
    (399, [60, 75, 100, 50, 55, 80, 5]),
    (400, [80, 135, 130, 70, 95, 90, 5]),
    (401, [80, 100, 200, 50, 50, 100, 5]),
    (402, [80, 50, 100, 50, 100, 200, 5]),
    (403, [80, 75, 150, 50, 75, 150, 5]),
    (404, [100, 100, 90, 90, 150, 140, 5]),
    (405, [100, 150, 140, 90, 100, 90, 5]),
    (406, [105, 150, 90, 95, 150, 90, 5]),
    (407, [80, 80, 90, 110, 110, 130, 5]),
    (408, [80, 90, 80, 110, 130, 110, 5]),
    (409, [100, 100, 100, 100, 100, 100, 5]),
    (410, [50, 150, 50, 150, 150, 50, 5]),
    (411, [65, 50, 70, 65, 95, 80, 4])]"

definition base_stats :: "int \<Rightarrow> int list option" where
  "base_stats species = map_of (base_stats_1 @ base_stats_2 @ base_stats_3) species"

definition max_level :: nat where "max_level = 100"
definition shedinja :: int where "shedinja = 303"
definition deoxys :: int where "deoxys = 410"

text \<open>Attack, Defense, Speed, Special Attack, Special Defense of the Attack forme.\<close>

definition deoxys_forme :: "int list" where
  "deoxys_forme = [180, 20, 150, 180, 20]"

subsection \<open>Experience\<close>

definition medium_fast :: "int \<Rightarrow> int" where "medium_fast n = n ^ 3"

definition erratic :: "int \<Rightarrow> int" where
  "erratic n =
     (if n \<le> 50 then (100 - n) * n ^ 3 div 50
      else if n \<le> 68 then (150 - n) * n ^ 3 div 100
      else if n \<le> 98 then ((1911 - 10 * n) div 3) * n ^ 3 div 500
      else (160 - n) * n ^ 3 div 100)"

definition fluctuating :: "int \<Rightarrow> int" where
  "fluctuating n =
     (if n \<le> 15 then ((n + 1) div 3 + 24) * n ^ 3 div 50
      else if n \<le> 36 then (n + 14) * n ^ 3 div 50
      else ((n div 2) + 32) * n ^ 3 div 50)"

definition medium_slow :: "int \<Rightarrow> int" where
  "medium_slow n = 6 * n ^ 3 div 5 - 15 * n ^ 2 + 100 * n - 140"

definition fast_curve :: "int \<Rightarrow> int" where "fast_curve n = 4 * n ^ 3 div 5"
definition slow_curve :: "int \<Rightarrow> int" where "slow_curve n = 5 * n ^ 3 div 4"

text \<open>\<^verbatim>\<open>EXP_TABLES[growth][level]\<close>: levels 0 and 1 are fixed, then the curve.\<close>

definition curves :: "(int \<Rightarrow> int) list" where
  "curves = [medium_fast, erratic, fluctuating, medium_slow, fast_curve, slow_curve]"

definition exp_table :: "(int \<Rightarrow> int) \<Rightarrow> int list" where
  "exp_table curve = [0, 1] @ map (\<lambda>n. curve (int n)) [2..<max_level + 1]"

definition exp_tables :: "int list list" where
  "exp_tables = map exp_table curves"

fun level_loop :: "int list \<Rightarrow> int \<Rightarrow> nat \<Rightarrow> nat \<Rightarrow> nat" where
  "level_loop table e 0 level = level"
| "level_loop table e (Suc k) level =
     (if level \<le> max_level \<and> table ! level \<le> e then level_loop table e k (level + 1) else level)"

text \<open>The loop runs at most \<open>max_level\<close> times, which its first argument counts.\<close>

definition level_from_exp :: "int \<Rightarrow> int \<Rightarrow> py_error + int" where
  "level_from_exp species e =
     (case base_stats species of
        None \<Rightarrow> Inl KeyError
      | Some b \<Rightarrow>
          bindr (py_index b 6) (\<lambda>growth. bindr (py_index exp_tables (nat growth)) (\<lambda>table.
            Inr (int (level_loop table e max_level 1) - 1))))"

subsection \<open>Natures and stats\<close>

definition nature_stat_table :: "int list list" where
  "nature_stat_table =
     [[0, 0, 0, 0, 0], [1, -1, 0, 0, 0], [1, 0, -1, 0, 0], [1, 0, 0, -1, 0], [1, 0, 0, 0, -1],
      [-1, 1, 0, 0, 0], [0, 0, 0, 0, 0], [0, 1, -1, 0, 0], [0, 1, 0, -1, 0], [0, 1, 0, 0, -1],
      [-1, 0, 1, 0, 0], [0, -1, 1, 0, 0], [0, 0, 0, 0, 0], [0, 0, 1, -1, 0], [0, 0, 1, 0, -1],
      [-1, 0, 0, 1, 0], [0, -1, 0, 1, 0], [0, 0, -1, 1, 0], [0, 0, 0, 0, 0], [0, 0, 0, 1, -1],
      [-1, 0, 0, 0, 1], [0, -1, 0, 0, 1], [0, 0, -1, 0, 1], [0, 0, 0, -1, 1], [0, 0, 0, 0, 0]]"

definition modify_stat_by_nature :: "nat \<Rightarrow> int \<Rightarrow> nat \<Rightarrow> int" where
  "modify_stat_by_nature nature v stat_index =
     (let m = nature_stat_table ! nature ! stat_index
      in if m = 1 then v * 110 div 100 else if m = -1 then v * 90 div 100 else v)"

definition stat_value :: "int \<Rightarrow> int \<Rightarrow> int \<Rightarrow> int \<Rightarrow> int" where
  "stat_value base iv ev level = ((2 * base + iv + ev div 4) * level) div 100 + 5"

subsection \<open>The party tail\<close>

definition tail_hp :: "int \<Rightarrow> int \<Rightarrow> int \<Rightarrow> int \<Rightarrow> int \<Rightarrow> int" where
  "tail_hp species base iv ev level =
     (if species = shedinja then 1 else ((2 * base + iv + ev div 4) * level) div 100 + level + 10)"

definition build_party_tail :: "bytes \<Rightarrow> py_error + bytes option" where
  "build_party_tail canon =
     (let pid = from_le (py_slice canon 0 4); sec = py_slice canon 32 80;
          growth = py_slice sec 0 12; evs = py_slice sec 24 36; misc = py_slice sec 36 48;
          species = from_le (py_slice growth 0 2)
      in case base_stats species of
           None \<Rightarrow> Inr None
         | Some base \<Rightarrow>
             let e = from_le (py_slice growth 4 8);
                 ev = map uint (py_slice evs 0 6);
                 iv_word = from_le (py_slice misc 4 8);
                 iv = map (\<lambda>i. drop_bit (5 * i) iv_word AND 0x1F) [0..<6];
                 nature = nat (pid mod 25);
                 nonhp = (if species = deoxys then deoxys_forme else py_slice base 1 6)
             in if length ev < 6 then Inl IndexError
                else bindr (level_from_exp species e) (\<lambda>level.
                  let hp = tail_hp species (base ! 0) (iv ! 0) (ev ! 0) level;
                      st = (\<lambda>i. modify_stat_by_nature nature
                                 (stat_value (nonhp ! i) (iv ! (i + 1)) (ev ! (i + 1)) level) i)
                  in bindr (to_bytes_le 2 hp) (\<lambda>hpb. bindr (to_bytes_le 2 (st 0)) (\<lambda>s0.
                     bindr (to_bytes_le 2 (st 1)) (\<lambda>s1. bindr (to_bytes_le 2 (st 2)) (\<lambda>s2.
                     bindr (to_bytes_le 2 (st 3)) (\<lambda>s3. bindr (to_bytes_le 2 (st 4)) (\<lambda>s4.
                       Inr (Some ([0, 0, 0, 0, word_of_int level, 0xFF] @ hpb @ hpb @ s0 @ s1 @ s2
                                  @ s3 @ s4))))))))))"

subsection \<open>Lemmas\<close>

definition row_ok :: "int \<times> int list \<Rightarrow> bool" where
  "row_ok r \<longleftrightarrow> length (snd r) = 7 \<and> list_all (\<lambda>x. 0 \<le> x \<and> x \<le> 255) (snd r) \<and> snd r ! 6 \<le> 5"

lemma row_ok_row:
  "row_ok (s, [a, b, c, d, e, f, g]) \<longleftrightarrow> (0 \<le> a \<and> a \<le> 255) \<and> (0 \<le> b \<and> b \<le> 255)
     \<and> (0 \<le> c \<and> c \<le> 255) \<and> (0 \<le> d \<and> d \<le> 255) \<and> (0 \<le> e \<and> e \<le> 255)
     \<and> (0 \<le> f \<and> f \<le> 255) \<and> 0 \<le> g \<and> g \<le> 5"
  by (auto simp: row_ok_def)

lemmas row_le = le_numeral_simps zero_le_numeral numeral_le_iff Num.le_num_simps one_le_numeral
  zero_le_one order_refl numeral_le_one_iff simp_thms list.pred_inject(1)

lemma rows_ok_1: "list_all row_ok base_stats_1"
  unfolding base_stats_1_def list.pred_inject row_ok_row by (simp only: row_le)

lemma rows_ok_2: "list_all row_ok base_stats_2"
  unfolding base_stats_2_def list.pred_inject row_ok_row by (simp only: row_le)

lemma rows_ok_3: "list_all row_ok base_stats_3"
  unfolding base_stats_3_def list.pred_inject row_ok_row by (simp only: row_le)

lemma base_stats_row:
  assumes "base_stats species = Some b"
  shows "length b = 7 \<and> (\<forall>i<6. 0 \<le> b ! i \<and> b ! i \<le> 255) \<and> 0 \<le> b ! 6 \<and> b ! 6 \<le> 5"
proof -
  have "(species, b) \<in> set (base_stats_1 @ base_stats_2 @ base_stats_3)"
    using assms unfolding base_stats_def by (rule map_of_SomeD)
  then have "row_ok (species, b)"
    using rows_ok_1 rows_ok_2 rows_ok_3 by (auto simp: list_all_iff)
  then show ?thesis by (auto simp: row_ok_def list_all_length)
qed

lemma level_loop_spec:
  assumes "level \<le> Suc max_level" "k = Suc max_level - level"
  shows "let l = level_loop table e k level
     in level \<le> l \<and> l \<le> Suc max_level \<and> (\<forall>j. level \<le> j \<and> j < l \<longrightarrow> table ! j \<le> e)
        \<and> (l \<le> max_level \<longrightarrow> e < table ! l)"
  using assms
proof (induction table e k level rule: level_loop.induct)
  case (2 table e k level)
  show ?case
  proof (cases "level \<le> max_level \<and> table ! level \<le> e")
    case True
    let ?l = "level_loop table e k (level + 1)"
    have "level + 1 \<le> Suc max_level" "k = Suc max_level - (level + 1)" using "2.prems" True by simp_all
    from "2.IH" [OF True this] have ih: "level + 1 \<le> ?l" "?l \<le> Suc max_level"
      "\<And>j. level + 1 \<le> j \<Longrightarrow> j < ?l \<Longrightarrow> table ! j \<le> e" "?l \<le> max_level \<Longrightarrow> e < table ! ?l"
      by (simp_all only: Let_def)
    have "table ! j \<le> e" if "level \<le> j" "j < ?l" for j
      using that ih(3) [of j] True by (cases "j = level") auto
    moreover have "level_loop table e (Suc k) level = ?l" using True by simp
    ultimately show ?thesis using ih(1,2,4) unfolding Let_def by force
  next
    case False
    then have "level_loop table e (Suc k) level = level" by auto
    moreover have "level \<le> max_level" using "2.prems" by simp
    ultimately show ?thesis using False "2.prems"(1) unfolding Let_def by auto
  qed
qed simp

lemma length_exp_tables: "length exp_tables = 6"
  by (simp add: exp_tables_def curves_def)

lemma level_from_exp_eq:
  assumes "base_stats species = Some b"
  shows "level_from_exp species e
     = Inr (int (level_loop (exp_tables ! nat (b ! 6)) e max_level 1) - 1)"
proof -
  have "length b = 7" "nat (b ! 6) < 6" using base_stats_row [OF assms] by auto
  then show ?thesis using assms by (simp add: level_from_exp_def length_exp_tables)
qed

text \<open>
  The level is the one the experience table gives: for every species of the table it is
  between 0 and 100, every level from 1 up to it requires at most the experience the mon has,
  and, below 100, the next level requires more.  Species outside the table raise.
\<close>

theorem level_from_exp_correct:
  "case base_stats species of
     None \<Rightarrow> level_from_exp species e = Inl KeyError
   | Some b \<Rightarrow> \<exists>l. level_from_exp species e = Inr (int l) \<and> l \<le> 100
       \<and> list_all (\<lambda>j. exp_tables ! nat (b ! 6) ! j \<le> e) [1..<Suc l]
       \<and> (l = 100 \<or> e < exp_tables ! nat (b ! 6) ! Suc l)"
proof (cases "base_stats species")
  case (Some b)
  let ?t = "exp_tables ! nat (b ! 6)"
  have "let l = level_loop ?t e max_level 1
     in 1 \<le> l \<and> l \<le> Suc max_level \<and> (\<forall>j. 1 \<le> j \<and> j < l \<longrightarrow> ?t ! j \<le> e) \<and> (l \<le> max_level \<longrightarrow> e < ?t ! l)"
    by (rule level_loop_spec) (simp_all add: max_level_def)
  then obtain l where "level_loop ?t e max_level 1 = Suc l" "l \<le> 100" "\<forall>j. 1 \<le> j \<and> j < Suc l \<longrightarrow> ?t ! j \<le> e"
    "Suc l \<le> 100 \<longrightarrow> e < ?t ! Suc l"
    by (cases "level_loop ?t e max_level 1") (auto simp: Let_def max_level_def)
  then show ?thesis
    using level_from_exp_eq [OF Some, of e] Some by (auto simp: list_all_iff intro!: exI [of _ l])
qed (simp add: level_from_exp_def)

lemma stat_core:
  assumes "0 \<le> base" "base \<le> 255" "0 \<le> iv" "iv \<le> 31" "0 \<le> ev" "ev \<le> 255" "0 \<le> level" "level \<le> (100 :: int)"
  shows "0 \<le> ((2 * base + iv + ev div 4) * level) div 100" "((2 * base + iv + ev div 4) * level) div 100 \<le> 604"
proof -
  have a: "0 \<le> 2 * base + iv + ev div 4" "2 * base + iv + ev div 4 \<le> 604" using assms by linarith+
  then have "(2 * base + iv + ev div 4) * level \<le> 604 * 100" by (intro mult_mono) (use assms in auto)
  moreover have "0 \<le> (2 * base + iv + ev div 4) * level" using a(1) assms(7) by simp
  ultimately show "0 \<le> ((2 * base + iv + ev div 4) * level) div 100"
    "((2 * base + iv + ev div 4) * level) div 100 \<le> 604" by linarith+
qed

lemma nature_range: "0 \<le> v \<Longrightarrow> v \<le> 609 \<Longrightarrow> 0 \<le> modify_stat_by_nature n v i \<and> modify_stat_by_nature n v i < 65536"
  by (auto simp: modify_stat_by_nature_def Let_def)

lemma stat_fits:
  assumes "0 \<le> base" "base \<le> 255" "0 \<le> iv" "iv \<le> 31" "0 \<le> ev" "ev \<le> 255" "0 \<le> level" "level \<le> (100 :: int)"
  shows "\<exists>x. to_bytes_le 2 (modify_stat_by_nature n (stat_value base iv ev level) i) = Inr x \<and> length x = 2"
  using nature_range [of "stat_value base iv ev level" n i] stat_core [OF assms]
  by (simp add: stat_value_def to_bytes_le_def)

lemma iv_range: "0 \<le> x AND 0x1F \<and> x AND 0x1F \<le> (31 :: int)"
proof -
  have "0 \<le> x mod 32" "x mod 32 \<le> 31" by simp_all
  then show ?thesis unfolding masks take_bit_eq_mod by simp
qed

lemma forme_range: "i < 5 \<Longrightarrow> 0 \<le> deoxys_forme ! i \<and> deoxys_forme ! i \<le> 255"
  by (auto simp: deoxys_forme_def less_Suc_eq numeral_eq_Suc)

lemma hp_fits:
  assumes "0 \<le> base" "base \<le> 255" "0 \<le> iv" "iv \<le> 31" "0 \<le> ev" "ev \<le> 255" "0 \<le> level" "level \<le> (100 :: int)"
  shows "\<exists>x. to_bytes_le 2 (tail_hp species base iv ev level) = Inr x \<and> length x = 2"
  using stat_core [OF assms] assms(7,8) by (simp add: tail_hp_def to_bytes_le_def)

lemma party_tail_total':
  assumes "80 \<le> length canon"
  shows "build_party_tail canon = Inr None
     \<and> base_stats (from_le (py_slice canon 32 34)) = None
   \<or> (\<exists>t l. build_party_tail canon = Inr (Some t) \<and> length t = 20 \<and> t ! 5 = 0xFF
        \<and> level_from_exp (from_le (py_slice canon 32 34)) (from_le (py_slice canon 36 40)) = Inr l
        \<and> uint (t ! 4) = l \<and> 0 \<le> l \<and> l \<le> 100)"
proof -
  have sl: "py_slice (py_slice (py_slice canon 32 80) 0 12) 0 2 = py_slice canon 32 34"
    "py_slice (py_slice (py_slice canon 32 80) 0 12) 4 8 = py_slice canon 36 40"
    by (simp_all add: py_slice_def take_drop)
  show ?thesis
  proof (cases "base_stats (from_le (py_slice canon 32 34))")
    case None
    then show ?thesis by (simp add: build_party_tail_def sl Let_def)
  next
    case (Some b)
    note row = base_stats_row [OF Some]
    let ?e = "from_le (py_slice canon 36 40)"
    let ?species = "from_le (py_slice canon 32 34)"
    obtain l where l: "level_from_exp ?species ?e = Inr (int l)" "l \<le> 100"
      using level_loop_spec [of 1 max_level "exp_tables ! nat (b ! 6)" ?e] level_from_exp_eq [OF Some, of ?e]
      by (cases "level_loop (exp_tables ! nat (b ! 6)) ?e max_level 1") (auto simp: Let_def max_level_def)
    define ev where "ev = map uint (py_slice (py_slice (py_slice canon 32 80) 24 36) 0 6)"
    define w where "w = from_le (py_slice (py_slice (py_slice canon 32 80) 36 48) 4 8)"
    define iv where "iv = map (\<lambda>i. drop_bit (5 * i) w AND 0x1F) [0..<6]"
    define n where "n = nat (from_le (py_slice canon 0 4) mod 25)"
    define non where "non = (if ?species = deoxys then deoxys_forme else py_slice b 1 6)"
    have lev: "length ev = 6" using assms by (simp add: ev_def)
    have evr: "0 \<le> ev ! i \<and> ev ! i \<le> 255" if "i < 6" for i
      using that lev by (simp add: ev_def uint_byte_le)
    have ivr: "0 \<le> iv ! i \<and> iv ! i \<le> 31" if "i < 6" for i
      using that iv_range by (simp add: iv_def)
    have nonr: "0 \<le> non ! i \<and> non ! i \<le> 255" if "i < 5" for i
    proof -
      have "py_slice b 1 6 ! i = b ! (1 + i)" by (rule nth_py_slice) (use that row in auto)
      then show ?thesis using forme_range [OF that] row that by (simp add: non_def)
    qed
    have st: "\<exists>x. to_bytes_le 2 (modify_stat_by_nature n (stat_value (non ! i) (iv ! (i + 1))
        (ev ! (i + 1)) (int l)) i) = Inr x \<and> length x = 2" if "i < 5" for i
      by (rule stat_fits) (use nonr [OF that] ivr [of "i + 1"] evr [of "i + 1"] that l(2) in auto)
    obtain s0 where s0: "to_bytes_le 2 (modify_stat_by_nature n (stat_value (non ! 0) (iv ! (0 + 1))
        (ev ! (0 + 1)) (int l)) 0) = Inr s0" "length s0 = 2" using st [of 0] by auto
    obtain s1 where s1: "to_bytes_le 2 (modify_stat_by_nature n (stat_value (non ! 1) (iv ! (1 + 1))
        (ev ! (1 + 1)) (int l)) 1) = Inr s1" "length s1 = 2" using st [of 1] by auto
    obtain s2 where s2: "to_bytes_le 2 (modify_stat_by_nature n (stat_value (non ! 2) (iv ! (2 + 1))
        (ev ! (2 + 1)) (int l)) 2) = Inr s2" "length s2 = 2" using st [of 2] by auto
    obtain s3 where s3: "to_bytes_le 2 (modify_stat_by_nature n (stat_value (non ! 3) (iv ! (3 + 1))
        (ev ! (3 + 1)) (int l)) 3) = Inr s3" "length s3 = 2" using st [of 3] by auto
    obtain s4 where s4: "to_bytes_le 2 (modify_stat_by_nature n (stat_value (non ! 4) (iv ! (4 + 1))
        (ev ! (4 + 1)) (int l)) 4) = Inr s4" "length s4 = 2" using st [of 4] by auto
    have "\<exists>x. to_bytes_le 2 (tail_hp ?species (b ! 0) (iv ! 0) (ev ! 0) (int l)) = Inr x \<and> length x = 2"
      by (rule hp_fits) (use row ivr [of 0] evr [of 0] l(2) in auto)
    then obtain hp where hp: "to_bytes_le 2 (tail_hp ?species (b ! 0) (iv ! 0) (ev ! 0) (int l)) = Inr hp"
      "length hp = 2" by blast
    let ?t = "[0, 0, 0, 0, word_of_int (int l), 0xFF] @ hp @ hp @ s0 @ s1 @ s2 @ s3 @ s4"
    have "\<not> length ev < 6" using lev by simp
    then have "build_party_tail canon = Inr (Some ?t)"
      unfolding build_party_tail_def Let_def sl n_def [symmetric] ev_def [symmetric] w_def [symmetric]
        iv_def [symmetric] Some option.case if_not_P l(1) bindr.simps hp(1) s0(1) s1(1)
        s2(1) s3(1) s4(1) by (simp only: non_def [symmetric] if_False l(1) bindr.simps hp(1) s0(1) s1(1) s2(1) s3(1) s4(1))
    moreover have "uint (word_of_int (int l) :: byte) = int l"
      using l(2) by (simp add: unsigned_of_nat take_bit_nat_eq_self)
    then have "length ?t = 20" "?t ! 5 = 0xFF" "uint (?t ! 4) = int l"
      using hp(2) s0(2) s1(2) s2(2) s3(2) s4(2) by simp_all
    ultimately show ?thesis using l by (intro disjI2 exI [of _ ?t] exI [of _ "int l"]) simp
  qed
qed

text \<open>
  Deriving a party tail never fails: for every mon of at least 80 bytes, whatever its
  species, experience, values and nature, the result is either no tail (a species without base
  stats) or 20 bytes whose level is the one of the experience table and whose mail byte is the
  no-mail marker; none of the stats overflows its 16-bit field.
\<close>

theorem party_tail_total:
  assumes "80 \<le> length canon"
  shows "build_party_tail canon = Inr None
     \<and> base_stats (from_le (py_slice canon 32 34)) = None
   \<or> (\<exists>t l. build_party_tail canon = Inr (Some t) \<and> length t = 20 \<and> t ! 5 = 0xFF
        \<and> level_from_exp (from_le (py_slice canon 32 34)) (from_le (py_slice canon 36 40)) = Inr l
        \<and> uint (t ! 4) = l \<and> 0 \<le> l \<and> l \<le> 100)"
  by (rule party_tail_total' [OF assms])

theorem party_tail_total_witness:
  "\<exists>t. build_party_tail (replicate 32 0 @ [1, 0, 0, 0, 8, 0, 0, 0] @ replicate 40 0) = Inr (Some t) \<and> length t = 20"
proof -
  let ?c = "replicate 32 0 @ [1, 0, 0, 0, 8, 0, 0, 0] @ replicate 40 0 :: bytes"
  have "from_le (py_slice ?c 32 34) = 1" by (simp add: py_slice_def)
  moreover have "base_stats 1 \<noteq> None" by (simp add: base_stats_def base_stats_1_def)
  ultimately show ?thesis using party_tail_total [of ?c] by auto
qed

end
