(* ===== verification/Mon.thy ===== *)
theory Mon
  imports Stats Charmap "HOL-Library.Multiset"
begin

section \<open>Mon encryption, construction and the party blocks (\<open>bridge/frlgsim/mon.py\<close>)\<close>

text \<open>
  The checksum oracle \<open>decode_mon\<close>, the conversion between the encrypted wire form and the
  decrypted canonical form, construction from a file's bytes in either form, and the
  assembly of a party and its three blocks.  Species names, which the module reads from a
  source tree outside the repository, are not modelled, nor is file access.
\<close>

subsection \<open>Substructures\<close>

datatype substruct = G | A | E | M

definition substruct_order :: "substruct list list" where
  "substruct_order =
     [[G, A, E, M], [G, A, M, E], [G, E, A, M], [G, E, M, A], [G, M, A, E], [G, M, E, A],
      [A, G, E, M], [A, G, M, E], [A, E, G, M], [A, E, M, G], [A, M, G, E], [A, M, E, G],
      [E, G, A, M], [E, G, M, A], [E, A, G, M], [E, A, M, G], [E, M, G, A], [E, M, A, G],
      [M, G, A, E], [M, G, E, A], [M, A, G, E], [M, A, E, G], [M, E, G, A], [M, E, A, G]]"

fun index_of :: "'a \<Rightarrow> 'a list \<Rightarrow> nat" where
  "index_of x [] = 0"
| "index_of x (y # ys) = (if y = x then 0 else Suc (index_of x ys))"

definition gaem :: "substruct list" where "gaem = [G, A, E, M]"

definition mon_order :: "int \<Rightarrow> substruct list" where
  "mon_order pid = substruct_order ! nat (pid mod 24)"

subsection \<open>The checksum oracle\<close>

text \<open>The module's own character table and the name decoder over it.\<close>

definition mon_chars :: "(byte \<times> nat) list" where
  "mon_chars =
     [(0x00, 32), (0xAB, 33), (0xAC, 63), (0xAD, 46), (0xAE, 45), (0xAF, 0xB7), (0xB0, 0x2026),
      (0xB1, 0x201C), (0xB2, 0x201D), (0xB3, 0x2018), (0xB4, 0x2019), (0xB5, 0x2642), (0xB6, 0x2640),
      (0xB7, 0xA5), (0xB8, 44), (0xB9, 0xD7), (0xBA, 47)]
     @ map (\<lambda>i. (word_of_nat (0xA1 + i), 48 + i)) [0..<10]
     @ concat (map (\<lambda>i. [(word_of_nat (0xBB + i), 65 + i), (word_of_nat (0xD5 + i), 97 + i)]) [0..<26])"

fun gba_str :: "bytes \<Rightarrow> ustr" where
  "gba_str [] = []"
| "gba_str (x # xs) =
     (if x = 0xFF then []
      else (case map_of mon_chars x of Some c \<Rightarrow> c | None \<Rightarrow> 46) # gba_str xs)"

record mon_info =
  mi_pid :: int
  mi_otid :: int
  mi_nickname :: ustr
  mi_ot_name :: ustr
  mi_language :: byte
  mi_checksum_ok :: bool
  mi_stored :: int
  mi_calc :: int
  mi_species :: int
  mi_held_item :: int
  mi_exp :: int
  mi_moves :: "int list"
  mi_level :: "byte option"

text \<open>Twelve little-endian words exclusive-ored with the key, from \<open>off\<close> on.\<close>

fun xor_words :: "nat \<Rightarrow> nat \<Rightarrow> int \<Rightarrow> bytes \<Rightarrow> bytes" where
  "xor_words off 0 key buf = buf"
| "xor_words off (Suc n) key buf =
     (let v = (from_le (py_slice buf off (off + 4)) XOR key) AND 0xFFFFFFFF
      in xor_words (off + 4) n key (slice_assign buf off (off + 4) (to_le 4 v)))"

definition half_sum :: "bytes \<Rightarrow> int" where
  "half_sum sec = sum_list (map (\<lambda>i. from_le (py_slice sec (i * 2) (i * 2 + 2))) [0..<24]) AND 0xFFFF"

definition decode_mon :: "bytes \<Rightarrow> mon_info option" where
  "decode_mon mon =
     (if length mon < 80 then None
      else
        let pid = from_le (py_slice mon 0 4); otid = from_le (py_slice mon 4 8); key = pid XOR otid;
            sec = xor_words 0 12 key (py_slice mon 32 80);
            calc = half_sum sec;
            stored = from_le (py_slice mon 28 30);
            order = mon_order pid;
            growth = take 12 (drop (index_of G order * 12) sec);
            attacks = take 12 (drop (index_of A order * 12) sec)
        in Some \<lparr>mi_pid = pid, mi_otid = otid, mi_nickname = gba_str (py_slice mon 8 18),
             mi_ot_name = gba_str (py_slice mon 20 27), mi_language = mon ! 18,
             mi_checksum_ok = (calc = stored), mi_stored = stored, mi_calc = calc,
             mi_species = from_le (py_slice growth 0 2), mi_held_item = from_le (py_slice growth 2 4),
             mi_exp = from_le (py_slice growth 4 8),
             mi_moves = map (\<lambda>i. from_le (py_slice attacks (i * 2) (i * 2 + 2))) [0..<4],
             mi_level = (if 100 \<le> length mon then Some (mon ! 84) else None)\<rparr>)"

definition box_size :: nat where "box_size = 80"
definition party_mon_size :: nat where "party_mon_size = 100"
definition mon_party_size :: nat where "mon_party_size = 6"
definition party_block_size :: nat where "party_block_size = 200"
definition secure_off :: nat where "secure_off = 32"
definition secure_end :: nat where "secure_end = 80"

lemmas mon_sizes = box_size_def party_mon_size_def mon_party_size_def party_block_size_def
  secure_off_def secure_end_def

subsection \<open>Encryption\<close>

definition xor_secure :: "bytes \<Rightarrow> int \<Rightarrow> bytes" where
  "xor_secure buf key = xor_words secure_off 12 key buf"

definition mon_key :: "bytes \<Rightarrow> int" where
  "mon_key b = from_le (py_slice b 0 4) XOR from_le (py_slice b 4 8)"

text \<open>Blocks of twelve bytes gathered in a given order.\<close>

fun place_blocks :: "nat \<Rightarrow> nat list \<Rightarrow> bytes \<Rightarrow> bytes \<Rightarrow> bytes" where
  "place_blocks k [] src dst = dst"
| "place_blocks k (p # ps) src dst =
     place_blocks (Suc k) ps src
       (slice_assign dst (k * 12) (k * 12 + 12) (py_slice src (p * 12) (p * 12 + 12)))"

definition to_decrypted :: "bytes \<Rightarrow> bytes" where
  "to_decrypted wire =
     (let pid = from_le (py_slice wire 0 4); key = pid XOR from_le (py_slice wire 4 8);
          dec = xor_secure wire key; order = mon_order pid;
          sec = py_slice dec secure_off secure_end;
          canon = place_blocks 0 (map (\<lambda>l. index_of l order) gaem) sec (replicate 48 0)
      in slice_assign dec secure_off secure_end canon)"

definition to_encrypted :: "bytes \<Rightarrow> bytes" where
  "to_encrypted pk3 =
     (let pid = from_le (py_slice pk3 0 4); key = pid XOR from_le (py_slice pk3 4 8);
          order = mon_order pid; canon = py_slice pk3 secure_off secure_end;
          shuf = place_blocks 0 (map (\<lambda>p. index_of (order ! p) gaem) [0..<4]) canon (replicate 48 0)
      in xor_secure (slice_assign pk3 secure_off secure_end shuf) key)"

definition wire_valid :: "bytes \<Rightarrow> bool" where
  "wire_valid b = (case decode_mon b of None \<Rightarrow> False | Some d \<Rightarrow> mi_checksum_ok d)"

subsection \<open>Construction\<close>

text \<open>A \<^verbatim>\<open>Mon\<close> object is its 100 bytes.\<close>

definition mon_new :: "bytes \<Rightarrow> py_error + bytes" where
  "mon_new party100 = (if length party100 \<noteq> party_mon_size then Inl ValueError else Inr party100)"

definition mon_wire :: "bytes \<Rightarrow> bytes" where
  "mon_wire data =
     (let key = from_le (py_slice data 0 4) XOR from_le (py_slice data 4 8)
      in if wire_valid data \<and> key \<noteq> 0 then data
         else let enc = to_encrypted data in if wire_valid enc then enc else data)"

definition widen_box :: "bytes \<Rightarrow> bytes" where
  "widen_box wire =
     (if length wire = box_size
      then (wire @ replicate (party_mon_size - box_size) 0)[85 := 0xFF] else wire)"

definition from_pk3 :: "bytes \<Rightarrow> py_error + bytes" where
  "from_pk3 data =
     (if length data \<noteq> box_size \<and> length data \<noteq> party_mon_size then Inl ValueError
      else
        let wire = widen_box (mon_wire data)
        in if wire_valid wire \<and> wire ! 84 = 0 then
             bindr (build_party_tail (to_decrypted wire)) (\<lambda>tail.
               mon_new (case tail of None \<Rightarrow> wire | Some t \<Rightarrow> take box_size wire @ t))
           else mon_new wire)"

definition mon_empty :: bytes where
  "mon_empty = replicate party_mon_size 0"

definition box_bytes :: "bytes \<Rightarrow> bytes" where
  "box_bytes raw = take box_size raw"

definition mon_is_empty :: "bytes \<Rightarrow> bool" where
  "mon_is_empty raw \<longleftrightarrow> from_le (py_slice raw 0 8) = 0"

definition save_pk3_bytes :: "bytes \<Rightarrow> nat \<Rightarrow> py_error + bytes" where
  "save_pk3_bytes raw sz =
     (if sz \<noteq> box_size \<and> sz \<noteq> party_mon_size then Inl ValueError
      else Inr (take sz (to_decrypted raw)))"

definition save_ek3_bytes :: "bytes \<Rightarrow> nat \<Rightarrow> py_error + bytes" where
  "save_ek3_bytes raw sz =
     (if sz \<noteq> box_size \<and> sz \<noteq> party_mon_size then Inl ValueError else Inr (take sz raw))"

subsection \<open>The party\<close>

fun put_mons :: "nat \<Rightarrow> bytes list \<Rightarrow> bytes \<Rightarrow> bytes" where
  "put_mons i [] buf = buf"
| "put_mons i (m # ms) buf =
     put_mons (Suc i) ms
       (slice_assign buf (i * party_mon_size) ((i + 1) * party_mon_size) m)"

definition build_player_party :: "bytes list \<Rightarrow> py_error + bytes" where
  "build_player_party mons =
     (if mon_party_size < length mons then Inl ValueError
      else Inr (put_mons 0 mons (replicate (party_mon_size * mon_party_size) 0)))"

definition party_blocks :: "bytes \<Rightarrow> bytes list" where
  "party_blocks party600 =
     map (\<lambda>k. py_slice party600 (k * party_block_size) (k * party_block_size + party_block_size)) [0..<3]"

subsection \<open>The exclusive-or is byte-wise\<close>

lemma of_int_byte_xor: "(word_of_int (x XOR y) :: byte) = word_of_int x XOR word_of_int y"
  by (rule bit_word_eqI) (auto simp: bit_simps)

lemma to_le_xor:
  "length w = n \<Longrightarrow> to_le n (from_le w XOR k) = map2 (XOR) w (to_le n k)"
proof (induction n arbitrary: w k)
  case (Suc n)
  then obtain b r where w: "w = b # r" "length r = n" by (cases w) auto
  have d: "(uint b + 256 * from_le r) div 256 = from_le r" using uint_byte_le [of b] by simp
  have m: "word_of_int (uint b + 256 * from_le r) = b"
    using to_le_from_le [of "b # r"] by simp
  have x: "(uint b + 256 * from_le r XOR k) div 256 = from_le r XOR (k div 256)"
    using drop_bit_xor [of 8 "uint b + 256 * from_le r" k] d by (simp add: drop_bit_eq_div)
  show ?case using Suc.IH [OF w(2), of "k div 256"] by (simp add: w(1) of_int_byte_xor m x del: of_int_add of_int_mult)
qed simp

text \<open>The bytes of a region under a four-byte key.\<close>

definition xorb :: "int \<Rightarrow> bytes \<Rightarrow> bytes" where
  "xorb key s = map (\<lambda>i. s ! i XOR to_le 4 key ! (i mod 4)) [0..<length s]"

lemma length_xorb [simp]: "length (xorb key s) = length s"
  by (simp add: xorb_def)

lemma nth_xorb: "i < length s \<Longrightarrow> xorb key s ! i = s ! i XOR to_le 4 key ! (i mod 4)"
  by (simp add: xorb_def)

lemma xorb_xorb [simp]: "xorb key (xorb key s) = s"
  by (rule nth_equalityI) (simp_all add: nth_xorb xor.assoc)

lemma xorb_append4: "length w = 4 \<Longrightarrow> xorb key (w @ s) = xorb key w @ xorb key s"
  by (rule nth_equalityI) (auto simp: nth_xorb nth_append le_mod_geq)

lemma xorb_word:
  assumes "length w = 4"
  shows "to_le 4 ((from_le w XOR key) AND 0xFFFFFFFF) = xorb key w"
proof -
  have "to_le 4 (v AND 0xFFFFFFFF) = to_le 4 v" for v
  proof (rule from_le_inj)
    show "from_le (to_le 4 (v AND 0xFFFFFFFF)) = from_le (to_le 4 v)"
      unfolding le_bytes masks by simp
  qed simp
  then have "to_le 4 ((from_le w XOR key) AND 0xFFFFFFFF) = map2 (XOR) w (to_le 4 key)"
    using to_le_xor [OF assms, of key] by simp
  also have "\<dots> = xorb key w"
    by (rule nth_equalityI) (use assms in \<open>simp_all add: nth_xorb\<close>)
  finally show ?thesis .
qed

lemma xor_words_xorb:
  assumes "length s = 4 * n"
  shows "xor_words (length h) n key (h @ s @ t) = h @ xorb key s @ t"
  using assms
proof (induction n arbitrary: h s)
  case 0
  then show ?case by (simp add: xorb_def)
next
  case (Suc n)
  define w where "w = take 4 s"
  define r where "r = drop 4 s"
  have s: "s = w @ r" "length w = 4" "length r = 4 * n" using Suc.prems by (simp_all add: w_def r_def)
  have step: "xor_words (length h) (Suc n) key (h @ s @ t)
      = xor_words (length (h @ xorb key w)) n key ((h @ xorb key w) @ r @ t)"
    using s(2) by (simp add: s(1) py_slice_def xorb_word slice_assign_def Let_def del: to_le.simps)
  also have "\<dots> = h @ xorb key s @ t"
    using Suc.IH [OF s(3), of "h @ xorb key w"] s by (simp add: xorb_append4)
  finally show ?case .
qed

text \<open>A mon is a 32-byte head, a 48-byte secure region and a tail.\<close>

lemma xor_secure_parts:
  "length h = 32 \<Longrightarrow> length s = 48 \<Longrightarrow> xor_secure (h @ s @ t) key = h @ xorb key s @ t"
  using xor_words_xorb [of s 12 h key t] by (simp add: xor_secure_def secure_off_def)

lemma mon_parts:
  assumes "80 \<le> length b"
  obtains h s t where "b = h @ s @ t" "length h = 32" "length s = 48"
proof
  show "b = take 32 b @ take 48 (drop 32 b) @ drop 48 (drop 32 b)"
    by (simp only: append_take_drop_id)
qed (use assms in simp_all)

lemma parts_slices:
  assumes "length h = 32" "length s = 48"
  shows "py_slice (h @ s @ t) secure_off secure_end = s"
    "slice_assign (h @ s @ t) secure_off secure_end c = h @ c @ t"
    "py_slice (h @ s @ t) 0 4 = py_slice h 0 4" "py_slice (h @ s @ t) 4 8 = py_slice h 4 8"
    "py_slice (h @ s @ t) 28 30 = py_slice h 28 30"
  using assms by (simp_all add: mon_sizes py_slice_def slice_assign_def)

subsection \<open>The shuffle permutes blocks\<close>

definition blk :: "bytes \<Rightarrow> nat \<Rightarrow> bytes" where
  "blk src p = py_slice src (p * 12) (p * 12 + 12)"

lemma length_blk [simp]: "length src = 48 \<Longrightarrow> p < 4 \<Longrightarrow> length (blk src p) = 12"
  by (simp add: blk_def)

lemma place_blocks_concat:
  assumes "length src = 48" "\<forall>p\<in>set ps. p < 4" "length dst = (k + length ps) * 12"
  shows "place_blocks k ps src dst = take (k * 12) dst @ concat (map (blk src) ps)"
  using assms
proof (induction ps arbitrary: k dst)
  case (Cons p ps)
  let ?d = "slice_assign dst (k * 12) (k * 12 + 12) (blk src p)"
  have b: "length (blk src p) = 12" using Cons.prems by simp
  have "length ?d = (Suc k + length ps) * 12"
    using b Cons.prems(3) by (simp add: length_slice_assign)
  then have "place_blocks (Suc k) ps src ?d = take (Suc k * 12) ?d @ concat (map (blk src) ps)"
    using Cons by simp
  moreover have "take (Suc k * 12) ?d = take (k * 12) dst @ blk src p"
    using b Cons.prems(3) by (simp add: slice_assign_def min_def)
  ultimately show ?case by (simp add: blk_def [of src p])
qed simp

lemma blk_concat:
  "length src = 48 \<Longrightarrow> \<forall>p\<in>set ps. p < 4 \<Longrightarrow> i < length ps \<Longrightarrow> blk (concat (map (blk src) ps)) i = blk src (ps ! i)"
proof (induction ps arbitrary: i)
  case (Cons p ps)
  then show ?case
    by (cases i) (auto simp: blk_def py_slice_def)
qed simp

lemma length_concat_blk:
  "length src = 48 \<Longrightarrow> \<forall>p\<in>set ps. p < 4 \<Longrightarrow> length (concat (map (blk src) ps)) = 12 * length ps"
  by (induction ps) auto

lemma concat_blk_id: "length src = 48 \<Longrightarrow> concat (map (blk src) [0..<4]) = src"
proof -
  assume l: "length src = 48"
  have "src = take 12 src @ take 12 (drop 12 src) @ take 12 (drop 12 (drop 12 src))
      @ drop 12 (drop 12 (drop 12 src))"
    by (simp only: append_take_drop_id)
  then show ?thesis using l by (simp add: blk_def py_slice_def upt_rec)
qed

lemma index_of_nth: "x \<in> set xs \<Longrightarrow> index_of x xs < length xs \<and> xs ! index_of x xs = x"
  by (induction xs) auto

lemma index_of_gaem: "index_of l gaem < 4" "gaem ! index_of l gaem = l"
  by (cases l; simp add: gaem_def)+

lemma length_gaem [simp]: "length gaem = 4"
  by (simp add: gaem_def)

lemma index_gaem_nth: "i < 4 \<Longrightarrow> index_of (gaem ! i) gaem = i"
  by (auto simp: gaem_def less_Suc_eq numeral_eq_Suc)

definition order_ok :: "substruct list \<Rightarrow> bool" where
  "order_ok l \<longleftrightarrow> length l = 4 \<and> distinct l \<and> G \<in> set l \<and> A \<in> set l \<and> E \<in> set l \<and> M \<in> set l"

lemma mon_order_ok: "order_ok (mon_order pid)"
proof -
  have "list_all order_ok substruct_order" by (simp add: substruct_order_def order_ok_def)
  moreover have "nat (pid mod 24) < length substruct_order"
    by (simp add: substruct_order_def nat_less_iff)
  ultimately show ?thesis unfolding mon_order_def by (simp add: list_all_length)
qed

lemma order_mem: "order_ok l \<Longrightarrow> x \<in> set l"
  by (cases x) (auto simp: order_ok_def)

definition unshuffle :: "substruct list \<Rightarrow> bytes \<Rightarrow> bytes" where
  "unshuffle l s = concat (map (blk s) (map (\<lambda>x. index_of x l) gaem))"

definition shuffle :: "substruct list \<Rightarrow> bytes \<Rightarrow> bytes" where
  "shuffle l s = concat (map (blk s) (map (\<lambda>p. index_of (l ! p) gaem) [0..<4]))"

lemma order_index: "order_ok l \<Longrightarrow> index_of x l < 4"
  using index_of_nth [OF order_mem, of l x] by (simp add: order_ok_def)

lemma length_shuffle: "length s = 48 \<Longrightarrow> length (shuffle l s) = 48"
  unfolding shuffle_def by (subst length_concat_blk) (auto simp: index_of_gaem)

lemma length_unshuffle: "order_ok l \<Longrightarrow> length s = 48 \<Longrightarrow> length (unshuffle l s) = 48"
  unfolding unshuffle_def by (subst length_concat_blk) (auto simp: order_index)

lemma blk_shuffle: "length s = 48 \<Longrightarrow> p < 4 \<Longrightarrow> blk (shuffle l s) p = blk s (index_of (l ! p) gaem)"
  unfolding shuffle_def
  by (subst blk_concat) (auto simp: index_of_gaem)

lemma blk_unshuffle:
  "order_ok l \<Longrightarrow> length s = 48 \<Longrightarrow> p < 4 \<Longrightarrow> blk (unshuffle l s) p = blk s (index_of (gaem ! p) l)"
  unfolding unshuffle_def
  by (subst blk_concat) (simp_all add: order_index)

lemma blk_ext:
  assumes "length a = 48" "length b = 48" "\<And>p. p < 4 \<Longrightarrow> blk a p = blk b p"
  shows "a = b"
proof -
  have "map (blk a) [0..<4] = map (blk b) [0..<4]" using assms(3) by simp
  then show ?thesis using concat_blk_id [OF assms(1)] concat_blk_id [OF assms(2)] by metis
qed

lemma unshuffle_shuffle: "order_ok l \<Longrightarrow> length s = 48 \<Longrightarrow> unshuffle l (shuffle l s) = s"
  by (rule blk_ext)
     (simp_all add: length_unshuffle length_shuffle blk_unshuffle blk_shuffle order_index
       index_of_nth [OF order_mem, THEN conjunct2] index_gaem_nth)

lemma index_of_distinct: "distinct xs \<Longrightarrow> p < length xs \<Longrightarrow> index_of (xs ! p) xs = p"
  using index_of_nth [of "xs ! p" xs] nth_eq_iff_index_eq [of xs "index_of (xs ! p) xs" p] by auto

lemma order_nth_index: "order_ok l \<Longrightarrow> p < 4 \<Longrightarrow> index_of (l ! p) l = p"
  by (simp add: order_ok_def index_of_distinct)

lemma shuffle_unshuffle: "order_ok l \<Longrightarrow> length s = 48 \<Longrightarrow> shuffle l (unshuffle l s) = s"
  by (rule blk_ext)
     (simp_all add: length_unshuffle length_shuffle blk_unshuffle blk_shuffle index_of_gaem order_nth_index)

subsection \<open>Encryption on the parts\<close>

definition head_pid :: "bytes \<Rightarrow> int" where "head_pid h = from_le (py_slice h 0 4)"
definition head_key :: "bytes \<Rightarrow> int" where "head_key h = head_pid h XOR from_le (py_slice h 4 8)"
definition head_order :: "bytes \<Rightarrow> substruct list" where "head_order h = mon_order (head_pid h)"

lemma head_order_ok [simp]: "order_ok (head_order h)"
  by (simp add: head_order_def mon_order_ok)

lemma to_decrypted_parts:
  assumes "length h = 32" "length s = 48"
  shows "to_decrypted (h @ s @ t) = h @ unshuffle (head_order h) (xorb (head_key h) s) @ t"
proof -
  have l: "length (xorb (head_key h) s) = 48" using assms by simp
  have "place_blocks 0 (map (\<lambda>l. index_of l (head_order h)) gaem) (xorb (head_key h) s) (replicate 48 0)
      = unshuffle (head_order h) (xorb (head_key h) s)"
    unfolding unshuffle_def using assms
    by (subst place_blocks_concat) (auto simp: order_index)
  then show ?thesis
    by (simp add: to_decrypted_def parts_slices [OF assms] xor_secure_parts [OF assms] Let_def
        parts_slices [OF assms(1) l] head_pid_def [symmetric] head_key_def [symmetric]
        head_order_def [symmetric])
qed

lemma to_encrypted_parts:
  assumes "length h = 32" "length s = 48"
  shows "to_encrypted (h @ s @ t) = h @ xorb (head_key h) (shuffle (head_order h) s) @ t"
proof -
  have l: "length (shuffle (head_order h) s) = 48" using assms(2) by (rule length_shuffle)
  have "place_blocks 0 (map (\<lambda>p. index_of (head_order h ! p) gaem) [0..<4]) s (replicate 48 0)
      = shuffle (head_order h) s"
    unfolding shuffle_def using assms
    by (subst place_blocks_concat) (auto simp: index_of_gaem)
  then show ?thesis
    by (simp add: to_encrypted_def parts_slices [OF assms] xor_secure_parts [OF assms(1) l] Let_def
        head_pid_def [symmetric] head_key_def [symmetric] head_order_def [symmetric])
qed

lemma dec_enc_mon: "80 \<le> length b \<Longrightarrow> to_decrypted (to_encrypted b) = b"
  by (erule mon_parts)
     (simp add: to_encrypted_parts to_decrypted_parts length_shuffle unshuffle_shuffle)

lemma enc_dec_mon: "80 \<le> length b \<Longrightarrow> to_encrypted (to_decrypted b) = b"
  by (erule mon_parts)
     (simp add: to_encrypted_parts to_decrypted_parts length_unshuffle shuffle_unshuffle)

lemma length_to_encrypted: "80 \<le> length b \<Longrightarrow> length (to_encrypted b) = length b"
  by (erule mon_parts) (simp add: to_encrypted_parts length_shuffle)

lemma length_to_decrypted: "80 \<le> length b \<Longrightarrow> length (to_decrypted b) = length b"
  by (erule mon_parts) (simp add: to_decrypted_parts length_unshuffle)

text \<open>The wire form as a canonical codec of the decrypted form.\<close>

definition wire_decode :: "bytes \<Rightarrow> bytes option" where
  "wire_decode b = (if 80 \<le> length b then Some (to_decrypted b) else None)"

interpretation wire: canonical_codec to_encrypted wire_decode "\<lambda>b. 80 \<le> length b"
  by unfold_locales
     (auto simp: wire_decode_def dec_enc_mon enc_dec_mon length_to_encrypted length_to_decrypted
       split: if_splits)

text \<open>
  C39: Encryption and decryption are inverse to each other on every mon of at least 80 bytes,
  for every personality, trainer id and substructure order: neither loses or changes a byte,
  both keep the length, and both leave the 32-byte head and the party tail untouched.
\<close>

theorem mon_encryption_inverse:
  assumes "80 \<le> length b"
  shows "to_decrypted (to_encrypted b) = b \<and> to_encrypted (to_decrypted b) = b
     \<and> length (to_encrypted b) = length b
     \<and> take 32 (to_encrypted b) = take 32 b \<and> drop 80 (to_encrypted b) = drop 80 b"
proof -
  obtain h s t where p: "b = h @ s @ t" "length h = 32" "length s = 48" using assms by (rule mon_parts)
  have "wire_decode (to_encrypted b) = Some b" by (rule wire.dec_enc [OF assms])
  moreover have "to_encrypted (to_decrypted b) = b"
    using wire.dec_iff [of b "to_decrypted b"] assms by (simp add: wire_decode_def)
  ultimately show ?thesis
    using assms p by (simp add: wire_decode_def length_to_encrypted to_encrypted_parts length_shuffle)
qed

theorem mon_encryption_inverse_witness:
  "to_decrypted (to_encrypted (replicate 4 7 @ replicate 96 1)) = replicate 4 7 @ replicate 96 1"
  using mon_encryption_inverse [of "replicate 4 7 @ replicate 96 1"] by simp

subsection \<open>The checksum does not depend on the order\<close>

fun halves :: "bytes \<Rightarrow> int" where
  "halves (a # b # r) = from_le [a, b] + halves r"
| "halves xs = 0"

lemma halves_append: "even (length xs) \<Longrightarrow> halves (xs @ ys) = halves xs + halves ys"
  by (induction xs rule: halves.induct) auto

lemma halves_sum:
  "length xs = 2 * n \<Longrightarrow> sum_list (map (\<lambda>i. from_le (py_slice xs (i * 2) (i * 2 + 2))) [0..<n]) = halves xs"
proof (induction n arbitrary: xs)
  case (Suc n)
  then obtain a b r where x: "xs = a # b # r" "length r = 2 * n"
    by (cases xs rule: halves.cases) auto
  have "[0..<Suc n] = 0 # map Suc [0..<n]" by (simp add: upt_conv_Cons map_Suc_upt del: upt_Suc)
  moreover have "map (\<lambda>i. from_le (py_slice xs (i * 2) (i * 2 + 2))) (map Suc [0..<n])
      = map (\<lambda>i. from_le (py_slice r (i * 2) (i * 2 + 2))) [0..<n]"
    by (simp add: x(1) py_slice_def)
  moreover have "py_slice (a # b # r) 0 (Suc (Suc 0)) = [a, b]" by (simp add: py_slice_def)
  ultimately show ?case using Suc.IH [OF x(2)] by (simp add: x(1) del: upt_Suc map_map)
qed simp

lemma half_sum_halves: "length s = 48 \<Longrightarrow> half_sum s = halves s AND 0xFFFF"
  using halves_sum [of s 24] by (simp add: half_sum_def)

lemma halves_concat:
  "length src = 48 \<Longrightarrow> \<forall>p\<in>set ps. p < 4 \<Longrightarrow>
     halves (concat (map (blk src) ps)) = sum_list (map (\<lambda>p. halves (blk src p)) ps)"
  by (induction ps) (auto simp: halves_append)

lemma order_perm: "order_ok l \<Longrightarrow> mset l = {#G, A, E, M#}"
proof -
  assume "order_ok l"
  then have "set l = set [G, A, E, M]" "distinct l"
    by (auto simp: order_ok_def intro: substruct.exhaust)
  then have "mset l = mset [G, A, E, M]"
    by (subst set_eq_iff_mset_eq_distinct [symmetric]) simp_all
  then show ?thesis by simp
qed

lemma halves_shuffle:
  assumes "order_ok l" "length s = 48"
  shows "halves (shuffle l s) = halves s"
proof -
  let ?f = "\<lambda>x. halves (blk s (index_of x gaem))"
  have l: "map (\<lambda>p. l ! p) [0..<4] = l" using assms(1) map_nth [of l] by (simp add: order_ok_def)
  have "halves (shuffle l s) = sum_list (map ?f (map (\<lambda>p. l ! p) [0..<4]))"
    unfolding shuffle_def using assms(2)
    by (subst halves_concat) (auto simp: index_of_gaem comp_def)
  also have "\<dots> = sum_mset (image_mset ?f (mset l))"
    unfolding l by (simp add: sum_mset_sum_list [symmetric])
  also have "\<dots> = sum_list (map (\<lambda>p. halves (blk s p)) [0..<4])"
    unfolding order_perm [OF assms(1)] by (simp add: gaem_def upt_rec)
  also have "\<dots> = halves (concat (map (blk s) [0..<4]))"
    using assms(2) by (subst halves_concat) auto
  finally show ?thesis using concat_blk_id [OF assms(2)] by simp
qed

subsection \<open>The oracle on the parts\<close>

lemma decode_parts:
  assumes "length h = 32" "length s = 48"
  shows "\<exists>d. decode_mon (h @ s @ t) = Some d \<and> mi_pid d = head_pid h
     \<and> mi_checksum_ok d = (halves (xorb (head_key h) s) AND 0xFFFF = from_le (py_slice h 28 30))
     \<and> mi_species d = from_le (take 2 (blk (xorb (head_key h) s) (index_of G (head_order h))))
     \<and> mi_exp d = from_le (py_slice (blk (xorb (head_key h) s) (index_of G (head_order h))) 4 8)"
proof -
  have x: "xor_words 0 12 (head_key h) s = xorb (head_key h) s"
    using xor_words_xorb [of s 12 "[]" "head_key h" "[]"] assms by simp
  have sl: "py_slice (h @ s @ t) 0 4 = py_slice h 0 4" "py_slice (h @ s @ t) 4 8 = py_slice h 4 8"
    "py_slice (h @ s @ t) 28 30 = py_slice h 28 30" "py_slice (h @ s @ t) 32 80 = s"
    using assms by (simp_all add: py_slice_def)
  have "take 12 (drop (k * 12) (xorb (head_key h) s)) = blk (xorb (head_key h) s) k" for k
    by (simp add: blk_def py_slice_def)
  then show ?thesis
    using assms half_sum_halves [of "xorb (head_key h) s"]
    by (simp add: decode_mon_def sl x Let_def head_pid_def [symmetric] head_key_def [symmetric]
        head_order_def [symmetric]) (simp add: py_slice_def)
qed

definition canon_ok :: "bytes \<Rightarrow> bool" where
  "canon_ok b \<longleftrightarrow> half_sum (py_slice b 32 80) = from_le (py_slice b 28 30)"

lemma decode_encrypted:
  assumes "80 \<le> length b"
  shows "\<exists>d. decode_mon (to_encrypted b) = Some d \<and> mi_checksum_ok d = canon_ok b
     \<and> mi_pid d = from_le (py_slice b 0 4) \<and> mi_species d = from_le (py_slice b 32 34)
     \<and> mi_exp d = from_le (py_slice b 36 40)"
proof -
  obtain h s t where p: "b = h @ s @ t" "length h = 32" "length s = 48" using assms by (rule mon_parts)
  let ?s = "xorb (head_key h) (shuffle (head_order h) s)"
  have l: "length ?s = 48" using p by (simp add: length_shuffle)
  have g: "blk (shuffle (head_order h) s) (index_of G (head_order h)) = blk s 0"
    using p(3) by (simp add: blk_shuffle order_index index_of_nth [OF order_mem, THEN conjunct2])
       (simp add: gaem_def)
  have c: "py_slice b 32 34 = take 2 (blk s 0)" "py_slice b 36 40 = py_slice (blk s 0) 4 8"
    "py_slice b 32 80 = s" "py_slice b 28 30 = py_slice h 28 30" "py_slice b 0 4 = py_slice h 0 4"
    using p by (simp_all add: blk_def py_slice_def min_def drop_take)
  obtain d where "decode_mon (h @ ?s @ t) = Some d" "mi_pid d = head_pid h"
    "mi_checksum_ok d = (halves s AND 0xFFFF = from_le (py_slice h 28 30))"
    "mi_species d = from_le (take 2 (blk s 0))" "mi_exp d = from_le (py_slice (blk s 0) 4 8)"
    using decode_parts [OF p(2) l, of t] halves_shuffle [OF head_order_ok p(3)] g by auto
  then show ?thesis
    using half_sum_halves [OF p(3)] to_encrypted_parts [OF p(2,3), of t, folded p(1)]
    by (intro exI [of _ d]) (simp add: c canon_ok_def head_pid_def)
qed

lemma wire_valid_encrypted: "80 \<le> length b \<Longrightarrow> wire_valid (to_encrypted b) = canon_ok b"
  using decode_encrypted [of b] by (auto simp: wire_valid_def)

text \<open>
  The oracle validates an encrypted mon exactly by its decrypted contents, for every
  substructure order: it finds the checksum right if and only if the 16-bit sum over the
  canonical secure region equals the stored one, and the species and experience it reports
  are those at their canonical offsets.
\<close>

theorem oracle_reads_canonical:
  assumes "80 \<le> length b"
  shows "\<exists>d. decode_mon (to_encrypted b) = Some d
     \<and> mi_checksum_ok d = (half_sum (py_slice b 32 80) = from_le (py_slice b 28 30))
     \<and> mi_pid d = from_le (py_slice b 0 4) \<and> mi_species d = from_le (py_slice b 32 34)
     \<and> mi_exp d = from_le (py_slice b 36 40)"
  using decode_encrypted [OF assms] by (simp add: canon_ok_def)

theorem oracle_reads_canonical_witness:
  "\<exists>d. decode_mon (to_encrypted (replicate 80 5)) = Some d \<and> mi_species d = from_le [5, 5]"
  using oracle_reads_canonical [of "replicate 80 5"] by (auto simp: py_slice_def numeral_eq_Suc)

subsection \<open>Construction accepts both forms\<close>

lemma widen_box_length: "length b = 80 \<or> length b = 100 \<Longrightarrow> length (widen_box b) = 100"
  by (auto simp: widen_box_def mon_sizes)

lemma mon_wire_length: "80 \<le> length b \<Longrightarrow> length (mon_wire b) = length b"
  by (simp add: mon_wire_def length_to_encrypted Let_def)

lemma from_pk3_total:
  assumes "length data = 80 \<or> length data = 100"
  shows "\<exists>w. from_pk3 data = Inr w \<and> length w = 100"
proof -
  let ?w = "widen_box (mon_wire data)"
  have l: "length ?w = 100" using widen_box_length [of "mon_wire data"] mon_wire_length [of data] assms by auto
  then have "80 \<le> length (to_decrypted ?w)" by (simp add: length_to_decrypted)
  from party_tail_total' [OF this] consider "build_party_tail (to_decrypted ?w) = Inr None"
    | t where "build_party_tail (to_decrypted ?w) = Inr (Some t)" "length t = 20" by blast
  then show ?thesis
    using l assms by cases (auto simp: from_pk3_def mon_new_def mon_sizes Let_def)
qed

lemma wire_valid_front:
  assumes "80 \<le> length b"
  shows "wire_valid b = wire_valid (take 80 b)"
proof -
  obtain h s t where p: "b = h @ s @ t" "length h = 32" "length s = 48" using assms by (rule mon_parts)
  then have t: "take 80 b = h @ s @ []" by simp
  from decode_parts [OF p(2,3), of t] decode_parts [OF p(2,3), of "[]"] show ?thesis
    unfolding p(1) [symmetric] t [symmetric] by (auto simp: wire_valid_def)
qed

lemma decrypted_front: "80 \<le> length b \<Longrightarrow> take 80 (to_decrypted b) = to_decrypted (take 80 b)"
  by (erule mon_parts) (simp add: to_decrypted_parts to_decrypted_parts [where t = "[]", simplified] length_unshuffle)

lemma widen_front: "80 \<le> length b \<Longrightarrow> take 80 (widen_box b) = take 80 b"
  by (simp add: widen_box_def mon_sizes take_update_cancel)

lemma from_pk3_front:
  assumes "length data = 80 \<or> length data = 100" "from_pk3 data = Inr w"
  shows "take 80 w = take 80 (mon_wire data)"
proof -
  have m: "80 \<le> length (mon_wire data)" using mon_wire_length [of data] assms(1) by auto
  note f = widen_front [OF m]
  have "w = widen_box (mon_wire data) \<or> (\<exists>t. w = take 80 (widen_box (mon_wire data)) @ t)"
    using assms(2) by (auto simp: from_pk3_def mon_new_def Let_def mon_sizes split: if_splits option.splits)
  moreover have "80 \<le> length (widen_box (mon_wire data))"
    using widen_box_length [of "mon_wire data"] mon_wire_length [of data] assms(1) by auto
  ultimately show ?thesis using f m by (auto simp: min_def)
qed

text \<open>
  A decrypted export and its encrypted form load as the same mon: for a box or party
  export whose canonical checksum is right, whose key is not zero and whose own bytes do not
  happen to validate as a wire form, loading it and loading its encryption give the same
  100-byte mon; that mon validates under the oracle and decrypts to the export's box data.
\<close>

theorem pk3_either_form:
  assumes len: "length b = 80 \<or> length b = 100" and ok: "half_sum (py_slice b 32 80) = from_le (py_slice b 28 30)"
    and key: "from_le (py_slice b 0 4) XOR from_le (py_slice b 4 8) \<noteq> 0" and dec: "\<not> wire_valid b"
  shows "\<exists>w. from_pk3 b = Inr w \<and> from_pk3 (to_encrypted b) = Inr w \<and> length w = 100
     \<and> wire_valid w \<and> take 80 (to_decrypted w) = take 80 b"
proof -
  have l: "80 \<le> length b" using len by auto
  have v: "wire_valid (to_encrypted b)" using wire_valid_encrypted [OF l] ok by (simp add: canon_ok_def)
  have "py_slice (to_encrypted b) 0 4 = py_slice b 0 4" "py_slice (to_encrypted b) 4 8 = py_slice b 4 8"
    using l by (auto elim!: mon_parts simp: to_encrypted_parts py_slice_def)
  then have w: "mon_wire b = to_encrypted b" "mon_wire (to_encrypted b) = to_encrypted b"
    using v dec key by (simp_all add: mon_wire_def Let_def)
  have le: "length (to_encrypted b) = length b" by (rule length_to_encrypted [OF l])
  then have same: "from_pk3 (to_encrypted b) = from_pk3 b" by (simp add: from_pk3_def w)
  obtain r where r: "from_pk3 b = Inr r" "length r = 100" using from_pk3_total [OF len] by blast
  have f: "take 80 r = take 80 (to_encrypted b)" using from_pk3_front [OF len r(1)] w(1) by simp
  have "wire_valid r = wire_valid (take 80 r)" by (rule wire_valid_front) (use r(2) in simp)
  also have "\<dots> = wire_valid (take 80 (to_encrypted b))" by (simp only: f)
  also have "\<dots> = wire_valid (to_encrypted b)" by (rule wire_valid_front [symmetric]) (use le l in simp)
  finally have "wire_valid r" using v by simp
  have "take 80 (to_decrypted r) = take 80 b"
  proof -
    have "take 80 (to_decrypted r) = to_decrypted (take 80 r)" by (rule decrypted_front) (use r(2) in simp)
    also have "\<dots> = to_decrypted (take 80 (to_encrypted b))" by (simp only: f)
    also have "\<dots> = take 80 (to_decrypted (to_encrypted b))"
      by (rule decrypted_front [symmetric]) (use le l in simp)
    finally show ?thesis by (simp only: dec_enc_mon [OF l])
  qed
  with \<open>wire_valid r\<close> r same show ?thesis by (intro exI [of _ r]) (simp only: simp_thms)
qed

lemma halves_key_one: "halves (xorb 1 (concat (replicate n [0, 0, 0, 0]))) = int n"
proof (induction n)
  case (Suc n)
  have four: "length [0, 0, 0, 0 :: byte] = 4" by simp
  have "xorb 1 [0, 0, 0, 0 :: byte] = [1, 0, 0, 0]" by code_simp
  then have "xorb 1 (concat (replicate (Suc n) [0, 0, 0, 0])) = [1, 0, 0, 0] @ xorb 1 (concat (replicate n [0, 0, 0, 0]))"
    using xorb_append4 [OF four, of 1 "concat (replicate n [0, 0, 0, 0])"] by (simp only: replicate_Suc concat.simps)
  then show ?case using Suc by (simp only: append.simps halves.simps) simp
qed (simp add: xorb_def)

theorem pk3_either_form_witness:
  "\<exists>w. from_pk3 (1 # replicate 79 0) = Inr w \<and> from_pk3 (to_encrypted (1 # replicate 79 0)) = Inr w
     \<and> wire_valid w"
proof -
  let ?h = "1 # replicate 31 0 :: bytes" and ?s = "replicate 48 0 :: bytes"
  let ?b = "1 # replicate 79 0 :: bytes"
  have b: "?b = ?h @ ?s @ []" by (simp flip: replicate_add)
  have l: "length ?h = 32" "length ?s = 48" by simp_all
  have z: "halves (replicate (2 * n) 0) = 0" for n by (induction n) simp_all
  have "half_sum ?s = 0" using half_sum_halves [OF l(2)] z [of 24] by simp
  moreover have sl: "py_slice ?b 32 80 = ?s" "from_le (py_slice ?b 28 30) = 0" "from_le (py_slice ?h 28 30) = 0"
    "from_le (py_slice ?b 0 4) = 1" "from_le (py_slice ?b 4 8) = 0"
    by (simp_all add: py_slice_def)
  ultimately have ok: "half_sum (py_slice ?b 32 80) = from_le (py_slice ?b 28 30)" by simp
  have k: "from_le (py_slice ?b 0 4) XOR from_le (py_slice ?b 4 8) \<noteq> 0" unfolding sl by simp
  have "head_key ?h = 1" by (simp add: head_key_def head_pid_def py_slice_def)
  moreover have "?s = concat (replicate 12 [0, 0, 0, 0])" by (simp add: numeral_eq_Suc)
  ultimately have "halves (xorb (head_key ?h) ?s) = 12" using halves_key_one [of 12] by simp
  then have "\<not> wire_valid ?b"
    unfolding b using decode_parts [OF l, of "[]"] sl(3) by (auto simp: wire_valid_def)
  then show ?thesis using pk3_either_form [OF _ ok k] by auto
qed

subsection \<open>The party\<close>

lemma put_mons_concat:
  assumes "\<forall>m\<in>set ms. length m = 100" "length buf = (i + length ms) * 100 + r"
  shows "put_mons i ms buf = take (i * 100) buf @ concat ms @ drop ((i + length ms) * 100) buf"
  using assms
proof (induction ms arbitrary: i buf)
  case (Cons m ms)
  let ?b = "slice_assign buf (i * 100) ((i + 1) * 100) m"
  have m: "length m = 100" using Cons.prems by simp
  have l: "length ?b = (Suc i + length ms) * 100 + r"
    using Cons.prems m by (simp add: length_slice_assign)
  have "put_mons i (m # ms) buf = put_mons (Suc i) ms ?b" by (simp add: mon_sizes)
  also have "\<dots> = take (Suc i * 100) ?b @ concat ms @ drop ((Suc i + length ms) * 100) ?b"
    using Cons.IH [OF _ l] Cons.prems(1) by simp
  also have "take (Suc i * 100) ?b = take (i * 100) buf @ m"
    using Cons.prems(2) m by (simp add: slice_assign_def min_def)
  also have "drop ((Suc i + length ms) * 100) ?b = drop ((i + length (m # ms)) * 100) buf"
  proof -
    have "(i + length (m # ms)) * 100 = (Suc i * 100) + length ms * 100"
      "(Suc i + length ms) * 100 = (Suc i * 100) + length ms * 100" by simp_all
    moreover have "drop (Suc i * 100) ?b = drop (Suc i * 100) buf"
      using Cons.prems(2) m by (simp add: slice_assign_def min_def)
    ultimately show ?thesis by (metis add.commute drop_drop)
  qed
  finally show ?case by simp
qed simp

text \<open>
  A party of up to six mons fills the 600-byte buffer slot by slot: mon \<open>i\<close> stands at
  \<open>100 * i\<close>, the slots behind the last mon are zero, and the three 200-byte blocks the trade
  streams concatenate to the buffer.  A seventh mon is refused.
\<close>

theorem party_buffer_layout:
  assumes "list_all (\<lambda>m. length m = 100) mons"
  shows "if length mons \<le> 6
     then \<exists>buf. build_player_party mons = Inr buf \<and> buf = concat mons @ replicate (600 - 100 * length mons) 0
            \<and> length buf = 600 \<and> concat (party_blocks buf) = buf
            \<and> list_all (\<lambda>b. length b = 200) (party_blocks buf) \<and> length (party_blocks buf) = 3
     else build_player_party mons = Inl ValueError"
proof (cases "length mons \<le> 6")
  case True
  let ?buf = "concat mons @ replicate (600 - 100 * length mons) 0"
  have c: "length (concat mons) = 100 * length mons"
    using assms by (induction mons) auto
  have l: "length ?buf = 600" using True c by simp
  have "put_mons 0 mons (replicate 600 0) = ?buf"
    using put_mons_concat [of mons "replicate 600 0" 0 "600 - 100 * length mons"] assms True
    by (simp add: list_all_iff mult.commute)
  then have "build_player_party mons = Inr ?buf" using True by (simp add: build_player_party_def mon_sizes)
  moreover have "concat (party_blocks ?buf) = ?buf"
  proof -
    have "?buf = take 200 ?buf @ take 200 (drop 200 ?buf) @ drop 200 (drop 200 ?buf)"
      by (simp only: append_take_drop_id)
    then show ?thesis using l unfolding party_blocks_def
      by (simp add: mon_sizes py_slice_def upt_rec del: append_take_drop_id take_append drop_append)
  qed
  moreover have "list_all (\<lambda>b. length b = 200) (party_blocks ?buf)" "length (party_blocks ?buf) = 3"
    using l by (auto simp: party_blocks_def mon_sizes list_all_iff)
  ultimately show ?thesis using True l by auto
qed (simp add: build_player_party_def mon_sizes)

theorem party_buffer_layout_witness:
  "\<exists>buf. build_player_party [replicate 100 1] = Inr buf \<and> buf = replicate 100 1 @ replicate 500 0
     \<and> concat (party_blocks buf) = buf"
  using party_buffer_layout [of "[replicate 100 1]"] by auto

end
