(* ===== verification/Authority.thy ===== *)
theory Authority
  imports Complex_Main "HOL-Library.AList" Prelude
begin

section \<open>The room authority: documents, tables and lookups\<close>

text \<open>
  The data of \<^verbatim>\<open>src/relay/authority.py\<close>: a trade room document with its members, its
  connection attempt and the distributed closing record, the SQLite tables that hold the
  documents (rooms, credentials, commands, events) and the in-memory cache of secret
  responses, with the private helpers every operation uses.  A time is a rational number of
  seconds and an ISO time stamp is the time it denotes; one call reads the clock once.  What
  a call draws from the outside (clock, random identifiers, tokens, room code candidates) is
  the argument \<open>env\<close>, and so is the hash function.  The constant fields of a document
  (contract version, device readiness, party placeholders) are not carried, and a room code
  collision inside \<^verbatim>\<open>_new_code\<close> is resolved over the first hundred candidates.
\<close>

subsection \<open>Values\<close>

datatype seat = Member_a | Member_b

datatype switch_role = Creator | Finder

datatype online_state = Online | Reconnecting | Offline | Gone

datatype room_state =
    Waiting_for_partner
  | Ready_check
  | Waiting_for_complementary_role
  | Connection_attempt
  | Trading
  | Closed
  | Expired

datatype attempt_phase =
    Creator_guidance
  | Connecting_switches
  | Discovering_real_room
  | Advertising_mirror_room
  | Trading_room
  | Reconnecting_phase
  | Recovering
  | Closing
  | Completed
  | Canceled
  | Failed

datatype barrier_status = Waiting_for_sides | Two_side_terminal | Forced_failure | Forced_timeout

datatype cleanup_status = Pending | Verified | Cleanup_failed

text \<open>JSON values as the handlers meet them: flat ones and one level of nesting.\<close>

datatype scalar = S_none | S_bool bool | S_int int | S_str string

datatype json = Scalar scalar | Obj "(string \<times> scalar) list"

text \<open>
  \<open>Denied\<close> is \<^verbatim>\<open>AuthorityError\<close>; the others are the exceptions the language or the
  database raises: \<^verbatim>\<open>next\<close> on an empty iterator, a comparison with \<^verbatim>\<open>None\<close>, a
  violated uniqueness constraint.
\<close>

datatype auth_error = Denied nat string | Stop_iteration | Type_error | Integrity_error

definition room_ttl :: rat where "room_ttl = 6 * 60 * 60"
definition waiting_ttl :: rat where "waiting_ttl = 30 * 60"
definition offline_detection :: rat where "offline_detection = 45"
definition reconnect_seconds :: rat where "reconnect_seconds = 90"
definition secret_response_seconds :: rat where "secret_response_seconds = 10 * 60"
definition command_retention :: rat where "command_retention = 24 * 60 * 60"
definition authority_retention :: rat where "authority_retention = 14 * 24 * 60 * 60"
definition d_barrier_seconds :: rat where "d_barrier_seconds = 30"

lemmas authority_times = room_ttl_def waiting_ttl_def offline_detection_def reconnect_seconds_def
  secret_response_seconds_def command_retention_def authority_retention_def d_barrier_seconds_def

definition terminal_phases :: "attempt_phase set" where
  "terminal_phases = {Completed, Canceled, Failed}"

fun phase_order :: "attempt_phase \<Rightarrow> nat" where
  "phase_order Creator_guidance = 0"
| "phase_order Connecting_switches = 1"
| "phase_order Discovering_real_room = 2"
| "phase_order Advertising_mirror_room = 2"
| "phase_order Trading_room = 3"
| "phase_order Reconnecting_phase = 4"
| "phase_order Recovering = 5"
| "phase_order Closing = 6"
| "phase_order Completed = 7"
| "phase_order Canceled = 7"
| "phase_order Failed = 7"

fun phase_name :: "attempt_phase \<Rightarrow> string" where
  "phase_name Creator_guidance = ''creator_guidance''"
| "phase_name Connecting_switches = ''connecting_switches''"
| "phase_name Discovering_real_room = ''discovering_real_room''"
| "phase_name Advertising_mirror_room = ''advertising_mirror_room''"
| "phase_name Trading_room = ''trading_room''"
| "phase_name Reconnecting_phase = ''reconnecting''"
| "phase_name Recovering = ''recovering''"
| "phase_name Closing = ''closing''"
| "phase_name Completed = ''completed''"
| "phase_name Canceled = ''canceled''"
| "phase_name Failed = ''failed''"

definition all_phases :: "attempt_phase list" where
  "all_phases = [Creator_guidance, Connecting_switches, Discovering_real_room,
     Advertising_mirror_room, Trading_room, Reconnecting_phase, Recovering, Closing, Completed,
     Canceled, Failed]"

definition phase_of :: "string \<Rightarrow> attempt_phase option" where
  "phase_of s = List.find (\<lambda>p. phase_name p = s) all_phases"

lemma phase_of_name [simp]: "phase_of (phase_name p) = Some p"
  by (cases p) (simp_all add: phase_of_def all_phases_def)

lemma phase_of_Some: "phase_of s = Some p \<Longrightarrow> s = phase_name p"
  by (auto simp: phase_of_def find_Some_iff)

text \<open>Phases are compared by their order; distinct phases may have the same rank.\<close>

instantiation attempt_phase :: preorder
begin

definition less_eq_attempt_phase :: "attempt_phase \<Rightarrow> attempt_phase \<Rightarrow> bool" where
  "less_eq_attempt_phase p q \<longleftrightarrow> phase_order p \<le> phase_order q"

definition less_attempt_phase :: "attempt_phase \<Rightarrow> attempt_phase \<Rightarrow> bool" where
  "less_attempt_phase p q \<longleftrightarrow> phase_order p < phase_order q"

instance
  by standard (auto simp: less_eq_attempt_phase_def less_attempt_phase_def)

end

lemma phase_order_top: "phase_order p \<le> 7"
  by (cases p) simp_all

lemma terminal_order: "p \<in> terminal_phases \<longleftrightarrow> phase_order p = 7"
  by (cases p) (auto simp: terminal_phases_def)

lemma closing_order: "p = Closing \<longleftrightarrow> phase_order p = 6"
  by (cases p) auto

fun seat_name :: "seat \<Rightarrow> string" where
  "seat_name Member_a = ''member_a''"
| "seat_name Member_b = ''member_b''"

fun barrier_name :: "barrier_status \<Rightarrow> string" where
  "barrier_name Waiting_for_sides = ''waiting_for_sides''"
| "barrier_name Two_side_terminal = ''two_side_terminal''"
| "barrier_name Forced_failure = ''forced_failure''"
| "barrier_name Forced_timeout = ''forced_timeout''"

fun cleanup_name :: "cleanup_status \<Rightarrow> string" where
  "cleanup_name Pending = ''pending''"
| "cleanup_name Verified = ''verified''"
| "cleanup_name Cleanup_failed = ''failed''"

definition role_of :: "scalar \<Rightarrow> switch_role option" where
  "role_of v = (if v = S_str ''creator'' then Some Creator
     else if v = S_str ''finder'' then Some Finder else None)"

subsection \<open>Documents\<close>

text \<open>The D5 evidence of one side, its report, and the closing record of an attempt.\<close>

record d_evidence =
  ev_endpoint_exited :: bool
  ev_transport_exited :: bool
  ev_threads_exited :: bool
  ev_ldn_released :: bool
  ev_interfaces_absent :: bool
  ev_forced :: bool

record d_report =
  dr_run_id :: string
  dr_stage :: int
  dr_launch :: string
  dr_evidence :: d_evidence
  dr_acknowledged :: rat

record d_state =
  d_generation :: int
  d_outcome :: attempt_phase
  d_primary :: "string option"
  d_gate :: string
  d_by :: seat
  d_started :: rat
  d_deadline :: rat
  d_side_a :: "d_report option"
  d_side_b :: "d_report option"
  d_barrier :: barrier_status
  d_cleanup :: cleanup_status
  d_secondary :: "string option"
  d_terminalized :: "rat option"

record attempt =
  at_id :: string
  at_number :: int
  at_generation :: int
  at_phase :: attempt_phase
  at_creator :: "string option"
  at_locked :: bool
  at_lock_version :: int
  at_started :: rat
  at_updated :: rat
  at_retry :: int
  at_error :: "string option"
  at_d :: "d_state option"

text \<open>A member: first the fields a snapshot shows, then the private one.\<close>

record member_view =
  mb_id :: string
  mb_seat :: seat
  mb_name :: string
  mb_online :: online_state
  mb_ready :: bool
  mb_role :: "switch_role option"
  mb_joined :: rat
  mb_deadline :: "rat option"

record member = member_view +
  mb_last_seen :: rat

record directory_entry =
  dir_listing :: string
  dir_offering :: string
  dir_wanted :: string
  dir_note :: string

record room_head =
  r_id :: string
  r_version :: int
  r_name :: string
  r_public :: bool
  r_code :: string
  r_owner_name :: string
  r_game :: string
  r_language :: string
  r_owner :: string
  r_state :: room_state
  r_created :: rat
  r_expires :: rat
  r_last_attempt :: int
  r_last_sequence :: nat
  r_directory :: "directory_entry option"

record room = room_head +
  r_expires_epoch :: rat
  r_waiting_epoch :: "rat option"
  r_members :: "member list"
  r_attempt :: "attempt option"

text \<open>A snapshot: the document as one member sees it.\<close>

record view = room_head +
  v_local :: string
  v_members :: "(member_view \<times> bool) list"
  v_attempt :: "(attempt \<times> switch_role option) option"

definition live :: "('a member_view_scheme) \<Rightarrow> bool" where
  "live m = (mb_online m \<noteq> Gone)"

definition active_phase :: "attempt \<Rightarrow> bool" where
  "active_phase a = (at_phase a \<notin> terminal_phases)"

definition attempt_active :: "room \<Rightarrow> bool" where
  "attempt_active r = (case r_attempt r of None \<Rightarrow> False | Some a \<Rightarrow> active_phase a)"

definition room_over :: "room \<Rightarrow> bool" where
  "room_over r = (r_state r \<in> {Closed, Expired})"

text \<open>
  The reference \<^verbatim>\<open>next(item for item in room["members"] if ...)\<close> and an assignment
  through it: the first member with the identifier.
\<close>

definition find_member :: "string \<Rightarrow> room \<Rightarrow> member option" where
  "find_member i r = List.find (\<lambda>m. mb_id m = i) (r_members r)"

fun upd_first :: "string \<Rightarrow> (member \<Rightarrow> member) \<Rightarrow> member list \<Rightarrow> member list" where
  "upd_first i f [] = []"
| "upd_first i f (m # ms) = (if mb_id m = i then f m # ms else m # upd_first i f ms)"

definition unready :: "member \<Rightarrow> member" where
  "unready m = m\<lparr>mb_ready := False, mb_role := None\<rparr>"

definition unready_live :: "member list \<Rightarrow> member list" where
  "unready_live = map (\<lambda>m. if live m then unready m else m)"

definition local_role :: "attempt \<Rightarrow> string \<Rightarrow> switch_role option" where
  "local_role a i = (if active_phase a \<and> at_creator a = Some i then Some Creator
     else if active_phase a \<and> at_creator a \<noteq> None then Some Finder else None)"

definition public_view :: "room \<Rightarrow> string \<Rightarrow> view" where
  "public_view r i = room_head.extend (room_head.truncate r)
     (view.fields i
        (map (\<lambda>m. (member_view.truncate m, mb_id m = i)) (r_members r))
        (map_option (\<lambda>a. (a, local_role a i)) (r_attempt r)))"

record listing =
  li_id :: "string option"
  li_name :: string
  li_trainer :: string
  li_game :: string
  li_language :: string
  li_offering :: string
  li_wanted :: string
  li_note :: string
  li_open :: bool
  li_occupancy :: nat
  li_created :: rat

definition live_count :: "room \<Rightarrow> nat" where
  "live_count r = length (filter live (r_members r))"

definition directory_listing :: "room \<Rightarrow> listing" where
  "directory_listing r =
     (let meta = (\<lambda>f. case r_directory r of None \<Rightarrow> [] | Some d \<Rightarrow> f d) in
      \<lparr>li_id = map_option dir_listing (r_directory r), li_name = r_name r,
       li_trainer = r_owner_name r, li_game = r_game r, li_language = r_language r,
       li_offering = meta dir_offering, li_wanted = meta dir_wanted, li_note = meta dir_note,
       li_open = (live_count r < 2), li_occupancy = live_count r, li_created = r_created r\<rparr>)"

definition owner_available :: "room \<Rightarrow> bool" where
  "owner_available r = (case find_member (r_owner r) r of None \<Rightarrow> False
     | Some m \<Rightarrow> mb_online m \<in> {Online, Reconnecting})"

subsection \<open>Tables\<close>

record credential =
  cr_token :: string
  cr_reconnect :: string
  cr_previous :: "(string \<times> rat) option"
  cr_room :: string
  cr_member :: string
  cr_active :: bool

record event =
  e_sequence :: nat
  e_id :: string
  e_room :: string
  e_version :: int
  e_type :: string
  e_actor :: "string option"
  e_at :: rat
  e_data :: "(string \<times> scalar) list"

text \<open>What the command table stores: a snapshot, or the marker of a secret response.\<close>

datatype reply = Snapshot view | Marker string

record command =
  c_scope :: string
  c_id :: string
  c_reply :: reply
  c_created :: rat

record db =
  rooms :: "room list"
  creds :: "credential list"
  commands :: "command list"
  events :: "event list"
  next_sequence :: nat

record secret =
  se_room :: view
  se_member_token :: string
  se_reconnect_token :: string

type_synonym secret_cache = "((string \<times> string) \<times> (rat \<times> secret)) list"

record store =
  st_db :: db
  st_cache :: secret_cache

text \<open>
  The outside of a call.  \<open>en_uuid\<close>, \<open>en_token\<close> and \<open>en_code\<close> are the values it
  draws in turn; an event's identifier is numbered by the event's sequence.
\<close>

record env =
  en_now :: rat
  en_hash :: "string \<Rightarrow> string"
  en_uuid :: "nat \<Rightarrow> string"
  en_token :: "nat \<Rightarrow> string"
  en_code :: "nat \<Rightarrow> string"
  en_event :: "nat \<Rightarrow> string"

definition store_empty :: store where
  "store_empty = \<lparr>st_db = \<lparr>rooms = [], creds = [], commands = [], events = [], next_sequence = 1\<rparr>,
     st_cache = []\<rparr>"

definition find_room :: "db \<Rightarrow> string \<Rightarrow> room option" where
  "find_room d i = List.find (\<lambda>r. r_id r = i) (rooms d)"

definition find_code :: "db \<Rightarrow> string \<Rightarrow> room option" where
  "find_code d c = List.find (\<lambda>r. r_code r = c) (rooms d)"

definition find_listing :: "db \<Rightarrow> string \<Rightarrow> room option" where
  "find_listing d l = List.find (\<lambda>r. map_option dir_listing (r_directory r) = Some l) (rooms d)"

definition save_room :: "room \<Rightarrow> db \<Rightarrow> db" where
  "save_room r d = d\<lparr>rooms := map (\<lambda>q. if r_id q = r_id r then r else q) (rooms d)\<rparr>"

definition revoke :: "(credential \<Rightarrow> bool) \<Rightarrow> db \<Rightarrow> db" where
  "revoke P d = d\<lparr>creds := map (\<lambda>c. if P c then c\<lparr>cr_active := False\<rparr> else c) (creds d)\<rparr>"

definition emit :: "env \<Rightarrow> string \<Rightarrow> string option \<Rightarrow> (string \<times> scalar) list \<Rightarrow> room \<Rightarrow> db \<Rightarrow> room \<times> db" where
  "emit e kind actor dat r d =
     (let s = next_sequence d in
      (r\<lparr>r_last_sequence := s\<rparr>,
       d\<lparr>events := events d @ [\<lparr>e_sequence = s, e_id = en_event e s, e_room = r_id r,
            e_version = r_version r, e_type = kind, e_actor = actor, e_at = en_now e, e_data = dat\<rparr>],
         next_sequence := Suc s\<rparr>))"

text \<open>\<^verbatim>\<open>_new_code\<close>: the first unused candidate of a hundred.\<close>

definition new_code :: "env \<Rightarrow> db \<Rightarrow> auth_error + string" where
  "new_code e d = (case List.find (\<lambda>c. find_code d c = None) (map (en_code e) [0..<100]) of
       None \<Rightarrow> Inl (Denied 503 ''room code allocation failed'') | Some c \<Rightarrow> Inr c)"

definition waiting_expired :: "env \<Rightarrow> room \<Rightarrow> auth_error + bool" where
  "waiting_expired e r = (if r_state r = Waiting_for_partner
     then (case r_waiting_epoch r of None \<Rightarrow> Inl Type_error | Some t \<Rightarrow> Inr (t \<le> en_now e))
     else Inr False)"

definition expire_room :: "env \<Rightarrow> room \<Rightarrow> db \<Rightarrow> room \<times> db" where
  "expire_room e r d =
     (let (r1, d1) = emit e ''room.expired'' None []
        (r\<lparr>r_state := Expired, r_version := r_version r + 1\<rparr>) d
      in (r1, save_room r1 (revoke (\<lambda>c. cr_room c = r_id r) d1)))"

definition load :: "env \<Rightarrow> string \<Rightarrow> db \<Rightarrow> auth_error + room \<times> db" where
  "load e i d = (case find_room d i of
       None \<Rightarrow> Inl (Denied 404 ''trade room not found'')
     | Some r \<Rightarrow> bindr (waiting_expired e r) (\<lambda>w.
         if \<not> room_over r \<and> (r_expires_epoch r \<le> en_now e \<or> w)
         then Inr (expire_room e r d) else Inr (r, d)))"

definition credentials :: "env \<Rightarrow> string \<Rightarrow> string option \<Rightarrow> db \<Rightarrow> auth_error + (room \<times> string) \<times> db" where
  "credentials e bearer room d =
     (if bearer = [] then Inl (Denied 401 ''member credential is required'')
      else (case List.find (\<lambda>c. cr_token c = en_hash e bearer) (creds d) of
          None \<Rightarrow> Inl (Denied 401 ''member credential is invalid'')
        | Some c \<Rightarrow>
            if \<not> cr_active c then Inl (Denied 401 ''member credential is invalid'')
            else if room \<noteq> None \<and> room \<noteq> Some (cr_room c)
            then Inl (Denied 403 ''member credential does not belong to this room'')
            else bindr (load e (cr_room c) d) (\<lambda>(r, d'). Inr ((r, cr_member c), d'))))"

definition insert_credential :: "credential \<Rightarrow> db \<Rightarrow> auth_error + db" where
  "insert_credential c d =
     (if \<exists>x\<in>set (creds d). cr_token x = cr_token c \<or> cr_reconnect x = cr_reconnect c
      then Inl Integrity_error else Inr (d\<lparr>creds := creds d @ [c]\<rparr>))"

subsection \<open>Command replay\<close>

definition find_command :: "db \<Rightarrow> string \<Rightarrow> string \<Rightarrow> command option" where
  "find_command d scope cid = List.find (\<lambda>c. c_scope c = scope \<and> c_id c = cid) (commands d)"

definition command_response :: "string \<Rightarrow> string \<Rightarrow> db \<Rightarrow> auth_error + reply option" where
  "command_response scope cid d =
     (if cid = [] then Inl (Denied 400 ''Idempotency-Key is required'')
      else Inr (map_option c_reply (find_command d scope cid)))"

definition remember :: "env \<Rightarrow> string \<Rightarrow> string \<Rightarrow> reply \<Rightarrow> db \<Rightarrow> auth_error + db" where
  "remember e scope cid v d =
     (if find_command d scope cid \<noteq> None then Inl Integrity_error
      else Inr (d\<lparr>commands := commands d @
             [\<lparr>c_scope = scope, c_id = cid, c_reply = v, c_created = en_now e\<rparr>]\<rparr>))"

definition cache_capacity :: nat where "cache_capacity = 4096"

definition secret_response :: "env \<Rightarrow> string \<Rightarrow> string \<Rightarrow> db \<Rightarrow> secret_cache \<Rightarrow>
    secret_cache \<times> (auth_error + secret option)" where
  "secret_response e scope cid d c0 =
     (if cid = [] then (c0, Inl (Denied 400 ''Idempotency-Key is required''))
      else
        let c1 = (if cache_capacity \<le> length c0
                  then filter (\<lambda>(k, t, v). en_now e < t) c0 else c0);
            looked = (if find_command d scope cid \<noteq> None
                      then Inl (Denied 409 ''command completed; use the reconnect flow'')
                      else Inr None)
        in if cache_capacity \<le> length c0 \<and> cache_capacity \<le> length c1
              \<and> map_of c1 (scope, cid) = None
           then (c1, Inl (Denied 503 ''room command cache is at capacity''))
           else (case map_of c1 (scope, cid) of
               Some (t, v) \<Rightarrow> if en_now e < t then (c1, Inr (Some v))
                             else (AList.delete (scope, cid) c1, looked)
             | None \<Rightarrow> (c1, looked)))"

definition remember_secret :: "env \<Rightarrow> string \<Rightarrow> string \<Rightarrow> secret \<Rightarrow> db \<Rightarrow> secret_cache \<Rightarrow>
    secret_cache \<times> (auth_error + db)" where
  "remember_secret e scope cid v d c =
     (AList.update (scope, cid) (en_now e + secret_response_seconds, v) c,
      remember e scope cid (Marker (r_id (se_room v))) d)"

end
