(* ===== verification/Authority_Ops.thy ===== *)
theory Authority_Ops
  imports Authority "HOL-Library.Sublist" "HOL-Library.List_Lexorder" "HOL-Library.Char_ord"
    "HOL-Library.Product_Lexorder"
begin

section \<open>The room authority: operations\<close>

text \<open>
  The operations of \<^verbatim>\<open>AuthorityStore\<close> in \<^verbatim>\<open>src/relay/authority.py\<close>.  A
  transaction that raises leaves the tables as they were; the cache of secret responses is
  not part of the transaction.  A handler of a member's command is a function from the room
  document to a \<open>change\<close>; \<open>member_op\<close> is the frame the handlers share: credentials,
  replay, commit.  \<open>strip\<close>, \<open>upper\<close> and \<open>casefold\<close> are modelled on ASCII letters and
  Latin-1 white space.
\<close>

subsection \<open>Payloads\<close>

type_synonym payload = "(string \<times> scalar) list"

definition pget :: "payload \<Rightarrow> string \<Rightarrow> scalar" where
  "pget p k = (case map_of p k of None \<Rightarrow> S_none | Some v \<Rightarrow> v)"

definition pget_or :: "payload \<Rightarrow> string \<Rightarrow> scalar \<Rightarrow> scalar" where
  "pget_or p k d = (case map_of p k of None \<Rightarrow> d | Some v \<Rightarrow> v)"

fun nat_dec :: "nat \<Rightarrow> string" where
  "nat_dec n = (if n < 10 then [char_of (48 + n)] else nat_dec (n div 10) @ [char_of (48 + n mod 10)])"

declare nat_dec.simps [simp del]

fun py_str :: "scalar \<Rightarrow> string" where
  "py_str S_none = ''None''"
| "py_str (S_bool b) = (if b then ''True'' else ''False'')"
| "py_str (S_int n) = (if n < 0 then CHR ''-'' # nat_dec (nat (- n)) else nat_dec (nat n))"
| "py_str (S_str s) = s"

fun truthy :: "scalar \<Rightarrow> bool" where
  "truthy S_none = False"
| "truthy (S_bool b) = b"
| "truthy (S_int n) = (n \<noteq> 0)"
| "truthy (S_str s) = (s \<noteq> [])"

definition is_space :: "char \<Rightarrow> bool" where
  "is_space c = (let n = (of_char c :: nat) in
     9 \<le> n \<and> n \<le> 13 \<or> 28 \<le> n \<and> n \<le> 32 \<or> n = 133 \<or> n = 160)"

definition py_strip :: "string \<Rightarrow> string" where
  "py_strip s = rev (dropWhile is_space (rev (dropWhile is_space s)))"

definition py_upper :: "string \<Rightarrow> string" where
  "py_upper = map (\<lambda>c. let n = (of_char c :: nat) in
     if 97 \<le> n \<and> n \<le> 122 then char_of (n - 32) else c)"

definition py_casefold :: "string \<Rightarrow> string" where
  "py_casefold = map (\<lambda>c. let n = (of_char c :: nat) in
     if 65 \<le> n \<and> n \<le> 90 then char_of (n + 32) else c)"

definition in_range :: "nat \<Rightarrow> nat \<Rightarrow> char \<Rightarrow> bool" where
  "in_range a b c = (a \<le> of_char c \<and> of_char c \<le> b)"

definition ascii_letter :: "char \<Rightarrow> bool" where
  "ascii_letter c = (in_range 65 90 c \<or> in_range 97 122 c)"

definition ascii_digit :: "char \<Rightarrow> bool" where
  "ascii_digit c = in_range 48 57 c"

text \<open>The three patterns a code, a gate and a lower-case failure code have to match.\<close>

definition d_code_ok :: "string \<Rightarrow> bool" where
  "d_code_ok s = (case s of [] \<Rightarrow> False | c # cs \<Rightarrow> ascii_letter c \<and> length cs \<le> 95
     \<and> list_all (\<lambda>x. ascii_letter x \<or> ascii_digit x \<or> x \<in> set ''_.-'') cs)"

definition d_gate_ok :: "string \<Rightarrow> bool" where
  "d_gate_ok s = (case s of [] \<Rightarrow> False | c # cs \<Rightarrow> (ascii_letter c \<or> ascii_digit c) \<and> length cs \<le> 95
     \<and> list_all (\<lambda>x. ascii_letter x \<or> ascii_digit x \<or> x \<in> set ''_.:-'') cs)"

definition failure_code_ok :: "string \<Rightarrow> bool" where
  "failure_code_ok s = (case s of [] \<Rightarrow> False | c # cs \<Rightarrow> in_range 97 122 c \<and> length cs \<le> 63
     \<and> list_all (\<lambda>x. in_range 97 122 x \<or> ascii_digit x \<or> x \<in> set ''_.-'') cs)"

definition launch_hash_ok :: "string \<Rightarrow> bool" where
  "launch_hash_ok s = (length s = 64 \<and> list_all (\<lambda>x. ascii_digit x \<or> in_range 97 102 x) s)"

subsection \<open>The frame of a member's command\<close>

datatype revocation = Revoke_none | Revoke_member string | Revoke_all

datatype change = Reply_only | Change room string payload revocation

fun revoked :: "revocation \<Rightarrow> string \<Rightarrow> credential \<Rightarrow> bool" where
  "revoked Revoke_none i c = False"
| "revoked (Revoke_member m) i c = (cr_room c = i \<and> cr_member c = m)"
| "revoked Revoke_all i c = (cr_room c = i)"

text \<open>\<open>answer\<close> remembers the snapshot of a room and returns it; \<open>commit\<close> saves a change.\<close>

definition answer :: "env \<Rightarrow> string \<Rightarrow> string \<Rightarrow> room \<Rightarrow> string \<Rightarrow> db \<Rightarrow> auth_error + reply \<times> db" where
  "answer e scope cid r mid d =
     bindr (remember e scope cid (Snapshot (public_view r mid)) d)
       (\<lambda>d'. Inr (Snapshot (public_view r mid), d'))"

definition commit :: "env \<Rightarrow> string option \<Rightarrow> room \<Rightarrow> string \<Rightarrow> payload \<Rightarrow> revocation \<Rightarrow> db \<Rightarrow> room \<times> db" where
  "commit e actor r kind dat rv d =
     (let (r1, d1) = emit e kind actor dat (r\<lparr>r_version := r_version r + 1\<rparr>)
          (revoke (revoked rv (r_id r)) d)
      in (r1, save_room r1 d1))"

definition apply_change :: "env \<Rightarrow> string \<Rightarrow> string \<Rightarrow> room \<Rightarrow> string \<Rightarrow> db \<Rightarrow> change \<Rightarrow> auth_error + reply \<times> db" where
  "apply_change e scope cid r mid d ch = (case ch of
       Reply_only \<Rightarrow> answer e scope cid r mid d
     | Change r' kind dat rv \<Rightarrow>
         (let (r1, d1) = commit e (Some mid) r' kind dat rv d in answer e scope cid r1 mid d1))"

definition member_reply :: "env \<Rightarrow> string \<Rightarrow> string \<Rightarrow> (room \<Rightarrow> string \<Rightarrow> auth_error + change) \<Rightarrow>
    room \<Rightarrow> string \<Rightarrow> db \<Rightarrow> auth_error + reply \<times> db" where
  "member_reply e scope cid body r mid d =
     bindr (command_response scope cid d) (\<lambda>cached. case cached of
         Some v \<Rightarrow> Inr (v, d)
       | None \<Rightarrow> bindr (body r mid) (apply_change e scope cid r mid d))"

definition member_scope :: "string \<Rightarrow> string \<Rightarrow> string" where
  "member_scope mid label = ''member:'' @ mid @ '':'' @ label"

definition member_op :: "env \<Rightarrow> string \<Rightarrow> string \<Rightarrow> string \<Rightarrow> string \<Rightarrow>
    (room \<Rightarrow> string \<Rightarrow> auth_error + change) \<Rightarrow> store \<Rightarrow> store \<times> (auth_error + reply)" where
  "member_op e rid bearer cid label body s =
     (case bindr (credentials e bearer (Some rid) (st_db s)) (\<lambda>((r, mid), d).
        member_reply e (member_scope mid label) cid body r mid d)
      of Inl err \<Rightarrow> (s, Inl err) | Inr (v, d) \<Rightarrow> (s\<lparr>st_db := d\<rparr>, Inr v))"

subsection \<open>Room commands\<close>

datatype action =
    A_ready
  | A_heartbeat
  | A_attempt
  | A_claim_creator
  | A_transfer_creator
  | A_lock_role
  | A_phase
  | A_leave
  | A_remove_offline
  | A_close

definition action_of :: "string \<Rightarrow> action option" where
  "action_of s = map_of [(''ready'', A_ready), (''heartbeat'', A_heartbeat), (''attempt'', A_attempt),
     (''claim_creator'', A_claim_creator), (''transfer_creator'', A_transfer_creator),
     (''lock_role'', A_lock_role), (''phase'', A_phase), (''leave'', A_leave),
     (''remove_offline'', A_remove_offline), (''close'', A_close)] s"

definition begin_attempt :: "env \<Rightarrow> room \<Rightarrow> auth_error + room" where
  "begin_attempt e r =
     (case List.find (\<lambda>m. mb_role m = Some Creator) (filter live (r_members r)) of
        None \<Rightarrow> Inl Stop_iteration
      | Some c \<Rightarrow>
          (let n = r_last_attempt r + 1 in
           Inr (r\<lparr>r_last_attempt := n,
             r_attempt := Some \<lparr>at_id = en_uuid e 0, at_number = n, at_generation = n,
               at_phase = Connecting_switches, at_creator = Some (mb_id c), at_locked = True,
               at_lock_version = r_version r + 1, at_started = en_now e, at_updated = en_now e,
               at_retry = 0, at_error = None, at_d = None\<rparr>,
             r_state := Connection_attempt\<rparr>)))"

definition both_roles :: "room \<Rightarrow> bool" where
  "both_roles r = (mb_role ` set (filter live (r_members r)) = {Some Creator, Some Finder})"

definition both_ready :: "room \<Rightarrow> bool" where
  "both_ready r = (live_count r = 2 \<and> list_all mb_ready (filter live (r_members r)))"

definition do_ready :: "env \<Rightarrow> room \<Rightarrow> string \<Rightarrow> payload \<Rightarrow> auth_error + change" where
  "do_ready e r mid p =
     (let rdy = truthy (pget_or p ''ready'' (S_bool True));
          role = role_of (pget p ''switch_room_role'')
      in if rdy \<and> role = None
         then Inl (Denied 400 ''choose Group Leader or Joining before connecting'')
         else
           let mine = (if rdy then role else None);
               r1 = r\<lparr>r_members := upd_first mid (\<lambda>m. m\<lparr>mb_ready := rdy, mb_role := mine\<rparr>) (r_members r)\<rparr>;
               kind = (if rdy then ''member.ready'' else ''member.not_ready'');
               r2 = (if \<not> rdy \<and> r_attempt r \<noteq> None \<and> \<not> attempt_active r
                     then r1\<lparr>r_attempt := None\<rparr> else r1)
           in (case r_attempt r2 of
               Some a \<Rightarrow>
                 if active_phase a
                 then if \<not> rdy \<or> mine \<noteq> local_role a mid
                      then Inl (Denied 409 ''finish connection teardown before changing roles'')
                      else Inr (Change r2 kind p Revoke_none)
                 else if both_ready r2 \<and> both_roles r2
                 then bindr (begin_attempt e r2) (\<lambda>r3. Inr (Change r3 ''attempt.started'' p Revoke_none))
                 else Inr (Change (r2\<lparr>r_state := if rdy then Waiting_for_complementary_role else Ready_check\<rparr>)
                        kind p Revoke_none)
             | None \<Rightarrow>
                 if both_ready r2 \<and> both_roles r2
                 then bindr (begin_attempt e r2) (\<lambda>r3. Inr (Change r3 ''attempt.started'' p Revoke_none))
                 else Inr (Change (r2\<lparr>r_state := if rdy then Waiting_for_complementary_role else Ready_check\<rparr>)
                        kind p Revoke_none)))"

definition do_heartbeat :: "env \<Rightarrow> room \<Rightarrow> string \<Rightarrow> payload \<Rightarrow> auth_error + change" where
  "do_heartbeat e r mid p =
     Inr (Change (r\<lparr>r_members := upd_first mid
            (\<lambda>m. m\<lparr>mb_online := Online, mb_deadline := None, mb_last_seen := en_now e\<rparr>) (r_members r)\<rparr>)
          ''member.heartbeat'' p Revoke_none)"

definition do_attempt :: "env \<Rightarrow> room \<Rightarrow> string \<Rightarrow> payload \<Rightarrow> auth_error + change" where
  "do_attempt e r mid p =
     (if attempt_active r then Inr Reply_only
      else if \<not> both_ready r then Inl (Denied 409 ''both members must be ready'')
      else if \<not> both_roles r
      then Inl (Denied 409 ''one trainer must choose Group Leader and the other must choose Joining'')
      else bindr (begin_attempt e r) (\<lambda>r1. Inr (Change r1 ''attempt.started'' p Revoke_none)))"

text \<open>The commands that name an attempt are refused when it is not the current one.\<close>

definition with_attempt :: "room \<Rightarrow> payload \<Rightarrow> (attempt \<Rightarrow> auth_error + change) \<Rightarrow> auth_error + change" where
  "with_attempt r p f =
     (case r_attempt r of
        None \<Rightarrow> Inl (Denied 409 ''connection attempt is stale'')
      | Some a \<Rightarrow> if pget p ''attempt_id'' \<noteq> S_str (at_id a)
                 then Inl (Denied 409 ''connection attempt is stale'') else f a)"

definition do_claim_creator :: "env \<Rightarrow> room \<Rightarrow> string \<Rightarrow> payload \<Rightarrow> auth_error + change" where
  "do_claim_creator e r mid p = with_attempt r p (\<lambda>a.
     if at_locked a then Inl (Denied 409 ''creator role cannot be claimed'')
     else let a' = (if at_creator a = None
                    then a\<lparr>at_creator := Some mid, at_phase := Creator_guidance, at_updated := en_now e\<rparr>
                    else a)
          in Inr (Change (r\<lparr>r_attempt := Some a'\<rparr>) ''attempt.creator_claimed'' p Revoke_none))"

definition do_transfer_creator :: "env \<Rightarrow> room \<Rightarrow> string \<Rightarrow> payload \<Rightarrow> auth_error + change" where
  "do_transfer_creator e r mid p = with_attempt r p (\<lambda>a.
     if at_locked a \<or> at_creator a \<noteq> Some mid
     then Inl (Denied 409 ''creator role cannot be transferred'')
     else let target = py_str (pget_or p ''target_member_id'' (S_str ''''))
          in if target \<notin> mb_id ` set (filter live (r_members r))
             then Inl (Denied 400 ''target member is not active'')
             else Inr (Change (r\<lparr>r_attempt := Some (a\<lparr>at_creator := Some target, at_updated := en_now e\<rparr>)\<rparr>)
                    ''attempt.creator_transferred'' p Revoke_none))"

definition do_lock_role :: "env \<Rightarrow> room \<Rightarrow> string \<Rightarrow> payload \<Rightarrow> auth_error + change" where
  "do_lock_role e r mid p = with_attempt r p (\<lambda>a.
     if at_creator a = None then Inl (Denied 409 ''creator role has not been assigned'')
     else Inr (Change (r\<lparr>r_attempt := Some (a\<lparr>at_locked := True, at_lock_version := r_version r + 1,
             at_phase := Connecting_switches, at_updated := en_now e\<rparr>)\<rparr>)
          ''attempt.role_locked'' p Revoke_none))"

definition failure_code_of :: "payload \<Rightarrow> string" where
  "failure_code_of p = (let v = pget p ''failure_code'' in if truthy v then py_str v else ''session.failed'')"

definition refine_failure :: "env \<Rightarrow> string \<Rightarrow> attempt \<Rightarrow> room \<Rightarrow> room" where
  "refine_failure e code a r = r\<lparr>r_attempt := Some (a\<lparr>at_error := Some code, at_updated := en_now e\<rparr>)\<rparr>"

definition enter_phase :: "env \<Rightarrow> attempt_phase \<Rightarrow> string \<Rightarrow> attempt \<Rightarrow> room \<Rightarrow> room" where
  "enter_phase e ph code a r =
     (let r1 = r\<lparr>r_attempt := Some (a\<lparr>at_phase := ph,
                 at_error := if ph = Failed then Some code else at_error a, at_updated := en_now e\<rparr>)\<rparr>
      in if ph = Trading_room then r1\<lparr>r_state := Trading\<rparr>
         else if ph \<in> terminal_phases
         then r1\<lparr>r_state := Ready_check, r_members := unready_live (r_members r)\<rparr>
         else r1)"

definition phase_change :: "env \<Rightarrow> attempt_phase \<Rightarrow> payload \<Rightarrow> attempt \<Rightarrow> room \<Rightarrow> auth_error + change" where
  "phase_change e ph p a r =
     (let code = failure_code_of p in
      if ph = Failed \<and> \<not> failure_code_ok code
      then Inl (Denied 400 ''invalid attempt failure code'')
      else if at_phase a = ph
      then if ph = Failed \<and> at_error a = Some ''relay.peer_lost'' \<and> code \<noteq> ''relay.peer_lost''
           then Inr (Change (refine_failure e code a r) ''attempt.failure_refined'' p Revoke_none)
           else Inr Reply_only
      else if at_phase a \<in> terminal_phases \<or> phase_order ph < phase_order (at_phase a)
      then Inl (Denied 409 ''attempt phase cannot move backward'')
      else Inr (Change (enter_phase e ph code a r) (''attempt.'' @ phase_name ph) p Revoke_none))"

definition do_phase :: "env \<Rightarrow> room \<Rightarrow> string \<Rightarrow> payload \<Rightarrow> auth_error + change" where
  "do_phase e r mid p = with_attempt r p (\<lambda>a.
     case phase_of (py_str (pget_or p ''phase'' (S_str ''''))) of
       None \<Rightarrow> Inl (Denied 400 ''invalid attempt phase'')
     | Some ph \<Rightarrow> phase_change e ph p a r)"

text \<open>\<^verbatim>\<open>leave\<close> and \<^verbatim>\<open>remove_offline\<close> both take a member out of the room.\<close>

definition attempt_holds :: "room \<Rightarrow> bool" where
  "attempt_holds r = (case r_attempt r of None \<Rightarrow> False | Some a \<Rightarrow> at_locked a \<and> active_phase a)"

definition take_out :: "env \<Rightarrow> string \<Rightarrow> room \<Rightarrow> room" where
  "take_out e i r = r\<lparr>r_members := map unready (upd_first i (\<lambda>m. m\<lparr>mb_online := Gone\<rparr>) (r_members r)),
     r_attempt := None, r_state := Waiting_for_partner,
     r_waiting_epoch := Some (min (en_now e + waiting_ttl) (r_expires_epoch r))\<rparr>"

definition do_leave :: "env \<Rightarrow> room \<Rightarrow> string \<Rightarrow> payload \<Rightarrow> auth_error + change" where
  "do_leave e r mid p =
     (if r_owner r = mid then Inl (Denied 409 ''the room owner must close the room'')
      else if attempt_holds r then Inl (Denied 409 ''finish connection teardown before leaving'')
      else Inr (Change (take_out e mid r) ''member.left'' p (Revoke_member mid)))"

definition do_remove_offline :: "env \<Rightarrow> room \<Rightarrow> string \<Rightarrow> payload \<Rightarrow> auth_error + change" where
  "do_remove_offline e r mid p =
     (if r_owner r \<noteq> mid then Inl (Denied 403 ''only the room owner can remove an offline member'')
      else if attempt_holds r
      then Inl (Denied 409 ''finish connection teardown before removing a member'')
      else
        let target = py_str (pget_or p ''target_member_id'' (S_str ''''))
        in (case find_member target r of
            None \<Rightarrow> Inl (Denied 400 ''offline member is invalid'')
          | Some t \<Rightarrow>
              if mb_id t = mid then Inl (Denied 400 ''offline member is invalid'')
              else if mb_online t \<noteq> Offline
              then Inl (Denied 409 ''member reconnect grace has not expired'')
              else Inr (Change (take_out e target r) ''member.removed'' p (Revoke_member target))))"

definition do_close :: "env \<Rightarrow> room \<Rightarrow> string \<Rightarrow> payload \<Rightarrow> auth_error + change" where
  "do_close e r mid p =
     (if r_owner r \<noteq> mid then Inl (Denied 403 ''only the room owner can close this room'')
      else
        let a' = map_option (\<lambda>a. if active_phase a
                   then a\<lparr>at_phase := Canceled, at_updated := en_now e\<rparr> else a) (r_attempt r)
        in Inr (Change (r\<lparr>r_attempt := a', r_state := Closed\<rparr>) ''room.closed'' p Revoke_all))"

fun do_action :: "action \<Rightarrow> env \<Rightarrow> room \<Rightarrow> string \<Rightarrow> payload \<Rightarrow> auth_error + change" where
  "do_action A_ready = do_ready"
| "do_action A_heartbeat = do_heartbeat"
| "do_action A_attempt = do_attempt"
| "do_action A_claim_creator = do_claim_creator"
| "do_action A_transfer_creator = do_transfer_creator"
| "do_action A_lock_role = do_lock_role"
| "do_action A_phase = do_phase"
| "do_action A_leave = do_leave"
| "do_action A_remove_offline = do_remove_offline"
| "do_action A_close = do_close"

text \<open>
  A stale \<^verbatim>\<open>If-Match\<close> version: some commands answer with the current room, some do
  not care, the others are refused.
\<close>

definition stale_reply :: "room \<Rightarrow> action option \<Rightarrow> payload \<Rightarrow> bool" where
  "stale_reply r act p =
     (act = Some A_attempt \<and> attempt_active r
      \<or> act = Some A_claim_creator
        \<and> (case r_attempt r of None \<Rightarrow> False
            | Some a \<Rightarrow> at_creator a \<noteq> None \<and> pget p ''attempt_id'' = S_str (at_id a)))"

definition version_free :: "action option \<Rightarrow> bool" where
  "version_free act = (act \<in> {Some A_ready, Some A_heartbeat, Some A_leave, Some A_close})"

definition handle :: "env \<Rightarrow> string \<Rightarrow> payload \<Rightarrow> int option \<Rightarrow> room \<Rightarrow> string \<Rightarrow> auth_error + change" where
  "handle e name p expected r mid =
     (let act = action_of name; stale = (expected \<noteq> None \<and> expected \<noteq> Some (r_version r)) in
      if room_over r then Inl (Denied 409 ''trade room is not active'')
      else if stale \<and> stale_reply r act p then Inr Reply_only
      else if stale \<and> \<not> version_free act then Inl (Denied 409 ''room version conflict'')
      else if find_member mid r = None then Inl Stop_iteration
      else (case act of
          None \<Rightarrow> Inl (Denied 404 ''unknown room command'')
        | Some a \<Rightarrow> do_action a e r mid p))"

definition mutate :: "env \<Rightarrow> string \<Rightarrow> string \<Rightarrow> string \<Rightarrow> string \<Rightarrow> payload \<Rightarrow> int option \<Rightarrow>
    store \<Rightarrow> store \<times> (auth_error + reply)" where
  "mutate e rid bearer cid name p expected s =
     member_op e rid bearer cid name (handle e name p expected) s"

end
