(* ===== verification/Authority_Closing.thy ===== *)
theory Authority_Closing
  imports Authority_Ops
begin

section \<open>The room authority: distributed closing and system operations\<close>

text \<open>
  The two-seat closing barrier of \<^verbatim>\<open>src/relay/authority.py\<close>
  (\<^verbatim>\<open>begin_d_closing\<close>, \<^verbatim>\<open>acknowledge_d_quiescent\<close>,
  \<^verbatim>\<open>_terminalize_d\<close>) and the operations the relay itself runs without a member's
  credential: failing a lost transport, forcing the barrier, the restart and the presence
  sweep.
\<close>

type_synonym d_payload = "(string \<times> json) list"

definition dget :: "d_payload \<Rightarrow> string \<Rightarrow> json" where
  "dget p k = (case map_of p k of None \<Rightarrow> Scalar S_none | Some v \<Rightarrow> v)"

text \<open>A payload value that is a string and matches a pattern.\<close>

definition str_matching :: "(string \<Rightarrow> bool) \<Rightarrow> json \<Rightarrow> string option" where
  "str_matching P v = (case v of
       Scalar (S_str s) \<Rightarrow> if P s then Some s else None
     | _ \<Rightarrow> None)"

text \<open>Python's \<^verbatim>\<open>==\<close> of a payload value with an integer: \<^verbatim>\<open>True == 1\<close>.\<close>

definition equals_int :: "json \<Rightarrow> int \<Rightarrow> bool" where
  "equals_int v n = (v = Scalar (S_int n) \<or> v = Scalar (S_bool (n = 1)) \<and> n \<in> {0, 1})"

definition d_identity :: "room \<Rightarrow> string \<Rightarrow> string \<Rightarrow> auth_error + attempt \<times> member" where
  "d_identity r mid aid =
     (case r_attempt r of
        None \<Rightarrow> Inl (Denied 409 ''connection attempt is stale'')
      | Some a \<Rightarrow>
          if at_id a \<noteq> aid then Inl (Denied 409 ''connection attempt is stale'')
          else (case find_member mid r of
              None \<Rightarrow> Inl (Denied 409 ''connection member is not active'')
            | Some m \<Rightarrow> if \<not> live m then Inl (Denied 409 ''connection member is not active'')
                       else Inr (a, m)))"

definition terminalize_d :: "env \<Rightarrow> barrier_status \<Rightarrow> cleanup_status \<Rightarrow> string option \<Rightarrow>
    d_state \<Rightarrow> attempt \<Rightarrow> room \<Rightarrow> room" where
  "terminalize_d e b c code d a r =
     r\<lparr>r_attempt := Some (a\<lparr>at_d := Some (d\<lparr>d_barrier := b, d_cleanup := c, d_secondary := code,
                                              d_terminalized := Some (en_now e)\<rparr>),
         at_phase := d_outcome d,
         at_error := if d_outcome d = Failed then d_primary d else None,
         at_updated := en_now e\<rparr>),
       r_state := Ready_check, r_members := unready_live (r_members r)\<rparr>"

subsection \<open>Announcing the outcome\<close>

definition outcome_of :: "json \<Rightarrow> auth_error + attempt_phase option" where
  "outcome_of v = (case v of
       Obj kv \<Rightarrow> Inl Type_error
     | Scalar (S_str s) \<Rightarrow> (case phase_of s of None \<Rightarrow> Inr None
         | Some p \<Rightarrow> Inr (if p \<in> terminal_phases then Some p else None))
     | Scalar _ \<Rightarrow> Inr None)"

definition opt_scalar :: "string option \<Rightarrow> scalar" where
  "opt_scalar v = (case v of None \<Rightarrow> S_none | Some s \<Rightarrow> S_str s)"

text \<open>The checks on the payload, in the order of the code, and the intent they yield.\<close>

definition closing_result :: "d_payload \<Rightarrow> attempt_phase option \<Rightarrow>
    auth_error + attempt_phase \<times> string option \<times> string" where
  "closing_result p out =
     (case (out, str_matching d_gate_ok (dget p ''last_passed_gate'')) of
          (Some ph, Some gate) \<Rightarrow>
            if ph = Failed
            then (case str_matching d_code_ok (dget p ''primary_failure_code'') of
                Some code \<Rightarrow> Inr (ph, Some code, gate)
              | None \<Rightarrow> Inl (Denied 400 ''D failed outcome requires a primary failure code''))
            else if dget p ''primary_failure_code'' \<noteq> Scalar S_none
            then Inl (Denied 400 ''D non-failed outcome cannot carry a failure code'')
            else if ph = Completed \<and> gate \<noteq> ''C_TRADE_COMPLETE''
            then Inl (Denied 409 ''D completed outcome requires C_TRADE_COMPLETE'')
            else Inr (ph, None, gate)
        | _ \<Rightarrow> Inl (Denied 400 ''D closing intent is invalid''))"

definition closing_intent :: "attempt \<Rightarrow> string \<Rightarrow> d_payload \<Rightarrow>
    auth_error + attempt_phase \<times> string option \<times> string" where
  "closing_intent a aid p =
     (if dget p ''contract_version'' \<noteq> Scalar (S_str ''d-closing-intent.v1'')
      then Inl (Denied 400 ''D closing contract is incompatible'')
      else if dget p ''attempt_id'' \<noteq> Scalar (S_str aid)
      then Inl (Denied 409 ''connection attempt is stale'')
      else if dget p ''activation_generation'' \<noteq> Scalar (S_int (at_generation a))
      then Inl (Denied 409 ''D activation generation is stale'')
      else bindr (outcome_of (dget p ''outcome'')) (closing_result p))"

definition d_new :: "env \<Rightarrow> attempt \<Rightarrow> seat \<Rightarrow> attempt_phase \<times> string option \<times> string \<Rightarrow> d_state" where
  "d_new e a seat i = (case i of (ph, code, gate) \<Rightarrow>
     \<lparr>d_generation = at_generation a, d_outcome = ph, d_primary = code, d_gate = gate, d_by = seat,
      d_started = en_now e, d_deadline = en_now e + d_barrier_seconds, d_side_a = None,
      d_side_b = None, d_barrier = Waiting_for_sides, d_cleanup = Pending, d_secondary = None,
      d_terminalized = None\<rparr>)"

definition closing_change :: "env \<Rightarrow> int option \<Rightarrow> attempt \<Rightarrow> member \<Rightarrow>
    attempt_phase \<times> string option \<times> string \<Rightarrow> room \<Rightarrow> auth_error + change" where
  "closing_change e expected a m i r =
     (case at_d a of
         Some d \<Rightarrow>
           if (d_outcome d, d_primary d, d_gate d) = i \<and> d_generation d = at_generation a
           then Inr Reply_only
           else Inl (Denied 409 ''D closing intent conflicts with the recorded outcome'')
       | None \<Rightarrow>
           if \<not> active_phase a then Inl (Denied 409 ''connection attempt is not active'')
           else if expected \<noteq> Some (r_version r) then Inl (Denied 409 ''room version conflict'')
           else Inr (Change (r\<lparr>r_attempt := Some (a\<lparr>at_phase := Closing, at_updated := en_now e,
                     at_d := Some (d_new e a (mb_seat m) i)\<rparr>)\<rparr>)
               ''attempt.closing''
               [(''outcome'', S_str (phase_name (fst i))),
                (''primary_failure_code'', opt_scalar (fst (snd i))),
                (''last_passed_gate'', S_str (snd (snd i)))] Revoke_none))"

definition handle_closing :: "env \<Rightarrow> string \<Rightarrow> d_payload \<Rightarrow> int option \<Rightarrow> room \<Rightarrow> string \<Rightarrow>
    auth_error + change" where
  "handle_closing e aid p expected r mid =
     bindr (d_identity r mid aid) (\<lambda>(a, m).
     bindr (closing_intent a aid p) (\<lambda>i. closing_change e expected a m i r))"

definition begin_d_closing :: "env \<Rightarrow> string \<Rightarrow> string \<Rightarrow> string \<Rightarrow> string \<Rightarrow> d_payload \<Rightarrow> int option \<Rightarrow>
    store \<Rightarrow> store \<times> (auth_error + reply)" where
  "begin_d_closing e rid bearer cid aid p expected s =
     member_op e rid bearer cid (''d-closing:'' @ aid) (handle_closing e aid p expected) s"

subsection \<open>Acknowledging quiescence\<close>

definition evidence_of :: "json \<Rightarrow> d_evidence option" where
  "evidence_of v = (case v of
     Scalar _ \<Rightarrow> None
   | Obj kv \<Rightarrow>
       (let flag = (\<lambda>k. case map_of kv k of Some (S_bool b) \<Rightarrow> Some b | _ \<Rightarrow> None) in
        if set (map fst kv) \<noteq> {''endpoint_exited'', ''transport_exited'', ''threads_exited'',
             ''ldn_released'', ''interfaces_absent'', ''forced''} then None
        else (case (flag ''endpoint_exited'', flag ''transport_exited'', flag ''threads_exited'',
                    flag ''ldn_released'', flag ''interfaces_absent'', flag ''forced'') of
            (Some a, Some b, Some c, Some d, Some e, Some f) \<Rightarrow>
              Some \<lparr>ev_endpoint_exited = a, ev_transport_exited = b, ev_threads_exited = c,
                    ev_ldn_released = d, ev_interfaces_absent = e, ev_forced = f\<rparr>
          | _ \<Rightarrow> None)))"

definition side_of :: "seat \<Rightarrow> d_state \<Rightarrow> d_report option" where
  "side_of s d = (case s of Member_a \<Rightarrow> d_side_a d | Member_b \<Rightarrow> d_side_b d)"

definition set_side :: "seat \<Rightarrow> d_report \<Rightarrow> d_state \<Rightarrow> d_state" where
  "set_side s x d = (case s of Member_a \<Rightarrow> d\<lparr>d_side_a := Some x\<rparr> | Member_b \<Rightarrow> d\<lparr>d_side_b := Some x\<rparr>)"

definition quiescent_report :: "env \<Rightarrow> seat \<Rightarrow> d_state \<Rightarrow> string \<Rightarrow> d_payload \<Rightarrow> auth_error + d_report" where
  "quiescent_report e seat d aid p =
     (if dget p ''contract_version'' \<noteq> Scalar (S_str ''d-side-quiescent.v1'')
      then Inl (Denied 400 ''D quiescent contract is incompatible'')
      else if dget p ''attempt_id'' \<noteq> Scalar (S_str aid)
              \<or> dget p ''source_seat'' \<noteq> Scalar (S_str (seat_name seat))
              \<or> \<not> equals_int (dget p ''activation_generation'') (d_generation d)
      then Inl (Denied 409 ''D quiescent identity is stale'')
      else (case evidence_of (dget p ''evidence'') of
          None \<Rightarrow> Inl (Denied 400 ''D quiescent evidence is invalid'')
        | Some ev \<Rightarrow>
            (case (str_matching (\<lambda>s. True) (dget p ''run_id''), dget p ''stage_generation'',
                   str_matching launch_hash_ok (dget p ''launch_identity_sha256'')) of
               (Some run, Scalar (S_int st), Some launch) \<Rightarrow>
                 if 1 \<le> st
                 then Inr \<lparr>dr_run_id = run, dr_stage = st, dr_launch = launch, dr_evidence = ev,
                           dr_acknowledged = en_now e\<rparr>
                 else Inl (Denied 400 ''D quiescent launch identity is invalid'')
             | _ \<Rightarrow> Inl (Denied 400 ''D quiescent launch identity is invalid''))))"

definition same_report :: "d_report \<Rightarrow> d_report \<Rightarrow> bool" where
  "same_report x y = (dr_run_id x = dr_run_id y \<and> dr_stage x = dr_stage y
     \<and> dr_launch x = dr_launch y \<and> dr_evidence x = dr_evidence y)"

definition clean :: "d_report \<Rightarrow> bool" where
  "clean x = (let v = dr_evidence x in ev_endpoint_exited v \<and> ev_transport_exited v
     \<and> ev_threads_exited v \<and> ev_ldn_released v \<and> ev_interfaces_absent v \<and> \<not> ev_forced v)"

definition ack_side :: "env \<Rightarrow> seat \<Rightarrow> d_report \<Rightarrow> d_state \<Rightarrow> attempt \<Rightarrow> room \<Rightarrow> room" where
  "ack_side e seat x d a r =
     (let d1 = set_side seat x d in
      case (d_side_a d1, d_side_b d1) of
        (Some xa, Some xb) \<Rightarrow>
          if clean xa \<and> clean xb
          then terminalize_d e Two_side_terminal Verified None d1 a r
          else terminalize_d e Two_side_terminal Cleanup_failed (Some ''D_SIDE_CLEANUP_FAILED'') d1 a r
      | _ \<Rightarrow> r\<lparr>r_attempt := Some (a\<lparr>at_d := Some d1, at_updated := en_now e\<rparr>)\<rparr>)"

definition quiescent_data :: "seat \<Rightarrow> room \<Rightarrow> payload" where
  "quiescent_data seat r = (case r_attempt r of None \<Rightarrow> [] | Some a \<Rightarrow> (case at_d a of None \<Rightarrow> []
     | Some d \<Rightarrow> [(''seat'', S_str (seat_name seat)), (''barrier_status'', S_str (barrier_name (d_barrier d))),
              (''cleanup_status'', S_str (cleanup_name (d_cleanup d)))]))"

definition quiescent_change :: "env \<Rightarrow> int option \<Rightarrow> attempt \<Rightarrow> seat \<Rightarrow> d_state \<Rightarrow> d_report \<Rightarrow> room \<Rightarrow>
    auth_error + change" where
  "quiescent_change e expected a seat d x r =
     (case side_of seat d of
         Some old \<Rightarrow>
           if same_report old x then Inr Reply_only
           else Inl (Denied 409 ''D quiescent evidence conflicts with the recorded side'')
       | None \<Rightarrow>
           if expected \<noteq> Some (r_version r) then Inl (Denied 409 ''room version conflict'')
           else Inr (Change (ack_side e seat x d a r) ''attempt.d_side_quiescent''
                  (quiescent_data seat (ack_side e seat x d a r)) Revoke_none))"

definition handle_quiescent :: "env \<Rightarrow> string \<Rightarrow> d_payload \<Rightarrow> int option \<Rightarrow> room \<Rightarrow> string \<Rightarrow>
    auth_error + change" where
  "handle_quiescent e aid p expected r mid =
     bindr (d_identity r mid aid) (\<lambda>(a, m).
       case at_d a of
         None \<Rightarrow> Inl (Denied 409 ''D closing intent is required'')
       | Some d \<Rightarrow>
           if at_phase a \<noteq> Closing \<and> active_phase a
           then Inl (Denied 409 ''D closing intent is required'')
           else bindr (quiescent_report e (mb_seat m) d aid p)
             (\<lambda>x. quiescent_change e expected a (mb_seat m) d x r))"

definition acknowledge_d_quiescent :: "env \<Rightarrow> string \<Rightarrow> string \<Rightarrow> string \<Rightarrow> string \<Rightarrow> d_payload \<Rightarrow>
    int option \<Rightarrow> store \<Rightarrow> store \<times> (auth_error + reply)" where
  "acknowledge_d_quiescent e rid bearer cid aid p expected s =
     member_op e rid bearer cid (''d-quiescent:'' @ aid) (handle_quiescent e aid p expected) s"

subsection \<open>Operations of the relay\<close>

text \<open>\<open>relay_op\<close> is the frame of the two operations that may find nothing to do.\<close>

definition relay_op :: "env \<Rightarrow> string \<Rightarrow> (room \<Rightarrow> (room \<times> string \<times> string) option) \<Rightarrow> store \<Rightarrow>
    store \<times> (auth_error + bool)" where
  "relay_op e rid body s =
     (case load e rid (st_db s) of
        Inl err \<Rightarrow> (s, Inl err)
      | Inr (r, d) \<Rightarrow>
          (case body r of
             None \<Rightarrow> (s\<lparr>st_db := d\<rparr>, Inr False)
           | Some (r', kind, code) \<Rightarrow>
               (s\<lparr>st_db := snd (commit e None r' kind [(''code'', S_str code)] Revoke_none d)\<rparr>, Inr True)))"

definition fail_room :: "env \<Rightarrow> string \<Rightarrow> attempt \<Rightarrow> room \<Rightarrow> room" where
  "fail_room e code a r =
     r\<lparr>r_attempt := Some (a\<lparr>at_phase := Failed, at_error := Some code, at_updated := en_now e\<rparr>),
       r_state := Ready_check, r_members := unready_live (r_members r)\<rparr>"

definition fail_transport_body :: "env \<Rightarrow> string \<Rightarrow> string \<Rightarrow> room \<Rightarrow> (room \<times> string \<times> string) option" where
  "fail_transport_body e aid code r =
     (case r_attempt r of
        None \<Rightarrow> None
      | Some a \<Rightarrow>
          if room_over r \<or> at_id a \<noteq> aid \<or> \<not> active_phase a then None
          else if at_phase a = Closing then None
          else Some (fail_room e code a r, ''attempt.failed'', code))"

definition fail_transport_attempt :: "env \<Rightarrow> string \<Rightarrow> string \<Rightarrow> string \<Rightarrow> store \<Rightarrow> store \<times> (auth_error + bool)" where
  "fail_transport_attempt e rid aid code s = relay_op e rid (fail_transport_body e aid code) s"

definition force_body :: "env \<Rightarrow> string \<Rightarrow> string \<Rightarrow> room \<Rightarrow> (room \<times> string \<times> string) option" where
  "force_body e aid code r =
     (case r_attempt r of
        None \<Rightarrow> None
      | Some a \<Rightarrow>
          if room_over r \<or> at_id a \<noteq> aid \<or> at_phase a \<noteq> Closing then None
          else (case at_d a of
              None \<Rightarrow> None
            | Some d \<Rightarrow> Some (terminalize_d e Forced_failure Cleanup_failed (Some code) d a r,
                             ''attempt.d_barrier_forced'', code)))"

definition force_d_barrier :: "env \<Rightarrow> string \<Rightarrow> string \<Rightarrow> string \<Rightarrow> store \<Rightarrow> store \<times> (auth_error + bool)" where
  "force_d_barrier e rid aid code s =
     (if \<not> d_code_ok code then (s, Inl (Denied 400 ''D secondary failure code is invalid''))
      else relay_op e rid (force_body e aid code) s)"

text \<open>The restart walks the documents as they were read before the first change.\<close>

fun fail_each :: "env \<Rightarrow> string \<Rightarrow> room list \<Rightarrow> store \<Rightarrow> nat \<Rightarrow> store \<times> (auth_error + nat)" where
  "fail_each e code [] s n = (s, Inr n)"
| "fail_each e code (r # rs) s n =
     (case r_attempt r of
        None \<Rightarrow> fail_each e code rs s n
      | Some a \<Rightarrow>
          (case (if at_phase a = Closing then force_d_barrier e (r_id r) (at_id a) ''D_RELAY_RESTART'' s
                 else (s, Inr False)) of
             (s1, Inl err) \<Rightarrow> (s1, Inl err)
           | (s1, Inr True) \<Rightarrow> fail_each e code rs s1 (Suc n)
           | (s1, Inr False) \<Rightarrow>
               (case fail_transport_attempt e (r_id r) (at_id a) code s1 of
                  (s2, Inl err) \<Rightarrow> (s2, Inl err)
                | (s2, Inr b) \<Rightarrow> fail_each e code rs s2 (if b then Suc n else n))))"

definition fail_active_attempts :: "env \<Rightarrow> string \<Rightarrow> store \<Rightarrow> store \<times> (auth_error + nat)" where
  "fail_active_attempts e code s = fail_each e code (rooms (st_db s)) s 0"

subsection \<open>The presence sweep\<close>

definition bump_emit :: "env \<Rightarrow> string \<Rightarrow> string option \<Rightarrow> payload \<Rightarrow> room \<Rightarrow> db \<Rightarrow> room \<times> db" where
  "bump_emit e kind actor dat r d = emit e kind actor dat (r\<lparr>r_version := r_version r + 1\<rparr>) d"

definition sweep_deadline :: "env \<Rightarrow> room \<Rightarrow> db \<Rightarrow> room \<times> db \<times> (string \<times> string) list" where
  "sweep_deadline e r d =
     (case r_attempt r of
        None \<Rightarrow> (r, d, [])
      | Some a \<Rightarrow>
          (case at_d a of
             None \<Rightarrow> (r, d, [])
           | Some x \<Rightarrow>
               if at_phase a = Closing \<and> d_deadline x \<le> en_now e
               then (let (r1, d1) = bump_emit e ''attempt.d_barrier_timeout'' None
                            [(''code'', S_str ''D_BARRIER_TIMEOUT'')]
                            (terminalize_d e Forced_timeout Cleanup_failed (Some ''D_BARRIER_TIMEOUT'') x a r) d
                     in (r1, d1, [(r_code r, at_id a)]))
               else (r, d, [])))"

text \<open>The member at position \<open>i\<close>: nothing, gone quiet, or past the reconnect deadline.\<close>

definition go_offline :: "env \<Rightarrow> nat \<Rightarrow> room \<Rightarrow> room" where
  "go_offline e i r =
     (let r1 = r\<lparr>r_members := (r_members r)[i := (unready (r_members r ! i))\<lparr>mb_online := Offline\<rparr>]\<rparr>
      in case r_attempt r of
           Some a \<Rightarrow>
             if at_phase a \<noteq> Closing \<and> active_phase a
             then r1\<lparr>r_attempt := Some (a\<lparr>at_phase := Failed,
                      at_error := Some ''member.reconnect_expired'', at_updated := en_now e\<rparr>),
                    r_state := Ready_check, r_members := map unready (r_members r1)\<rparr>
             else r1
         | None \<Rightarrow> r1)"

definition sweep_member :: "env \<Rightarrow> nat \<Rightarrow> room \<times> db \<times> bool \<Rightarrow> room \<times> db \<times> bool" where
  "sweep_member e i z = (case z of (r, d, ch) \<Rightarrow>
     (let m = r_members r ! i in
      if mb_online m = Online \<and> offline_detection < en_now e - mb_last_seen m
      then (let (r1, d1) = bump_emit e ''member.reconnecting'' (Some (mb_id m)) []
                  (r\<lparr>r_members := (r_members r)[i := m\<lparr>mb_online := Reconnecting,
                        mb_deadline := Some (en_now e + reconnect_seconds)\<rparr>]\<rparr>) d
            in (r1, d1, True))
      else if mb_online m = Reconnecting
      then (case mb_deadline m of
          None \<Rightarrow> z
        | Some t \<Rightarrow>
            if t \<le> en_now e
            then (let (r1, d1) = bump_emit e ''member.offline'' (Some (mb_id m)) [] (go_offline e i r)
                       (revoke (\<lambda>c. cr_room c = r_id r \<and> cr_member c = mb_id m) d)
                  in (r1, d1, True))
            else z)
      else z))"

definition sweep_room :: "env \<Rightarrow> room \<Rightarrow> db \<Rightarrow> db \<times> (string \<times> string) list" where
  "sweep_room e r d =
     (if room_over r then (d, [])
      else (let (r1, d1, out) = sweep_deadline e r d;
                (r2, d2, ch) = fold (sweep_member e) [0..<length (r_members r1)] (r1, d1, out \<noteq> [])
            in (if ch then save_room r2 d2 else d2, out)))"

fun sweep_rooms :: "env \<Rightarrow> string list \<Rightarrow> db \<Rightarrow> auth_error + db \<times> (string \<times> string) list" where
  "sweep_rooms e [] d = Inr (d, [])"
| "sweep_rooms e (i # ids) d =
     bindr (load e i d) (\<lambda>(r, d1).
       let (d2, out) = sweep_room e r d1 in
       bindr (sweep_rooms e ids d2) (\<lambda>(d3, outs). Inr (d3, out @ outs)))"

text \<open>Old commands and long finished rooms go, the latter with their credentials and events.\<close>

definition retained :: "env \<Rightarrow> room \<Rightarrow> bool" where
  "retained e r = (\<not> (r_expires_epoch r < en_now e - authority_retention \<and> room_over r))"

definition purge :: "env \<Rightarrow> db \<Rightarrow> db" where
  "purge e d =
     (let gone = map r_id (filter (\<lambda>r. \<not> retained e r) (rooms d)) in
      d\<lparr>commands := filter (\<lambda>c. \<not> c_created c < en_now e - command_retention) (commands d),
        rooms := filter (retained e) (rooms d),
        creds := filter (\<lambda>c. cr_room c \<notin> set gone) (creds d),
        events := filter (\<lambda>x. e_room x \<notin> set gone) (events d)\<rparr>)"

definition sweep_presence :: "env \<Rightarrow> store \<Rightarrow> store \<times> (auth_error + (string \<times> string) list)" where
  "sweep_presence e s =
     (case sweep_rooms e (map r_id (rooms (st_db s))) (st_db s) of
        Inl err \<Rightarrow> (s, Inl err)
      | Inr (d, out) \<Rightarrow> (s\<lparr>st_db := purge e d\<rparr>, Inr out))"

end
