(* ===== verification/Authority_Rooms.thy ===== *)
theory Authority_Rooms
  imports Authority_Closing
begin

section \<open>The room authority: rooms, seats and reads\<close>

text \<open>
  Creating and joining rooms, the public directory, reconnecting and the read operations of
  \<^verbatim>\<open>src/relay/authority.py\<close>.  \<open>secret_op\<close> is the frame of the three operations
  that hand out tokens: replay from the cache, run the transaction, remember the response.
\<close>

definition secret_op :: "env \<Rightarrow> string \<Rightarrow> string \<Rightarrow> (db \<Rightarrow> auth_error + secret \<times> db) \<Rightarrow> store \<Rightarrow>
    store \<times> (auth_error + secret)" where
  "secret_op e scope cid body s =
     (case secret_response e scope cid (st_db s) (st_cache s) of
        (c, Inl err) \<Rightarrow> (s\<lparr>st_cache := c\<rparr>, Inl err)
      | (c, Inr (Some v)) \<Rightarrow> (s\<lparr>st_cache := c\<rparr>, Inr v)
      | (c, Inr None) \<Rightarrow>
          (case body (st_db s) of
             Inl err \<Rightarrow> (s\<lparr>st_cache := c\<rparr>, Inl err)
           | Inr (v, d) \<Rightarrow>
               (case remember_secret e scope cid v d c of
                  (c', Inl err) \<Rightarrow> (s\<lparr>st_cache := c'\<rparr>, Inl err)
                | (c', Inr d') \<Rightarrow> (s\<lparr>st_db := d', st_cache := c'\<rparr>, Inr v))))"

definition secret_of :: "env \<Rightarrow> room \<Rightarrow> string \<Rightarrow> secret" where
  "secret_of e r mid = \<lparr>se_room = public_view r mid, se_member_token = en_token e 0,
     se_reconnect_token = en_token e 1\<rparr>"

definition new_credential :: "env \<Rightarrow> string \<Rightarrow> string \<Rightarrow> credential" where
  "new_credential e rid mid = \<lparr>cr_token = en_hash e (en_token e 0),
     cr_reconnect = en_hash e (en_token e 1), cr_previous = None, cr_room = rid, cr_member = mid,
     cr_active = True\<rparr>"

definition new_member :: "env \<Rightarrow> string \<Rightarrow> seat \<Rightarrow> string \<Rightarrow> member" where
  "new_member e i seat nm = \<lparr>mb_id = i, mb_seat = seat, mb_name = take 40 nm, mb_online = Online,
     mb_ready = False, mb_role = None, mb_joined = en_now e, mb_deadline = None,
     mb_last_seen = en_now e\<rparr>"

definition anonymous :: "string \<Rightarrow> string" where
  "anonymous c = (if c = [] then ''anonymous'' else c)"

subsection \<open>Creating a room\<close>

record create_payload =
  cp_name :: string
  cp_visibility :: string
  cp_trainer :: string
  cp_game :: string
  cp_language :: string
  cp_offering :: string
  cp_wanted :: string
  cp_note :: string

definition create_check :: "create_payload \<Rightarrow> auth_error + unit" where
  "create_check p =
     (let nm = py_strip (cp_name p); display = py_strip (cp_trainer p) in
      if nm = [] \<or> display = [] \<or> cp_game p = ''None'' \<or> cp_language p = ''None''
      then Inl (Denied 400 ''room name, trainer name, game, and language are required'')
      else if 22 < length nm \<or> 20 < length display
      then Inl (Denied 400 ''room name or trainer name is too long'')
      else if cp_visibility p \<noteq> ''private'' \<and> cp_visibility p \<noteq> ''public''
      then Inl (Denied 400 ''room visibility is invalid'')
      else if 80 < length (py_strip (cp_offering p)) \<or> 80 < length (py_strip (cp_wanted p))
              \<or> 120 < length (py_strip (cp_note p))
      then Inl (Denied 400 ''public room metadata is too long'')
      else Inr ())"

text \<open>The identifiers are drawn in the order room, member, listing.\<close>

definition room_new :: "env \<Rightarrow> create_payload \<Rightarrow> string \<Rightarrow> room" where
  "room_new e p code =
     \<lparr>r_id = en_uuid e 0, r_version = 1, r_name = py_strip (cp_name p),
      r_public = (cp_visibility p = ''public''), r_code = code,
      r_owner_name = py_strip (cp_trainer p), r_game = take 20 (cp_game p),
      r_language = take 20 (cp_language p), r_owner = en_uuid e 1, r_state = Waiting_for_partner,
      r_created = en_now e, r_expires = en_now e + room_ttl, r_last_attempt = 0,
      r_last_sequence = 0,
      r_directory = (if cp_visibility p = ''public''
        then Some \<lparr>dir_listing = en_uuid e 2, dir_offering = take 80 (py_strip (cp_offering p)),
                   dir_wanted = take 80 (py_strip (cp_wanted p)), dir_note = take 120 (py_strip (cp_note p))\<rparr>
        else None),
      r_expires_epoch = en_now e + room_ttl, r_waiting_epoch = Some (en_now e + waiting_ttl),
      r_members = [new_member e (en_uuid e 1) Member_a (py_strip (cp_trainer p))],
      r_attempt = None\<rparr>"

definition insert_room :: "room \<Rightarrow> db \<Rightarrow> auth_error + db" where
  "insert_room r d =
     (if \<exists>q\<in>set (rooms d). r_id q = r_id r \<or> r_code q = r_code r
           \<or> (r_directory r \<noteq> None
              \<and> map_option dir_listing (r_directory q) = map_option dir_listing (r_directory r))
      then Inl Integrity_error else Inr (d\<lparr>rooms := rooms d @ [r]\<rparr>))"

definition create_body :: "env \<Rightarrow> create_payload \<Rightarrow> db \<Rightarrow> auth_error + secret \<times> db" where
  "create_body e p d =
     bindr (create_check p) (\<lambda>_.
     bindr (new_code e d) (\<lambda>code.
     bindr (insert_room (room_new e p code) d) (\<lambda>d1.
     bindr (insert_credential (new_credential e (en_uuid e 0) (en_uuid e 1)) d1) (\<lambda>d2.
       let (r, d3) = emit e ''room.created'' (Some (en_uuid e 1)) [] (room_new e p code) d2
       in Inr (secret_of e r (en_uuid e 1), save_room r d3)))))"

definition create :: "env \<Rightarrow> create_payload \<Rightarrow> string \<Rightarrow> string \<Rightarrow> store \<Rightarrow> store \<times> (auth_error + secret)" where
  "create e p cid client s = secret_op e (''create:'' @ anonymous client) cid (create_body e p) s"

subsection \<open>Joining a room\<close>

definition joined_room :: "env \<Rightarrow> string \<Rightarrow> room \<Rightarrow> room" where
  "joined_room e display r =
     r\<lparr>r_members := filter live (r_members r) @ [new_member e (en_uuid e 0) Member_b display],
       r_state := Ready_check, r_waiting_epoch := None, r_version := r_version r + 1\<rparr>"

definition join_room :: "env \<Rightarrow> string \<Rightarrow> room \<Rightarrow> db \<Rightarrow> auth_error + secret \<times> db" where
  "join_room e display r d =
     (if 2 \<le> live_count r then Inl (Denied 409 ''trade room is full'')
      else
        bindr (insert_credential (new_credential e (r_id r) (en_uuid e 0)) d) (\<lambda>d1.
          let (r1, d2) = emit e ''member.joined'' (Some (en_uuid e 0))
                           [(''seat'', S_str ''member_b'')] (joined_room e display r) d1
          in Inr (secret_of e r1 (en_uuid e 0), save_room r1 d2)))"

definition join_body :: "env \<Rightarrow> string \<Rightarrow> string \<Rightarrow> db \<Rightarrow> auth_error + secret \<times> db" where
  "join_body e code display d =
     (case find_code d code of
        None \<Rightarrow> Inl (Denied 404 ''trade room not found'')
      | Some q \<Rightarrow> bindr (load e (r_id q) d) (\<lambda>(r, d1).
          if room_over r then Inl (Denied 410 ''trade room is no longer available'')
          else join_room e display r d1))"

definition trainer_or_default :: "string \<Rightarrow> string" where
  "trainer_or_default s = (let t = py_strip s in if t = [] then ''Trainer'' else t)"

definition join :: "env \<Rightarrow> string \<Rightarrow> string \<Rightarrow> string \<Rightarrow> string \<Rightarrow> store \<Rightarrow> store \<times> (auth_error + secret)" where
  "join e room_code trainer cid client s =
     (let code = py_upper (py_strip room_code) in
      secret_op e (''join:'' @ anonymous client @ '':'' @ code) cid
        (join_body e code (trainer_or_default trainer)) s)"

definition join_public_body :: "env \<Rightarrow> string \<Rightarrow> string \<Rightarrow> db \<Rightarrow> auth_error + secret \<times> db" where
  "join_public_body e li display d =
     (case find_listing d li of
        None \<Rightarrow> Inl (Denied 404 ''public room not found'')
      | Some q \<Rightarrow> bindr (load e (r_id q) d) (\<lambda>(r, d1).
          if room_over r \<or> \<not> owner_available r then Inl (Denied 410 ''public room is stale'')
          else join_room e display r d1))"

definition join_public :: "env \<Rightarrow> string \<Rightarrow> string \<Rightarrow> string \<Rightarrow> string \<Rightarrow> store \<Rightarrow>
    store \<times> (auth_error + secret)" where
  "join_public e li trainer cid client s =
     secret_op e (''public-join:'' @ anonymous client @ '':'' @ li) cid
       (join_public_body e li (trainer_or_default trainer)) s"

subsection \<open>Reconnecting\<close>

definition reconnect_match :: "env \<Rightarrow> string \<Rightarrow> string \<Rightarrow> credential \<Rightarrow> bool" where
  "reconnect_match e rid h c = (cr_room c = rid \<and> (cr_reconnect c = h
     \<or> (case cr_previous c of None \<Rightarrow> False | Some (p, until) \<Rightarrow> p = h \<and> en_now e < until)))"

definition rotate :: "env \<Rightarrow> string \<Rightarrow> credential \<Rightarrow> db \<Rightarrow> auth_error + db" where
  "rotate e rid row d =
     (let mine = (\<lambda>c. cr_member c = cr_member row \<and> cr_room c = rid);
          tok = en_hash e (en_token e 0); rec = en_hash e (en_token e 1)
      in if \<exists>c\<in>set (creds d). \<not> mine c \<and> (cr_token c = tok \<or> cr_reconnect c = rec)
         then Inl Integrity_error
         else Inr (d\<lparr>creds := map (\<lambda>c. if mine c
              then c\<lparr>cr_token := tok, cr_reconnect := rec,
                     cr_previous := Some (cr_reconnect row, en_now e + reconnect_seconds)\<rparr>
              else c) (creds d)\<rparr>))"

definition back_online :: "env \<Rightarrow> string \<Rightarrow> room \<Rightarrow> room" where
  "back_online e i r = r\<lparr>r_members := upd_first i
     (\<lambda>m. m\<lparr>mb_online := Online, mb_deadline := None, mb_last_seen := en_now e\<rparr>) (r_members r)\<rparr>"

definition deadline_passed :: "env \<Rightarrow> member \<Rightarrow> bool" where
  "deadline_passed e m = (case mb_deadline m of None \<Rightarrow> False | Some t \<Rightarrow> t \<le> en_now e)"

definition reconnect_body :: "env \<Rightarrow> string \<Rightarrow> string \<Rightarrow> db \<Rightarrow> auth_error + secret \<times> db" where
  "reconnect_body e rid h d =
     (case List.find (reconnect_match e rid h) (creds d) of
        None \<Rightarrow> Inl (Denied 401 ''reconnect credential is invalid'')
      | Some row \<Rightarrow> bindr (load e rid d) (\<lambda>(r, d1).
          case find_member (cr_member row) r of
            None \<Rightarrow> Inl Stop_iteration
          | Some m \<Rightarrow>
              if room_over r \<or> \<not> live m then Inl (Denied 410 ''trade room is not active'')
              else if mb_online m = Offline \<or> deadline_passed e m
              then Inl (Denied 410 ''reconnect deadline expired'')
              else if \<not> cr_active row then Inl (Denied 401 ''reconnect credential is invalid'')
              else bindr (rotate e rid row d1) (\<lambda>d2.
                let (r1, d3) = commit e (Some (cr_member row)) (back_online e (cr_member row) r)
                                 ''member.reconnected'' [] Revoke_none d2
                in Inr (secret_of e r1 (cr_member row), d3))))"

definition reconnect :: "env \<Rightarrow> string \<Rightarrow> string \<Rightarrow> string \<Rightarrow> store \<Rightarrow> store \<times> (auth_error + secret)" where
  "reconnect e rid token cid s =
     (let h = en_hash e token in
      secret_op e (''reconnect:'' @ rid @ '':'' @ take 16 h) cid (reconnect_body e rid h) s)"

subsection \<open>Reads\<close>

text \<open>A read loads the room, so it may have to store that the room has expired.\<close>

definition read_op :: "env \<Rightarrow> string \<Rightarrow> string option \<Rightarrow> (room \<Rightarrow> string \<Rightarrow> auth_error + 'a) \<Rightarrow> store \<Rightarrow>
    store \<times> (auth_error + 'a)" where
  "read_op e bearer room f s =
     (case credentials e bearer room (st_db s) of
        Inl err \<Rightarrow> (s, Inl err)
      | Inr ((r, mid), d) \<Rightarrow> (s\<lparr>st_db := d\<rparr>, f r mid))"

definition snapshot :: "env \<Rightarrow> string \<Rightarrow> string \<Rightarrow> store \<Rightarrow> store \<times> (auth_error + view)" where
  "snapshot e rid bearer = read_op e bearer (Some rid) (\<lambda>r mid. Inr (public_view r mid))"

definition snapshot_for_token :: "env \<Rightarrow> string \<Rightarrow> store \<Rightarrow> store \<times> (auth_error + view)" where
  "snapshot_for_token e bearer = read_op e bearer None (\<lambda>r mid. Inr (public_view r mid))"

record event_page =
  ep_room :: string
  ep_local :: string
  ep_events :: "event list"
  ep_last :: nat

definition list_events :: "env \<Rightarrow> string \<Rightarrow> string \<Rightarrow> int \<Rightarrow> int \<Rightarrow> store \<Rightarrow>
    store \<times> (auth_error + event_page)" where
  "list_events e rid bearer after maxn s =
     (case credentials e bearer (Some rid) (st_db s) of
        Inl err \<Rightarrow> (s, Inl err)
      | Inr ((r, mid), d) \<Rightarrow> (s\<lparr>st_db := d\<rparr>, Inr
          \<lparr>ep_room = rid, ep_local = mid,
           ep_events = take (nat (max 1 (min maxn 100)))
             (filter (\<lambda>x. e_room x = rid \<and> max 0 after < int (e_sequence x)) (events d)),
           ep_last = r_last_sequence r\<rparr>))"

definition member_for_code :: "env \<Rightarrow> string \<Rightarrow> string \<Rightarrow> string option \<Rightarrow> store \<Rightarrow>
    store \<times> (auth_error + (string \<times> string \<times> seat) option)" where
  "member_for_code e code bearer aid s =
     (case find_code (st_db s) code of
        None \<Rightarrow> (s, Inr None)
      | Some q \<Rightarrow> read_op e bearer (Some (r_id q)) (\<lambda>r mid.
          if aid \<noteq> None \<and> (case r_attempt r of None \<Rightarrow> True
               | Some a \<Rightarrow> Some (at_id a) \<noteq> aid \<or> \<not> at_locked a \<or> \<not> active_phase a)
          then Inl (Denied 409 ''connection attempt is not active'')
          else (case find_member mid r of
              None \<Rightarrow> Inl Stop_iteration
            | Some m \<Rightarrow> Inr (Some (r_id r, mid, mb_seat m)))) s)"

definition has_code :: "string \<Rightarrow> store \<Rightarrow> bool" where
  "has_code code s = (find_code (st_db s) code \<noteq> None)"

record stats =
  os_states :: "(room_state \<times> nat) list"
  os_credentials :: nat
  os_events :: nat

definition count_state :: "room \<Rightarrow> (room_state \<times> nat) list \<Rightarrow> (room_state \<times> nat) list" where
  "count_state r m = AList.update (r_state r)
     (case map_of m (r_state r) of None \<Rightarrow> 1 | Some n \<Rightarrow> n + 1) m"

definition operational_stats :: "store \<Rightarrow> stats" where
  "operational_stats s =
     \<lparr>os_states = fold count_state (rooms (st_db s)) [],
      os_credentials = length (filter cr_active (creds (st_db s))),
      os_events = length (events (st_db s))\<rparr>"

subsection \<open>The public directory\<close>

definition public_details :: "env \<Rightarrow> string \<Rightarrow> store \<Rightarrow> store \<times> (auth_error + listing)" where
  "public_details e li s =
     (case find_listing (st_db s) li of
        None \<Rightarrow> (s, Inl (Denied 404 ''public room not found''))
      | Some q \<Rightarrow>
          (case load e (r_id q) (st_db s) of
             Inl err \<Rightarrow> (s, Inl err)
           | Inr (r, d) \<Rightarrow> (s\<lparr>st_db := d\<rparr>,
               if room_over r \<or> \<not> owner_available r then Inl (Denied 410 ''public room is stale'')
               else Inr (directory_listing r))))"

record directory_query =
  dq_query :: string
  dq_game :: string
  dq_language :: string
  dq_availability :: string
  dq_sort :: string
  dq_cursor :: int
  dq_limit :: int

definition clean_query :: "string \<Rightarrow> string" where
  "clean_query q = take 80 (py_casefold (py_strip q))"

definition listed :: "directory_query \<Rightarrow> room \<Rightarrow> bool" where
  "listed q r =
     (let x = directory_listing r; w = clean_query (dq_query q) in
      \<not> (room_over r \<or> \<not> owner_available r)
      \<and> (dq_availability q = ''open'' \<longrightarrow> li_open x)
      \<and> (dq_game q = [] \<or> li_game x = dq_game q)
      \<and> (dq_language q = [] \<or> li_language x = dq_language q)
      \<and> (w = [] \<or> list_ex (\<lambda>f. sublist w (py_casefold f))
                    [li_name x, li_trainer x, li_offering x, li_wanted x]))"

text \<open>The walk over the public rooms; each load is a transaction of its own.\<close>

fun walk_public :: "env \<Rightarrow> directory_query \<Rightarrow> string list \<Rightarrow> db \<Rightarrow> db \<times> (auth_error + listing list)" where
  "walk_public e q [] d = (d, Inr [])"
| "walk_public e q (i # ids) d =
     (case load e i d of
        Inl err \<Rightarrow> (d, Inl err)
      | Inr (r, d1) \<Rightarrow>
          (case walk_public e q ids d1 of
             (d2, Inl err) \<Rightarrow> (d2, Inl err)
           | (d2, Inr xs) \<Rightarrow> (d2, Inr (if listed q r then directory_listing r # xs else xs))))"

definition sort_listings :: "string \<Rightarrow> listing list \<Rightarrow> listing list" where
  "sort_listings how xs =
     (if how = ''name'' then sort_key (\<lambda>x. (py_casefold (li_name x), li_created x)) xs
      else if how = ''oldest'' then sort_key li_created xs
      else sort_key (\<lambda>x. - li_created x) xs)"

record directory_page =
  dp_rooms :: "listing list"
  dp_next :: "nat option"

definition page_of :: "directory_query \<Rightarrow> listing list \<Rightarrow> directory_page" where
  "page_of q xs =
     (let cursor = nat (max 0 (dq_cursor q)); n = nat (max 1 (min (dq_limit q) 50));
          page = py_slice xs cursor (cursor + n); nxt = cursor + length page
      in \<lparr>dp_rooms = page, dp_next = (if nxt < length xs then Some nxt else None)\<rparr>)"

definition list_public :: "env \<Rightarrow> directory_query \<Rightarrow> store \<Rightarrow> store \<times> (auth_error + directory_page)" where
  "list_public e q s =
     (let ids = map r_id (filter (\<lambda>r. r_directory r \<noteq> None) (rooms (st_db s))) in
      case walk_public e q ids (st_db s) of
        (d, Inl err) \<Rightarrow> (s\<lparr>st_db := d\<rparr>, Inl err)
      | (d, Inr xs) \<Rightarrow> (s\<lparr>st_db := d\<rparr>, Inr (page_of q (sort_listings (dq_sort q) xs))))"

end
