(* ===== verification/Authority_Steps.thy ===== *)
theory Authority_Steps
  imports Authority_Rooms
begin

section \<open>The room authority: allowed changes and the store invariant\<close>

text \<open>
  What one change may do to a room document (\<open>evolve\<close>), the transitions of the tables an
  operation is built from (\<open>db_step\<close>), and the invariant of the tables (\<open>db_ok\<close>).
  Every handler's change is allowed, every transition keeps the invariant.
\<close>

subsection \<open>Closing records and attempts\<close>

definition d_ok :: "d_state \<Rightarrow> bool" where
  "d_ok d \<longleftrightarrow> d_outcome d \<in> terminal_phases
     \<and> (d_outcome d = Failed \<longleftrightarrow> d_primary d \<noteq> None)
     \<and> (d_outcome d = Completed \<longrightarrow> d_gate d = ''C_TRADE_COMPLETE'')
     \<and> (d_barrier d = Two_side_terminal \<longrightarrow> d_side_a d \<noteq> None \<and> d_side_b d \<noteq> None)
     \<and> (d_cleanup d = Verified \<longrightarrow> d_barrier d = Two_side_terminal
          \<and> (\<exists>x y. d_side_a d = Some x \<and> d_side_b d = Some y \<and> clean x \<and> clean y))"

definition attempt_ok :: "attempt \<Rightarrow> bool" where
  "attempt_ok a \<longleftrightarrow> at_locked a \<and> at_creator a \<noteq> None
     \<and> (case at_d a of None \<Rightarrow> True | Some d \<Rightarrow> d_ok d \<and> d_generation d = at_generation a)"

text \<open>A recorded outcome and a recorded side are never replaced.\<close>

definition d_follows :: "d_state \<Rightarrow> d_state \<Rightarrow> bool" where
  "d_follows d d' \<longleftrightarrow> d_outcome d' = d_outcome d \<and> d_primary d' = d_primary d
     \<and> d_gate d' = d_gate d \<and> d_generation d' = d_generation d \<and> d_by d' = d_by d
     \<and> d_deadline d' = d_deadline d
     \<and> (d_side_a d \<noteq> None \<longrightarrow> d_side_a d' = d_side_a d)
     \<and> (d_side_b d \<noteq> None \<longrightarrow> d_side_b d' = d_side_b d)"

definition attempt_follows :: "attempt \<Rightarrow> attempt \<Rightarrow> bool" where
  "attempt_follows a a' \<longleftrightarrow> at_id a' = at_id a \<and> at_number a' = at_number a
     \<and> at_generation a' = at_generation a
     \<and> (case at_d a of None \<Rightarrow> True | Some d \<Rightarrow> \<exists>d'. at_d a' = Some d' \<and> d_follows d d')"

lemma d_follows_refl [simp]: "d_follows d d"
  by (simp add: d_follows_def)

lemma attempt_follows_refl [simp]: "attempt_follows a a"
  by (simp add: attempt_follows_def split: option.splits)

lemma d_follows_trans: "d_follows a b \<Longrightarrow> d_follows b c \<Longrightarrow> d_follows a c"
  by (auto simp: d_follows_def)

lemma attempt_follows_trans: "attempt_follows a b \<Longrightarrow> attempt_follows b c \<Longrightarrow> attempt_follows a c"
  by (auto simp: attempt_follows_def split: option.splits dest: d_follows_trans)

subsection \<open>Rooms\<close>

definition room_ok :: "room \<Rightarrow> bool" where
  "room_ok r \<longleftrightarrow> live_count r \<le> 2
     \<and> distinct (map mb_id (r_members r))
     \<and> (\<exists>m\<in>set (r_members r). mb_id m = r_owner r \<and> live m)
     \<and> (\<forall>m\<in>set (r_members r). mb_seat m = Member_a \<longleftrightarrow> mb_id m = r_owner r)
     \<and> (r_state r = Waiting_for_partner \<longrightarrow> r_waiting_epoch r \<noteq> None)
     \<and> (case r_attempt r of None \<Rightarrow> True | Some a \<Rightarrow> attempt_ok a \<and> at_number a \<le> r_last_attempt r)"

definition member_follows :: "room \<Rightarrow> revocation \<Rightarrow> member \<Rightarrow> member \<Rightarrow> bool" where
  "member_follows r rv m m' \<longleftrightarrow> mb_id m' = mb_id m \<and> mb_seat m' = mb_seat m
     \<and> (live m' \<longrightarrow> live m)
     \<and> (live m \<and> \<not> live m' \<longrightarrow> mb_id m \<noteq> r_owner r \<and> (rv = Revoke_all \<or> rv = Revoke_member (mb_id m)))"

definition evolve :: "room \<Rightarrow> revocation \<Rightarrow> room \<Rightarrow> bool" where
  "evolve r rv r' \<longleftrightarrow>
     r_id r' = r_id r \<and> r_code r' = r_code r \<and> r_owner r' = r_owner r
     \<and> r_version r' = r_version r \<and> r_last_sequence r' = r_last_sequence r
     \<and> r_expires_epoch r' = r_expires_epoch r \<and> r_directory r' = r_directory r
     \<and> list_all2 (member_follows r rv) (r_members r) (r_members r')
     \<and> (room_over r' \<longrightarrow> room_over r \<or> rv = Revoke_all)
     \<and> (r_state r' = Waiting_for_partner \<longrightarrow> r_waiting_epoch r' \<noteq> None)
     \<and> r_last_attempt r \<le> r_last_attempt r'
     \<and> (\<forall>a'. r_attempt r' = Some a' \<longrightarrow> attempt_ok a' \<and> at_number a' \<le> r_last_attempt r'
          \<and> (r_last_attempt r < at_number a' \<or> (\<exists>a. r_attempt r = Some a \<and> attempt_follows a a')))"

lemma live_upd [simp]:
  "live (m\<lparr>mb_ready := x\<rparr>) = live m" "live (m\<lparr>mb_role := y\<rparr>) = live m"
  "live (m\<lparr>mb_last_seen := t\<rparr>) = live m" "live (m\<lparr>mb_deadline := u\<rparr>) = live m"
  "live (unready m) = live m" "live (m\<lparr>mb_online := s\<rparr>) \<longleftrightarrow> s \<noteq> Gone"
  by (simp_all add: live_def unready_def)

lemma unready_sel [simp]: "mb_id (unready m) = mb_id m" "mb_seat (unready m) = mb_seat m"
  "mb_online (unready m) = mb_online m"
  by (simp_all add: unready_def)

lemma member_follows_refl [simp]: "member_follows r rv m m"
  by (simp add: member_follows_def)

lemma member_follows_unready [simp]: "member_follows r rv m (unready m')
   = member_follows r rv m m'"
  by (simp add: member_follows_def)

lemma upd_first_all2:
  assumes "\<And>m. List.find (\<lambda>m. mb_id m = i) ms = Some m \<Longrightarrow> P m (f m)" "\<And>m. P m m"
  shows "list_all2 P ms (upd_first i f ms)"
  using assms by (induction ms) (auto intro: list.rel_refl)

lemma all2_unready_live [simp]: "list_all2 (member_follows r rv) ms (unready_live ms)"
  by (simp add: unready_live_def list_all2_map2 list.rel_refl)

lemma all2_unready [simp]:
  "list_all2 (member_follows r rv) ms (map unready ms') = list_all2 (member_follows r rv) ms ms'"
  by (simp add: list_all2_map2)

lemma all2_refl_members [simp]: "list_all2 (member_follows r rv) ms ms"
  by (simp add: list.rel_refl)

lemma member_follows_live:
  "list_all2 (member_follows r rv) ms ms' \<Longrightarrow> length (filter live ms') \<le> length (filter live ms)"
  by (induction rule: list_all2_induct) (auto simp: member_follows_def)

lemma member_follows_ids: "list_all2 (member_follows r rv) ms ms' \<Longrightarrow> map mb_id ms' = map mb_id ms"
  by (induction rule: list_all2_induct) (auto simp: member_follows_def)

lemma all2_forward: "list_all2 P xs ys \<Longrightarrow> x \<in> set xs \<Longrightarrow> \<exists>y\<in>set ys. P x y"
  by (induction rule: list_all2_induct) auto

lemma all2_backward: "list_all2 P xs ys \<Longrightarrow> y \<in> set ys \<Longrightarrow> \<exists>x\<in>set xs. P x y"
  by (induction rule: list_all2_induct) auto

lemma evolve_room_ok:
  assumes ok: "room_ok r" and ev: "evolve r rv r'"
  shows "room_ok r'"
proof -
  let ?P = "member_follows r rv"
  have l2: "list_all2 ?P (r_members r) (r_members r')" and own: "r_owner r' = r_owner r"
    using ev by (simp_all add: evolve_def)
  have "live_count r' \<le> 2"
    using ok member_follows_live [OF l2] by (simp add: room_ok_def live_count_def)
  moreover have "distinct (map mb_id (r_members r'))"
    using ok member_follows_ids [OF l2] by (simp add: room_ok_def)
  moreover have "\<exists>m\<in>set (r_members r'). mb_id m = r_owner r' \<and> live m"
  proof -
    obtain m where m: "m \<in> set (r_members r)" "mb_id m = r_owner r" "live m"
      using ok by (auto simp: room_ok_def)
    from all2_forward [OF l2 m(1)] obtain m' where "m' \<in> set (r_members r')" "?P m m'" by blast
    with m own show ?thesis by (auto simp: member_follows_def)
  qed
  moreover have "\<forall>m\<in>set (r_members r'). mb_seat m = Member_a \<longleftrightarrow> mb_id m = r_owner r'"
  proof
    fix m' assume "m' \<in> set (r_members r')"
    from all2_backward [OF l2 this] obtain m where "m \<in> set (r_members r)" "?P m m'" by blast
    with ok own show "mb_seat m' = Member_a \<longleftrightarrow> mb_id m' = r_owner r'"
      by (auto simp: room_ok_def member_follows_def)
  qed
  ultimately show ?thesis
    using ev by (auto simp: room_ok_def evolve_def split: option.splits)
qed

subsection \<open>Every handler's change is allowed\<close>

text \<open>The member a command speaks for: found, and still in the room.\<close>

definition seated :: "string \<Rightarrow> room \<Rightarrow> bool" where
  "seated i r \<longleftrightarrow> (\<exists>m. find_member i r = Some m \<and> live m)"

lemma room_ok_attempt: "room_ok r \<Longrightarrow> r_attempt r = Some a \<Longrightarrow> attempt_ok a \<and> at_number a \<le> r_last_attempt r"
  by (simp add: room_ok_def)

lemma evolve_refl: "room_ok r \<Longrightarrow> evolve r rv r"
  by (auto simp: evolve_def room_ok_def split: option.splits)

text \<open>A change that keeps head, members and attempt apart from what it names.\<close>

lemma evolve_members:
  assumes "room_ok r" "list_all2 (member_follows r rv) (r_members r) ms"
  shows "evolve r rv (r\<lparr>r_members := ms\<rparr>)"
  using evolve_refl [OF assms(1), of rv] assms(2) by (simp add: evolve_def room_over_def)

lemma evolve_attempt:
  assumes "evolve r rv r'" "attempt_ok a'" "r_attempt r = Some a" "attempt_follows a a'"
    "at_number a \<le> r_last_attempt r"
  shows "evolve r rv (r'\<lparr>r_attempt := Some a'\<rparr>)"
  using assms by (auto simp: evolve_def room_over_def attempt_follows_def)

lemma evolve_no_attempt: "evolve r rv r' \<Longrightarrow> evolve r rv (r'\<lparr>r_attempt := None\<rparr>)"
  by (simp add: evolve_def room_over_def)

lemma evolve_state:
  "evolve r rv r' \<Longrightarrow> s \<notin> {Waiting_for_partner, Closed, Expired} \<Longrightarrow> evolve r rv (r'\<lparr>r_state := s\<rparr>)"
  by (simp add: evolve_def room_over_def)

lemma evolve_unready:
  "evolve r rv r' \<Longrightarrow> evolve r rv (r'\<lparr>r_state := Ready_check, r_members := unready_live (r_members r)\<rparr>)"
  by (simp add: evolve_def room_over_def)

lemma begin_attempt_evolve:
  assumes "evolve r rv r'" "begin_attempt e r' = Inr r2"
  shows "evolve r rv r2"
proof -
  obtain c where "r2 = r'\<lparr>r_last_attempt := r_last_attempt r' + 1, r_attempt := Some
      \<lparr>at_id = en_uuid e 0, at_number = r_last_attempt r' + 1, at_generation = r_last_attempt r' + 1,
       at_phase = Connecting_switches, at_creator = Some c, at_locked = True,
       at_lock_version = r_version r' + 1, at_started = en_now e, at_updated = en_now e,
       at_retry = 0, at_error = None, at_d = None\<rparr>, r_state := Connection_attempt\<rparr>"
    using assms(2) by (auto simp: begin_attempt_def Let_def split: option.splits)
  with assms(1) show ?thesis by (simp add: evolve_def room_over_def attempt_ok_def)
qed

lemma with_attempt_Inr:
  "with_attempt r p f = Inr c \<longleftrightarrow>
     (\<exists>a. r_attempt r = Some a \<and> pget p ''attempt_id'' = S_str (at_id a) \<and> f a = Inr c)"
  by (auto simp: with_attempt_def split: option.splits if_splits)

lemma ready_evolve:
  assumes "do_ready e r mid p = Inr (Change r' kind q rv)" "room_ok r"
  shows "evolve r rv r' \<and> rv = Revoke_none"
proof -
  let ?rdy = "truthy (pget_or p ''ready'' (S_bool True))"
  let ?mine = "if ?rdy then role_of (pget p ''switch_room_role'') else None"
  define r1 where "r1 = r\<lparr>r_members := upd_first mid (\<lambda>m. m\<lparr>mb_ready := ?rdy, mb_role := ?mine\<rparr>) (r_members r)\<rparr>"
  define r2 where "r2 = (if \<not> ?rdy \<and> r_attempt r \<noteq> None \<and> \<not> attempt_active r then r1\<lparr>r_attempt := None\<rparr> else r1)"
  have 1: "evolve r rv r1" for rv
    unfolding r1_def using assms(2)
    by (intro evolve_members upd_first_all2) (auto simp: member_follows_def)
  have 2: "evolve r rv r2" for rv
    unfolding r2_def using 1 by (simp add: evolve_no_attempt)
  have 3: "evolve r rv (r2\<lparr>r_state := s\<rparr>)" if "s = Ready_check \<or> s = Waiting_for_complementary_role" for rv s
    using that 2 by (auto intro: evolve_state)
  show ?thesis
    using assms(1) 2 3 unfolding do_ready_def Let_def r2_def [unfolded r1_def, symmetric]
    by (auto split: if_splits option.splits dest!: begin_attempt_evolve [OF 2])
qed

lemma heartbeat_evolve:
  assumes "do_heartbeat e r mid p = Inr (Change r' kind q rv)" "room_ok r" "seated mid r"
  shows "evolve r rv r' \<and> rv = Revoke_none"
  using assms unfolding do_heartbeat_def seated_def find_member_def
  by (auto intro!: evolve_members upd_first_all2 simp: member_follows_def)

lemma attempt_evolve:
  assumes "do_attempt e r mid p = Inr (Change r' kind q rv)" "room_ok r"
  shows "evolve r rv r' \<and> rv = Revoke_none"
  using assms begin_attempt_evolve [OF evolve_refl] unfolding do_attempt_def
  by (auto split: if_splits)

lemma locked_attempt: "room_ok r \<Longrightarrow> r_attempt r = Some a \<Longrightarrow> at_locked a"
  by (simp add: room_ok_def attempt_ok_def)

lemma claim_denied: "room_ok r \<Longrightarrow> do_claim_creator e r mid p \<noteq> Inr c"
  by (auto simp: do_claim_creator_def with_attempt_Inr locked_attempt)

lemma transfer_denied: "room_ok r \<Longrightarrow> do_transfer_creator e r mid p \<noteq> Inr c"
  by (auto simp: do_transfer_creator_def with_attempt_Inr locked_attempt)

lemma attempt_ok_phase [simp]:
  "attempt_ok (a\<lparr>at_phase := ph\<rparr>) = attempt_ok a" "attempt_ok (a\<lparr>at_updated := t\<rparr>) = attempt_ok a"
  "attempt_ok (a\<lparr>at_error := x\<rparr>) = attempt_ok a" "attempt_ok (a\<lparr>at_lock_version := v\<rparr>) = attempt_ok a"
  "attempt_follows a (b\<lparr>at_phase := ph\<rparr>) = attempt_follows a b"
  "attempt_follows a (b\<lparr>at_updated := t\<rparr>) = attempt_follows a b"
  "attempt_follows a (b\<lparr>at_error := x\<rparr>) = attempt_follows a b"
  "attempt_follows a (b\<lparr>at_lock_version := v\<rparr>) = attempt_follows a b"
  "attempt_follows a (b\<lparr>at_locked := l\<rparr>) = attempt_follows a b"
  by (simp_all add: attempt_ok_def attempt_follows_def cong: option.case_cong)

lemma attempt_ok_lock [simp]: "attempt_ok a \<Longrightarrow> attempt_ok (a\<lparr>at_locked := True\<rparr>)"
  by (simp add: attempt_ok_def cong: option.case_cong)

lemma evolve_touch:
  assumes "evolve r rv r'" "room_ok r" "r_attempt r = Some a"
    "attempt_follows a a'" "attempt_ok a \<Longrightarrow> attempt_ok a'"
  shows "evolve r rv (r'\<lparr>r_attempt := Some a'\<rparr>)"
  using assms room_ok_attempt [OF assms(2,3)] by (intro evolve_attempt) auto

lemma lock_role_evolve:
  assumes "do_lock_role e r mid p = Inr (Change r' kind q rv)" "room_ok r"
  shows "evolve r rv r' \<and> rv = Revoke_none"
  using assms evolve_refl [OF assms(2)] unfolding do_lock_role_def
  by (auto simp: with_attempt_Inr split: if_splits intro!: evolve_touch)

lemma phase_change_Inr:
  assumes "phase_change e ph p a r = Inr (Change r' kind q rv)"
  shows "rv = Revoke_none \<and> (r' = refine_failure e (failure_code_of p) a r \<and> at_phase a = ph
     \<or> r' = enter_phase e ph (failure_code_of p) a r \<and> at_phase a \<notin> terminal_phases
        \<and> phase_order (at_phase a) \<le> phase_order ph)"
  using assms by (auto simp: phase_change_def Let_def split: if_splits)

lemma phase_evolve:
  assumes "do_phase e r mid p = Inr (Change r' kind q rv)" "room_ok r"
  shows "evolve r rv r' \<and> rv = Revoke_none"
proof -
  from assms(1) obtain a ph where a: "r_attempt r = Some a"
    and c: "phase_change e ph p a r = Inr (Change r' kind q rv)"
    unfolding do_phase_def by (auto simp: with_attempt_Inr split: option.splits)
  have t: "evolve r rv (r\<lparr>r_attempt := Some a'\<rparr>)" if "attempt_follows a a'" "attempt_ok a \<Longrightarrow> attempt_ok a'" for a'
    by (rule evolve_touch [OF evolve_refl [OF assms(2)] assms(2) a that])
  have "evolve r rv (refine_failure e code a r)" for code
    unfolding refine_failure_def by (rule t) simp_all
  moreover have "evolve r rv (enter_phase e ph code a r)" for code
  proof -
    have "evolve r rv (r\<lparr>r_attempt := Some (a\<lparr>at_phase := ph,
        at_error := if ph = Failed then Some code else at_error a, at_updated := en_now e\<rparr>)\<rparr>)"
      by (rule t) simp_all
    from this evolve_state [OF this, of Trading] evolve_unready [OF this] show ?thesis
      unfolding enter_phase_def Let_def by auto
  qed
  ultimately show ?thesis using phase_change_Inr [OF c] by auto
qed

lemma take_out_evolve:
  assumes ok: "room_ok r" and i: "i \<noteq> r_owner r"
  shows "evolve r (Revoke_member i) (take_out e i r)"
proof -
  have "list_all2 (member_follows r (Revoke_member i)) (r_members r)
      (upd_first i (\<lambda>m. m\<lparr>mb_online := Gone\<rparr>) (r_members r))"
    by (rule upd_first_all2) (use i in \<open>auto simp: member_follows_def find_Some_iff\<close>)
  then show ?thesis
    by (simp add: take_out_def evolve_def room_over_def)
qed

lemma leave_evolve:
  "do_leave e r mid p = Inr (Change r' kind q rv) \<Longrightarrow> room_ok r \<Longrightarrow> evolve r rv r'"
  by (auto simp: do_leave_def take_out_evolve split: if_splits)

lemma remove_evolve:
  "do_remove_offline e r mid p = Inr (Change r' kind q rv) \<Longrightarrow> room_ok r \<Longrightarrow> evolve r rv r'"
  by (auto simp: do_remove_offline_def Let_def find_member_def find_Some_iff
      split: if_splits option.splits intro!: take_out_evolve)

lemma close_evolve:
  assumes "do_close e r mid p = Inr (Change r' kind q rv)" "room_ok r"
  shows "evolve r rv r'"
proof -
  have t: "evolve r rv (r\<lparr>r_attempt := map_option (\<lambda>a. if active_phase a
      then a\<lparr>at_phase := Canceled, at_updated := en_now e\<rparr> else a) (r_attempt r)\<rparr>)"
  proof (cases "r_attempt r")
    case None
    then show ?thesis
      using evolve_no_attempt [OF evolve_refl [OF assms(2), of rv]] by simp
  next
    case (Some a)
    then show ?thesis
      using evolve_touch [OF evolve_refl [OF assms(2), of rv] assms(2) Some] by simp
  qed
  from assms(1) have "rv = Revoke_all" "r' = r\<lparr>r_attempt := map_option (\<lambda>a. if active_phase a
      then a\<lparr>at_phase := Canceled, at_updated := en_now e\<rparr> else a) (r_attempt r), r_state := Closed\<rparr>"
    by (auto simp: do_close_def Let_def split: if_splits)
  with t show ?thesis by (simp add: evolve_def)
qed

theorem action_evolve:
  assumes "do_action a e r mid p = Inr (Change r' kind q rv)" "room_ok r" "seated mid r"
  shows "evolve r rv r'"
  using assms ready_evolve heartbeat_evolve attempt_evolve lock_role_evolve phase_evolve leave_evolve
    remove_evolve close_evolve claim_denied transfer_denied
  by (cases a) (auto; blast)+

lemma handle_Inr:
  "handle e name p expected r mid = Inr (Change r' kind q rv) \<Longrightarrow>
     \<not> room_over r \<and> (\<exists>a. action_of name = Some a \<and> do_action a e r mid p = Inr (Change r' kind q rv))"
  by (auto simp: handle_def Let_def split: if_splits option.splits)

lemma handle_evolve:
  assumes "handle e name p expected r mid = Inr (Change r' kind q rv)" "room_ok r" "seated mid r"
  shows "evolve r rv r'"
  using handle_Inr [OF assms(1)] action_evolve assms by blast

subsection \<open>The closing protocol\<close>

lemma terminalize_evolve:
  assumes "room_ok r" "r_attempt r = Some a" "at_d a = Some d0" "d_follows d0 d" "d_ok d0"
    "b = Two_side_terminal \<longrightarrow> d_side_a d \<noteq> None \<and> d_side_b d \<noteq> None"
    "c = Verified \<longrightarrow> b = Two_side_terminal
       \<and> (\<exists>x y. d_side_a d = Some x \<and> d_side_b d = Some y \<and> clean x \<and> clean y)"
  shows "evolve r rv (terminalize_d e b c code d a r)"
proof -
  have d: "d_ok (d\<lparr>d_barrier := b, d_cleanup := c, d_secondary := code, d_terminalized := Some (en_now e)\<rparr>)"
    using assms(4-7) by (simp add: d_ok_def d_follows_def)
  have "evolve r rv (r\<lparr>r_attempt := Some (a\<lparr>at_d := Some (d\<lparr>d_barrier := b, d_cleanup := c,
      d_secondary := code, d_terminalized := Some (en_now e)\<rparr>), at_phase := d_outcome d,
      at_error := if d_outcome d = Failed then d_primary d else None, at_updated := en_now e\<rparr>)\<rparr>)"
    by (rule evolve_touch [OF evolve_refl [OF assms(1)] assms(1,2)])
      (use assms(3,4) d in \<open>simp_all add: attempt_follows_def d_follows_def attempt_ok_def\<close>)
  from evolve_unready [OF this] show ?thesis
    by (simp add: terminalize_d_def)
qed

lemma closing_intent_ok:
  assumes "closing_intent a aid p = Inr (ph, code, gate)"
  shows "ph \<in> terminal_phases \<and> (ph = Failed \<longleftrightarrow> code \<noteq> None) \<and> (ph = Completed \<longrightarrow> gate = ''C_TRADE_COMPLETE'')"
proof -
  from assms obtain out where o: "outcome_of (dget p ''outcome'') = Inr out"
    and c: "closing_result p out = Inr (ph, code, gate)"
    unfolding closing_intent_def by (auto split: if_split_asm)
  from o have "out = Some x \<Longrightarrow> x \<in> terminal_phases" for x
    by (auto simp: outcome_of_def split: json.splits scalar.splits option.splits if_splits)
  with c show ?thesis unfolding closing_result_def
    by (auto split: option.splits if_splits) (metis option.distinct(1))
qed

lemma d_identity_Inr:
  "d_identity r mid aid = Inr (a, m) \<longleftrightarrow>
     r_attempt r = Some a \<and> at_id a = aid \<and> find_member mid r = Some m \<and> live m"
  by (auto simp: d_identity_def split: option.splits if_splits)

lemma handle_closing_Inr:
  assumes "handle_closing e aid p expected r mid = Inr (Change r' kind q rv)"
  obtains a i and m :: member where "r_attempt r = Some a" "at_d a = None" "active_phase a"
    "closing_intent a aid p = Inr i" "rv = Revoke_none"
    "r' = r\<lparr>r_attempt := Some (a\<lparr>at_phase := Closing, at_updated := en_now e,
                     at_d := Some (d_new e a (mb_seat m) i)\<rparr>)\<rparr>"
proof -
  from assms obtain a m i where 1: "r_attempt r = Some a" "closing_intent a aid p = Inr i"
    and 2: "closing_change e expected a m i r = Inr (Change r' kind q rv)"
    unfolding handle_closing_def by (auto simp: d_identity_Inr)
  have d: "at_d a = None"
    using 2 by (cases "at_d a") (auto simp: closing_change_def split: if_splits)
  from 2 have "active_phase a" "rv = Revoke_none"
    "r' = r\<lparr>r_attempt := Some (a\<lparr>at_phase := Closing, at_updated := en_now e,
                     at_d := Some (d_new e a (mb_seat m) i)\<rparr>)\<rparr>"
    by (auto simp: closing_change_def d split: if_splits)
  with 1 d show thesis by (intro that [of a i m])
qed

lemma closing_evolve:
  assumes "handle_closing e aid p expected r mid = Inr (Change r' kind q rv)" "room_ok r"
  shows "evolve r rv r' \<and> rv = Revoke_none"
proof -
  obtain a i and m :: member where a: "r_attempt r = Some a" "at_d a = None"
    and i0: "closing_intent a aid p = Inr i" and rv: "rv = Revoke_none"
    and r'0: "r' = r\<lparr>r_attempt := Some (a\<lparr>at_phase := Closing, at_updated := en_now e,
                     at_d := Some (d_new e a (mb_seat m) i)\<rparr>)\<rparr>"
    using assms(1) by (rule handle_closing_Inr)
  obtain ph code gate where "i = (ph, code, gate)" by (cases i)
  note i = i0 [unfolded this] and r' = r'0 [unfolded this] rv
  have "d_ok (d_new e a (mb_seat m) (ph, code, gate))"
    using closing_intent_ok [OF i] by (simp add: d_ok_def d_new_def)
  moreover have "d_generation (d_new e a (mb_seat m) (ph, code, gate)) = at_generation a"
    by (simp add: d_new_def)
  ultimately show ?thesis
    unfolding r' by (intro conjI evolve_touch [OF evolve_refl [OF assms(2)] assms(2) a(1)])
      (use a(2) in \<open>simp_all add: attempt_follows_def attempt_ok_def\<close>)
qed

lemma set_side_follows: "side_of s d = None \<Longrightarrow> d_follows d (set_side s x d)"
  by (cases s) (simp_all add: side_of_def set_side_def d_follows_def)

lemma set_side_sel [simp]:
  "d_outcome (set_side s x d) = d_outcome d" "d_primary (set_side s x d) = d_primary d"
  "d_gate (set_side s x d) = d_gate d" "d_barrier (set_side s x d) = d_barrier d"
  "d_cleanup (set_side s x d) = d_cleanup d" "d_generation (set_side s x d) = d_generation d"
  by (cases s; simp add: set_side_def)+

lemma set_side_ok: "d_ok d \<Longrightarrow> side_of s d = None \<Longrightarrow> d_ok (set_side s x d)"
  by (cases s) (auto simp: d_ok_def side_of_def set_side_def)

lemma ack_evolve:
  assumes ok: "room_ok r" and a: "r_attempt r = Some a" "at_d a = Some d" and n: "side_of s d = None"
  shows "evolve r rv (ack_side e s x d a r)"
proof -
  have d: "d_ok d" "d_generation d = at_generation a"
    using room_ok_attempt [OF ok a(1)] a(2) by (simp_all add: attempt_ok_def)
  have f: "d_follows d (set_side s x d)" by (rule set_side_follows [OF n])
  note t = terminalize_evolve [OF ok a f d(1)]
  have "evolve r rv (r\<lparr>r_attempt := Some (a\<lparr>at_d := Some (set_side s x d), at_updated := en_now e\<rparr>)\<rparr>)"
    by (rule evolve_touch [OF evolve_refl [OF ok] ok a(1)])
      (use a(2) f d set_side_ok [OF d(1) n] in \<open>simp_all add: attempt_follows_def attempt_ok_def\<close>)
  then show ?thesis
    unfolding ack_side_def Let_def by (auto split: option.splits intro!: t)
qed

lemma quiescent_evolve:
  assumes "handle_quiescent e aid p expected r mid = Inr (Change r' kind q rv)" "room_ok r"
  shows "evolve r rv r' \<and> rv = Revoke_none"
proof -
  from assms(1) obtain a d s x where a: "r_attempt r = Some a" "at_d a = Some d"
    and c: "quiescent_change e expected a s d x r = Inr (Change r' kind q rv)"
    unfolding handle_quiescent_def by (auto simp: d_identity_Inr split: option.splits if_splits)
  have n: "side_of s d = None"
    using c by (cases "side_of s d") (auto simp: quiescent_change_def split: if_splits)
  with c have "r' = ack_side e s x d a r" "rv = Revoke_none"
    by (auto simp: quiescent_change_def split: if_splits)
  with ack_evolve [OF assms(2) a n] show ?thesis by simp
qed

subsection \<open>The relay's own changes\<close>

lemma fail_evolve:
  assumes "room_ok r" "r_attempt r = Some a"
  shows "evolve r rv (fail_room e code a r)"
  unfolding fail_room_def
  by (rule evolve_unready, rule evolve_touch [OF evolve_refl [OF assms(1)] assms]) simp_all

lemma fail_body_evolve:
  "fail_transport_body e aid code r = Some (r', k, c) \<Longrightarrow> room_ok r \<Longrightarrow> evolve r rv r' \<and> \<not> room_over r"
  by (auto simp: fail_transport_body_def fail_evolve split: option.splits if_splits)

lemma force_body_evolve:
  assumes "force_body e aid code r = Some (r', k, c)" "room_ok r"
  shows "evolve r rv r' \<and> \<not> room_over r"
proof -
  from assms(1) obtain a d where a: "r_attempt r = Some a" "at_d a = Some d" and "\<not> room_over r"
    and r': "r' = terminalize_d e Forced_failure Cleanup_failed (Some code) d a r"
    by (auto simp: force_body_def split: option.splits if_splits)
  moreover have "d_ok d"
    using room_ok_attempt [OF assms(2) a(1)] a(2) by (simp add: attempt_ok_def)
  ultimately show ?thesis
    using terminalize_evolve [OF assms(2) a d_follows_refl] by simp
qed

lemma expired_evolve: "room_ok r \<Longrightarrow> evolve r Revoke_all (r\<lparr>r_state := Expired\<rparr>)"
  using evolve_refl [of r Revoke_all] by (simp add: evolve_def)

lemma back_online_evolve: "room_ok r \<Longrightarrow> seated i r \<Longrightarrow> evolve r rv (back_online e i r)"
  unfolding back_online_def seated_def find_member_def
  by (auto intro!: evolve_members upd_first_all2 simp: member_follows_def)

text \<open>One member of the sweep: updated in place, and everyone unready when the attempt dies.\<close>

lemma all2_update:
  "i < length ms \<Longrightarrow> member_follows r rv (ms ! i) m \<Longrightarrow> list_all2 (member_follows r rv) ms (ms[i := m])"
  by (simp add: list_all2_conv_all_nth nth_list_update)

lemma go_offline_evolve:
  assumes ok: "room_ok r" and i: "i < length (r_members r)" and l: "live (r_members r ! i)"
  shows "evolve r rv (go_offline e i r)"
proof -
  let ?ms = "(r_members r)[i := (unready (r_members r ! i))\<lparr>mb_online := Offline\<rparr>]"
  have ms: "list_all2 (member_follows r rv) (r_members r) ?ms"
    by (rule all2_update [OF i]) (simp add: member_follows_def l)
  have 1: "evolve r rv (r\<lparr>r_members := ?ms\<rparr>)" by (rule evolve_members [OF ok ms])
  have 2: "evolve r rv (r\<lparr>r_members := map unready ?ms\<rparr>)" by (rule evolve_members [OF ok]) (simp add: ms)
  have "evolve r rv (r\<lparr>r_attempt := Some (a\<lparr>at_phase := Failed, at_error := x, at_updated := t\<rparr>),
      r_state := Ready_check, r_members := map unready ?ms\<rparr>)" if a: "r_attempt r = Some a" for a x t
  proof -
    have "evolve r rv (r\<lparr>r_members := map unready ?ms, r_attempt := Some (a\<lparr>at_phase := Failed,
        at_error := x, at_updated := t\<rparr>), r_state := Ready_check\<rparr>)"
      by (rule evolve_state, rule evolve_touch [OF 2 ok a]) simp_all
    then show ?thesis using room_ok_attempt [OF ok a] by (auto simp add: evolve_def room_over_def)
  qed
  with 1 show ?thesis
    unfolding go_offline_def by (auto simp: Let_def split: option.splits)
qed

end
