(* ===== verification/Authority_Inv.thy ===== *)
theory Authority_Inv
  imports Authority_Steps
begin

section \<open>The room authority: invariant of the tables\<close>

text \<open>
  The invariant of the tables: room identifiers are unique, every document is well formed,
  an active credential names a member who still sits in a room that is not over, and the
  event log holds, for every room, exactly one event per version.  The transitions
  \<open>db_step\<close> are what an operation may do to the tables; they all keep the invariant.
\<close>

definition room_events :: "db \<Rightarrow> string \<Rightarrow> event list" where
  "room_events d i = filter (\<lambda>x. e_room x = i) (events d)"

definition log_ok :: "db \<Rightarrow> room \<Rightarrow> bool" where
  "log_ok d r \<longleftrightarrow> 1 \<le> r_version r \<and> map e_version (room_events d (r_id r)) = [1..r_version r]
     \<and> r_last_sequence r = e_sequence (last (room_events d (r_id r)))"

definition cred_ok :: "db \<Rightarrow> credential \<Rightarrow> bool" where
  "cred_ok d c \<longleftrightarrow> (cr_active c \<longrightarrow>
     (\<exists>r\<in>set (rooms d). r_id r = cr_room c \<and> \<not> room_over r \<and> seated (cr_member c) r))"

definition db_ok :: "db \<Rightarrow> bool" where
  "db_ok d \<longleftrightarrow> distinct (map r_id (rooms d))
     \<and> (\<forall>r\<in>set (rooms d). room_ok r \<and> log_ok d r)
     \<and> (\<forall>c\<in>set (creds d). cred_ok d c)
     \<and> (\<forall>x\<in>set (events d). e_sequence x < next_sequence d \<and> e_room x \<in> r_id ` set (rooms d))
     \<and> sorted_wrt (<) (map e_sequence (events d))"

subsection \<open>Lookups\<close>

lemma find_room_Some: "find_room d i = Some r \<Longrightarrow> r \<in> set (rooms d) \<and> r_id r = i"
  by (auto simp: find_room_def find_Some_iff)

lemma find_room_ok: "find_room d i = Some r \<Longrightarrow> db_ok d \<Longrightarrow> room_ok r \<and> log_ok d r"
  using find_room_Some by (auto simp: db_ok_def)

lemma find_distinct:
  "distinct (map f xs) \<Longrightarrow> x \<in> set xs \<Longrightarrow> List.find (\<lambda>y. f y = f x) xs = Some x"
proof (induction xs)
  case (Cons a xs)
  then show ?case by (cases "f a = f x") (auto simp: image_iff dest: sym)
qed simp

lemma find_room_unique:
  "db_ok d \<Longrightarrow> r \<in> set (rooms d) \<Longrightarrow> find_room d (r_id r) = Some r"
  unfolding find_room_def by (rule find_distinct) (simp_all add: db_ok_def)

lemma find_map_ids:
  "map f (map g xs) = map f xs \<Longrightarrow>
   List.find (\<lambda>y. f y = i) (map g xs) = map_option g (List.find (\<lambda>y. f y = i) xs)"
  by (induction xs) auto

lemma save_rooms: "rooms (save_room r d) = map (\<lambda>q. if r_id q = r_id r then r else q) (rooms d)"
  by (simp add: save_room_def)

lemma save_ids [simp]: "map r_id (rooms (save_room r d)) = map r_id (rooms d)"
  by (simp add: save_rooms)

lemma save_other [simp]:
  "creds (save_room r d) = creds d" "events (save_room r d) = events d"
  "commands (save_room r d) = commands d" "next_sequence (save_room r d) = next_sequence d"
  by (simp_all add: save_room_def)

lemma find_save:
  "find_room (save_room r d) i = (if i = r_id r \<and> find_room d i \<noteq> None then Some r else find_room d i)"
proof -
  have "map r_id (map (\<lambda>q. if r_id q = r_id r then r else q) (rooms d)) = map r_id (rooms d)" by simp
  from find_map_ids [OF this, of i]
  have "find_room (save_room r d) i = map_option (\<lambda>q. if r_id q = r_id r then r else q) (find_room d i)"
    by (simp add: find_room_def save_rooms)
  then show ?thesis
    using find_room_Some [of d i] by (cases "find_room d i") auto
qed

lemma find_room_cong: "rooms d = rooms d' \<Longrightarrow> find_room d i = find_room d' i"
  by (simp add: find_room_def)

lemma revoke_sel [simp]:
  "rooms (revoke P d) = rooms d" "events (revoke P d) = events d"
  "commands (revoke P d) = commands d" "next_sequence (revoke P d) = next_sequence d"
  by (simp_all add: revoke_def)

lemma emit_fst: "fst (emit e k a p r d) = r\<lparr>r_last_sequence := next_sequence d\<rparr>"
  by (simp add: emit_def Let_def)

lemma emit_sel [simp]:
  "rooms (snd (emit e k a p r d)) = rooms d" "creds (snd (emit e k a p r d)) = creds d"
  "commands (snd (emit e k a p r d)) = commands d"
  by (simp_all add: emit_def Let_def)

lemma emit_events: "events (snd (emit e k a p r d)) = events d @
    [\<lparr>e_sequence = next_sequence d, e_id = en_event e (next_sequence d), e_room = r_id r,
      e_version = r_version r, e_type = k, e_actor = a, e_at = en_now e, e_data = p\<rparr>]"
  "next_sequence (snd (emit e k a p r d)) = Suc (next_sequence d)"
  by (simp_all add: emit_def Let_def)

lemma room_ok_seq [simp]: "room_ok (r\<lparr>r_last_sequence := n\<rparr>) = room_ok r"
  "room_ok (r\<lparr>r_version := v\<rparr>) = room_ok r"
  by (simp_all add: room_ok_def live_count_def cong: option.case_cong)

lemma seated_seq [simp]: "seated i (r\<lparr>r_last_sequence := n\<rparr>) = seated i r"
  "seated i (r\<lparr>r_version := v\<rparr>) = seated i r" "seated i (r\<lparr>r_state := s\<rparr>) = seated i r"
  by (simp_all add: seated_def find_member_def)

lemma room_over_seq [simp]: "room_over (r\<lparr>r_last_sequence := n\<rparr>) = room_over r"
  "room_over (r\<lparr>r_version := v\<rparr>) = room_over r"
  by (simp_all add: room_over_def)

lemma upto_snoc: "1 \<le> v \<Longrightarrow> [1..v + 1] = [1..v] @ [v + (1 :: int)]"
  using upto_rec2 [of 1 "v + 1"] by simp

subsection \<open>Publishing a new version of a document\<close>

definition publish :: "env \<Rightarrow> string \<Rightarrow> string option \<Rightarrow> payload \<Rightarrow> room \<Rightarrow> db \<Rightarrow> room \<times> db" where
  "publish e k a p r d = (let (r1, d1) = emit e k a p r d in (r1, save_room r1 d1))"

lemma commit_publish:
  "commit e a r k p rv d = publish e k a p (r\<lparr>r_version := r_version r + 1\<rparr>) (revoke (revoked rv (r_id r)) d)"
  by (simp add: commit_def publish_def)

lemma publish_ok:
  assumes ok: "db_ok d" and f: "find_room d (r_id r') = Some r" and v: "r_version r' = r_version r + 1"
    and r': "room_ok r'"
    and c: "\<And>c. c \<in> set cs \<Longrightarrow> cr_active c \<Longrightarrow>
      if cr_room c = r_id r' then \<not> room_over r' \<and> seated (cr_member c) r' else cred_ok d c"
  shows "db_ok (snd (publish e k a p r' (d\<lparr>creds := cs\<rparr>)))"
    and "find_room (snd (publish e k a p r' (d\<lparr>creds := cs\<rparr>))) (r_id r')
         = Some (fst (publish e k a p r' (d\<lparr>creds := cs\<rparr>)))"
proof -
  define i where "i = r_id r'"
  define n where "n = next_sequence d"
  define r1 where "r1 = r'\<lparr>r_last_sequence := n\<rparr>"
  define x where "x = \<lparr>e_sequence = n, e_id = en_event e n, e_room = i, e_version = r_version r',
     e_type = k, e_actor = a, e_at = en_now e, e_data = p\<rparr>"
  define d1 where "d1 = snd (publish e k a p r' (d\<lparr>creds := cs\<rparr>))"
  have p: "publish e k a p r' (d\<lparr>creds := cs\<rparr>) = (r1, d1)"
    by (simp add: d1_def publish_def r1_def emit_def Let_def n_def)
  have id1: "r_id r1 = i" by (simp add: r1_def i_def)
  have sel: "rooms d1 = map (\<lambda>q. if r_id q = i then r1 else q) (rooms d)" "creds d1 = cs"
    "events d1 = events d @ [x]" "next_sequence d1 = Suc n"
    by (simp_all add: d1_def publish_def emit_def Let_def save_room_def r1_def i_def n_def x_def)
  have ids: "map r_id (rooms d1) = map r_id (rooms d)"
    by (simp add: sel id1)
  have r: "r \<in> set (rooms d)" "r_id r = i" using find_room_Some [OF f] by (simp_all add: i_def)
  have uniq: "q = r" if "q \<in> set (rooms d)" "r_id q = i" for q
    using find_room_unique [OF ok that(1)] that(2) f by (simp add: i_def)
  have rin: "r1 \<in> set (rooms d1)" using r by (force simp: sel)
  have log: "log_ok d1 q" if "q \<in> set (rooms d1)" for q
  proof (cases "r_id q = i")
    case True
    with that have "q = r1" by (auto simp: sel split: if_splits)
    have "log_ok d r" using ok r(1) by (simp add: db_ok_def)
    then show ?thesis
      unfolding \<open>q = r1\<close> log_ok_def room_events_def
      by (simp add: sel r(2) id1 x_def) (simp add: r1_def v upto_snoc)
  next
    case False
    with that id1 have q: "q \<in> set (rooms d)" by (auto simp: sel split: if_splits)
    then have "log_ok d q" using ok by (simp add: db_ok_def)
    with False show ?thesis by (auto simp: log_ok_def room_events_def sel x_def)
  qed
  have cr: "cred_ok d1 z" if z: "z \<in> set cs" for z
  proof (cases "cr_active z")
    case True
    note h = c [OF z True]
    show ?thesis
    proof (cases "cr_room z = i")
      case True
      with h have "\<not> room_over r1" "seated (cr_member z) r1" by (simp_all add: i_def r1_def)
      with rin True id1 show ?thesis by (auto simp: cred_ok_def)
    next
      case False
      with h True obtain q where "q \<in> set (rooms d)" "r_id q = cr_room z" "\<not> room_over q"
        "seated (cr_member z) q"
        by (auto simp: cred_ok_def i_def)
      moreover from this False have "q \<in> set (rooms d1)" by (force simp: sel)
      ultimately show ?thesis by (auto simp: cred_ok_def)
    qed
  qed (simp add: cred_ok_def)
  have ok1: "room_ok q" if "q \<in> set (rooms d1)" for q
    using that ok r' by (auto simp: sel r1_def db_ok_def split: if_splits)
  have ev: "\<forall>x\<in>set (events d). e_sequence x < n \<and> e_room x \<in> r_id ` set (rooms d)"
    using ok by (simp add: db_ok_def n_def)
  have idset: "r_id ` set (rooms d1) = r_id ` set (rooms d)"
    using arg_cong [OF ids, of set] by simp
  have "db_ok d1"
    unfolding db_ok_def
  proof (intro conjI)
    show "distinct (map r_id (rooms d1))" using ok unfolding ids by (simp add: db_ok_def)
    show "\<forall>q\<in>set (rooms d1). room_ok q \<and> log_ok d1 q" using ok1 log by blast
    show "\<forall>z\<in>set (creds d1). cred_ok d1 z" using cr by (simp add: sel)
    show "\<forall>y\<in>set (events d1). e_sequence y < next_sequence d1 \<and> e_room y \<in> r_id ` set (rooms d1)"
      unfolding idset using ev r by (auto simp: sel x_def)
    show "sorted_wrt (<) (map e_sequence (events d1))"
      using ok ev by (simp add: sel sorted_wrt_append db_ok_def x_def)
  qed
  then show "db_ok (snd (publish e k a p r' (d\<lparr>creds := cs\<rparr>)))" by (simp add: p)
  from find_room_unique [OF this] rin show "find_room (snd (publish e k a p r' (d\<lparr>creds := cs\<rparr>))) (r_id r')
         = Some (fst (publish e k a p r' (d\<lparr>creds := cs\<rparr>)))"
    by (metis p id1 i_def fst_conv snd_conv)
qed

text \<open>A change keeps every seat whose credential it does not revoke.\<close>

lemma evolve_seated:
  assumes ev: "evolve r rv r'" and s: "seated i r" and nr: "rv \<noteq> Revoke_all" "rv \<noteq> Revoke_member i"
  shows "seated i r'"
proof -
  obtain m where m: "List.find (\<lambda>m. mb_id m = i) (r_members r) = Some m" "live m"
    using s by (auto simp: seated_def find_member_def)
  have "list_all2 (member_follows r rv) (r_members r) (r_members r')"
    using ev by (simp add: evolve_def)
  then have "\<exists>m'. List.find (\<lambda>m. mb_id m = i) (r_members r') = Some m' \<and> live m'"
    using m
  proof (induction rule: list_all2_induct)
    case (Cons x xs y ys)
    then show ?case
      using nr by (cases "mb_id x = i") (auto simp: member_follows_def)
  qed simp
  then show ?thesis by (simp add: seated_def find_member_def)
qed

lemma commit_ok:
  assumes ok: "db_ok d" and f: "find_room d i = Some r" and ev: "evolve r rv r'"
  shows "db_ok (snd (commit e a r' k p rv d))"
    and "find_room (snd (commit e a r' k p rv d)) i = Some (fst (commit e a r' k p rv d))"
proof -
  have i: "r_id r' = i" "r_id r = i" "r_version r' = r_version r"
    using find_room_Some [OF f] ev by (simp_all add: evolve_def)
  let ?r = "r'\<lparr>r_version := r_version r' + 1\<rparr>"
  let ?cs = "creds (revoke (revoked rv i) d)"
  have c: "if cr_room c = r_id ?r then \<not> room_over ?r \<and> seated (cr_member c) ?r else cred_ok d c"
    if "c \<in> set ?cs" "cr_active c" for c
  proof -
    from that obtain c0 where c0: "c0 \<in> set (creds d)" "cr_active c0" "\<not> revoked rv i c0" "c = c0"
      by (auto simp: revoke_def split: if_splits)
    have co: "cred_ok d c0" using ok c0(1) by (simp add: db_ok_def)
    show ?thesis
    proof (cases "cr_room c0 = i")
      case True
      with co c0 obtain q where q: "q \<in> set (rooms d)" "r_id q = i" "\<not> room_over q" "seated (cr_member c0) q"
        by (auto simp: cred_ok_def)
      with find_room_unique [OF ok q(1)] f have "q = r" by simp
      with q True c0 have "rv \<noteq> Revoke_all" "rv \<noteq> Revoke_member (cr_member c0)" by auto
      with q \<open>q = r\<close> ev have "\<not> room_over r'" "seated (cr_member c0) r'"
        using evolve_seated [OF ev] by (auto simp: evolve_def)
      then show ?thesis using True by (simp add: c0(4) i)
    next
      case False
      with co show ?thesis by (simp add: c0(4) i)
    qed
  qed
  have rd: "revoke (revoked rv i) d = d\<lparr>creds := ?cs\<rparr>" by (simp add: revoke_def)
  have "room_ok r'" using find_room_ok [OF f ok] ev by (blast intro: evolve_room_ok)
  then have "room_ok ?r" by simp
  have c2: "commit e a r' k p rv d = publish e k a p ?r (d\<lparr>creds := ?cs\<rparr>)"
    using arg_cong [OF rd, of "publish e k a p ?r"] by (simp only: commit_publish i(1))
  have "find_room d (r_id ?r) = Some r" "r_version ?r = r_version r + 1" using f i by simp_all
  note pub = publish_ok [where e = e and k = k and a = a and p = p, OF ok this \<open>room_ok ?r\<close> c]
  show "db_ok (snd (commit e a r' k p rv d))"
    unfolding c2 by (rule pub(1))
  show "find_room (snd (commit e a r' k p rv d)) i = Some (fst (commit e a r' k p rv d))"
    unfolding c2 using pub(2) i by simp
qed

lemma expire_commit:
  "expire_room e r d = commit e None (r\<lparr>r_state := Expired\<rparr>) ''room.expired'' [] Revoke_all d"
proof -
  have "revoked Revoke_all (r_id r) = (\<lambda>c. cr_room c = r_id r)" by (rule ext) simp
  then show ?thesis
    by (simp add: expire_room_def commit_def emit_def Let_def revoke_def save_room_def)
qed

subsection \<open>Transitions\<close>

definition joined :: "env \<Rightarrow> string \<Rightarrow> room \<Rightarrow> db \<Rightarrow> room \<times> db" where
  "joined e display r d = publish e ''member.joined'' (Some (en_uuid e 0))
     [(''seat'', S_str ''member_b'')] (joined_room e display r) d"

inductive db_step :: "db \<Rightarrow> db \<Rightarrow> bool" where
  change: "find_room d i = Some r \<Longrightarrow> \<not> room_over r \<Longrightarrow> evolve r rv r' \<Longrightarrow>
    db_step d (snd (commit e a r' k p rv d))"
| change_expired: "find_room d i = Some r \<Longrightarrow> \<not> room_over r \<Longrightarrow> expire_room e r d = (r1, d1) \<Longrightarrow>
    evolve r1 rv r' \<Longrightarrow> db_step d (snd (commit e a r' k p rv d1))"
| join: "find_room d i = Some r \<Longrightarrow> \<not> room_over r \<Longrightarrow> live_count r < 2 \<Longrightarrow>
    en_uuid e 0 \<notin> mb_id ` set (r_members r) \<Longrightarrow>
    insert_credential (new_credential e i (en_uuid e 0)) d = Inr d1 \<Longrightarrow>
    db_step d (snd (joined e display r d1))"
| rotate: "rotate e i row d = Inr d' \<Longrightarrow> db_step d d'"
| remember: "remember e scope cid v d = Inr d' \<Longrightarrow> db_step d d'"
| purge: "db_step d (purge e d)"

lemma seated_iff:
  assumes "room_ok r"
  shows "seated i r \<longleftrightarrow> (\<exists>m\<in>set (r_members r). mb_id m = i \<and> live m)"
proof
  assume "seated i r"
  then show "\<exists>m\<in>set (r_members r). mb_id m = i \<and> live m"
    by (auto simp: seated_def find_member_def find_Some_iff)
next
  assume "\<exists>m\<in>set (r_members r). mb_id m = i \<and> live m"
  with assms obtain m where "distinct (map mb_id (r_members r))" "m \<in> set (r_members r)" "mb_id m = i" "live m"
    by (auto simp: room_ok_def)
  with find_distinct [of mb_id "r_members r" m] show "seated i r"
    by (simp add: seated_def find_member_def)
qed

lemma joined_room_ok:
  assumes ok: "room_ok r" and n: "live_count r < 2" and new: "en_uuid e 0 \<notin> mb_id ` set (r_members r)"
  shows "room_ok (joined_room e display r)"
proof -
  have live_new: "live (new_member e i s nm)" for i s nm by (simp add: new_member_def live_def)
  have sel: "mb_id (new_member e i s nm) = i" "mb_seat (new_member e i s nm) = s" for i s nm
    by (simp_all add: new_member_def)
  have "en_uuid e 0 \<noteq> r_owner r" using ok new by (force simp: room_ok_def)
  moreover have "distinct (map mb_id (filter live (r_members r)))"
    using ok by (simp add: room_ok_def distinct_map_filter)
  ultimately show ?thesis
    using ok n new unfolding room_ok_def joined_room_def live_count_def
    by (auto simp: live_new sel cong: option.case_cong)
qed

lemma insert_credential_Inr:
  "insert_credential c d = Inr d' \<Longrightarrow> d' = d\<lparr>creds := creds d @ [c]\<rparr>"
  by (auto simp: insert_credential_def split: if_splits)

lemma joined_ok:
  assumes ok: "db_ok d" and f: "find_room d i = Some r" and o: "\<not> room_over r" "live_count r < 2"
    and new: "en_uuid e 0 \<notin> mb_id ` set (r_members r)"
    and c: "insert_credential (new_credential e i (en_uuid e 0)) d = Inr d1"
  shows "db_ok (snd (joined e display r d1))"
proof -
  have r: "room_ok r" "r_id r = i" using find_room_ok [OF f ok] find_room_Some [OF f] by auto
  note j = joined_room_ok [OF r(1) o(2) new, of display]
  have st: "seated m (joined_room e display r)" if "seated m r \<or> m = en_uuid e 0" for m
    using that unfolding seated_iff [OF r(1)] seated_iff [OF j]
    by (auto simp: joined_room_def new_member_def live_def)
  have "db_ok (snd (publish e k a p (joined_room e display r)
      (d\<lparr>creds := creds d @ [new_credential e i (en_uuid e 0)]\<rparr>)))" for k a p
  proof (rule publish_ok(1) [OF ok])
    show "find_room d (r_id (joined_room e display r)) = Some r"
      using f r by (simp add: joined_room_def)
    show "r_version (joined_room e display r) = r_version r + 1" by (simp add: joined_room_def)
    show "room_ok (joined_room e display r)" by (rule j)
    fix c assume c: "c \<in> set (creds d @ [new_credential e i (en_uuid e 0)])" "cr_active c"
    have no: "\<not> room_over (joined_room e display r)" by (simp add: joined_room_def room_over_def)
    show "if cr_room c = r_id (joined_room e display r)
      then \<not> room_over (joined_room e display r) \<and> seated (cr_member c) (joined_room e display r)
      else cred_ok d c"
    proof (cases "c \<in> set (creds d)")
      case True
      then have co: "cred_ok d c" using ok by (simp add: db_ok_def)
      with c obtain q where q: "q \<in> set (rooms d)" "r_id q = cr_room c" "seated (cr_member c) q"
        by (auto simp: cred_ok_def)
      have "q = r" if "cr_room c = i" using find_room_unique [OF ok q(1)] q that f by simp
      with q no co r show ?thesis by (auto simp: joined_room_def [THEN arg_cong, of r_id] intro: st)
    next
      case False
      with c have "c = new_credential e i (en_uuid e 0)" by simp
      with no r show ?thesis by (simp add: new_credential_def joined_room_def [THEN arg_cong, of r_id] st)
    qed
  qed
  then show ?thesis
    by (simp add: joined_def insert_credential_Inr [OF c])
qed

lemma insert_room_Inr:
  "insert_room r d = Inr d' \<Longrightarrow> d' = d\<lparr>rooms := rooms d @ [r]\<rparr> \<and> r_id r \<notin> r_id ` set (rooms d)"
  by (auto simp: insert_room_def split: if_splits)

lemma room_new_ok: "room_ok (room_new e p code)"
  by (auto simp: room_ok_def room_new_def live_count_def new_member_def live_def)

text \<open>The room a successful creation stores, and the tables it leaves.\<close>

lemma create_body_Inr:
  assumes "create_body e p d = Inr (v, d')"
  obtains code r where "r = (room_new e p code)\<lparr>r_last_sequence := next_sequence d\<rparr>"
    "en_uuid e 0 \<notin> r_id ` set (rooms d)" "new_code e d = Inr code"
    "rooms d' = rooms d @ [r]" "creds d' = creds d @ [new_credential e (en_uuid e 0) (en_uuid e 1)]"
    "events d' = events d @ [\<lparr>e_sequence = next_sequence d, e_id = en_event e (next_sequence d),
        e_room = en_uuid e 0, e_version = 1, e_type = ''room.created'', e_actor = Some (en_uuid e 1),
        e_at = en_now e, e_data = []\<rparr>]"
    "next_sequence d' = Suc (next_sequence d)" "commands d' = commands d"
    "v = secret_of e r (en_uuid e 1)"
proof -
  from assms obtain code d1 d2 where 1: "insert_room (room_new e p code) d = Inr d1"
    and 2: "insert_credential (new_credential e (en_uuid e 0) (en_uuid e 1)) d1 = Inr d2"
    and 3: "new_code e d = Inr code"
    and 4: "(let (r, d3) = emit e ''room.created'' (Some (en_uuid e 1)) [] (room_new e p code) d2
       in Inr (secret_of e r (en_uuid e 1), save_room r d3)) = (Inr (v, d') :: auth_error + secret \<times> db)"
    unfolding create_body_def by (auto simp del: One_nat_def)
  note i = insert_room_Inr [OF 1] and c = insert_credential_Inr [OF 2]
  have rid: "r_id (room_new e p code) = en_uuid e 0" "r_version (room_new e p code) = 1"
    by (simp_all add: room_new_def)
  have old: "map (\<lambda>q. if r_id q = en_uuid e 0 then x else q) (rooms d) = rooms d" for x
    by (rule map_idI) (use i in \<open>force simp: rid\<close>)
  show thesis
    by (rule that [of "(room_new e p code)\<lparr>r_last_sequence := next_sequence d\<rparr>" code])
      (use 3 4 i old in \<open>auto simp: c rid emit_def Let_def save_room_def simp del: One_nat_def\<close>)
qed

lemma create_ok:
  assumes ok: "db_ok d" and cb: "create_body e p d = Inr (v, d')"
  shows "db_ok d'"
proof -
  obtain code r where r: "r = (room_new e p code)\<lparr>r_last_sequence := next_sequence d\<rparr>"
    and new: "en_uuid e 0 \<notin> r_id ` set (rooms d)"
    and sel: "rooms d' = rooms d @ [r]" "creds d' = creds d @ [new_credential e (en_uuid e 0) (en_uuid e 1)]"
    "events d' = events d @ [\<lparr>e_sequence = next_sequence d, e_id = en_event e (next_sequence d),
        e_room = en_uuid e 0, e_version = 1, e_type = ''room.created'', e_actor = Some (en_uuid e 1),
        e_at = en_now e, e_data = []\<rparr>]" "next_sequence d' = Suc (next_sequence d)"
    using cb by (rule create_body_Inr)
  have rid: "r_id r = en_uuid e 0" "r_version r = 1" "r_last_sequence r = next_sequence d"
    by (simp_all add: r room_new_def)
  have ev: "\<forall>x\<in>set (events d). e_sequence x < next_sequence d \<and> e_room x \<in> r_id ` set (rooms d)"
    using ok by (simp add: db_ok_def)
  have none: "filter (\<lambda>x. e_room x = en_uuid e 0) (events d) = []"
    using ev new by (force simp: filter_empty_conv)
  have logr: "log_ok d' r"
    by (simp add: log_ok_def room_events_def rid sel none)
  have log: "log_ok d' q" if "q \<in> set (rooms d)" for q
    using ok new that by (auto simp: db_ok_def log_ok_def room_events_def sel)
  have over: "\<not> room_over r" "seated (en_uuid e 1) r"
    by (simp_all add: r room_new_def room_over_def seated_def find_member_def new_member_def live_def)
  have okr: "room_ok r" by (simp add: r room_new_ok)
  have "\<forall>z\<in>set (creds d @ [new_credential e (en_uuid e 0) (en_uuid e 1)]). cred_ok d' z"
    using ok over by (auto simp: sel cred_ok_def db_ok_def new_credential_def rid)
  then show ?thesis
    unfolding db_ok_def sel using ok new ev log logr okr
    by (intro conjI) (auto simp: rid db_ok_def sorted_wrt_append)
qed

lemma rotate_Inr:
  assumes "rotate e i row d = Inr d'"
  obtains f where "d' = d\<lparr>creds := map f (creds d)\<rparr>" "\<And>c. cr_room (f c) = cr_room c"
    "\<And>c. cr_member (f c) = cr_member c" "\<And>c. cr_active (f c) = cr_active c"
  using assms unfolding rotate_def Let_def by (auto split: if_splits)

lemma rotate_ok:
  assumes ok: "db_ok d" and "rotate e i row d = Inr d'"
  shows "db_ok d'"
proof -
  obtain f where d': "d' = d\<lparr>creds := map f (creds d)\<rparr>" and f: "\<And>c. cr_room (f c) = cr_room c"
    "\<And>c. cr_member (f c) = cr_member c" "\<And>c. cr_active (f c) = cr_active c"
    using assms(2) by (rule rotate_Inr) blast
  from ok show ?thesis
    by (simp add: d' db_ok_def cred_ok_def log_ok_def room_events_def f)
qed

lemma remember_ok: "db_ok d \<Longrightarrow> remember e scope cid v d = Inr d' \<Longrightarrow> db_ok d'"
  by (auto simp: remember_def db_ok_def cred_ok_def log_ok_def room_events_def split: if_splits)

lemma purge_ok:
  assumes ok: "db_ok d"
  shows "db_ok (purge e d)"
proof -
  define gone where "gone = set (map r_id (filter (\<lambda>r. \<not> retained e r) (rooms d)))"
  have dist: "distinct (map r_id (rooms d))" using ok by (simp add: db_ok_def)
  have keep: "r_id r \<notin> gone" if "r \<in> set (rooms d)" "retained e r" for r
    using that dist by (fastforce simp: gone_def distinct_map dest: inj_onD)
  have sel: "rooms (purge e d) = filter (retained e) (rooms d)"
    "creds (purge e d) = filter (\<lambda>c. cr_room c \<notin> gone) (creds d)"
    "events (purge e d) = filter (\<lambda>x. e_room x \<notin> gone) (events d)"
    "next_sequence (purge e d) = next_sequence d"
    by (simp_all add: purge_def gone_def)
  have log: "log_ok (purge e d) r" if "r \<in> set (rooms d)" "retained e r" for r
  proof -
    have "room_events (purge e d) (r_id r) = room_events d (r_id r)"
      using keep [OF that] by (auto simp: room_events_def sel intro!: filter_cong)
    then show ?thesis using ok that by (simp add: log_ok_def db_ok_def)
  qed
  have cr: "cred_ok (purge e d) c" if "c \<in> set (creds d)" for c
  proof (cases "cr_active c")
    case True
    with ok that obtain r where "r \<in> set (rooms d)" "r_id r = cr_room c" "\<not> room_over r" "seated (cr_member c) r"
      by (auto simp: cred_ok_def db_ok_def)
    moreover from this have "r \<in> set (rooms (purge e d))" by (simp add: sel retained_def)
    ultimately show ?thesis unfolding cred_ok_def by blast
  qed (simp add: cred_ok_def)
  show ?thesis
    unfolding db_ok_def
  proof (intro conjI)
    show "distinct (map r_id (rooms (purge e d)))" using dist by (simp add: sel distinct_map_filter)
    show "\<forall>r\<in>set (rooms (purge e d)). room_ok r \<and> log_ok (purge e d) r"
      using ok log by (auto simp: sel db_ok_def)
    show "\<forall>c\<in>set (creds (purge e d)). cred_ok (purge e d) c" using cr by (simp add: sel)
    show "\<forall>x\<in>set (events (purge e d)). e_sequence x < next_sequence (purge e d)
        \<and> e_room x \<in> r_id ` set (rooms (purge e d))"
    proof
      fix x assume x: "x \<in> set (events (purge e d))"
      then obtain r where "r \<in> set (rooms d)" "e_room x = r_id r" "e_sequence x < next_sequence d"
        using ok by (auto simp: sel db_ok_def)
      moreover from this x have "retained e r" by (auto simp: sel gone_def)
      ultimately show "e_sequence x < next_sequence (purge e d) \<and> e_room x \<in> r_id ` set (rooms (purge e d))"
        by (simp add: sel)
    qed
    show "sorted_wrt (<) (map e_sequence (events (purge e d)))"
      using ok by (simp add: sel db_ok_def sorted_wrt_map sorted_wrt_filter)
  qed
qed

lemma db_step_ok: "db_step d d' \<Longrightarrow> db_ok d \<Longrightarrow> db_ok d'"
proof (induction rule: db_step.induct)
  case (change_expired d i r e r1 d1 rv r' a k p)
  have r: "room_ok r" using find_room_ok [OF change_expired.hyps(1) change_expired.prems] by simp
  note x = commit_ok [where e = e and a = None and k = "''room.expired''" and p = "[]",
      OF change_expired.prems change_expired.hyps(1) expired_evolve [OF r],
      folded expire_commit, unfolded change_expired.hyps(3), simplified]
  show ?case by (rule commit_ok(1) [OF x change_expired.hyps(4)])
qed (auto intro: commit_ok joined_ok rotate_ok remember_ok purge_ok)

interpretation db: transition_inv db_step db_ok
  by unfold_locales (rule db_step_ok)

lemmas db_steps_ok = db.runs_inv

text \<open>What one call does: transitions, possibly begun by the creation of a room.\<close>

inductive db_run :: "env \<Rightarrow> db \<Rightarrow> db \<Rightarrow> bool" where
  steps: "db_step\<^sup>*\<^sup>* d d' \<Longrightarrow> db_run e d d'"
| create: "create_body e p d = Inr (v, d1) \<Longrightarrow> db_step\<^sup>*\<^sup>* d1 d' \<Longrightarrow> db_run e d d'"

inductive_cases db_runE: "db_run e d d'"

lemma db_run_ok: "db_run e d d' \<Longrightarrow> db_ok d \<Longrightarrow> db_ok d'"
  by (erule db_runE) (auto intro: db_steps_ok create_ok)

lemma db_run_step: "db_run e d d1 \<Longrightarrow> db_step d1 d2 \<Longrightarrow> db_run e d d2"
  by (erule db_runE) (auto intro: db_run.intros rtranclp.rtrancl_into_rtrancl)

subsection \<open>What a run does to a room\<close>

text \<open>
  The version counts the changes: it never falls, and an equal version means an equal
  document.  A room that is over does not change.  An attempt with the same number keeps its
  identity, its recorded outcome and the sides already reported.
\<close>

definition room_follows :: "room \<Rightarrow> room \<Rightarrow> bool" where
  "room_follows r r' \<longleftrightarrow> r_version r \<le> r_version r' \<and> (r_version r' = r_version r \<longrightarrow> r' = r)
     \<and> (room_over r \<longrightarrow> r' = r) \<and> r_code r' = r_code r \<and> r_owner r' = r_owner r
     \<and> r_last_attempt r \<le> r_last_attempt r'
     \<and> (\<forall>a'. r_attempt r' = Some a' \<longrightarrow>
          r_last_attempt r < at_number a' \<or> (\<exists>a. r_attempt r = Some a \<and> attempt_follows a a'))"

lemma room_follows_refl [simp]: "room_follows r r"
  by (auto simp: room_follows_def)

lemma room_follows_trans:
  assumes "room_follows a b" "room_follows b c"
  shows "room_follows a c"
proof -
  have att: "r_last_attempt a < at_number x \<or> (\<exists>y. r_attempt a = Some y \<and> attempt_follows y x)"
    if x: "r_attempt c = Some x" for x
  proof (cases "r_last_attempt b < at_number x")
    case True
    with assms show ?thesis by (auto simp: room_follows_def)
  next
    case False
    with assms(2) x obtain y where y: "r_attempt b = Some y" "attempt_follows y x"
      by (auto simp: room_follows_def)
    then have n: "at_number x = at_number y" by (simp add: attempt_follows_def)
    from assms(1) y(1) consider "r_last_attempt a < at_number y"
      | z where "r_attempt a = Some z" "attempt_follows z y"
      by (auto simp: room_follows_def)
    then show ?thesis
    proof cases
      case 1
      with n show ?thesis by simp
    next
      case 2
      with y(2) show ?thesis by (blast intro: attempt_follows_trans)
    qed
  qed
  have "r_version c = r_version a \<longrightarrow> c = a" "room_over a \<longrightarrow> c = a"
    using assms by (auto simp: room_follows_def)
  with att assms show ?thesis by (auto simp: room_follows_def)
qed

lemma evolve_follows:
  "evolve r rv r' \<Longrightarrow> \<not> room_over r \<Longrightarrow> room_follows r (fst (commit e a r' k p rv' d))"
  by (auto simp: commit_def emit_def Let_def room_follows_def evolve_def)

lemma find_publish:
  "find_room (snd (publish e k a p r d)) i
   = (if i = r_id r \<and> find_room d i \<noteq> None then Some (fst (publish e k a p r d)) else find_room d i)"
proof -
  have "find_room (d\<lparr>events := x, next_sequence := n\<rparr>) i = find_room d i" for x n
    by (simp add: find_room_def)
  then show ?thesis by (auto simp: publish_def emit_def Let_def find_save)
qed

lemma find_publish_other:
  "i \<noteq> r_id r \<Longrightarrow> find_room (snd (publish e k a p r d)) i = find_room d i"
  by (simp add: find_publish)

lemma find_commit_other:
  "i \<noteq> r_id r \<Longrightarrow> find_room (snd (commit e a r k p rv d)) i = find_room d i"
  unfolding commit_publish by (subst find_publish_other) (simp_all add: find_room_def)

lemma find_filter_ids:
  "distinct (map f xs) \<Longrightarrow> List.find (\<lambda>y. f y = i) (filter P xs) = Some x \<Longrightarrow>
   List.find (\<lambda>y. f y = i) xs = Some x"
proof (induction xs)
  case (Cons a xs)
  have "x \<in> set xs \<and> f x = i" if "List.find (\<lambda>y. f y = i) (filter P xs) = Some x"
    using that by (auto simp: find_Some_iff dest: nth_mem)
  with Cons show ?case by (auto split: if_splits)
qed simp

lemma step_follows:
  assumes st: "db_step d d'" and ok: "db_ok d" and f': "find_room d' i = Some r'"
  shows "\<exists>r. find_room d i = Some r \<and> room_follows r r'"
  using st
proof cases
  case (change j r rv q e a k p)
  show ?thesis
  proof (cases "i = j")
    case True
    with commit_ok(2) [OF ok change(2,4)] f' change evolve_follows [OF change(4,3)] show ?thesis by auto
  next
    case False
    then have "i \<noteq> r_id q" using change(4) find_room_Some [OF change(2)] by (auto simp: evolve_def)
    with f' change(1) find_commit_other show ?thesis by auto
  qed
next
  case (change_expired j r e r1 d1 rv q a k p)
  have rok: "room_ok r" using find_room_ok [OF change_expired(2) ok] by simp
  note x = commit_ok [where e = e and a = None and k = "''room.expired''" and p = "[]",
      OF ok change_expired(2) expired_evolve [OF rok],
      folded expire_commit, unfolded change_expired(4), simplified]
  show ?thesis
  proof (cases "i = j")
    case True
    have "room_follows r r'"
      using commit_ok(2) [OF x change_expired(5)] f' change_expired True
      by (auto simp: commit_def emit_def Let_def room_follows_def evolve_def expire_room_def)
    with change_expired True show ?thesis by auto
  next
    case False
    then have "i \<noteq> r_id q" "i \<noteq> r_id (r\<lparr>r_state := Expired\<rparr>)"
      using change_expired(5) find_room_Some [OF change_expired(2)] find_room_Some [OF x(2)]
      by (auto simp: evolve_def)
    then have "find_room d' i = find_room d1 i" "find_room d1 i = find_room d i"
      using change_expired(1,4) find_commit_other unfolding expire_commit by (auto, metis snd_conv)
    with f' show ?thesis by auto
  qed
next
  case (join j r e d1 display)
  have rid: "r_id r = j" "room_ok r" using find_room_Some [OF join(2)] find_room_ok [OF join(2) ok] by auto
  have d1: "rooms d1 = rooms d" using insert_credential_Inr [OF join(6)] by simp
  have f: "find_room d' i = (if i = j then Some (fst (joined e display r d1)) else find_room d i)"
  proof -
    have "r_id (joined_room e display r) = j" by (simp add: joined_room_def rid)
    with find_room_cong [OF d1, of i] join(2) show ?thesis
      unfolding join(1) joined_def find_publish by simp
  qed
  show ?thesis
  proof (cases "i = j")
    case True
    have "room_follows r (fst (joined e display r d1))"
      using join(3) rid(2)
      by (auto simp: joined_def publish_def emit_def Let_def joined_room_def room_follows_def)
    with f f' True join(2) show ?thesis by auto
  next
    case False
    with f f' have "find_room d i = Some r'" by simp
    then show ?thesis by simp
  qed
next
  case (rotate e j row)
  then have "rooms d' = rooms d" by (auto elim: rotate_Inr)
  with f' show ?thesis by (auto simp: find_room_def)
next
  case (remember e scope cid v)
  then have "rooms d' = rooms d" by (auto simp: remember_def split: if_splits)
  with f' show ?thesis by (auto simp: find_room_def)
next
  case (purge e)
  have "distinct (map r_id (rooms d))" using ok by (simp add: db_ok_def)
  from find_filter_ids [OF this] f' purge show ?thesis
    by (auto simp: find_room_def purge_def Let_def)
qed

text \<open>Every room after a run follows the room it was before the run.\<close>

definition db_follows :: "db \<Rightarrow> db \<Rightarrow> bool" where
  "db_follows d d' \<longleftrightarrow> (\<forall>i r'. find_room d' i = Some r' \<longrightarrow>
     (\<exists>r. find_room d i = Some r \<and> room_follows r r'))"

interpretation db_rooms: transition_follows db_step db_ok db_follows
proof unfold_locales
  show "db_follows s s" for s by (simp add: db_follows_def)
  show "db_follows s u" if "db_follows s t" "db_follows t u" for s t u
    using that unfolding db_follows_def by (meson room_follows_trans)
  show "db_follows s t" if "db_step s t" "db_ok s" for s t
    using step_follows [OF that] by (auto simp: db_follows_def)
qed

lemma steps_follow:
  "db_step\<^sup>*\<^sup>* d d' \<Longrightarrow> db_ok d \<Longrightarrow> find_room d' i = Some r' \<Longrightarrow>
   \<exists>r. find_room d i = Some r \<and> room_follows r r'"
  using db_rooms.runs_follow by (auto simp: db_follows_def)

lemma run_follows:
  assumes run: "db_run e d d'" and ok: "db_ok d"
    and f: "find_room d i = Some r" and f': "find_room d' i = Some r'"
  shows "room_follows r r'"
  using run
proof (rule db_runE)
  assume "db_step\<^sup>*\<^sup>* d d'"
  from steps_follow [OF this ok f'] f show ?thesis by auto
next
  fix p v d1
  assume c: "create_body e p d = Inr (v, d1)" and st: "db_step\<^sup>*\<^sup>* d1 d'"
  obtain q where q: "rooms d1 = rooms d @ [q]" using c by (rule create_body_Inr)
  have "find_room d1 i = Some r"
  proof -
    have "List.find P (xs @ [y]) = Some x" if "List.find P xs = Some x" for P xs and x y :: room
      using that by (induction xs) auto
    with f show ?thesis by (simp add: find_room_def q)
  qed
  with steps_follow [OF st create_ok [OF ok c] f'] show ?thesis by auto
qed

end
