(* ===== verification/Authority_Refine.thy ===== *)
theory Authority_Refine
  imports Authority_Inv
begin

section \<open>The room authority: every operation is a run of transitions\<close>

text \<open>
  \<open>serve\<close> is one call of the service, any operation with any arguments; a call that
  admits a member draws an identifier no room uses.  The tables after
  a call are reached from the tables before it by transitions of \<open>db_step\<close>; so every
  reachable store satisfies the invariant.
\<close>

definition fresh :: "env \<Rightarrow> db \<Rightarrow> bool" where
  "fresh e d \<longleftrightarrow> (\<forall>r\<in>set (rooms d). en_uuid e 0 \<notin> mb_id ` set (r_members r))"

inductive serve :: "env \<Rightarrow> store \<Rightarrow> store \<Rightarrow> bool" where
  s_create: "serve e s (fst (create e p cid client s))"
| s_join: "fresh e (st_db s) \<Longrightarrow> serve e s (fst (join e room_code trainer cid client s))"
| s_join_public: "fresh e (st_db s) \<Longrightarrow> serve e s (fst (join_public e li trainer cid client s))"
| s_reconnect: "serve e s (fst (reconnect e rid token cid s))"
| s_mutate: "serve e s (fst (mutate e rid bearer cid name q expected s))"
| s_closing: "serve e s (fst (begin_d_closing e rid bearer cid aid dp expected s))"
| s_quiescent: "serve e s (fst (acknowledge_d_quiescent e rid bearer cid aid dp expected s))"
| s_snapshot: "serve e s (fst (snapshot e rid bearer s))"
| s_snapshot_for_token: "serve e s (fst (snapshot_for_token e bearer s))"
| s_events: "serve e s (fst (list_events e rid bearer after maxn s))"
| s_member_for_code: "serve e s (fst (member_for_code e code bearer opt s))"
| s_public_details: "serve e s (fst (public_details e li s))"
| s_list_public: "serve e s (fst (list_public e dq s))"
| s_fail_transport: "serve e s (fst (fail_transport_attempt e rid aid code s))"
| s_force: "serve e s (fst (force_d_barrier e rid aid code s))"
| s_fail_active: "serve e s (fst (fail_active_attempts e code s))"
| s_sweep: "serve e s (fst (sweep_presence e s))"

lemmas step_intros = db_step.intros

subsection \<open>Loading\<close>

lemma load_Inr:
  assumes "load e i d = Inr (r, d1)"
  obtains "find_room d i = Some r" "d1 = d"
  | r0 where "find_room d i = Some r0" "\<not> room_over r0" "expire_room e r0 d = (r, d1)"
  using assms unfolding load_def by (auto split: option.splits if_splits)

lemma expire_step:
  "find_room d i = Some r0 \<Longrightarrow> \<not> room_over r0 \<Longrightarrow> db_ok d \<Longrightarrow> expire_room e r0 d = (r, d1) \<Longrightarrow> db_step d d1"
  using db_step.change [where rv = Revoke_all and e = e and a = None and k = "''room.expired''" and p = "[]", OF _ _ expired_evolve]
    find_room_ok unfolding expire_commit by (metis snd_conv)

lemma load_steps:
  assumes "load e i d = Inr (r, d1)" "db_ok d"
  shows "db_step\<^sup>*\<^sup>* d d1"
  using assms(1) by (rule load_Inr) (auto intro: expire_step assms(2))

lemma load_room:
  assumes l: "load e i d = Inr (r, d1)" and ok: "db_ok d"
  shows "find_room d1 i = Some r \<and> room_ok r \<and> r_id r = i"
  using l
proof (rule load_Inr)
  assume "find_room d i = Some r" "d1 = d"
  then show ?thesis using find_room_ok [of d i r] find_room_Some [of d i r] ok by simp
next
  fix r0 assume r0: "find_room d i = Some r0" "expire_room e r0 d = (r, d1)"
  have ok0: "room_ok r0" using find_room_ok [OF r0(1) ok] by simp
  have "db_ok d1 \<and> find_room d1 i = Some r"
    using commit_ok [OF ok r0(1) expired_evolve [OF ok0]] r0(2) unfolding expire_commit
    by (metis fst_conv snd_conv)
  then show ?thesis using find_room_ok [of d1 i r] find_room_Some [of d1 i r] by simp
qed

text \<open>A change made right after a load, inside the same transaction.\<close>

lemma load_commit:
  assumes l: "load e i d = Inr (r, d1)" and ev: "evolve r rv r'" and o: "d1 = d \<longrightarrow> \<not> room_over r"
  shows "db_step d (snd (commit e a r' k p rv d1))"
  using l
proof (rule load_Inr)
  assume "find_room d i = Some r" "d1 = d"
  with ev o show ?thesis by (auto intro: db_step.change)
next
  fix r0 assume "find_room d i = Some r0" "\<not> room_over r0" "expire_room e r0 d = (r, d1)"
  with ev show ?thesis by (auto intro: db_step.change_expired)
qed

subsection \<open>Commands of members\<close>

lemma credentials_Inr:
  assumes "credentials e bearer room d = Inr ((r, mid), d1)" "db_ok d"
  obtains c where "c \<in> set (creds d)" "cr_active c" "cr_member c = mid" "load e (cr_room c) d = Inr (r, d1)"
    "room = None \<or> room = Some (cr_room c)" "seated mid r" "d1 = d \<longrightarrow> \<not> room_over r"
    "cr_token c = en_hash e bearer"
proof -
  from assms(1) obtain c where f: "List.find (\<lambda>c. cr_token c = en_hash e bearer) (creds d) = Some c"
    and a: "cr_active c" "cr_member c = mid" and l: "load e (cr_room c) d = Inr (r, d1)"
    and rm: "room = None \<or> room = Some (cr_room c)"
    unfolding credentials_def by (auto split: option.splits if_splits)
  have c: "c \<in> set (creds d)" "cr_token c = en_hash e bearer"
    using f by (auto simp: find_Some_iff)
  with assms(2) a obtain q where q: "q \<in> set (rooms d)" "r_id q = cr_room c" "\<not> room_over q" "seated mid q"
    by (auto simp: db_ok_def cred_ok_def)
  have fq: "find_room d (cr_room c) = Some q" using find_room_unique [OF assms(2) q(1)] q(2) by simp
  from l have "seated mid r \<and> (d1 = d \<longrightarrow> \<not> room_over r)"
  proof (rule load_Inr)
    assume "find_room d (cr_room c) = Some r" "d1 = d"
    with fq q show ?thesis by simp
  next
    fix r0 assume "find_room d (cr_room c) = Some r0" "expire_room e r0 d = (r, d1)"
    with fq q have x: "expire_room e q d = (r, d1)" by simp
    then have "seated mid r" using q(4) by (auto simp: expire_room_def emit_def Let_def)
    moreover have "d1 \<noteq> d"
    proof
      assume "d1 = d"
      then have "next_sequence d1 = next_sequence d" by simp
      with x show False by (auto simp: expire_room_def emit_def Let_def)
    qed
    ultimately show ?thesis by simp
  qed
  with c a l rm show thesis by (auto intro: that)
qed

lemma answer_step: "answer e scope cid r mid d = Inr (v, d') \<Longrightarrow> db_step d d'"
  by (auto simp: answer_def intro: db_step.remember)

lemma member_op_refines:
  assumes body: "\<And>r mid r' k p rv. room_ok r \<Longrightarrow> seated mid r \<Longrightarrow>
      body r mid = Inr (Change r' k p rv) \<Longrightarrow> evolve r rv r'"
    and ok: "db_ok (st_db s)"
  shows "db_step\<^sup>*\<^sup>* (st_db s) (st_db (fst (member_op e rid bearer cid label body s)))"
proof (cases "credentials e bearer (Some rid) (st_db s)")
  case (Inl err)
  then show ?thesis by (simp add: member_op_def)
next
  case (Inr z)
  obtain r mid d where z: "z = ((r, mid), d)" by (metis surj_pair)
  note cr = Inr [unfolded z]
  obtain c :: credential where l: "load e (cr_room c) (st_db s) = Inr (r, d)" and st: "seated mid r"
    and o: "d = st_db s \<longrightarrow> \<not> room_over r"
    using cr ok by (rule credentials_Inr) blast
  have ls: "db_step\<^sup>*\<^sup>* (st_db s) d" by (rule load_steps [OF l ok])
  have rok: "room_ok r" using load_room [OF l ok] by simp
  have "db_step\<^sup>*\<^sup>* (st_db s) d'"
    if rep: "member_reply e scope cid body r mid d = Inr (v, d')" for scope v d'
  proof -
    from rep obtain cached where "(case cached of Some v \<Rightarrow> Inr (v, d)
        | None \<Rightarrow> bindr (body r mid) (apply_change e scope cid r mid d)) = Inr (v, d')"
      unfolding member_reply_def bindr_eq_Inr by blast
    then consider "d' = d" | ch where "body r mid = Inr ch" "apply_change e scope cid r mid d ch = Inr (v, d')"
      by (cases cached) auto
    then show ?thesis
    proof cases
      case 2
      show ?thesis
      proof (cases ch)
        case Reply_only
        with 2(2) answer_step ls show ?thesis
          by (auto simp: apply_change_def intro: rtranclp.rtrancl_into_rtrancl)
      next
        case (Change r' k p rv)
        have "db_step (st_db s) (snd (commit e (Some mid) r' k p rv d))"
          using body [OF rok st] 2(1) Change by (intro load_commit [OF l _ o]) blast
        moreover have "db_step (snd (commit e (Some mid) r' k p rv d)) d'"
          using 2(2) by (auto simp: Change apply_change_def case_prod_unfold Let_def intro: answer_step)
        ultimately show ?thesis by auto
      qed
    qed (use ls in simp)
  qed
  then show ?thesis
    by (auto simp: member_op_def cr split: sum.splits)
qed

lemma relay_op_refines:
  assumes body: "\<And>r r' k c. room_ok r \<Longrightarrow> body r = Some (r', k, c) \<Longrightarrow> evolve r Revoke_none r' \<and> \<not> room_over r"
    and ok: "db_ok (st_db s)"
  shows "db_step\<^sup>*\<^sup>* (st_db s) (st_db (fst (relay_op e rid body s)))"
proof (cases "load e rid (st_db s)")
  case (Inl err)
  then show ?thesis by (simp add: relay_op_def)
next
  case (Inr z)
  obtain r d where z: "z = (r, d)" by (metis surj_pair)
  note l = Inr [unfolded z]
  have rok: "room_ok r" using load_room [OF l ok] by simp
  show ?thesis
  proof (cases "body r")
    case None
    then show ?thesis using load_steps [OF l ok] by (simp add: relay_op_def l)
  next
    case (Some y)
    obtain r' k c where y: "y = (r', k, c)" by (metis surj_pair)
    have "evolve r Revoke_none r'" "\<not> room_over r" using body [OF rok] Some y by auto
    then have "db_step (st_db s) (snd (commit e None r' k [(''code'', S_str c)] Revoke_none d))"
      by (intro load_commit [OF l]) simp_all
    then show ?thesis by (simp add: relay_op_def l Some y)
  qed
qed

lemma read_op_refines:
  assumes ok: "db_ok (st_db s)"
  shows "db_step\<^sup>*\<^sup>* (st_db s) (st_db (fst (read_op e bearer room f s)))"
proof (cases "credentials e bearer room (st_db s)")
  case (Inr z)
  obtain r mid d where z: "z = ((r, mid), d)" by (metis surj_pair)
  note cr = Inr [unfolded z]
  obtain c :: credential where l: "load e (cr_room c) (st_db s) = Inr (r, d)"
    using cr ok by (rule credentials_Inr) blast
  from load_steps [OF l ok] show ?thesis by (simp add: read_op_def cr)
qed (simp add: read_op_def)

lemma secret_op_refines:
  assumes body: "\<And>v d. body (st_db s) = Inr (v, d) \<Longrightarrow> db_run e (st_db s) d"
  shows "db_run e (st_db s) (st_db (fst (secret_op e scope cid body s)))"
proof -
  have "db_run e (st_db s) d'"
    if "body (st_db s) = Inr (v, d)" "remember_secret e scope cid v d c = (c', Inr d')" for v d c c' d'
    using body [OF that(1)] that(2) db_step.remember
    by (auto simp: remember_secret_def intro: db_run_step)
  then show ?thesis
    unfolding secret_op_def by (auto intro: db_run.steps split: prod.splits sum.splits option.splits)
qed

lemma join_room_step:
  assumes j: "join_room e display r d = Inr (v, d')" and f: "find_room d i = Some r" and o: "\<not> room_over r"
    and n: "fresh e d"
  shows "db_step d d'"
proof -
  from j obtain d1 where "live_count r < 2"
    and c: "insert_credential (new_credential e (r_id r) (en_uuid e 0)) d = Inr d1"
    and d': "d' = snd (joined e display r d1)"
    by (auto simp: join_room_def joined_def publish_def case_prod_unfold Let_def split: if_splits)
  moreover have "en_uuid e 0 \<notin> mb_id ` set (r_members r)"
    using n find_room_Some [OF f] by (simp add: fresh_def)
  ultimately show ?thesis
    using db_step.join [OF f o] find_room_Some [OF f] by auto
qed

lemma load_open:
  assumes "load e i d = Inr (r, d1)" "\<not> room_over r"
  shows "d1 = d \<and> find_room d i = Some r"
  using assms(1) by (rule load_Inr) (use assms(2) in \<open>auto simp: expire_room_def emit_def Let_def room_over_def\<close>)

lemma join_body_refines:
  assumes "join_body e code display d = Inr (v, d')" "fresh e d"
  shows "db_step d d'"
proof -
  from assms(1) obtain q :: room and r d1 where l: "load e (r_id q) d = Inr (r, d1)" and o: "\<not> room_over r"
    and j: "join_room e display r d1 = Inr (v, d')"
    by (auto simp: join_body_def split: option.splits if_splits)
  with load_open [OF l o] join_room_step [OF j _ o] assms(2) show ?thesis by auto
qed

lemma join_public_body_refines:
  assumes "join_public_body e li display d = Inr (v, d')" "fresh e d"
  shows "db_step d d'"
proof -
  from assms(1) obtain q :: room and r d1 where l: "load e (r_id q) d = Inr (r, d1)" and o: "\<not> room_over r"
    and j: "join_room e display r d1 = Inr (v, d')"
    by (auto simp: join_public_body_def split: option.splits if_splits)
  with load_open [OF l o] join_room_step [OF j _ o] assms(2) show ?thesis by auto
qed

lemma reconnect_body_refines:
  assumes b: "reconnect_body e rid h d = Inr (v, d')" and ok: "db_ok d"
  shows "db_step\<^sup>*\<^sup>* d d'"
proof -
  from b obtain row r d1 m d2 where l: "load e rid d = Inr (r, d1)"
    and m: "find_member (cr_member row) r = Some m" "live m" and o: "\<not> room_over r"
    and rt: "rotate e rid row d1 = Inr d2"
    and d': "d' = snd (commit e (Some (cr_member row)) (back_online e (cr_member row) r)
                                 ''member.reconnected'' [] Revoke_none d2)"
    by (auto simp: reconnect_body_def case_prod_unfold Let_def split: option.splits if_splits)
  have d1: "d1 = d" "find_room d rid = Some r" using load_open [OF l o] by auto
  have s1: "db_step d d2" using rt d1 by (auto intro: db_step.rotate)
  have "rooms d2 = rooms d" using rt d1 by (auto elim: rotate_Inr)
  then have f2: "find_room d2 rid = Some r" using d1 by (simp add: find_room_def)
  have "evolve r Revoke_none (back_online e (cr_member row) r)"
    using find_room_ok [OF d1(2) ok] m by (intro back_online_evolve) (auto simp: seated_def)
  with f2 o have "db_step d2 d'" unfolding d' by (rule db_step.change)
  with s1 show ?thesis by auto
qed

subsection \<open>The relay's loops\<close>

lemma fail_transport_refines:
  "db_ok (st_db s) \<Longrightarrow> db_step\<^sup>*\<^sup>* (st_db s) (st_db (fst (fail_transport_attempt e rid aid code s)))"
  unfolding fail_transport_attempt_def
  by (rule relay_op_refines) (auto dest: fail_body_evolve)

lemma force_refines:
  "db_ok (st_db s) \<Longrightarrow> db_step\<^sup>*\<^sup>* (st_db s) (st_db (fst (force_d_barrier e rid aid code s)))"
  unfolding force_d_barrier_def
  by (auto intro!: relay_op_refines dest: force_body_evolve)

lemma fail_each_refines:
  "db_ok (st_db s) \<Longrightarrow> db_step\<^sup>*\<^sup>* (st_db s) (st_db (fst (fail_each e code rs s n)))"
proof (induction e code rs s n rule: fail_each.induct)
  case (2 e code r rs s n)
  show ?case
  proof (cases "r_attempt r")
    case None
    with 2 show ?thesis by simp
  next
    case (Some a)
    define p where "p = (if at_phase a = Closing
      then force_d_barrier e (r_id r) (at_id a) ''D_RELAY_RESTART'' s else (s, Inr False))"
    have p: "db_step\<^sup>*\<^sup>* (st_db s) (st_db (fst p))"
      using force_refines [OF 2(4)] by (simp add: p_def)
    obtain s1 x where s1: "p = (s1, x)" by (cases p)
    have ok1: "db_ok (st_db s1)" using db_steps_ok [OF p 2(4)] s1 by simp
    define q where "q = fail_transport_attempt e (r_id r) (at_id a) code s1"
    obtain s2 y where s2: "q = (s2, y)" by (cases q)
    have q: "db_step\<^sup>*\<^sup>* (st_db s1) (st_db s2)"
      using fail_transport_refines [OF ok1, of e "r_id r" "at_id a" code] s2 by (simp add: q_def)
    have ok2: "db_ok (st_db s2)" by (rule db_steps_ok [OF q ok1])
    show ?thesis
    proof (cases x)
      case (Inl err)
      then show ?thesis using p by (simp add: Some s1 p_def [symmetric])
    next
      case (Inr b)
      show ?thesis
      proof (cases b)
        case True
        have "db_step\<^sup>*\<^sup>* (st_db s1) (st_db (fst (fail_each e code rs s1 (Suc n))))"
          by (rule 2(2) [OF Some _ Inr _ ok1]) (use True s1 in \<open>simp_all add: p_def\<close>)
        then show ?thesis using p True Inr by (simp add: Some s1 p_def [symmetric])
      next
        case False
        show ?thesis
        proof (cases y)
          case (Inl err)
          then show ?thesis using p q False Inr \<open>x = Inr b\<close>
            by (simp add: Some s1 p_def [symmetric] q_def [symmetric] s2)
        next
          case (Inr c)
          have "db_step\<^sup>*\<^sup>* (st_db s2) (st_db (fst (fail_each e code rs s2 (if c then Suc n else n))))"
            by (rule 2(3) [OF Some _ \<open>x = Inr b\<close> _ _ Inr ok2])
              (use False s1 s2 [symmetric] in \<open>simp_all add: p_def q_def\<close>)
          then show ?thesis using p q False Inr \<open>x = Inr b\<close>
            by (simp add: Some s1 p_def [symmetric] q_def [symmetric] s2)
        qed
      qed
    qed
  qed
qed simp

subsection \<open>The presence sweep\<close>

text \<open>
  During the sweep of a room the document is ahead of the table.  Saving it at any point
  gives tables reached by transitions, and nothing has changed while the flag is unset.
\<close>

definition flight :: "db \<Rightarrow> room \<times> db \<times> bool \<Rightarrow> bool" where
  "flight d0 z \<longleftrightarrow> (case z of (r, d, ch) \<Rightarrow>
     db_step\<^sup>*\<^sup>* d0 (save_room r d) \<and> find_room (save_room r d) (r_id r) = Some r
     \<and> \<not> room_over r \<and> (\<not> ch \<longrightarrow> d = d0))"

lemma save_find_id: "find_room d (r_id r) = Some r \<Longrightarrow> db_ok d \<Longrightarrow> save_room r d = d"
proof -
  assume f: "find_room d (r_id r) = Some r" and ok: "db_ok d"
  have "map (\<lambda>q. if r_id q = r_id r then r else q) (rooms d) = rooms d"
  proof (rule map_idI)
    fix q assume "q \<in> set (rooms d)"
    then have q: "find_room d (r_id q) = Some q" by (rule find_room_unique [OF ok])
    show "(if r_id q = r_id r then r else q) = q"
    proof (cases "r_id q = r_id r")
      case True
      with q f have "Some q = Some r" by metis
      with True show ?thesis by simp
    qed simp
  qed
  then show "save_room r d = d" by (simp add: save_room_def)
qed

lemma flight_start:
  "find_room d (r_id r) = Some r \<Longrightarrow> db_ok d \<Longrightarrow> \<not> room_over r \<Longrightarrow> flight d (r, d, ch)"
  by (simp add: flight_def save_find_id)

lemma save_save: "r_id r1 = r_id r \<Longrightarrow> save_room r1 (save_room r d) = save_room r1 d"
  by (simp add: save_room_def)

lemma save_commit:
  "r_id r' = r_id r \<Longrightarrow> bump_emit e k a p r' (revoke (revoked rv (r_id r)) d) = (r1, d1) \<Longrightarrow>
   snd (commit e a r' k p rv (save_room r d)) = save_room r1 d1 \<and> fst (commit e a r' k p rv (save_room r d)) = r1"
proof -
  assume i: "r_id r' = r_id r"
    and b: "bump_emit e k a p r' (revoke (revoked rv (r_id r)) d) = (r1, d1)"
  let ?r = "r'\<lparr>r_version := r_version r' + 1\<rparr>"
  have "emit e k a p ?r (revoke (revoked rv (r_id r)) (save_room r d)) = (r1, save_room r d1)"
    using b by (auto simp: bump_emit_def emit_def save_room_def revoke_def Let_def)
  moreover have "r_id r1 = r_id r" using b i by (auto simp: bump_emit_def emit_def Let_def)
  ultimately show ?thesis by (simp add: commit_def i save_save)
qed

lemma flight_step:
  assumes fl: "flight d0 (r, d, ch)" and ok: "db_ok d0" and ev: "evolve r rv r'" and o: "\<not> room_over r'"
    and b: "bump_emit e k a p r' (revoke (revoked rv (r_id r)) d) = (r1, d1)"
  shows "flight d0 (r1, d1, True)"
proof -
  have fr: "db_step\<^sup>*\<^sup>* d0 (save_room r d)" "find_room (save_room r d) (r_id r) = Some r" "\<not> room_over r"
    using fl by (simp_all add: flight_def)
  have i: "r_id r' = r_id r" "r_id r1 = r_id r" "\<not> room_over r1"
    using ev b o by (auto simp: evolve_def bump_emit_def emit_def Let_def)
  note c = save_commit [OF i(1) b]
  have "db_step (save_room r d) (save_room r1 d1)"
    using db_step.change [OF fr(2,3) ev, of e a k p] c by simp
  moreover have "find_room (save_room r1 d1) (r_id r) = Some r1"
    using commit_ok(2) [OF db_steps_ok [OF fr(1) ok] fr(2) ev, of e a k p] c by simp
  ultimately show ?thesis using fr(1) i by (simp add: flight_def)
qed

lemma flight_room_ok: "flight d0 (r, d, ch) \<Longrightarrow> db_ok d0 \<Longrightarrow> room_ok r"
  using db_steps_ok find_room_ok by (auto simp: flight_def)

lemma revoke_none [simp]: "revoke (revoked Revoke_none i) d = d"
  by (simp add: revoke_def)

lemma sweep_deadline_flight:
  assumes fl: "flight d0 (r, d, False)" and ok: "db_ok d0" and s: "sweep_deadline e r d = (r1, d1, out)"
  shows "flight d0 (r1, d1, out \<noteq> [])"
proof (cases "r1 = r \<and> d1 = d \<and> out = []")
  case True
  with fl show ?thesis by simp
next
  case False
  with s obtain a x where a: "r_attempt r = Some a" "at_d a = Some x"
    and b: "bump_emit e ''attempt.d_barrier_timeout'' None [(''code'', S_str ''D_BARRIER_TIMEOUT'')]
      (terminalize_d e Forced_timeout Cleanup_failed (Some ''D_BARRIER_TIMEOUT'') x a r) d = (r1, d1)"
    and out: "out \<noteq> []"
    unfolding sweep_deadline_def
    by (auto simp: Let_def case_prod_unfold split: option.splits if_split_asm)
  have rok: "room_ok r" by (rule flight_room_ok [OF fl ok])
  then have x: "d_ok x" using room_ok_attempt [OF rok a(1)] a(2) by (simp add: attempt_ok_def)
  have "evolve r Revoke_none (terminalize_d e Forced_timeout Cleanup_failed (Some ''D_BARRIER_TIMEOUT'') x a r)"
    by (rule terminalize_evolve [OF rok a d_follows_refl x]) simp_all
  moreover have "\<not> room_over (terminalize_d e Forced_timeout Cleanup_failed (Some ''D_BARRIER_TIMEOUT'') x a r)"
    by (simp add: terminalize_d_def room_over_def)
  ultimately show ?thesis
    using flight_step [OF fl ok, of Revoke_none] b out by simp
qed

lemma go_offline_not_over: "\<not> room_over r \<Longrightarrow> \<not> room_over (go_offline e i r)"
  by (auto simp: go_offline_def room_over_def Let_def split: option.splits)

lemma sweep_member_flight:
  assumes fl: "flight d0 z" and ok: "db_ok d0" and i: "i < length (r_members (fst z))"
  shows "flight d0 (sweep_member e i z) \<and> length (r_members (fst (sweep_member e i z))) = length (r_members (fst z))"
proof -
  obtain r d ch where z: "z = (r, d, ch)" by (cases z)
  have rok: "room_ok r" using flight_room_ok fl ok by (simp add: z)
  have no: "\<not> room_over r" using fl by (simp add: z flight_def)
  define m where "m = r_members r ! i"
  have i': "i < length (r_members r)" using i by (simp add: z)
  have still: "sweep_member e i z = z"
    if "\<not> (mb_online m = Online \<and> offline_detection < en_now e - mb_last_seen m)"
      "\<not> (\<exists>t. mb_online m = Reconnecting \<and> mb_deadline m = Some t \<and> t \<le> en_now e)"
    using that by (auto simp: sweep_member_def z m_def [symmetric] Let_def split: option.splits)
  consider (quiet) "mb_online m = Online" "offline_detection < en_now e - mb_last_seen m"
    | (late) t where "mb_online m = Reconnecting" "mb_deadline m = Some t" "t \<le> en_now e"
    | (none) "sweep_member e i z = z"
    using still by blast
  then show ?thesis
  proof cases
    case quiet
    define r' where "r' = r\<lparr>r_members := (r_members r)[i := m\<lparr>mb_online := Reconnecting,
                        mb_deadline := Some (en_now e + reconnect_seconds)\<rparr>]\<rparr>"
    have "live m" using quiet by (simp add: live_def)
    then have ev: "evolve r Revoke_none r'"
      unfolding r'_def by (intro evolve_members [OF rok] all2_update [OF i']) (simp add: member_follows_def m_def)
    obtain r1 d1 where b: "bump_emit e ''member.reconnecting'' (Some (mb_id m)) [] r' d = (r1, d1)"
      by (metis surj_pair)
    have "flight d0 (r1, d1, True)"
      by (rule flight_step [OF _ ok ev]) (use fl no b in \<open>simp_all add: z r'_def room_over_def\<close>)
    moreover have "sweep_member e i z = (r1, d1, True)"
      using quiet b by (simp add: sweep_member_def z Let_def m_def [symmetric] r'_def)
    moreover have "length (r_members r1) = length (r_members r)"
      using b by (auto simp: bump_emit_def emit_def Let_def r'_def)
    ultimately show ?thesis by (simp add: z)
  next
    case late
    have ev: "evolve r (Revoke_member (mb_id m)) (go_offline e i r)"
      by (rule go_offline_evolve [OF rok i']) (use late in \<open>simp add: m_def live_def\<close>)
    have rv: "revoked (Revoke_member (mb_id m)) (r_id r) = (\<lambda>c. cr_room c = r_id r \<and> cr_member c = mb_id m)"
      by (rule ext) simp
    obtain r1 d1 where b: "bump_emit e ''member.offline'' (Some (mb_id m)) [] (go_offline e i r)
        (revoke (\<lambda>c. cr_room c = r_id r \<and> cr_member c = mb_id m) d) = (r1, d1)"
      by (rule prod.exhaust)
    have "flight d0 (r1, d1, True)"
      using flight_step [OF fl [unfolded z] ok ev go_offline_not_over [OF no], unfolded rv, OF b] .
    moreover have "sweep_member e i z = (r1, d1, True)"
      using late b by (simp add: sweep_member_def z Let_def m_def [symmetric])
    moreover have "length (r_members r1) = length (r_members r)"
      using b by (auto simp: bump_emit_def emit_def Let_def go_offline_def split: option.splits if_splits)
    ultimately show ?thesis by (simp add: z)
  next
    case none
    with fl show ?thesis by simp
  qed
qed

lemma sweep_members_flight:
  assumes "flight d0 z" "db_ok d0" "\<forall>i\<in>set is'. i < length (r_members (fst z))"
  shows "flight d0 (fold (sweep_member e) is' z)"
  using assms
proof (induction is' arbitrary: z)
  case (Cons i is')
  have "flight d0 (sweep_member e i z) \<and> length (r_members (fst (sweep_member e i z))) = length (r_members (fst z))"
    by (rule sweep_member_flight) (use Cons.prems in auto)
  with Cons show ?case by simp
qed simp

lemma sweep_room_refines:
  assumes f: "find_room d (r_id r) = Some r" and ok: "db_ok d"
  shows "db_step\<^sup>*\<^sup>* d (fst (sweep_room e r d))"
proof (cases "room_over r")
  case False
  obtain r1 d1 out where s: "sweep_deadline e r d = (r1, d1, out)" by (metis surj_pair)
  obtain r2 d2 ch where m: "fold (sweep_member e) [0..<length (r_members r1)] (r1, d1, out \<noteq> []) = (r2, d2, ch)"
    by (metis surj_pair)
  have "flight d (r1, d1, out \<noteq> [])"
    by (rule sweep_deadline_flight [OF flight_start [OF f ok False] ok s])
  from sweep_members_flight [OF this ok, of "[0..<length (r_members r1)]" e]
  have "flight d (r2, d2, ch)" by (simp add: m)
  then show ?thesis using False by (auto simp: sweep_room_def s m flight_def)
qed (simp add: sweep_room_def)

lemma sweep_rooms_refines:
  "sweep_rooms e ids d = Inr (d', out) \<Longrightarrow> db_ok d \<Longrightarrow> db_step\<^sup>*\<^sup>* d d'"
proof (induction ids arbitrary: d out)
  case (Cons i ids)
  obtain r d1 where l: "load e i d = Inr (r, d1)"
    using Cons.prems(1) by (cases "load e i d") auto
  obtain d2 o2 where s: "sweep_room e r d1 = (d2, o2)" by (metis surj_pair)
  obtain o3 where t: "sweep_rooms e ids d2 = Inr (d', o3)"
    using Cons.prems(1) by (auto simp: l s)
  have 1: "db_step\<^sup>*\<^sup>* d d1" by (rule load_steps [OF l Cons.prems(2)])
  note ok1 = db_steps_ok [OF 1 Cons.prems(2)]
  have "find_room d1 (r_id r) = Some r" using load_room [OF l Cons.prems(2)] by auto
  from sweep_room_refines [OF this ok1, of e] have 2: "db_step\<^sup>*\<^sup>* d1 d2" by (simp add: s)
  from Cons.IH [OF t db_steps_ok [OF 2 ok1]] 1 2 show ?case by auto
qed simp

lemma sweep_refines: "db_ok (st_db s) \<Longrightarrow> db_step\<^sup>*\<^sup>* (st_db s) (st_db (fst (sweep_presence e s)))"
  unfolding sweep_presence_def
  by (auto split: sum.splits dest!: sweep_rooms_refines intro: db_step.purge rtranclp.rtrancl_into_rtrancl)

lemma walk_public_refines:
  "db_ok d \<Longrightarrow> db_step\<^sup>*\<^sup>* d (fst (walk_public e q ids d))"
proof (induction ids arbitrary: d)
  case (Cons i ids)
  show ?case
  proof (cases "load e i d")
    case (Inr z)
    obtain r d1 where l: "load e i d = Inr (r, d1)" using Inr by (cases z) auto
    have 1: "db_step\<^sup>*\<^sup>* d d1" by (rule load_steps [OF l Cons.prems])
    from Cons.IH [OF db_steps_ok [OF 1 Cons.prems]] 1
    have "db_step\<^sup>*\<^sup>* d (fst (walk_public e q ids d1))" by auto
    then show ?thesis by (auto simp: l split: prod.splits sum.splits)
  qed simp
qed simp

theorem serve_run:
  "serve e s s' \<Longrightarrow> db_ok (st_db s) \<Longrightarrow> db_run e (st_db s) (st_db s')"
proof (induction rule: serve.induct)
  case (s_create e s p cid client)
  show ?case unfolding create_def by (rule secret_op_refines) (auto intro: db_run.create)
next
  case (s_join e s room_code trainer cid client)
  then show ?case
    unfolding join_def Let_def by (intro secret_op_refines) (auto dest!: join_body_refines intro: db_run.steps)
next
  case (s_join_public e s li trainer cid client)
  then show ?case
    unfolding join_public_def by (intro secret_op_refines) (auto dest!: join_public_body_refines intro: db_run.steps)
next
  case (s_reconnect e s rid token cid)
  then show ?case
    unfolding reconnect_def Let_def by (intro secret_op_refines) (auto dest!: reconnect_body_refines intro: db_run.steps)
next
  case (s_mutate e s rid bearer cid name q expected)
  then show ?case
    unfolding mutate_def by (intro db_run.steps member_op_refines) (auto dest: handle_evolve)
next
  case (s_closing e s rid bearer cid aid dp expected)
  then show ?case
    unfolding begin_d_closing_def by (intro db_run.steps member_op_refines) (auto dest: closing_evolve)
next
  case (s_quiescent e s rid bearer cid aid dp expected)
  then show ?case
    unfolding acknowledge_d_quiescent_def by (intro db_run.steps member_op_refines) (auto dest: quiescent_evolve)
next
  case (s_snapshot e s rid bearer)
  then show ?case unfolding snapshot_def by (intro db_run.steps read_op_refines)
next
  case (s_snapshot_for_token e s bearer)
  then show ?case unfolding snapshot_for_token_def by (intro db_run.steps read_op_refines)
next
  case (s_events e s rid bearer after maxn)
  have "fst (list_events e rid bearer after maxn s) = fst (read_op e bearer (Some rid) (\<lambda>r mid. Inr ()) s)"
    by (auto simp: list_events_def read_op_def split: sum.splits)
  then show ?case using read_op_refines [OF s_events(1)] by (auto intro!: db_run.steps)
next
  case (s_member_for_code e s code bearer aid)
  then show ?case
    unfolding member_for_code_def by (auto intro: db_run.steps read_op_refines split: option.splits)
next
  case (s_public_details e s li)
  then show ?case
    unfolding public_details_def by (auto split: option.splits sum.splits intro: db_run.steps dest: load_steps)
next
  case (s_list_public e s dq)
  from walk_public_refines [OF s_list_public(1), of e dq] show ?case
    unfolding list_public_def Let_def
    by (auto split: prod.splits sum.splits intro!: db_run.steps) (metis fst_conv)+
next
  case (s_fail_transport e s rid aid code)
  then show ?case by (intro db_run.steps fail_transport_refines)
next
  case (s_force e s rid aid code)
  then show ?case by (intro db_run.steps force_refines)
next
  case (s_fail_active e s code)
  then show ?case unfolding fail_active_attempts_def by (intro db_run.steps fail_each_refines)
next
  case (s_sweep e s)
  then show ?case by (intro db_run.steps sweep_refines)
qed

text \<open>The stores a service can reach from an empty database.\<close>

inductive reachable :: "store \<Rightarrow> bool" where
  init: "reachable store_empty"
| call: "reachable s \<Longrightarrow> serve e s s' \<Longrightarrow> reachable s'"

lemma db_ok_empty: "db_ok (st_db store_empty)"
  by (simp add: store_empty_def db_ok_def)

lemma reachable_ok: "reachable s \<Longrightarrow> db_ok (st_db s)"
  by (induction rule: reachable.induct) (auto intro: db_ok_empty db_run_ok serve_run)

end
