(* ===== verification/Authority_Example.thy ===== *)
theory Authority_Example
  imports Authority_Refine
begin

section \<open>The room authority: an example session\<close>

text \<open>
  A concrete session of two trainers, from an empty database: create, join, choose roles,
  begin closing, and both seats acknowledging.  The properties of the authority are applied
  to its stores.
\<close>

definition ex_env :: "rat \<Rightarrow> string \<Rightarrow> env" where
  "ex_env t s = \<lparr>en_now = t, en_hash = (\<lambda>x. x), en_uuid = (\<lambda>k. s @ replicate k CHR ''i''),
     en_token = (\<lambda>k. CHR ''t'' # s @ replicate k CHR ''k''), en_code = (\<lambda>k. ''ABC123''),
     en_event = (\<lambda>k. ''e'')\<rparr>"

definition ex_payload :: create_payload where
  "ex_payload = \<lparr>cp_name = ''Room'', cp_visibility = ''private'', cp_trainer = ''Red'',
     cp_game = ''FireRed'', cp_language = ''English'', cp_offering = '''', cp_wanted = '''',
     cp_note = ''''\<rparr>"

definition ready_as :: "string \<Rightarrow> payload" where
  "ready_as s = [(''ready'', S_bool True), (''switch_room_role'', S_str s)]"

definition closing_as :: "string \<Rightarrow> string \<Rightarrow> d_payload" where
  "closing_as out gate = [(''contract_version'', Scalar (S_str ''d-closing-intent.v1'')),
     (''attempt_id'', Scalar (S_str ''d'')), (''activation_generation'', Scalar (S_int 1)),
     (''outcome'', Scalar (S_str out)), (''last_passed_gate'', Scalar (S_str gate))]"

definition quiescent_as :: "string \<Rightarrow> d_payload" where
  "quiescent_as seat = [(''contract_version'', Scalar (S_str ''d-side-quiescent.v1'')),
     (''attempt_id'', Scalar (S_str ''d'')), (''source_seat'', Scalar (S_str seat)),
     (''activation_generation'', Scalar (S_int 1)), (''run_id'', Scalar (S_str ''r'')),
     (''stage_generation'', Scalar (S_int 1)),
     (''launch_identity_sha256'', Scalar (S_str (replicate 64 CHR ''0''))),
     (''evidence'', Obj [(''endpoint_exited'', S_bool True), (''transport_exited'', S_bool True),
        (''threads_exited'', S_bool True), (''ldn_released'', S_bool True),
        (''interfaces_absent'', S_bool True), (''forced'', S_bool False)])]"

definition ex_created :: store where
  "ex_created = fst (create (ex_env 0 ''a'') ex_payload ''k1'' '''' store_empty)"

definition ex_joined :: store where
  "ex_joined = fst (join (ex_env 1 ''b'') ''abc123'' ''Blue'' ''k2'' '''' ex_created)"

definition ex_chosen :: store where
  "ex_chosen = fst (mutate (ex_env 2 ''c'') ''a'' ''ta'' ''k3'' ''ready'' (ready_as ''creator'') (Some 2) ex_joined)"

definition ex_started :: store where
  "ex_started = fst (mutate (ex_env 3 ''d'') ''a'' ''tb'' ''k4'' ''ready'' (ready_as ''finder'') (Some 3) ex_chosen)"

definition ex_closing :: store where
  "ex_closing = fst (begin_d_closing (ex_env 4 ''e'') ''a'' ''ta'' ''k5'' ''d''
     (closing_as ''completed'' ''C_TRADE_COMPLETE'') (Some 4) ex_started)"

definition ex_side :: store where
  "ex_side = fst (acknowledge_d_quiescent (ex_env 5 ''f'') ''a'' ''ta'' ''k6'' ''d''
     (quiescent_as ''member_a'') (Some 5) ex_closing)"

definition ex_done :: store where
  "ex_done = fst (acknowledge_d_quiescent (ex_env 6 ''g'') ''a'' ''tb'' ''k7'' ''d''
     (quiescent_as ''member_b'') (Some 6) ex_side)"

lemma ex_fresh: "fresh (ex_env 1 ''b'') (st_db ex_created)"
  by code_simp

lemma ex_serve:
  "serve (ex_env 0 ''a'') store_empty ex_created" "serve (ex_env 1 ''b'') ex_created ex_joined"
  "serve (ex_env 2 ''c'') ex_joined ex_chosen" "serve (ex_env 3 ''d'') ex_chosen ex_started"
  "serve (ex_env 4 ''e'') ex_started ex_closing" "serve (ex_env 5 ''f'') ex_closing ex_side"
  "serve (ex_env 6 ''g'') ex_side ex_done"
  using s_create s_join [OF ex_fresh] s_mutate s_closing s_quiescent
  by (simp_all only: ex_created_def ex_joined_def ex_chosen_def ex_started_def ex_closing_def
      ex_side_def ex_done_def)

lemma ex_reachable:
  "reachable ex_created" "reachable ex_joined" "reachable ex_chosen" "reachable ex_started"
  "reachable ex_closing" "reachable ex_side" "reachable ex_done"
proof -
  note c = reachable.call
  show 1: "reachable ex_created" by (rule c [OF reachable.init ex_serve(1)])
  show 2: "reachable ex_joined" by (rule c [OF 1 ex_serve(2)])
  show 3: "reachable ex_chosen" by (rule c [OF 2 ex_serve(3)])
  show 4: "reachable ex_started" by (rule c [OF 3 ex_serve(4)])
  show 5: "reachable ex_closing" by (rule c [OF 4 ex_serve(5)])
  show 6: "reachable ex_side" by (rule c [OF 5 ex_serve(6)])
  show "reachable ex_done" by (rule c [OF 6 ex_serve(7)])
qed

text \<open>The one room of the session, its attempt and its closing record.\<close>

definition ex_first :: "store \<Rightarrow> room" where
  "ex_first s = hd (rooms (st_db s))"

definition ex_attempt :: "store \<Rightarrow> attempt" where
  "ex_attempt s = the (r_attempt (ex_first s))"

definition ex_d :: "store \<Rightarrow> d_state" where
  "ex_d s = the (at_d (ex_attempt s))"

lemma single_room:
  assumes "map r_id (rooms (st_db s)) = [i]"
  shows "find_room (st_db s) i = Some (ex_first s) \<and> ex_first s \<in> set (rooms (st_db s))"
proof -
  from assms obtain r where "rooms (st_db s) = [r]" "r_id r = i" by auto
  then show ?thesis by (simp add: find_room_def ex_first_def)
qed

lemma ex_side_eval:
  "map r_id (rooms (st_db ex_side)) = [''a''] \<and>
   (case r_attempt (ex_first ex_side) of None \<Rightarrow> False | Some a \<Rightarrow>
      (case at_d a of None \<Rightarrow> False | Some d \<Rightarrow> d_outcome d = Completed \<and> d_side_a d \<noteq> None))"
  by code_simp

lemma ex_done_eval:
  "map r_id (rooms (st_db ex_done)) = [''a''] \<and>
   (case r_attempt (ex_first ex_done) of None \<Rightarrow> False | Some a \<Rightarrow>
      (case at_d a of None \<Rightarrow> False | Some d \<Rightarrow> d_cleanup d = Verified \<and> at_phase a = Completed))"
  by code_simp

lemma ex_side_room:
  "find_room (st_db ex_side) ''a'' = Some (ex_first ex_side)"
  "r_attempt (ex_first ex_side) = Some (ex_attempt ex_side)"
  "at_d (ex_attempt ex_side) = Some (ex_d ex_side)" "d_outcome (ex_d ex_side) = Completed"
  using ex_side_eval single_room [of ex_side "''a''"]
  by (auto simp: ex_attempt_def ex_d_def split: option.splits)

lemma ex_done_room:
  "find_room (st_db ex_done) ''a'' = Some (ex_first ex_done)"
  "ex_first ex_done \<in> set (rooms (st_db ex_done))"
  "r_attempt (ex_first ex_done) = Some (ex_attempt ex_done)"
  "at_d (ex_attempt ex_done) = Some (ex_d ex_done)" "d_cleanup (ex_d ex_done) = Verified"
  "at_phase (ex_attempt ex_done) = Completed"
  using ex_done_eval single_room [of ex_done "''a''"]
  by (auto simp: ex_attempt_def ex_d_def split: option.splits)

end
