(* ===== verification/Authority_Props.thy ===== *)
theory Authority_Props
  imports Authority_Example
begin

section \<open>The room authority: properties\<close>

text \<open>
  What the room authority guarantees in every reachable store: two seats, a gapless event
  log, versions that identify documents, frozen closing outcomes, replayed commands; and the
  errors its commands can end with.
\<close>

subsection \<open>Reachable stores\<close>

text \<open>
  C3: Every call of the service, whatever its arguments, changes the tables only by the
  transitions of the abstract model (publishing an allowed change of one room, seating a
  second member, rotating a credential, remembering a reply, purging), possibly after
  creating one room.
\<close>

theorem authority_refines:
  assumes "reachable s" "serve e s s'"
  shows "db_run e (st_db s) (st_db s')"
  using assms by (blast intro: serve_run reachable_ok)

theorem authority_refines_witness:
  "db_run (ex_env 6 ''g'') (st_db ex_side) (st_db ex_done)"
  by (rule authority_refines [OF ex_reachable(6) ex_serve(7)])

lemma two_live:
  assumes ok: "room_ok r" and m: "m \<in> set (r_members r)" "m' \<in> set (r_members r)" "live m" "live m'"
    and s: "mb_seat m = mb_seat m'"
  shows "m = m'"
proof (rule ccontr)
  assume ne: "m \<noteq> m'"
  obtain o' where o: "o' \<in> set (r_members r)" "mb_id o' = r_owner r" "live o'"
    using ok by (auto simp: room_ok_def)
  have d: "distinct (map mb_id (r_members r))" using ok by (simp add: room_ok_def)
  have inj: "x = y" if "x \<in> set (r_members r)" "y \<in> set (r_members r)" "mb_id x = mb_id y" for x y
    using that d by (auto simp: distinct_map dest: inj_onD)
  have seat: "mb_seat x = Member_a \<longleftrightarrow> mb_id x = r_owner r" if "x \<in> set (r_members r)" for x
    using ok that by (simp add: room_ok_def)
  have "mb_seat m \<noteq> Member_a"
  proof
    assume "mb_seat m = Member_a"
    with s seat [OF m(1)] seat [OF m(2)] have "mb_id m = mb_id m'" by metis
    with inj m ne show False by blast
  qed
  then have "mb_id m \<noteq> r_owner r" "mb_id m' \<noteq> r_owner r"
    using seat [OF m(1)] seat [OF m(2)] s by metis+
  then have "o' \<noteq> m" "o' \<noteq> m'" using o(2) by auto
  then have "card {m, m', o'} = 3" using ne by auto
  moreover have "{m, m', o'} \<subseteq> set (filter live (r_members r))" using m o by auto
  then have "card {m, m', o'} \<le> card (set (filter live (r_members r)))" by (rule card_mono [rotated]) simp
  moreover have "card (set (filter live (r_members r))) \<le> live_count r"
    unfolding live_count_def by (rule card_length)
  ultimately show False using ok by (simp add: room_ok_def)
qed

text \<open>
  C4: In every reachable store a room has at most two members who have not left, its owner
  is one of them, no two of them hold the same seat, and every active credential of the room
  names one of them and a room that is not over.
\<close>

theorem two_seats:
  assumes "reachable s" "r \<in> set (rooms (st_db s))"
  shows "live_count r \<le> 2 \<and> (\<exists>m\<in>set (filter live (r_members r)). mb_id m = r_owner r)
    \<and> inj_on mb_seat (set (filter live (r_members r)))
    \<and> (\<forall>c\<in>set (filter (\<lambda>c. cr_active c \<and> cr_room c = r_id r) (creds (st_db s))).
         \<not> room_over r \<and> (\<exists>m\<in>set (filter live (r_members r)). mb_id m = cr_member c))"
proof -
  have ok: "db_ok (st_db s)" by (rule reachable_ok [OF assms(1)])
  then have r: "room_ok r" using assms(2) by (simp add: db_ok_def)
  have c: "\<not> room_over r \<and> seated (cr_member c) r"
    if c: "c \<in> set (creds (st_db s))" "cr_active c" "cr_room c = r_id r" for c
  proof -
    from ok c obtain q where q: "q \<in> set (rooms (st_db s))" "r_id q = r_id r" "\<not> room_over q" "seated (cr_member c) q"
      by (auto simp: db_ok_def cred_ok_def)
    have "Some q = Some r"
      using find_room_unique [OF ok q(1)] find_room_unique [OF ok assms(2)] q(2) by metis
    then have "q = r" by simp
    with q show ?thesis by simp
  qed
  show ?thesis
  proof (intro conjI ballI)
    show "live_count r \<le> 2" using r by (simp add: room_ok_def)
    show "\<exists>m\<in>set (filter live (r_members r)). mb_id m = r_owner r" using r by (auto simp: room_ok_def)
    show "inj_on mb_seat (set (filter live (r_members r)))"
      using two_live [OF r] by (auto intro!: inj_onI)
    fix x assume "x \<in> set (filter (\<lambda>c. cr_active c \<and> cr_room c = r_id r) (creds (st_db s)))"
    then have x: "\<not> room_over r" "seated (cr_member x) r" using c by auto
    show "\<not> room_over r" by (rule x(1))
    show "\<exists>m\<in>set (filter live (r_members r)). mb_id m = cr_member x"
      using x(2) unfolding seated_iff [OF r] by auto
  qed
qed

theorem two_seats_witness:
  "live_count (ex_first ex_done) \<le> 2 \<and> inj_on mb_seat (set (filter live (r_members (ex_first ex_done))))"
  using two_seats [OF ex_reachable(7) ex_done_room(2)] by blast

text \<open>
  C27: The event log of a reachable store is gapless: its sequence numbers increase, and the
  events of a room carry the versions 1, 2, ... up to the room's version, one event per
  version, the last of them being the room's last event sequence.
\<close>

theorem event_log_gapless:
  assumes "reachable s" "r \<in> set (rooms (st_db s))"
  shows "sorted_wrt (<) (map e_sequence (events (st_db s)))
    \<and> map e_version (filter (\<lambda>x. e_room x = r_id r) (events (st_db s))) = [1..r_version r]
    \<and> r_last_sequence r = e_sequence (last (filter (\<lambda>x. e_room x = r_id r) (events (st_db s))))"
  using reachable_ok [OF assms(1)] assms(2) by (auto simp: db_ok_def log_ok_def room_events_def)

theorem event_log_gapless_witness:
  "map e_version (filter (\<lambda>x. e_room x = r_id (ex_first ex_done)) (events (st_db ex_done)))
   = [1..r_version (ex_first ex_done)]"
  using event_log_gapless [OF ex_reachable(7) ex_done_room(2)] by blast

text \<open>
  The version of a room identifies its document: across any call it never falls, an
  unchanged version means an unchanged document, and a closed or expired room does not
  change any more.
\<close>

theorem version_identifies_document:
  assumes "reachable s" "serve e s s'"
    and "find_room (st_db s) i = Some r" "find_room (st_db s') i = Some r'"
  shows "r_version r \<le> r_version r' \<and> (r_version r' = r_version r \<longrightarrow> r' = r)
    \<and> (room_over r \<longrightarrow> r' = r)"
proof -
  have ok: "db_ok (st_db s)" by (rule reachable_ok [OF assms(1)])
  from run_follows [OF serve_run [OF assms(2) ok] ok assms(3,4)] show ?thesis
    by (auto simp: room_follows_def)
qed

theorem version_identifies_document_witness:
  "r_version (ex_first ex_side) \<le> r_version (ex_first ex_done)"
  using version_identifies_document [OF ex_reachable(6) ex_serve(7) ex_side_room(1) ex_done_room(1)]
  by blast

text \<open>
  C6: The recorded outcome of an attempt is frozen: across any call, as long as the room
  shows the same attempt, the outcome, the failure code and the gate of its closing record
  stay, and so does the report of a side that has acknowledged.
\<close>

theorem outcome_frozen:
  assumes "reachable s" "serve e s s'"
    and "find_room (st_db s) i = Some r" "find_room (st_db s') i = Some r'"
    and "r_attempt r = Some a" "at_d a = Some d" "r_attempt r' = Some a'" "at_number a' = at_number a"
  shows "\<exists>d'. at_d a' = Some d' \<and> d_outcome d' = d_outcome d \<and> d_primary d' = d_primary d
    \<and> d_gate d' = d_gate d \<and> d_generation d' = d_generation d
    \<and> (\<forall>x. d_side_a d = Some x \<longrightarrow> d_side_a d' = Some x)
    \<and> (\<forall>x. d_side_b d = Some x \<longrightarrow> d_side_b d' = Some x)"
proof -
  have ok: "db_ok (st_db s)" by (rule reachable_ok [OF assms(1)])
  have f: "room_follows r r'" by (rule run_follows [OF serve_run [OF assms(2) ok] ok assms(3,4)])
  have "room_ok r" using find_room_ok [OF assms(3) ok] by simp
  then have "at_number a \<le> r_last_attempt r" using room_ok_attempt assms(5) by blast
  with f assms(5,7,8) have "attempt_follows a a'" by (auto simp: room_follows_def)
  with assms(6) show ?thesis by (auto simp: attempt_follows_def d_follows_def)
qed

lemma ex_same_attempt: "at_number (ex_attempt ex_done) = at_number (ex_attempt ex_side)"
  by code_simp

theorem outcome_frozen_witness: "d_outcome (ex_d ex_done) = Completed"
  using outcome_frozen [OF ex_reachable(6) ex_serve(7) ex_side_room(1) ex_done_room(1)
      ex_side_room(2,3) ex_done_room(3) ex_same_attempt] ex_done_room(4) ex_side_room(4)
  by auto

text \<open>
  C5: The cleanup of an attempt is recorded as verified only when both seats have reported
  clean evidence: every resource released and nothing forced.
\<close>

theorem verified_needs_both_sides:
  assumes "reachable s" "r \<in> set (rooms (st_db s))" "r_attempt r = Some a" "at_d a = Some d"
    and "d_cleanup d = Verified"
  shows "d_barrier d = Two_side_terminal
    \<and> (\<exists>x y. d_side_a d = Some x \<and> d_side_b d = Some y \<and> clean x \<and> clean y)"
proof -
  have "room_ok r" using reachable_ok [OF assms(1)] assms(2) by (simp add: db_ok_def)
  then have "d_ok d" using room_ok_attempt [OF _ assms(3)] assms(4) by (auto simp: attempt_ok_def)
  with assms(5) show ?thesis by (simp add: d_ok_def)
qed

theorem verified_needs_both_sides_witness: "d_barrier (ex_d ex_done) = Two_side_terminal"
  using verified_needs_both_sides [OF ex_reachable(7) ex_done_room(2-5)] by blast

end
