(* ===== verification/Authority_Commands.thy ===== *)
theory Authority_Commands
  imports Authority_Example
begin

section \<open>The room authority: properties of the commands\<close>

text \<open>
  What one member command does: replay of a remembered command, the errors a command can
  end with, the order of the attempt phases, and when an attempt begins.
\<close>

subsection \<open>Replay\<close>

text \<open>Who a token speaks for: no command changes it.\<close>

definition token_member :: "db \<Rightarrow> string \<Rightarrow> string option" where
  "token_member d h = map_option cr_member (List.find (\<lambda>c. cr_token c = h) (creds d))"

lemma token_member_map:
  assumes "creds d' = map g (creds d)" "\<And>c. cr_token (g c) = cr_token c" "\<And>c. cr_member (g c) = cr_member c"
  shows "token_member d' h = token_member d h"
proof -
  have "List.find (\<lambda>c. cr_token c = h) (map g cs) = map_option g (List.find (\<lambda>c. cr_token c = h) cs)" for cs
    by (rule find_map_ids) (simp add: assms(2))
  then show ?thesis by (simp add: token_member_def assms option.map_comp comp_def)
qed

lemma commit_keeps:
  "token_member (snd (commit e a r k p rv d)) h = token_member d h"
  "commands (snd (commit e a r k p rv d)) = commands d"
proof -
  have c: "creds (snd (commit e a r k p rv d)) = map (\<lambda>c. if revoked rv (r_id r) c then c\<lparr>cr_active := False\<rparr> else c) (creds d)"
    by (simp add: commit_def emit_def Let_def revoke_def save_room_def)
  show "token_member (snd (commit e a r k p rv d)) h = token_member d h"
    by (rule token_member_map [OF c]) simp_all
  show "commands (snd (commit e a r k p rv d)) = commands d"
    by (simp add: commit_def emit_def Let_def revoke_def save_room_def)
qed

lemma load_keeps:
  assumes "load e i d = Inr (r, d1)"
  shows "token_member d1 h = token_member d h" "commands d1 = commands d"
proof -
  have "token_member d1 h = token_member d h \<and> commands d1 = commands d"
    using assms by (rule load_Inr) (auto simp: expire_commit commit_keeps dest!: arg_cong [of _ _ snd])
  then show "token_member d1 h = token_member d h" "commands d1 = commands d" by simp_all
qed

lemma credentials_keeps:
  assumes "credentials e b room d = Inr ((r, mid), d1)"
  shows "token_member d (en_hash e b) = Some mid" "token_member d1 h = token_member d h"
    "commands d1 = commands d"
proof -
  from assms obtain c where f: "List.find (\<lambda>c. cr_token c = en_hash e b) (creds d) = Some c"
    and m: "cr_member c = mid" and l: "load e (cr_room c) d = Inr (r, d1)"
    unfolding credentials_def by (auto split: option.splits if_splits)
  from f m show "token_member d (en_hash e b) = Some mid" by (simp add: token_member_def)
  from load_keeps [OF l] show "token_member d1 h = token_member d h" "commands d1 = commands d"
    by simp_all
qed

lemma find_command_cong: "commands d = commands d' \<Longrightarrow> find_command d s c = find_command d' s c"
  by (simp add: find_command_def)

lemma find_append: "List.find P xs = None \<Longrightarrow> P y \<Longrightarrow> List.find P (xs @ [y]) = Some y"
  by (induction xs) (auto split: if_splits)

lemma remember_find:
  "remember e scope cid v d = Inr d' \<Longrightarrow> map_option c_reply (find_command d' scope cid) = Some v"
  by (auto simp: remember_def find_command_def find_append split: if_splits)

lemma remember_keeps: "remember e scope cid v d = Inr d' \<Longrightarrow> token_member d' h = token_member d h"
  by (auto simp: remember_def token_member_def split: if_splits)

lemma answer_keeps:
  assumes "answer e scope cid r mid d = Inr (v, d')"
  shows "map_option c_reply (find_command d' scope cid) = Some v" "token_member d' h = token_member d h"
  using assms remember_find remember_keeps by (auto simp: answer_def)

lemma member_reply_keeps:
  assumes "member_reply e scope cid body r mid d = Inr (v, d')"
  shows "map_option c_reply (find_command d' scope cid) = Some v \<and> token_member d' h = token_member d h
    \<and> cid \<noteq> []"
proof -
  from assms obtain cached where c: "command_response scope cid d = Inr cached"
    and r: "(case cached of Some v \<Rightarrow> Inr (v, d)
        | None \<Rightarrow> bindr (body r mid) (apply_change e scope cid r mid d)) = Inr (v, d')"
    unfolding member_reply_def bindr_eq_Inr by blast
  have n: "cid \<noteq> []" "cached = map_option c_reply (find_command d scope cid)"
    using c by (auto simp: command_response_def split: if_splits)
  show ?thesis
  proof (cases cached)
    case (Some w)
    with r have "w = v" "d = d'" by simp_all
    with Some n show ?thesis by auto
  next
    case None
    with r obtain ch where a: "apply_change e scope cid r mid d ch = Inr (v, d')" by auto
    show ?thesis
    proof (cases ch)
      case Reply_only
      with a n answer_keeps show ?thesis by (auto simp: apply_change_def)
    next
      case (Change r' k p rv)
      with a have "answer e scope cid (fst (commit e (Some mid) r' k p rv d)) mid
          (snd (commit e (Some mid) r' k p rv d)) = Inr (v, d')"
        by (simp add: apply_change_def case_prod_unfold Let_def)
      from answer_keeps [OF this] n commit_keeps show ?thesis by auto
    qed
  qed
qed

lemma member_op_Inr:
  assumes "member_op e rid b cid label body s = (s1, Inr v)"
  obtains r mid d d1 where "credentials e b (Some rid) (st_db s) = Inr ((r, mid), d)"
    "member_reply e (member_scope mid label) cid body r mid d = Inr (v, d1)" "s1 = s\<lparr>st_db := d1\<rparr>"
  using assms unfolding member_op_def by (auto split: sum.splits)

lemma member_op_replay:
  assumes m: "member_op e rid b cid label body s = (s1, Inr v)" and h: "en_hash e' b = en_hash e b"
    and c: "credentials e' b (Some rid) (st_db s1) = Inr ((r, mid), d)"
  shows "member_op e' rid b cid label body' s1 = (s1\<lparr>st_db := d\<rparr>, Inr v)"
proof -
  obtain r0 mid0 d0 d1 where 1: "credentials e b (Some rid) (st_db s) = Inr ((r0, mid0), d0)"
    and 2: "member_reply e (member_scope mid0 label) cid body r0 mid0 d0 = Inr (v, d1)"
    and 3: "s1 = s\<lparr>st_db := d1\<rparr>"
    using m by (rule member_op_Inr)
  note k = member_reply_keeps [OF 2]
  have "token_member d1 (en_hash e b) = Some mid0"
    using credentials_keeps(1,2) [OF 1] k by metis
  moreover have "token_member d1 (en_hash e b) = Some mid"
    using credentials_keeps(1) [OF c] h by (simp add: 3)
  ultimately have mid: "mid = mid0" by simp
  have "find_command d (member_scope mid label) cid = find_command d1 (member_scope mid label) cid"
    using credentials_keeps(3) [OF c] by (intro find_command_cong) (simp add: 3)
  then have "command_response (member_scope mid label) cid d = Inr (Some v)"
    using k by (auto simp: command_response_def mid)
  then show ?thesis by (simp add: member_op_def c member_reply_def)
qed

text \<open>
  A repeated command is answered with the remembered reply and changes nothing: when the
  same bearer sends a command id again, with any payload and any expected version, the reply
  is the first one and the store is the one the credential check left.
\<close>

theorem command_replay:
  assumes "mutate e rid b cid name p x s = (s1, Inr v)" "en_hash e' b = en_hash e b"
    and "credentials e' b (Some rid) (st_db s1) = Inr ((r, mid), d)"
  shows "mutate e' rid b cid name p' x' s1 = (s1\<lparr>st_db := d\<rparr>, Inr v)"
  using member_op_replay [OF assms(1) [unfolded mutate_def] assms(2,3)] by (simp add: mutate_def)

lemma ex_replay_eval:
  "(case mutate (ex_env 3 ''d'') ''a'' ''tb'' ''k4'' ''ready'' (ready_as ''finder'') (Some 3) ex_chosen of
     (s, Inl err) \<Rightarrow> False
   | (s, Inr v) \<Rightarrow> (case credentials (ex_env 9 ''z'') ''tb'' (Some ''a'') (st_db s) of
        Inl err \<Rightarrow> False | Inr z \<Rightarrow> True))"
  by code_simp

theorem command_replay_witness:
  "\<exists>v d. mutate (ex_env 9 ''z'') ''a'' ''tb'' ''k4'' ''ready'' [] None ex_started = (ex_started\<lparr>st_db := d\<rparr>, Inr v)"
proof -
  from ex_replay_eval obtain v z where
    1: "mutate (ex_env 3 ''d'') ''a'' ''tb'' ''k4'' ''ready'' (ready_as ''finder'') (Some 3) ex_chosen = (ex_started, Inr v)"
    and 2: "credentials (ex_env 9 ''z'') ''tb'' (Some ''a'') (st_db ex_started) = Inr z"
    by (auto simp: ex_started_def split: prod.splits sum.splits)
  obtain r mid d where z: "z = ((r, mid), d)" by (metis surj_pair)
  have "en_hash (ex_env 9 ''z'') ''tb'' = en_hash (ex_env 3 ''d'') ''tb''" by (simp add: ex_env_def)
  from command_replay [OF 1 this 2 [unfolded z]] show ?thesis by blast
qed

subsection \<open>Errors\<close>

definition clean_error :: "auth_error \<Rightarrow> bool" where
  "clean_error err = (case err of Denied st msg \<Rightarrow> st \<in> {400, 401, 403, 404, 409} | _ \<Rightarrow> False)"

lemma clean_Denied [simp]: "clean_error (Denied st msg) \<longleftrightarrow> st \<in> {400, 401, 403, 404, 409}"
  by (simp add: clean_error_def)

lemma load_Inl:
  assumes "load e i d = Inl err" "db_ok d"
  shows "clean_error err"
proof -
  have "room_ok r" if "find_room d i = Some r" for r
    using find_room_ok [OF that assms(2)] by simp
  then have "waiting_expired e r \<noteq> Inl x" if "find_room d i = Some r" for r x
    using that by (auto simp: waiting_expired_def room_ok_def split: option.splits)
  with assms(1) show ?thesis
    unfolding load_def by (auto simp: bindr_eq_Inl split: option.splits if_splits)
qed

lemma credentials_Inl:
  assumes "credentials e b room d = Inl err" "db_ok d"
  shows "clean_error err"
  using assms load_Inl unfolding credentials_def
  by (auto simp: bindr_eq_Inl split: option.splits if_splits)

lemma begin_attempt_total:
  assumes "both_roles r"
  shows "begin_attempt e r \<noteq> Inl err"
proof -
  have "Some Creator \<in> mb_role ` set (filter live (r_members r))"
    using assms unfolding both_roles_def by simp
  then have "List.find (\<lambda>m. mb_role m = Some Creator) (filter live (r_members r)) \<noteq> None"
    by (auto simp: find_None_iff)
  then show ?thesis by (auto simp: begin_attempt_def Let_def)
qed

lemma begin_bind_Inl:
  "both_roles r \<Longrightarrow> bindr (begin_attempt e r) f = Inl err \<Longrightarrow> (\<exists>x. f x = Inl err)"
  using begin_attempt_total by (auto simp: bindr_eq_Inl)

lemma ready_Inl: "do_ready e r mid p = Inl err \<Longrightarrow> clean_error err"
  unfolding do_ready_def Let_def
  by (auto split: if_splits option.splits dest!: begin_bind_Inl [rotated])

lemma action_Inl:
  assumes "do_action a e r mid p = Inl err"
  shows "clean_error err"
proof (cases a)
  case A_ready
  with assms ready_Inl show ?thesis by simp
next
  case A_attempt
  with assms show ?thesis
    by (auto simp: do_attempt_def split: if_splits dest!: begin_bind_Inl [rotated])
next
  case A_phase
  with assms show ?thesis
    by (auto simp: do_phase_def with_attempt_def phase_change_def Let_def split: if_splits option.splits)
qed (use assms in \<open>auto simp: do_heartbeat_def do_claim_creator_def do_transfer_creator_def
    do_lock_role_def do_leave_def do_remove_offline_def do_close_def with_attempt_def Let_def
    split: if_splits option.splits\<close>)

lemma handle_Inl:
  "handle e name p x r mid = Inl err \<Longrightarrow> seated mid r \<Longrightarrow> clean_error err"
  by (auto simp: handle_def Let_def seated_def split: if_splits option.splits intro: action_Inl)

lemma d_identity_Inl: "d_identity r mid aid = Inl err \<Longrightarrow> clean_error err"
  by (auto simp: d_identity_def split: option.splits if_splits)

lemma quiescent_report_Inl: "quiescent_report e s d aid p = Inl err \<Longrightarrow> clean_error err"
  unfolding quiescent_report_def
  by (auto split: if_splits option.splits json.splits scalar.splits)

lemma quiescent_change_Inl: "quiescent_change e x a s d y r = Inl err \<Longrightarrow> clean_error err"
  by (auto simp: quiescent_change_def split: option.splits if_splits)

lemma handle_quiescent_Inl:
  assumes "handle_quiescent e aid p x r mid = Inl err"
  shows "clean_error err"
proof (cases "d_identity r mid aid")
  case (Inl x)
  with assms d_identity_Inl show ?thesis by (auto simp: handle_quiescent_def)
next
  case (Inr z)
  obtain a m where z: "z = (a, m)" by (cases z)
  show ?thesis
  proof (cases "at_d a")
    case None
    with assms Inr z show ?thesis by (auto simp: handle_quiescent_def)
  next
    case (Some d)
    with assms Inr z quiescent_report_Inl quiescent_change_Inl show ?thesis
      by (auto simp: handle_quiescent_def bindr_eq_Inl split: if_splits)
  qed
qed

lemma member_reply_Inl:
  assumes m: "member_reply e scope cid body r mid d = Inl err"
    and body: "\<And>err. body r mid = Inl err \<Longrightarrow> clean_error err"
  shows "clean_error err"
proof -
  have rem: "answer e scope cid q mid d' \<noteq> Inl x" if "find_command d scope cid = None" "commands d' = commands d" for q d' x
    using that find_command_cong [OF that(2)] by (simp add: answer_def remember_def)
  from m consider "clean_error err" | ch where "find_command d scope cid = None"
      "apply_change e scope cid r mid d ch = Inl err"
    unfolding member_reply_def
    by (auto simp: bindr_eq_Inl command_response_def body split: option.splits if_splits)
  then show ?thesis
  proof cases
    case 2
    with rem commit_keeps(2) show ?thesis
      by (cases ch) (auto simp: apply_change_def case_prod_unfold Let_def)
  qed
qed

lemma member_op_Inl:
  assumes m: "member_op e rid b cid label body s = (s1, Inl err)" and ok: "db_ok (st_db s)"
    and body: "\<And>r mid err. body r mid = Inl err \<Longrightarrow> seated mid r \<Longrightarrow> clean_error err"
  shows "clean_error err \<and> s1 = s"
proof (cases "credentials e b (Some rid) (st_db s)")
  case (Inl x)
  with m credentials_Inl [OF Inl ok] show ?thesis by (simp add: member_op_def)
next
  case (Inr z)
  obtain r mid d where z: "z = ((r, mid), d)" by (metis surj_pair)
  note cr = Inr [unfolded z]
  have st: "seated mid r" using cr ok by (rule credentials_Inr)
  have "member_reply e (member_scope mid label) cid body r mid d = Inl err" "s1 = s"
    using m cr by (auto simp: member_op_def split: sum.splits)
  with member_reply_Inl [OF this(1)] body st show ?thesis by blast
qed

text \<open>
  C32: A room command or an acknowledgement that fails in a reachable store fails cleanly:
  the store is unchanged and the error is one of the authority's own refusals with status
  400, 401, 403, 404 or 409; no lookup fails, no comparison with a missing value happens and
  no uniqueness constraint is violated.
\<close>

theorem commands_fail_cleanly:
  assumes "reachable s"
    and "mutate e rid b cid name p x s = (s1, Inl err)
       \<or> acknowledge_d_quiescent e rid b cid aid dp x s = (s1, Inl err)"
  shows "clean_error err \<and> s1 = s"
  using assms(2) reachable_ok [OF assms(1)] unfolding mutate_def acknowledge_d_quiescent_def
  by (auto dest!: member_op_Inl intro: handle_Inl handle_quiescent_Inl)

theorem commands_fail_cleanly_witness:
  "clean_error (Denied 401 ''member credential is required'')"
  using commands_fail_cleanly [OF ex_reachable(2), of "ex_env 2 ''c''" "''a''" "''''" "''k''" "''ready''" "[]" None]
  by (simp add: mutate_def member_op_def credentials_def)

text \<open>
  The commands of a member fail cleanly, but a reconnection may not: the row of a member
  who left stays in the credentials, and when the seat has been taken again the member is no
  longer in the document.
\<close>

definition ex_left :: store where
  "ex_left = fst (mutate (ex_env 2 ''c'') ''a'' ''tb'' ''l1'' ''leave'' [] (Some 2) ex_joined)"

definition ex_replaced :: store where
  "ex_replaced = fst (join (ex_env 3 ''d'') ''ABC123'' ''Green'' ''l2'' '''' ex_left)"

lemma ex_fresh_left: "fresh (ex_env 3 ''d'') (st_db ex_left)"
  by code_simp

lemma ex_replaced_reachable: "reachable ex_replaced"
  unfolding ex_replaced_def
  by (rule reachable.call [OF _ s_join [OF ex_fresh_left]], unfold ex_left_def,
      rule reachable.call [OF ex_reachable(2) s_mutate])

text \<open>
  In a reachable store the reconnection with the token of a member who left and was
  replaced ends with a failed lookup (an unhandled exception), not with one of the
  authority's refusals.
\<close>

theorem reconnect_of_replaced_member_raises:
  "reachable ex_replaced
   \<and> snd (reconnect (ex_env 4 ''e'') ''a'' ''tbk'' ''l3'' ex_replaced) = Inl Stop_iteration"
proof
  show "snd (reconnect (ex_env 4 ''e'') ''a'' ''tbk'' ''l3'' ex_replaced) = Inl Stop_iteration"
    by code_simp
qed (rule ex_replaced_reachable)

subsection \<open>The attempt\<close>

lemma begin_attempt_Inr:
  assumes "begin_attempt e r = Inr r'"
  obtains m where "m \<in> set (filter live (r_members r))" "mb_role m = Some Creator"
    "r_members r' = r_members r" "r_last_attempt r' = r_last_attempt r + 1"
    "r_attempt r' = Some \<lparr>at_id = en_uuid e 0, at_number = r_last_attempt r + 1,
       at_generation = r_last_attempt r + 1, at_phase = Connecting_switches, at_creator = Some (mb_id m),
       at_locked = True, at_lock_version = r_version r + 1, at_started = en_now e,
       at_updated = en_now e, at_retry = 0, at_error = None, at_d = None\<rparr>"
proof -
  from assms obtain m where f: "List.find (\<lambda>m. mb_role m = Some Creator) (filter live (r_members r)) = Some m"
    and r': "r' = r\<lparr>r_last_attempt := r_last_attempt r + 1, r_attempt := Some \<lparr>at_id = en_uuid e 0,
       at_number = r_last_attempt r + 1, at_generation = r_last_attempt r + 1,
       at_phase = Connecting_switches, at_creator = Some (mb_id m),
       at_locked = True, at_lock_version = r_version r + 1, at_started = en_now e,
       at_updated = en_now e, at_retry = 0, at_error = None, at_d = None\<rparr>,
       r_state := Connection_attempt\<rparr>"
    by (auto simp: begin_attempt_def Let_def split: option.splits)
  have "m \<in> set (filter live (r_members r)) \<and> mb_role m = Some Creator"
    using f by (auto simp: find_Some_iff dest: nth_mem)
  then show thesis by (intro that [of m]) (simp_all add: r')
qed

text \<open>What a ready command or an attempt command does to the attempt.\<close>

lemma ready_attempt:
  assumes "do_ready e r mid p = Inr (Change r' k q rv)"
  shows "r_attempt r' = r_attempt r \<or> r_attempt r' = None
    \<or> (\<exists>r2. both_ready r2 \<and> both_roles r2 \<and> begin_attempt e r2 = Inr r' \<and> r_last_attempt r2 = r_last_attempt r)"
  using assms unfolding do_ready_def Let_def by (auto split: if_splits option.splits)

lemma action_attempt:
  assumes c: "do_action act e r mid p = Inr (Change r' k q rv)" and n: "act \<notin> {A_lock_role, A_phase}"
    and ok: "room_ok r"
  shows "r_attempt r' = r_attempt r \<or> r_attempt r' = None
    \<or> (act = A_close \<and> room_over r' \<and> (\<forall>a'. r_attempt r' = Some a' \<longrightarrow> \<not> active_phase a'))
    \<or> (\<exists>r2. both_ready r2 \<and> both_roles r2 \<and> begin_attempt e r2 = Inr r' \<and> r_last_attempt r2 = r_last_attempt r)"
proof (cases act)
  case A_ready
  with c ready_attempt show ?thesis by auto
next
  case A_attempt
  with c show ?thesis by (auto simp: do_attempt_def split: if_splits)
next
  case A_close
  with c show ?thesis
    by (auto simp: do_close_def Let_def room_over_def active_phase_def terminal_phases_def split: if_splits)
next
  case A_claim_creator
  with c claim_denied [OF ok] show ?thesis by auto
next
  case A_transfer_creator
  with c transfer_denied [OF ok] show ?thesis by auto
qed (use c n in \<open>auto simp: do_heartbeat_def do_leave_def do_remove_offline_def take_out_def Let_def
    split: if_splits option.splits\<close>)


text \<open>The examples below look at the room a handler's change leads to.\<close>

definition changes_to :: "(room \<Rightarrow> bool) \<Rightarrow> auth_error + change \<Rightarrow> bool" where
  "changes_to P h = (case h of Inl err \<Rightarrow> False
     | Inr ch \<Rightarrow> (case ch of Reply_only \<Rightarrow> False | Change r' k q rv \<Rightarrow> P r'))"

lemma changes_toD: "changes_to P h \<Longrightarrow> \<exists>r' k q rv. h = Inr (Change r' k q rv) \<and> P r'"
  by (auto simp: changes_to_def split: sum.splits change.splits)



text \<open>
  No command but the role lock moves an attempt backward: as long as the room shows the
  same attempt its phase only advances, and a completed, canceled or failed attempt keeps
  its phase.
\<close>

theorem phase_never_backward:
  assumes "handle e name p x r mid = Inr (Change r' k q rv)" "room_ok r"
    and "name \<noteq> ''lock_role''"
    and "r_attempt r = Some a" "r_attempt r' = Some a'" "at_number a' = at_number a"
  shows "at_phase a \<le> at_phase a' \<and> (\<not> active_phase a \<longrightarrow> at_phase a' = at_phase a)"
proof -
  obtain act where act: "action_of name = Some act" "do_action act e r mid p = Inr (Change r' k q rv)"
    using handle_Inr [OF assms(1)] by blast
  have lock: "act \<noteq> A_lock_role"
    using act(1) assms(3) by (auto simp: action_of_def split: if_splits)
  have num: "at_number a \<le> r_last_attempt r" using room_ok_attempt assms(2,4) by blast
  show ?thesis
  proof (cases "act = A_phase")
    case True
    with act(2) assms(4) obtain ph where "phase_change e ph p a r = Inr (Change r' k q rv)"
      by (auto simp: do_phase_def with_attempt_Inr split: option.splits)
    from phase_change_Inr [OF this] assms(5) show ?thesis
      by (auto simp: refine_failure_def enter_phase_def Let_def less_eq_attempt_phase_def active_phase_def
          split: if_splits)
  next
    case False
    with action_attempt [OF act(2) _ assms(2)] lock
    consider "r_attempt r' = r_attempt r" | "act = A_close"
      | r2 where "begin_attempt e r2 = Inr r'" "r_last_attempt r2 = r_last_attempt r"
      using assms(5) by auto
    then show ?thesis
    proof cases
      case 1
      with assms(4,5) show ?thesis by simp
    next
      case 2
      with act(2) assms(4,5) show ?thesis
        by (auto simp: do_close_def Let_def active_phase_def less_eq_attempt_phase_def terminal_order
            phase_order_top split: if_splits)
    next
      case 3
      then have "at_number a' = r_last_attempt r + 1"
        using assms(5) by (elim begin_attempt_Inr) auto
      with num assms(6) show ?thesis by simp
    qed
  qed
qed

definition ex_phase :: payload where
  "ex_phase = [(''phase'', S_str ''trading_room''), (''attempt_id'', S_str ''d'')]"

lemma ex_started_eval:
  "map r_id (rooms (st_db ex_started)) = [''a''] \<and>
   (case r_attempt (ex_first ex_started) of None \<Rightarrow> False | Some a \<Rightarrow>
      changes_to (\<lambda>r'. case r_attempt r' of None \<Rightarrow> False | Some a' \<Rightarrow> at_number a' = at_number a)
        (handle (ex_env 4 ''e'') ''phase'' ex_phase (Some 4) (ex_first ex_started) ''ai''))"
  by code_simp

theorem phase_never_backward_witness:
  "\<exists>a (a' :: attempt). r_attempt (ex_first ex_started) = Some a \<and> at_phase a \<le> at_phase a' \<and> at_number a' = at_number a"
proof -
  from ex_started_eval obtain r' k q rv a a' where
    h: "handle (ex_env 4 ''e'') ''phase'' ex_phase (Some 4) (ex_first ex_started) ''ai'' = Inr (Change r' k q rv)"
    and a: "r_attempt (ex_first ex_started) = Some a" "r_attempt r' = Some a'" "at_number a' = at_number a"
    by (auto dest!: changes_toD split: option.splits)
  have f: "find_room (st_db ex_started) ''a'' = Some (ex_first ex_started)"
    using ex_started_eval single_room [of ex_started "''a''"] by simp
  have ok: "room_ok (ex_first ex_started)" using find_room_ok [OF f reachable_ok [OF ex_reachable(4)]] by simp
  have "at_phase a \<le> at_phase a'" using phase_never_backward [OF h ok _ a] by simp
  with a show ?thesis by blast
qed

text \<open>
  The role lock is the exception: on the current attempt it succeeds in every phase and
  sets the phase back to connecting the switches, even when the attempt is over or its
  closing outcome is already recorded.
\<close>

theorem lock_role_reopens_attempt:
  assumes "room_ok r" "\<not> room_over r" "seated mid r" "r_attempt r = Some a"
    and "pget p ''attempt_id'' = S_str (at_id a)"
  shows "\<exists>r' a'. handle e ''lock_role'' p (Some (r_version r)) r mid
      = Inr (Change r' ''attempt.role_locked'' p Revoke_none)
    \<and> r_attempt r' = Some a' \<and> at_number a' = at_number a \<and> at_d a' = at_d a
    \<and> at_phase a' = Connecting_switches"
proof -
  have "at_creator a \<noteq> None" using room_ok_attempt [OF assms(1,4)] by (simp add: attempt_ok_def)
  moreover have "find_member mid r \<noteq> None" using assms(3) by (auto simp: seated_def)
  ultimately show ?thesis
    using assms(2,4,5)
    by (simp add: handle_def Let_def action_of_def do_lock_role_def with_attempt_def)
qed

lemma ex_done_owner:
  "\<not> room_over (ex_first ex_done) \<and> at_id (ex_attempt ex_done) = ''d'' \<and> r_owner (ex_first ex_done) = ''ai''"
  by code_simp

theorem lock_role_reopens_attempt_witness:
  "at_phase (ex_attempt ex_done) = Completed \<and>
   (\<exists>r' a' k p rv. handle (ex_env 7 ''h'') ''lock_role'' [(''attempt_id'', S_str ''d'')]
      (Some (r_version (ex_first ex_done))) (ex_first ex_done) ''ai'' = Inr (Change r' k p rv)
    \<and> r_attempt r' = Some a' \<and> at_phase a' = Connecting_switches)"
proof -
  have ok: "room_ok (ex_first ex_done)"
    using find_room_ok [OF ex_done_room(1) reachable_ok [OF ex_reachable(7)]] by simp
  have "seated ''ai'' (ex_first ex_done)"
    unfolding seated_iff [OF ok] using ok ex_done_owner by (auto simp: room_ok_def)
  moreover have "pget [(''attempt_id'', S_str ''d'')] ''attempt_id'' = S_str (at_id (ex_attempt ex_done))"
    using ex_done_owner by (simp add: pget_def)
  ultimately show ?thesis
    using lock_role_reopens_attempt [OF ok _ _ ex_done_room(3)] ex_done_owner ex_done_room(6) by blast
qed

end
