(* ===== verification/Trade_Entry.thy ===== *)
theory Trade_Entry
  imports Mon Barrier Block Linkplayer
begin

section \<open>Trade vocabulary and the room entry (\<open>bridge/frlgsim/trade.py\<close>)\<close>

text \<open>
  The opcodes of the 20-byte LINKCMD blocks and their builder, the choice of the party slots
  given away in the successive trades, and \<^verbatim>\<open>EntryPhase\<close>: the one-shot progression from
  the union room to the trade, whose phase only moves forward.
\<close>

subsection \<open>LINKCMD blocks\<close>

definition ready_to_trade :: int where "ready_to_trade = 0xAABB"
definition set_mons_to_trade :: int where "set_mons_to_trade = 0xDDDD"
definition init_block :: int where "init_block = 0xBBBB"
definition start_trade :: int where "start_trade = 0xCCDD"
definition ready_finish_trade :: int where "ready_finish_trade = 0xABCD"
definition confirm_finish_trade :: int where "confirm_finish_trade = 0xDCBA"
definition request_cancel :: int where "request_cancel = 0xEEAA"
definition ready_cancel_trade :: int where "ready_cancel_trade = 0xBBCC"
definition player_cancel_trade :: int where "player_cancel_trade = 0xDDEE"
definition both_cancel_trade :: int where "both_cancel_trade = 0xEEBB"
definition partner_cancel_trade :: int where "partner_cancel_trade = 0xEECC"

lemmas linkcmds = ready_to_trade_def set_mons_to_trade_def init_block_def start_trade_def
  ready_finish_trade_def confirm_finish_trade_def request_cancel_def ready_cancel_trade_def
  player_cancel_trade_def both_cancel_trade_def partner_cancel_trade_def

definition remote_trade_select :: int where "remote_trade_select = 1"
definition remote_trade_confirm :: int where "remote_trade_confirm = 2"
definition remote_trade_cancel :: int where "remote_trade_cancel = 3"

lemmas remote_types = remote_trade_select_def remote_trade_confirm_def remote_trade_cancel_def

definition leader_broadcast_opcodes :: "int list" where
  "leader_broadcast_opcodes =
     [set_mons_to_trade, start_trade, confirm_finish_trade, player_cancel_trade, both_cancel_trade,
      partner_cancel_trade]"

definition linkcmd_block :: "int \<Rightarrow> int \<Rightarrow> bytes" where
  "linkcmd_block cmd cursor = to_le 2 (cmd AND 0xFFFF) @ to_le 2 (cursor AND 0xFFFF) @ replicate 16 0"

definition linkcmd_of :: "bytes \<Rightarrow> int" where
  "linkcmd_of data = from_le (py_slice data 0 2)"

definition cursor_of :: "bytes \<Rightarrow> int" where
  "cursor_of data = from_le (py_slice data 2 4)"

lemma length_linkcmd_block [simp]: "length (linkcmd_block cmd cursor) = 20"
  by (simp add: linkcmd_block_def)

lemma linkcmd_of_block [simp]: "linkcmd_of (linkcmd_block cmd cursor) = cmd mod 65536"
proof -
  have "py_slice (linkcmd_block cmd cursor) 0 2 = to_le 2 (cmd AND 0xFFFF)"
    unfolding linkcmd_block_def by (subst slice_append_left) simp_all
  moreover have "cmd AND 0xFFFF = cmd mod 65536"
    using take_bit_eq_mask [of 16 cmd] by (simp add: take_bit_eq_mod mask_eq_exp_minus_1)
  ultimately show ?thesis by (simp add: linkcmd_of_def from_le_to_le)
qed

lemma cursor_of_block [simp]: "cursor_of (linkcmd_block cmd cursor) = cursor mod 65536"
proof -
  have "py_slice (linkcmd_block cmd cursor) 2 4 = to_le 2 (cursor AND 0xFFFF)"
    unfolding linkcmd_block_def
    by (subst slice_append_right) (simp_all add: slice_append_left)
  moreover have "cursor AND 0xFFFF = cursor mod 65536"
    using take_bit_eq_mask [of 16 cursor] by (simp add: take_bit_eq_mod mask_eq_exp_minus_1)
  ultimately show ?thesis by (simp add: cursor_of_def from_le_to_le)
qed

subsection \<open>The slots given away\<close>

definition resolve_offered_slots ::
  "int list option \<Rightarrow> int \<Rightarrow> nat \<Rightarrow> nat option \<Rightarrow> py_error + int list" where
  "resolve_offered_slots offered trade_slot trades party_sz =
     (case offered of
        Some slots \<Rightarrow>
          if length slots \<noteq> trades then Inl ValueError
          else if list_ex (\<lambda>s. s < 0) slots then Inl ValueError
          else if \<not> distinct slots then Inl ValueError
          else Inr slots
      | None \<Rightarrow>
          let seeded = map (\<lambda>i. trade_slot + int i) [0..<trades]
          in (case party_sz of
                Some n \<Rightarrow> if list_ex (\<lambda>s. int n \<le> s) seeded then Inr (map int [0..<trades]) else Inr seeded
              | None \<Rightarrow> Inr seeded))"

lemma resolve_offered_distinct:
  assumes "resolve_offered_slots offered trade_slot trades n = Inr slots"
  shows "length slots = trades \<and> distinct slots"
proof (cases offered)
  case None
  have "distinct (map (\<lambda>i. trade_slot + int i) [0..<trades])" "distinct (map int [0..<trades])"
    by (simp_all add: distinct_map inj_on_def)
  with assms None show ?thesis
    by (auto simp: resolve_offered_slots_def Let_def split: option.splits if_splits)
next
  case (Some xs)
  with assms show ?thesis by (auto simp: resolve_offered_slots_def split: if_splits)
qed

subsection \<open>The entry phases\<close>

datatype entry_phase =
    P0_warp_quiesce_1
  | P1_card_exchange
  | P2_seat_barrier
  | P3_warp_quiesce_2
  | P4_trade_menu
  | P5_in_trade

definition entry_phases :: "entry_phase list" where
  "entry_phases = [P0_warp_quiesce_1, P1_card_exchange, P2_seat_barrier, P3_warp_quiesce_2,
                   P4_trade_menu, P5_in_trade]"

definition phase_index :: "entry_phase \<Rightarrow> nat" where
  "phase_index p = index_of p entry_phases"

lemma phase_index_simps [simp]:
  "phase_index P0_warp_quiesce_1 = 0" "phase_index P1_card_exchange = 1"
  "phase_index P2_seat_barrier = 2" "phase_index P3_warp_quiesce_2 = 3"
  "phase_index P4_trade_menu = 4" "phase_index P5_in_trade = 5"
  by (simp_all add: phase_index_def entry_phases_def)

lemma phase_index_less: "phase_index p < 6"
  by (cases p) simp_all

lemma phase_index_inj: "phase_index p = phase_index q \<longleftrightarrow> p = q"
  by (cases p; cases q) simp_all

lemma entry_phases_nth: "entry_phases ! phase_index p = p"
  by (cases p) (simp_all add: entry_phases_def)

instantiation entry_phase :: linorder
begin

definition less_eq_entry_phase :: "entry_phase \<Rightarrow> entry_phase \<Rightarrow> bool" where
  "less_eq_entry_phase p q \<longleftrightarrow> phase_index p \<le> phase_index q"

definition less_entry_phase :: "entry_phase \<Rightarrow> entry_phase \<Rightarrow> bool" where
  "less_entry_phase p q \<longleftrightarrow> phase_index p < phase_index q"

instance
  by standard (auto simp: less_eq_entry_phase_def less_entry_phase_def phase_index_inj)

end

record room_entry =
  en_phase :: entry_phase
  en_history :: "entry_phase list"
  en_card_pulled :: bool
  en_card_supplied :: bool
  en_host_card :: "bytes option"
  en_seat_over :: bool
  en_complete :: bool

definition entry_new :: room_entry where
  "entry_new = \<lparr>en_phase = P0_warp_quiesce_1, en_history = [P0_warp_quiesce_1],
     en_card_pulled = False, en_card_supplied = False, en_host_card = None, en_seat_over = False,
     en_complete = False\<rparr>"

fun record_phases :: "entry_phase list \<Rightarrow> room_entry \<Rightarrow> room_entry" where
  "record_phases [] e = e"
| "record_phases (p # ps) e = record_phases ps (e\<lparr>en_phase := p, en_history := en_history e @ [p]\<rparr>)"

definition advance_to :: "entry_phase \<Rightarrow> room_entry \<Rightarrow> room_entry" where
  "advance_to phase e =
     (if phase \<le> en_phase e then e
      else
        let cur = phase_index (en_phase e);
            e1 = record_phases (py_slice entry_phases (cur + 1) (phase_index phase + 1)) e;
            e2 = (if P4_trade_menu \<le> phase then e1\<lparr>en_seat_over := True\<rparr> else e1)
        in if phase = P5_in_trade then e2\<lparr>en_complete := True\<rparr> else e2)"

definition on_card_req :: "room_entry \<Rightarrow> room_entry" where
  "on_card_req e =
     (if en_complete e then e
      else advance_to P1_card_exchange
             (if en_card_pulled e then e else e\<lparr>en_card_pulled := True\<rparr>))"

definition on_card_supplied :: "room_entry \<Rightarrow> room_entry" where
  "on_card_supplied e = (if en_complete e then e else e\<lparr>en_card_supplied := True\<rparr>)"

definition on_host_card :: "bytes \<Rightarrow> room_entry \<Rightarrow> room_entry" where
  "on_host_card data100 e =
     (if en_complete e then e
      else advance_to P1_card_exchange (e\<lparr>en_host_card := Some (take 100 data100)\<rparr>))"

definition on_seat_reached :: "room_entry \<Rightarrow> room_entry" where
  "on_seat_reached e = (if en_complete e then e else advance_to P2_seat_barrier e)"

definition on_trade_menu_open :: "room_entry \<Rightarrow> room_entry" where
  "on_trade_menu_open e = advance_to P4_trade_menu e"

definition on_trade_menu_live :: "room_entry \<Rightarrow> room_entry" where
  "on_trade_menu_live e = advance_to P5_in_trade e"

lemmas entry_ops = on_card_req_def on_card_supplied_def on_host_card_def on_seat_reached_def
  on_trade_menu_open_def on_trade_menu_live_def

subsection \<open>The phase is the history, and only grows\<close>

definition entry_ok :: "room_entry \<Rightarrow> bool" where
  "entry_ok e \<longleftrightarrow> en_history e = take (Suc (phase_index (en_phase e))) entry_phases
     \<and> (en_seat_over e \<longleftrightarrow> P4_trade_menu \<le> en_phase e)
     \<and> (en_complete e \<longleftrightarrow> en_phase e = P5_in_trade)"

definition entry_follows :: "room_entry \<Rightarrow> room_entry \<Rightarrow> bool" where
  "entry_follows e e' \<longleftrightarrow> (entry_ok e \<longrightarrow> entry_ok e') \<and> en_phase e \<le> en_phase e'
     \<and> take (length (en_history e)) (en_history e') = en_history e
     \<and> (en_seat_over e \<longrightarrow> en_seat_over e') \<and> (en_complete e \<longrightarrow> en_complete e')"

lemma entry_new_ok [simp]: "entry_ok entry_new"
  by (simp add: entry_ok_def entry_new_def less_eq_entry_phase_def)
     (simp add: entry_phases_def)

lemma entry_follows_refl [simp]: "entry_follows e e"
  by (simp add: entry_follows_def)

lemma entry_follows_trans: "entry_follows a b \<Longrightarrow> entry_follows b c \<Longrightarrow> entry_follows a c"
proof -
  assume h: "entry_follows a b" "entry_follows b c"
  have "take (length (en_history a)) (en_history c) = en_history a"
  proof -
    have "take (length (en_history b)) (en_history c) = en_history b"
      "take (length (en_history a)) (en_history b) = en_history a"
      using h by (simp_all add: entry_follows_def)
    then show ?thesis by (metis length_take min.cobounded1 min_def take_take)
  qed
  with h show ?thesis by (auto simp: entry_follows_def)
qed

lemma record_phases_simps [simp]:
  "en_history (record_phases ps e) = en_history e @ ps"
  "en_phase (record_phases ps e) = (if ps = [] then en_phase e else last ps)"
  "en_seat_over (record_phases ps e) = en_seat_over e"
  "en_complete (record_phases ps e) = en_complete e"
  by (induction ps arbitrary: e) auto

lemma phase_slice:
  assumes "p < q"
  shows "py_slice entry_phases (phase_index p + 1) (phase_index q + 1) \<noteq> []"
    and "last (py_slice entry_phases (phase_index p + 1) (phase_index q + 1)) = q"
    and "take (Suc (phase_index p)) entry_phases @ py_slice entry_phases (phase_index p + 1) (phase_index q + 1)
           = take (Suc (phase_index q)) entry_phases"
  using assms by (cases p; cases q; simp add: less_entry_phase_def entry_phases_def py_slice_def)+

lemma advance_to_phase:
  "en_phase (advance_to p e) = max (en_phase e) p"
proof (cases "p \<le> en_phase e")
  case True
  then show ?thesis by (auto simp: advance_to_def max_def)
next
  case False
  then have lt: "en_phase e < p" by simp
  define sl where "sl = py_slice entry_phases (phase_index (en_phase e) + 1) (phase_index p + 1)"
  have "en_phase (advance_to p e) = en_phase (record_phases sl e)"
    using False unfolding advance_to_def Let_def sl_def by (simp del: record_phases_simps)
  also have "\<dots> = p" using phase_slice(1,2) [OF lt] by (simp add: sl_def)
  finally show ?thesis using lt by (simp add: max_absorb2 less_imp_le)
qed

lemma advance_to_follows: "entry_follows e (advance_to p e)"
proof (cases "p \<le> en_phase e")
  case True
  then show ?thesis by (simp add: advance_to_def)
next
  case False
  then have lt: "en_phase e < p" by simp
  note sl = phase_slice [OF lt]
  have hist: "en_history (advance_to p e)
      = en_history e @ py_slice entry_phases (phase_index (en_phase e) + 1) (phase_index p + 1)"
    using False by (simp add: advance_to_def Let_def)
  have seat: "en_seat_over (advance_to p e) \<longleftrightarrow> en_seat_over e \<or> P4_trade_menu \<le> p"
    using False by (simp add: advance_to_def Let_def)
  have compl: "en_complete (advance_to p e) \<longleftrightarrow> en_complete e \<or> p = P5_in_trade"
    using False by (simp add: advance_to_def Let_def)
  have ph: "en_phase (advance_to p e) = p"
    using lt by (simp add: advance_to_phase max_absorb2 less_imp_le)
  have top: "en_phase e \<noteq> P5_in_trade"
    using lt by (cases p) (auto simp: less_entry_phase_def)
  have "entry_ok e \<Longrightarrow> entry_ok (advance_to p e)"
    using lt top sl(3) by (auto simp: entry_ok_def hist seat compl ph simp del: One_nat_def)
  then show ?thesis
    using lt by (auto simp: entry_follows_def hist seat compl ph)
qed

lemma entry_upd_follows [simp]:
  "entry_follows e (e\<lparr>en_card_pulled := b\<rparr>)" "entry_follows e (e\<lparr>en_card_supplied := b\<rparr>)"
  "entry_follows e (e\<lparr>en_host_card := c\<rparr>)"
  by (simp_all add: entry_follows_def entry_ok_def)

lemma entry_ops_follow:
  "entry_follows e (on_card_req e)" "entry_follows e (on_card_supplied e)"
  "entry_follows e (on_host_card d e)" "entry_follows e (on_seat_reached e)"
  "entry_follows e (on_trade_menu_open e)" "entry_follows e (on_trade_menu_live e)"
  unfolding entry_ops
  by (auto intro: advance_to_follows entry_follows_trans [OF entry_upd_follows(1)]
        entry_follows_trans [OF entry_upd_follows(3)])

end
