(* ===== verification/Trade.thy ===== *)
theory Trade
  imports Trade_Entry
begin

section \<open>The joiner's trade engine (\<open>bridge/frlgsim/trade.py\<close>)\<close>

text \<open>
  \<^verbatim>\<open>TradeEngine\<close> field by field and method by method.  A Mon is its 100 bytes, a decoded
  frame is the \<^typ>\<open>t_frame\<close> of the frame parser, and a call of \<^verbatim>\<open>remote_hook\<close> is
  recorded, in order, in the outbox \<open>te_relayed\<close>.  An exception is an \<^const>\<open>Inl\<close>.  Log
  and milestone lines, and the log-only flag \<^verbatim>\<open>_player_ids_seen\<close> they guard, are not
  modelled; nor is \<^verbatim>\<open>cosmetic_seat\<close>, which nothing reads.
\<close>

subsection \<open>State\<close>

datatype trade_state = S1_link | S4_party | S5_select | S6_confirm | S7_anim | S8_done | S_cancel

definition count_linkcmd :: nat where "count_linkcmd = 2"
definition count_party :: nat where "count_party = 17"
definition count_mail :: nat where "count_mail = 19"
definition count_ribbon :: nat where "count_ribbon = 4"
definition count_trainer_card :: nat where "count_trainer_card = 9"

lemmas block_counts = count_linkcmd_def count_party_def count_mail_def count_ribbon_def
  count_trainer_card_def

definition species_mew :: int where "species_mew = 151"
definition species_deoxys :: int where "species_deoxys = 410"
definition default_anim_frames :: int where "default_anim_frames = 1935"
definition invalid_cancel_delay :: nat where "invalid_cancel_delay = 180"
definition warp_standby_emits :: nat where "warp_standby_emits = 6"
definition post_seat_standby_delay :: nat where "post_seat_standby_delay = 20"
definition standby_rearm_gap :: nat where "standby_rearm_gap = 60"
definition save_chain_timeout :: nat where "save_chain_timeout = 600"
definition buffertrade_settle :: nat where "buffertrade_settle = 600"

definition block_req_size_100 :: int where "block_req_size_100 = 2"

definition req_size :: "int \<Rightarrow> nat option" where
  "req_size = map_of [(0, 200), (1, 200), (2, 100), (3, 220), (4, 40)]"

datatype verdict = Player_mon_invalid | Both_mons_valid | Partner_mon_invalid

record engine =
  te_party :: "bytes list"
  te_trade_slot :: int
  te_mpid :: nat
  te_lp :: link_player
  te_anim_delay :: int
  te_decline :: bool
  te_refuse :: bool
  te_trust_pia :: bool
  te_trades :: nat
  te_offered_slots :: "int list"
  te_round :: nat
  te_received_mons :: "bytes list"
  te_leaving :: bool
  te_requested_cancel :: bool
  te_left_gracefully :: bool
  te_offered :: "int set"
  te_rx :: block_receiver
  te_sender :: "block_sender option"
  te_history :: "trade_state list"
  te_state :: trade_state
  te_barrier :: barrier
  te_entry :: room_entry
  te_trainer_card :: bytes
  te_lp_sent :: bool
  te_party_sent :: nat
  te_party600 :: bytes
  te_party_blocks :: "bytes list"
  te_host_in_seat :: bool
  te_host_ready :: bool
  te_host_lp :: "link_player option"
  te_host_party :: bytes
  te_host_blocks :: nat
  te_host_cursor :: "int option"
  te_received_mon :: "bytes option"
  te_got_ribbons :: bool
  te_bt_settle :: nat
  te_live :: bool
  te_leader_mode :: bool
  te_leader_ready :: bool
  te_leader_cancel :: bool
  te_selected :: bool
  te_pending_push :: "bytes option"
  te_anim_wait :: "int option"
  te_finish_sent :: bool
  te_pending_confirm :: bool
  te_confirmed :: bool
  te_cancel_wait :: "nat option"
  te_cancel_after_send :: bool
  te_commits :: nat
  te_finish_at_commit :: bool
  te_done :: bool
  te_cancelled :: bool
  te_hook :: bool
  te_relayed :: "(int \<times> bytes) list"
  te_suppress :: bool
  te_menu_init :: bool
  te_seam_init :: bool
  te_warp1_init :: bool
  te_warp2_init :: bool
  te_warp1_emits :: nat
  te_warp2_emits :: nat
  te_warp3_emits :: nat
  te_warp4_emits :: nat
  te_warp3_init :: bool
  te_warp4_init :: bool
  te_warp3_regap :: nat
  te_warp4_regap :: nat
  te_self_seated :: bool
  te_post_seat_wait :: nat
  te_save_barriers :: bool
  te_save_settle :: nat
  te_cancel_barrier :: bool
  te_return_barrier :: bool
  te_post_cancel :: bool
  te_host_exiting :: bool

definition engine_new ::
  "bytes list \<Rightarrow> int \<Rightarrow> link_player \<Rightarrow> int option \<Rightarrow> nat \<Rightarrow> bool \<Rightarrow> bool \<Rightarrow> nat \<Rightarrow> int list option \<Rightarrow> bool
     \<Rightarrow> py_error + engine" where
  "engine_new party trade_slot lp anim_delay mpid decline refuse trades offered trust_pia =
     (if mpid \<noteq> 1 then Inl AssertionError
      else if \<not> (1 \<le> trades \<and> trades \<le> 6) then Inl ValueError
      else
        bindr (resolve_offered_slots offered trade_slot trades (Some (length party))) (\<lambda>slots.
          if list_ex (\<lambda>s. int (length party) \<le> s) slots then Inl ValueError
          else
            bindr (py_index slots 0) (\<lambda>slot0.
            bindr (build_player_party party) (\<lambda>p600.
              Inr \<lparr>te_party = party, te_trade_slot = slot0, te_mpid = mpid, te_lp = lp,
                   te_anim_delay = (case anim_delay of None \<Rightarrow> default_anim_frames | Some d \<Rightarrow> d),
                   te_decline = decline, te_refuse = refuse, te_trust_pia = trust_pia,
                   te_trades = trades, te_offered_slots = slots, te_round = 0,
                   te_received_mons = [], te_leaving = False, te_requested_cancel = False,
                   te_left_gracefully = False, te_offered = {}, te_rx = block_receiver_new 5,
                   te_sender = None, te_history = [S1_link], te_state = S1_link,
                   te_barrier = barrier_new, te_entry = entry_new,
                   te_trainer_card = build_trainer_card lp 0 None, te_lp_sent = False,
                   te_party_sent = 0, te_party600 = p600, te_party_blocks = party_blocks p600,
                   te_host_in_seat = False, te_host_ready = False, te_host_lp = None,
                   te_host_party = replicate (party_mon_size * party_size) 0, te_host_blocks = 0,
                   te_host_cursor = None, te_received_mon = None, te_got_ribbons = False,
                   te_bt_settle = 0, te_live = False, te_leader_mode = False,
                   te_leader_ready = False, te_leader_cancel = False, te_selected = False,
                   te_pending_push = None, te_anim_wait = None, te_finish_sent = False,
                   te_pending_confirm = False, te_confirmed = False, te_cancel_wait = None,
                   te_cancel_after_send = False, te_commits = 0, te_finish_at_commit = False,
                   te_done = False, te_cancelled = False, te_hook = False, te_relayed = [],
                   te_suppress = False, te_menu_init = False, te_seam_init = False,
                   te_warp1_init = False, te_warp2_init = False, te_warp1_emits = 0,
                   te_warp2_emits = 0, te_warp3_emits = 0, te_warp4_emits = 0,
                   te_warp3_init = False, te_warp4_init = False, te_warp3_regap = 0,
                   te_warp4_regap = 0, te_self_seated = False, te_post_seat_wait = 0,
                   te_save_barriers = False, te_save_settle = 0, te_cancel_barrier = False,
                   te_return_barrier = False, te_post_cancel = False, te_host_exiting = False\<rparr>))))"

definition set_state :: "trade_state \<Rightarrow> engine \<Rightarrow> engine" where
  "set_state v e =
     (let e1 = e\<lparr>te_state := v\<rparr>
      in if te_history e1 = [] \<or> last (te_history e1) \<noteq> v
         then e1\<lparr>te_history := te_history e1 @ [v]\<rparr> else e1)"

definition in_seat_phase :: "engine \<Rightarrow> bool" where
  "in_seat_phase e \<longleftrightarrow> te_post_cancel e \<or> \<not> en_seat_over (te_entry e)"

definition established :: "engine \<Rightarrow> bool" where
  "established e \<longleftrightarrow> te_lp_sent e \<and> te_host_lp e \<noteq> None"

definition note_self_seated :: "engine \<Rightarrow> engine" where
  "note_self_seated e =
     (if te_self_seated e then e
      else e\<lparr>te_self_seated := True, te_post_seat_wait := post_seat_standby_delay\<rparr>)"

text \<open>Item assignment \<^verbatim>\<open>xs[i] = v\<close> of a list with an integer index.\<close>

definition py_setitem :: "'a list \<Rightarrow> int \<Rightarrow> 'a \<Rightarrow> py_error + 'a list" where
  "py_setitem xs i v =
     (if 0 \<le> i \<and> i < int (length xs) then Inr (xs[nat i := v])
      else if i < 0 \<and> - int (length xs) \<le> i then Inr (xs[nat (int (length xs) + i) := v])
      else Inl IndexError)"

subsection \<open>Supplying blocks\<close>

definition begin_send :: "bytes \<Rightarrow> engine \<Rightarrow> engine" where
  "begin_send buf e =
     e\<lparr>te_rx := (te_rx e)\<lparr>br_peers := (br_peers (te_rx e))[1 := recv_block_new]\<rparr>,
       te_sender := Some (block_sender_new buf (if te_leader_mode e then 0 else 1) 4 6
                            (if te_leader_mode e then True else te_trust_pia e))\<rparr>"

definition block_for_size :: "int \<Rightarrow> nat \<Rightarrow> engine \<Rightarrow> py_error + (bytes \<times> engine)" where
  "block_for_size reqtype sz e =
     (if reqtype = block_req_size_100 then
        Inr (te_trainer_card e, e\<lparr>te_entry := on_card_supplied (on_card_req (te_entry e))\<rparr>)
      else if sz = 200 then
        let e1 = (if te_host_in_seat e then e\<lparr>te_entry := on_trade_menu_open (te_entry e)\<rparr> else e)
        in if te_round e1 = 0 \<and> \<not> te_lp_sent e1 then
             bindr (lp_build_block (te_lp e1)) (\<lambda>b. Inr (ljust 200 0 b, e1\<lparr>te_lp_sent := True\<rparr>))
           else
             let i = te_party_sent e1
             in Inr (if i < length (te_party_blocks e1) then te_party_blocks e1 ! i
                     else replicate 200 0,
                     e1\<lparr>te_party_sent := i + 1\<rparr>)
      else if sz = 100 then Inr (te_trainer_card e, e)
      else if sz = 220 then Inr (replicate 220 0, e)
      else if sz = 40 then Inr (replicate 40 0, e)
      else Inr (replicate sz 0, e))"

definition on_req :: "int \<Rightarrow> engine \<Rightarrow> py_error + engine" where
  "on_req reqtype e =
     (if (case te_sender e of None \<Rightarrow> False | Some s \<Rightarrow> \<not> sender_done s) then Inr e
      else
        let sz = (case req_size reqtype of None \<Rightarrow> 200 | Some n \<Rightarrow> n)
        in bindr (block_for_size reqtype sz e) (\<lambda>(buf, e1). Inr (begin_send buf e1)))"

subsection \<open>Validity of the mons\<close>

definition num_other_alive :: "int \<Rightarrow> engine \<Rightarrow> nat" where
  "num_other_alive slot e =
     length (filter (\<lambda>(i, m). int i \<noteq> slot \<and> \<not> mon_is_empty m) (enumerate 0 (te_party e)))"

definition is_valid_slot :: "int \<Rightarrow> engine \<Rightarrow> bool" where
  "is_valid_slot slot e \<longleftrightarrow>
     0 \<le> slot \<and> slot < int (length (te_party e)) \<and> \<not> mon_is_empty (te_party e ! nat slot)
     \<and> 0 < num_other_alive slot e"

definition trade_menu_live :: "engine \<Rightarrow> bool" where
  "trade_menu_live e \<longleftrightarrow>
     (let base = 3 \<le> te_host_blocks e \<and> te_lp_sent e
                 \<and> length (te_party_blocks e) \<le> te_party_sent e
      in if \<not> te_live e then base
         else base \<and> (te_got_ribbons e \<or> buffertrade_settle \<le> te_bt_settle e))"

definition host_mon :: "int \<Rightarrow> engine \<Rightarrow> py_error + bytes" where
  "host_mon cursor e =
     (let off = nat (cursor mod int party_size) * party_mon_size
      in mon_new (py_slice (te_host_party e) off (off + party_mon_size)))"

definition mon_species :: "bytes \<Rightarrow> int option" where
  "mon_species m = (case decode_mon m of None \<Rightarrow> None | Some d \<Rightarrow> Some (mi_species d))"

definition partner_mon_invalid :: "engine \<Rightarrow> py_error + bool" where
  "partner_mon_invalid e =
     (case te_host_cursor e of
        None \<Rightarrow> Inr False
      | Some c \<Rightarrow>
          if \<not> te_refuse e then Inr False
          else bindr (host_mon c e) (\<lambda>m.
                 Inr (mon_species m = Some species_mew \<or> mon_species m = Some species_deoxys)))"

definition confirm_verdict :: "engine \<Rightarrow> py_error + verdict" where
  "confirm_verdict e =
     bindr (partner_mon_invalid e) (\<lambda>bad.
       Inr (if bad then Partner_mon_invalid
            else if num_other_alive (te_trade_slot e) e = 0 then Player_mon_invalid
            else Both_mons_valid))"

definition run_confirm :: "engine \<Rightarrow> py_error + engine" where
  "run_confirm e =
     (if te_confirmed e then Inr e
      else
        let e1 = e\<lparr>te_confirmed := True\<rparr>
        in if te_decline e1 then
             Inr (e1\<lparr>te_pending_push := Some (linkcmd_block ready_cancel_trade 0), te_cancelled := True\<rparr>)
           else
             bindr (confirm_verdict e1) (\<lambda>v. case v of
               Both_mons_valid \<Rightarrow> Inr (e1\<lparr>te_pending_push := Some (linkcmd_block init_block 0)\<rparr>)
             | _ \<Rightarrow> Inr (e1\<lparr>te_cancel_wait := Some invalid_cancel_delay, te_cancelled := True\<rparr>)))"

subsection \<open>Committing a trade\<close>

definition reset_round_state :: "engine \<Rightarrow> py_error + engine" where
  "reset_round_state e =
     bindr (build_player_party (te_party e)) (\<lambda>p600.
       Inr (e\<lparr>te_party_sent := 0, te_party600 := p600, te_party_blocks := party_blocks p600,
              te_host_party := replicate (party_mon_size * party_size) 0, te_host_blocks := 0,
              te_host_cursor := None, te_selected := False, te_got_ribbons := False,
              te_leader_cancel := False, te_bt_settle := 0, te_anim_wait := None,
              te_finish_sent := False, te_pending_confirm := False, te_confirmed := False,
              te_cancel_wait := None, te_menu_init := False, te_seam_init := False\<rparr>))"

definition arm_next_round :: "engine \<Rightarrow> py_error + engine" where
  "arm_next_round e =
     bindr (reset_round_state e) (\<lambda>e1.
     bindr (py_index (te_offered_slots e1) (te_round e1)) (\<lambda>slot.
       Inr (set_state S1_link (e1\<lparr>te_trade_slot := slot\<rparr>))))"

definition arm_leave_round :: "engine \<Rightarrow> py_error + engine" where
  "arm_leave_round e = bindr (reset_round_state e) (\<lambda>e1. Inr (set_state S1_link e1))"

definition take_received :: "int \<Rightarrow> engine \<Rightarrow> py_error + engine" where
  "take_received slot e =
     (case te_host_cursor e of
        None \<Rightarrow> Inr e
      | Some c \<Rightarrow>
          bindr (host_mon c e) (\<lambda>received.
          bindr (py_setitem (te_party e) slot received) (\<lambda>party.
            Inr (e\<lparr>te_received_mon := Some received,
                   te_received_mons := te_received_mons e @ [received], te_party := party\<rparr>))))"

definition commit_trade :: "engine \<Rightarrow> py_error + engine" where
  "commit_trade e =
     (let e1 = e\<lparr>te_finish_at_commit := te_finish_sent e, te_commits := te_commits e + 1\<rparr>
      in bindr (py_index (te_offered_slots e1) (te_round e1)) (\<lambda>slot.
         bindr (take_received slot e1) (\<lambda>e2.
           let e3 = set_state S8_done (e2\<lparr>te_offered := insert slot (te_offered e2),
                                          te_round := te_round e2 + 1\<rparr>);
               e4 = e3\<lparr>te_save_barriers := True, te_save_settle := 0\<rparr>
           in if te_round e4 < te_trades e4 then arm_next_round e4
              else arm_leave_round (e4\<lparr>te_leaving := True\<rparr>))))"

subsection \<open>The leader's commands\<close>

definition remote_message :: "int \<Rightarrow> int \<Rightarrow> (int \<times> bytes) option" where
  "remote_message cmd cursor =
     (if cmd = set_mons_to_trade
      then Some (remote_trade_select, [word_of_int (cursor mod int party_size)])
      else if cmd = confirm_finish_trade then Some (remote_trade_confirm, [])
      else if cmd \<in> {player_cancel_trade, both_cancel_trade, partner_cancel_trade}
      then Some (remote_trade_cancel, [])
      else None)"

definition notify_remote :: "int \<Rightarrow> int \<Rightarrow> engine \<Rightarrow> engine" where
  "notify_remote cmd cursor e =
     (if \<not> te_hook e \<or> te_suppress e then e
      else case remote_message cmd cursor of
             None \<Rightarrow> e
           | Some m \<Rightarrow> e\<lparr>te_relayed := te_relayed e @ [m]\<rparr>)"

definition on_set_mons :: "int \<Rightarrow> engine \<Rightarrow> py_error + engine" where
  "on_set_mons cursor e =
     (let e1 = e\<lparr>te_host_cursor := Some cursor\<rparr>
      in if te_state e1 = S5_select \<or> te_state e1 = S4_party
         then run_confirm (set_state S6_confirm e1) else Inr e1)"

definition on_start_trade :: "engine \<Rightarrow> engine" where
  "on_start_trade e =
     (if te_cancelled e then e
      else (set_state S7_anim e)\<lparr>te_anim_wait := Some (te_anim_delay e)\<rparr>)"

definition on_confirm_finish :: "engine \<Rightarrow> py_error + engine" where
  "on_confirm_finish e =
     (if te_cancelled e then Inr e
      else if te_finish_sent e then commit_trade e
      else Inr (e\<lparr>te_pending_confirm := True\<rparr>))"

definition on_cancel_echo :: "int \<Rightarrow> engine \<Rightarrow> engine" where
  "on_cancel_echo cmd e =
     (let e1 = (set_state S_cancel e)\<lparr>te_cancelled := True\<rparr>;
          e2 = (if te_requested_cancel e1 then e1\<lparr>te_left_gracefully := True\<rparr> else e1)
      in if cmd = both_cancel_trade
         then e2\<lparr>te_cancel_barrier := True, te_barrier := br_initiate Bar_standby (te_barrier e2)\<rparr>
         else e2\<lparr>te_done := True\<rparr>)"

definition on_linkcmd :: "int \<Rightarrow> int \<Rightarrow> engine \<Rightarrow> py_error + engine" where
  "on_linkcmd cmd cursor e0 =
     (let e = notify_remote cmd cursor e0
      in if cmd = set_mons_to_trade then on_set_mons cursor e
         else if cmd = start_trade then Inr (on_start_trade e)
         else if cmd = confirm_finish_trade then on_confirm_finish e
         else if cmd \<in> {both_cancel_trade, player_cancel_trade, partner_cancel_trade}
         then Inr (on_cancel_echo cmd e)
         else Inr e)"

definition apply_remote :: "int \<Rightarrow> bytes \<Rightarrow> engine \<Rightarrow> py_error + engine" where
  "apply_remote msg_type payload e =
     (let deliver = (\<lambda>cmd cursor.
            bindr (on_linkcmd cmd cursor (e\<lparr>te_suppress := True\<rparr>)) (\<lambda>e1.
              Inr (e1\<lparr>te_suppress := False\<rparr>)))
      in if msg_type = remote_trade_select
         then deliver set_mons_to_trade (case payload of [] \<Rightarrow> 0 | b # _ \<Rightarrow> uint b)
         else if msg_type = remote_trade_confirm then deliver confirm_finish_trade 0
         else if msg_type = remote_trade_cancel then deliver player_cancel_trade 0
         else Inr e)"

subsection \<open>Receiving\<close>

definition on_party_block :: "bytes \<Rightarrow> engine \<Rightarrow> py_error + engine" where
  "on_party_block data e =
     (let e1 = (if te_host_in_seat e then e\<lparr>te_entry := on_trade_menu_open (te_entry e)\<rparr> else e)
      in bindr (lp_parse_block data) (\<lambda>(lp, ok).
           if ok then Inr (if te_host_lp e1 = None then e1\<lparr>te_host_lp := Some lp\<rparr> else e1)
           else if te_host_blocks e1 < 3 then
             let i = te_host_blocks e1;
                 e2 = e1\<lparr>te_host_party := slice_assign (te_host_party e1) (i * 200) ((i + 1) * 200)
                                            (take 200 data),
                         te_host_blocks := i + 1\<rparr>
             in Inr (if te_host_blocks e2 = 3 \<and> te_state e2 = S1_link then set_state S4_party e2 else e2)
           else Inr e1))"

definition on_host_block :: "nat \<Rightarrow> bytes \<Rightarrow> engine \<Rightarrow> py_error + engine" where
  "on_host_block n data e =
     (if n = count_trainer_card \<and> \<not> en_complete (te_entry e)
      then Inr (e\<lparr>te_entry := on_host_card data (te_entry e)\<rparr>)
      else if n = count_linkcmd then on_linkcmd (linkcmd_of data) (cursor_of data) e
      else if n = count_party then on_party_block data e
      else if n = count_mail \<or> n = count_ribbon
      then Inr (if n = count_ribbon then e\<lparr>te_got_ribbons := True\<rparr> else e)
      else Inr e)"

fun seat_scan :: "(nat \<times> bytes) list \<Rightarrow> engine \<Rightarrow> py_error + engine" where
  "seat_scan [] e = Inr e"
| "seat_scan ((mpid, slot) # rest) e =
     bindr (parse_slot slot) (\<lambda>r. case r of
       None \<Rightarrow> seat_scan rest e
     | Some r \<Rightarrow>
         if ps_word0 r AND 0xFF00 = rfu_send_held_keys then
           let e1 = (if \<not> te_host_in_seat e
                     then e\<lparr>te_host_in_seat := True, te_entry := on_seat_reached (te_entry e),
                            te_barrier := reset_to_idle (te_barrier e)\<rparr>
                     else e)
           in if from_le (py_slice slot 2 4) AND 0xFF = 0x16 \<and> \<not> te_host_ready e1
              then Inr (e1\<lparr>te_host_ready := True\<rparr>)
              else seat_scan rest e1
         else seat_scan rest e)"

fun exit_scan :: "(nat \<times> bytes) list \<Rightarrow> engine \<Rightarrow> py_error + engine" where
  "exit_scan [] e = Inr e"
| "exit_scan ((mpid, slot) # rest) e =
     bindr (parse_slot slot) (\<lambda>r. case r of
       None \<Rightarrow> exit_scan rest e
     | Some r \<Rightarrow>
         if ps_word0 r AND 0xFF00 = rfu_send_held_keys \<and> from_le (py_slice slot 2 4) AND 0xFF = 0x17
         then Inr (e\<lparr>te_host_exiting := True\<rparr>)
         else exit_scan rest e)"

fun host_barrier_scan :: "nat \<Rightarrow> (nat \<times> bytes) list \<Rightarrow> py_error + parsed_slot option" where
  "host_barrier_scan me [] = Inr None"
| "host_barrier_scan me ((mpid, slot) # rest) =
     (if mpid = me then host_barrier_scan me rest
      else bindr (parse_slot slot) (\<lambda>d. case d of
             None \<Rightarrow> host_barrier_scan me rest
           | Some d \<Rightarrow>
               if ps_op d = rfu_ready_exit_standby \<or> ps_op d = rfu_ready_close_link then Inr (Some d)
               else host_barrier_scan me rest))"

definition host_barrier_in_frame :: "t_frame option \<Rightarrow> engine \<Rightarrow> py_error + parsed_slot option" where
  "host_barrier_in_frame unwrapped e =
     (case unwrapped of None \<Rightarrow> Inr None | Some f \<Rightarrow> host_barrier_scan (te_mpid e) (tf_slots f))"

fun fold_err :: "('x \<Rightarrow> 's \<Rightarrow> py_error + 's) \<Rightarrow> 'x list \<Rightarrow> 's \<Rightarrow> py_error + 's" where
  "fold_err f [] s = Inr s"
| "fold_err f (x # xs) s = bindr (f x s) (fold_err f xs)"

definition host_slots :: "t_frame option \<Rightarrow> (nat \<times> bytes) list" where
  "host_slots unwrapped = (case unwrapped of None \<Rightarrow> [] | Some f \<Rightarrow> tf_slots f)"

definition hear_barrier :: "parsed_slot option \<Rightarrow> engine \<Rightarrow> engine" where
  "hear_barrier host_slot e =
     (if host_slot \<noteq> None then e\<lparr>te_barrier := snd (on_in_slot host_slot (te_barrier e))\<rparr> else e)"

definition watch_frame :: "bool \<Rightarrow> engine \<Rightarrow> engine" where
  "watch_frame saw e =
     (let e1 = e\<lparr>te_barrier := observe_frame saw (te_barrier e)\<rparr>
      in if te_save_barriers e1
         then e1\<lparr>te_save_settle := (if saw then 0 else te_save_settle e1 + 1)\<rparr> else e1)"

definition feed_barrier :: "t_frame option \<Rightarrow> engine \<Rightarrow> py_error + engine" where
  "feed_barrier unwrapped e =
     bindr (host_barrier_in_frame unwrapped e) (\<lambda>host_slot.
       let e1 = hear_barrier host_slot e
       in Inr (if unwrapped = None then e1 else watch_frame (host_slot \<noteq> None) e1))"

definition note_traffic :: "bool \<Rightarrow> t_frame option \<Rightarrow> engine \<Rightarrow> engine" where
  "note_traffic traffic unwrapped e =
     (if unwrapped = None then e
      else e\<lparr>te_bt_settle := (if traffic then 0 else te_bt_settle e + 1)\<rparr>)"

definition end_save_chain :: "bool \<Rightarrow> engine \<Rightarrow> engine" where
  "end_save_chain host_reexchange e =
     (if te_save_barriers e \<and> host_reexchange
      then e\<lparr>te_save_barriers := False, te_barrier := reset_to_idle (te_barrier e)\<rparr> else e)"

definition feed_blocks :: "completed \<Rightarrow> engine \<Rightarrow> py_error + engine" where
  "feed_blocks cmpl =
     fold_err (\<lambda>(mpid, n, data) e. if mpid = 0 then on_host_block n data e else Inr e) cmpl"

definition feed_in_frame :: "t_frame option \<Rightarrow> engine \<Rightarrow> py_error + engine" where
  "feed_in_frame unwrapped e =
     bindr (feed_frame unwrapped (te_rx e)) (\<lambda>(rx, cmpl, reqs).
       let e1 = e\<lparr>te_rx := rx\<rparr>;
           host_traffic = (reqs \<noteq> [] \<or> list_ex (\<lambda>(mpid, _). mpid = 0) cmpl)
       in bindr (if unwrapped \<noteq> None \<and> \<not> te_host_ready e1 then seat_scan (host_slots unwrapped) e1
                 else Inr e1) (\<lambda>e2.
          bindr (if te_post_cancel e2 \<and> \<not> te_host_exiting e2 \<and> unwrapped \<noteq> None
                 then exit_scan (host_slots unwrapped) e2 else Inr e2) (\<lambda>e3.
          bindr (feed_barrier unwrapped e3) (\<lambda>e4.
          bindr (fold_err on_req reqs (end_save_chain host_traffic e4)) (\<lambda>e5.
          bindr (feed_blocks cmpl e5) (\<lambda>e6.
            Inr (note_traffic host_traffic unwrapped e6)))))))"

subsection \<open>Timers\<close>

definition cancel_timer :: "engine \<Rightarrow> engine" where
  "cancel_timer e =
     (case te_cancel_wait e of
        None \<Rightarrow> e
      | Some w \<Rightarrow>
          if 0 < w then e\<lparr>te_cancel_wait := Some (w - 1)\<rparr>
          else e\<lparr>te_cancel_wait := None,
                 te_pending_push := Some (linkcmd_block ready_cancel_trade 0)\<rparr>)"

definition anim_timer :: "engine \<Rightarrow> py_error + engine" where
  "anim_timer e =
     (case te_anim_wait e of
        None \<Rightarrow> Inr e
      | Some w \<Rightarrow>
          if 0 < w then Inr (e\<lparr>te_anim_wait := Some (w - 1)\<rparr>)
          else
            let e1 = e\<lparr>te_anim_wait := None,
                       te_pending_push := Some (linkcmd_block ready_finish_trade 0),
                       te_finish_sent := True\<rparr>
            in if te_pending_confirm e1 then commit_trade (e1\<lparr>te_pending_confirm := False\<rparr>)
               else Inr e1)"

definition advance_timers :: "engine \<Rightarrow> py_error + engine" where
  "advance_timers e = anim_timer (cancel_timer e)"

subsection \<open>One emitted slot per frame\<close>

text \<open>
  Each stage of \<^verbatim>\<open>tick\<close> either returns the words of the slot or falls through to the
  next stage with its own state change.
\<close>

type_synonym stage = "int list option \<times> engine"

definition or_else :: "stage \<Rightarrow> (engine \<Rightarrow> py_error + (int list \<times> engine)) \<Rightarrow>
    py_error + (int list \<times> engine)" where
  "or_else st k = (case st of (Some ws, e) \<Rightarrow> Inr (ws, e) | (None, e) \<Rightarrow> k e)"

definition wire_ack :: "engine \<Rightarrow> recv_block option" where
  "wire_ack e = Some (br_peers (te_rx e) ! 1)"

definition sender_finished :: "engine \<Rightarrow> engine" where
  "sender_finished e0 =
     (let e = e0\<lparr>te_sender := None\<rparr>
      in if te_cancel_after_send e \<and> \<not> te_done e then
           let e1 = set_state S_cancel (e\<lparr>te_cancel_after_send := False\<rparr>)
           in if te_leaving e1 then e1 else e1\<lparr>te_done := True\<rparr>
         else e)"

definition tick_sender :: "block_sender \<Rightarrow> engine \<Rightarrow> int list \<times> engine" where
  "tick_sender s e =
     (let (ws, s') = bs_tick (wire_ack e) s; e1 = e\<lparr>te_sender := Some s'\<rparr>
      in (ws, if sender_done s' then sender_finished e1 else e1))"

definition quiescent :: "engine \<Rightarrow> stage" where
  "quiescent e =
     (let (w, b) = want_emit (te_barrier e)
      in (Some (case w of None \<Rightarrow> idle_words | Some ws \<Rightarrow> ws), e\<lparr>te_barrier := b\<rparr>))"

definition tick_cancel_exit :: "engine \<Rightarrow> stage" where
  "tick_cancel_exit e =
     (if \<not> te_cancel_barrier e then (None, e)
      else if br_active (te_barrier e) then quiescent e
      else (None, e\<lparr>te_cancel_barrier := False, te_return_barrier := True,
                    te_barrier := br_initiate Bar_standby (te_barrier e)\<rparr>))"

definition tick_return_field :: "engine \<Rightarrow> stage" where
  "tick_return_field e =
     (if \<not> te_return_barrier e then (None, e)
      else if br_active (te_barrier e) then quiescent e
      else (None, e\<lparr>te_return_barrier := False, te_done := True, te_post_cancel := True\<rparr>))"

definition tick_overworld :: "engine \<Rightarrow> stage" where
  "tick_overworld e =
     (if te_post_cancel e \<and> br_active (te_barrier e) then quiescent e else (None, e))"

definition run_save_chain :: "engine \<Rightarrow> bool \<times> engine" where
  "run_save_chain e =
     (if \<not> br_active (te_barrier e) \<and> save_chain_timeout < te_save_settle e
      then (False, e\<lparr>te_save_barriers := False\<rparr>) else (True, e))"

definition tick_save :: "engine \<Rightarrow> stage" where
  "tick_save e =
     (if \<not> te_save_barriers e then (None, e)
      else case run_save_chain e of (True, e1) \<Rightarrow> quiescent e1 | (False, e1) \<Rightarrow> (None, e1))"

definition tick_seam :: "engine \<Rightarrow> engine" where
  "tick_seam e =
     (if te_anim_wait e \<noteq> None \<and> \<not> te_seam_init e
      then e\<lparr>te_seam_init := True, te_barrier := br_initiate Bar_standby (te_barrier e)\<rparr> else e)"

definition cancel_menu :: "engine \<Rightarrow> engine" where
  "cancel_menu e =
     e\<lparr>te_pending_push := Some (linkcmd_block request_cancel 0), te_requested_cancel := True,
       te_cancelled := True\<rparr>"

definition tick_select :: "engine \<Rightarrow> engine" where
  "tick_select e =
     (if \<not> te_selected e \<and> te_state e = S4_party \<and> trade_menu_live e \<and> te_pending_push e = None then
        let e1 = e\<lparr>te_selected := True, te_entry := on_trade_menu_live (te_entry e)\<rparr>
        in if te_leaving e1 then
             (if te_leader_mode e1 then e1\<lparr>te_leader_cancel := True\<rparr> else cancel_menu e1)
           else if is_valid_slot (te_trade_slot e1) e1 then
             let e2 = set_state S5_select e1
             in if te_leader_mode e2 then e2\<lparr>te_leader_ready := True\<rparr>
                else e2\<lparr>te_pending_push := Some (linkcmd_block ready_to_trade (te_trade_slot e2))\<rparr>
           else cancel_menu (set_state S5_select e1)
      else e)"

definition tick_push :: "engine \<Rightarrow> stage" where
  "tick_push e =
     (case te_pending_push e of
        None \<Rightarrow> (None, e)
      | Some buf \<Rightarrow>
          let e1 = e\<lparr>te_pending_push := None\<rparr>;
              cmd = linkcmd_of buf;
              e2 = (if cmd = request_cancel \<or> cmd = ready_cancel_trade
                    then e1\<lparr>te_cancel_after_send := True, te_cancelled := True\<rparr> else e1);
              e3 = begin_send buf e2;
              (ws, s) = bs_tick (wire_ack e3) (the (te_sender e3))
          in (Some ws, e3\<lparr>te_sender := Some s\<rparr>))"

definition tick_warp :: "engine \<Rightarrow> stage" where
  "tick_warp e =
     (if \<not> (established e \<and> \<not> te_host_in_seat e) then (None, e)
      else if \<not> en_card_supplied (te_entry e) then
        let e1 = e\<lparr>te_warp1_init := True\<rparr>
        in if te_warp1_emits e1 < warp_standby_emits
           then (Some (exit_standby_words 0), e1\<lparr>te_warp1_emits := te_warp1_emits e1 + 1\<rparr>)
           else (Some idle_words, e1)
      else
        let e1 = e\<lparr>te_warp2_init := True\<rparr>
        in if te_warp2_emits e1 < warp_standby_emits
           then (Some (exit_standby_words 1), e1\<lparr>te_warp2_emits := te_warp2_emits e1 + 1\<rparr>)
           else (Some idle_words, e1))"

text \<open>
  \<^verbatim>\<open>_sustain_standby\<close> on the pair of counters its attribute names select: frames emitted
  in the burst, and quiet frames since.
\<close>

definition sustain_standby :: "int \<Rightarrow> nat \<times> nat \<Rightarrow> int list \<times> nat \<times> nat" where
  "sustain_standby n c =
     (case c of (em, gap) \<Rightarrow>
        if em < warp_standby_emits then (exit_standby_words n, em + 1, 0)
        else if standby_rearm_gap \<le> gap + 1 then (idle_words, 0, 0)
        else (idle_words, em, gap + 1))"

definition tick_post_seat :: "engine \<Rightarrow> stage" where
  "tick_post_seat e =
     (if \<not> (established e \<and> te_self_seated e \<and> \<not> en_seat_over (te_entry e)) then (None, e)
      else if 0 < te_post_seat_wait e
      then (Some idle_words, e\<lparr>te_post_seat_wait := te_post_seat_wait e - 1\<rparr>)
      else
        let hc = (case br_host_count (te_barrier e) of None \<Rightarrow> 0 | Some c \<Rightarrow> c)
        in if hc < 2 then
             (case sustain_standby 2 (te_warp3_emits e, te_warp3_regap e) of (ws, n, g) \<Rightarrow>
                (Some ws, e\<lparr>te_warp3_init := True, te_warp3_emits := n, te_warp3_regap := g\<rparr>))
           else if hc < 3 then
             (case sustain_standby 3 (te_warp4_emits e, te_warp4_regap e) of (ws, n, g) \<Rightarrow>
                (Some ws, e\<lparr>te_warp4_init := True, te_warp4_emits := n, te_warp4_regap := g\<rparr>))
           else (Some idle_words, e))"

definition tick_idle :: "engine \<Rightarrow> int list \<times> engine" where
  "tick_idle e =
     (let (w, b) = want_emit (te_barrier e)
      in (case w of None \<Rightarrow> idle_words | Some ws \<Rightarrow> ws, e\<lparr>te_barrier := b\<rparr>))"

definition te_tick :: "engine \<Rightarrow> py_error + (int list \<times> engine)" where
  "te_tick e0 =
     (case te_sender e0 of
        Some s \<Rightarrow> Inr (tick_sender s e0)
      | None \<Rightarrow>
          or_else (tick_cancel_exit e0) (\<lambda>e1.
          or_else (tick_return_field e1) (\<lambda>e2.
          or_else (tick_overworld e2) (\<lambda>e3.
          or_else (tick_save e3) (\<lambda>e4.
          bindr (advance_timers e4) (\<lambda>e5.
          or_else (tick_push (tick_select (tick_seam e5))) (\<lambda>e6.
          or_else (tick_warp e6) (\<lambda>e7.
          or_else (tick_post_seat e7) (\<lambda>e8.
            Inr (tick_idle e8))))))))))"

definition poll_send_done :: "engine \<Rightarrow> py_error + engine" where
  "poll_send_done e =
     bindr (advance_timers e) (\<lambda>e1.
       case te_sender e1 of
         None \<Rightarrow> Inr e1
       | Some s \<Rightarrow> if bs_state s = BS_Hold then bindr (te_tick e1) (\<lambda>(ws, e2). Inr e2) else Inr e1)"

subsection \<open>Everything that can happen to an engine\<close>

datatype trade_event =
    Feed "t_frame option"
  | Tick
  | Poll
  | Remote int bytes
  | Seated

fun engine_call :: "trade_event \<Rightarrow> engine \<Rightarrow> py_error + engine" where
  "engine_call (Feed f) e = feed_in_frame f e"
| "engine_call Tick e = bindr (te_tick e) (\<lambda>(ws, e'). Inr e')"
| "engine_call Poll e = poll_send_done e"
| "engine_call (Remote t p) e = apply_remote t p e"
| "engine_call Seated e = Inr (note_self_seated e)"

definition engine_calls :: "trade_event list \<Rightarrow> engine \<Rightarrow> py_error + engine" where
  "engine_calls cs e = fold_err engine_call cs e"

end
