(* ===== verification/Trade_View.thy ===== *)
theory Trade_View
  imports Trade
begin

section \<open>The follower's protocol, and the engine as its refinement\<close>

text \<open>
  What a trade session promises is told by a small state: the party, the slots to give away,
  how many trades are committed, what is about to be said and whether the session was
  cancelled.  \<open>trade_step\<close> lists everything a follower may do to it.  Every call of the
  engine is a run of such steps on the engine's \<open>view\<close>.
\<close>

subsection \<open>The abstract protocol\<close>

definition follower_opcodes :: "int list" where
  "follower_opcodes =
     [ready_to_trade, init_block, ready_finish_trade, request_cancel, ready_cancel_trade]"

record trade_view =
  tv_party :: "bytes list"
  tv_slot :: int
  tv_slots :: "int list"
  tv_trades :: nat
  tv_round :: nat
  tv_commits :: nat
  tv_received :: "bytes list"
  tv_offered :: "int set"
  tv_leaving :: bool
  tv_finish :: bool
  tv_finish_at :: bool
  tv_pending :: bool
  tv_cancelled :: bool
  tv_push :: "bytes option"
  tv_entry :: room_entry

text \<open>Giving away \<open>slot\<close>: nothing when the host named no mon, else an exchange.\<close>

inductive exchanged :: "int \<Rightarrow> bytes list \<times> bytes list \<Rightarrow> bytes list \<times> bytes list \<Rightarrow> bool" where
  no_cursor: "exchanged slot (p, r) (p, r)"
| swapped: "length m = party_mon_size \<Longrightarrow> py_setitem p slot m = Inr p' \<Longrightarrow>
     exchanged slot (p, r) (p', r @ [m])"

inductive_cases exchangedE: "exchanged slot (p, r) (p', r')"

definition committed :: "bytes list \<Rightarrow> bytes list \<Rightarrow> trade_view \<Rightarrow> trade_view" where
  "committed p r v =
     v\<lparr>tv_party := p, tv_received := r, tv_round := tv_round v + 1, tv_commits := tv_commits v + 1,
       tv_offered := insert (tv_slots v ! tv_round v) (tv_offered v),
       tv_finish := False, tv_finish_at := True, tv_pending := False,
       tv_leaving := tv_leaving v \<or> \<not> tv_round v + 1 < tv_trades v,
       tv_slot := (if tv_round v + 1 < tv_trades v then tv_slots v ! (tv_round v + 1) else tv_slot v)\<rparr>"

inductive trade_step :: "trade_view \<Rightarrow> trade_view \<Rightarrow> bool" where
  tr_entry: "entry_follows (tv_entry v) n \<Longrightarrow> trade_step v (v\<lparr>tv_entry := n\<rparr>)"
| tr_say: "cmd \<in> set follower_opcodes \<Longrightarrow> trade_step v (v\<lparr>tv_push := Some (linkcmd_block cmd c)\<rparr>)"
| tr_sent: "trade_step v (v\<lparr>tv_push := None\<rparr>)"
| tr_cancel: "trade_step v (v\<lparr>tv_cancelled := True\<rparr>)"
| tr_finish: "trade_step v (v\<lparr>tv_finish := True\<rparr>)"
| tr_early: "\<not> tv_cancelled v \<Longrightarrow> \<not> tv_finish v \<Longrightarrow> trade_step v (v\<lparr>tv_pending := True\<rparr>)"
| tr_commit: "tv_finish v \<Longrightarrow> \<not> tv_cancelled v \<or> tv_pending v \<Longrightarrow> tv_round v < length (tv_slots v) \<Longrightarrow>
     exchanged (tv_slots v ! tv_round v) (tv_party v, tv_received v) (p, r) \<Longrightarrow>
     trade_step v (committed p r v)"

abbreviation trade_steps :: "trade_view \<Rightarrow> trade_view \<Rightarrow> bool" where
  "trade_steps \<equiv> trade_step\<^sup>*\<^sup>*"

definition view_ok :: "trade_view \<Rightarrow> bool" where
  "view_ok v \<longleftrightarrow>
     1 \<le> tv_trades v \<and> tv_trades v \<le> 6 \<and> length (tv_slots v) = tv_trades v \<and> distinct (tv_slots v)
     \<and> tv_round v \<le> tv_trades v \<and> tv_commits v = tv_round v
     \<and> tv_offered v = set (take (tv_round v) (tv_slots v))
     \<and> length (tv_received v) \<le> tv_round v
     \<and> (tv_leaving v \<longleftrightarrow> tv_round v = tv_trades v)
     \<and> (tv_round v < tv_trades v \<longrightarrow> tv_slot v = tv_slots v ! tv_round v)
     \<and> (0 < tv_commits v \<longrightarrow> tv_finish_at v)
     \<and> (\<forall>b. tv_push v = Some b \<longrightarrow> (\<exists>cmd\<in>set follower_opcodes. \<exists>c. b = linkcmd_block cmd c))
     \<and> entry_ok (tv_entry v)"

lemma exchanged_length:
  "exchanged s pr pr' \<Longrightarrow> length (fst pr') = length (fst pr) \<and> length (snd pr') \<le> length (snd pr) + 1
     \<and> take (length (snd pr)) (snd pr') = snd pr"
  by (induction rule: exchanged.induct) (auto simp: py_setitem_def split: if_splits)

lemma view_ok_step: "trade_step v w \<Longrightarrow> view_ok v \<Longrightarrow> view_ok w"
proof (induction rule: trade_step.induct)
  case (tr_entry v n)
  then show ?case by (auto simp: view_ok_def entry_follows_def)
next
  case (tr_commit v p r)
  then have lt: "tv_round v < tv_trades v" by (simp add: view_ok_def)
  have "length r \<le> length (tv_received v) + 1" using exchanged_length [OF tr_commit(4)] by simp
  moreover have "set (take (Suc (tv_round v)) (tv_slots v))
      = insert (tv_slots v ! tv_round v) (set (take (tv_round v) (tv_slots v)))"
    using tr_commit(3) by (simp add: take_Suc_conv_app_nth)
  ultimately show ?case
    using tr_commit(5) lt by (auto simp: view_ok_def committed_def)
qed (auto simp: view_ok_def)

text \<open>What later views keep of an earlier one; in particular a cancelled session is over.\<close>

definition view_follows :: "trade_view \<Rightarrow> trade_view \<Rightarrow> bool" where
  "view_follows v w \<longleftrightarrow>
     tv_trades w = tv_trades v \<and> tv_slots w = tv_slots v \<and> length (tv_party w) = length (tv_party v)
     \<and> tv_round v \<le> tv_round w \<and> take (length (tv_received v)) (tv_received w) = tv_received v
     \<and> entry_follows (tv_entry v) (tv_entry w)
     \<and> (tv_cancelled v \<longrightarrow> tv_cancelled w)
     \<and> (tv_cancelled v \<and> \<not> tv_pending v \<longrightarrow> \<not> tv_pending w \<and> tv_round w = tv_round v
          \<and> tv_party w = tv_party v \<and> tv_received w = tv_received v)"

lemma view_follows_refl: "view_follows v v"
  by (simp add: view_follows_def)

lemma view_follows_trans: "view_follows u v \<Longrightarrow> view_follows v w \<Longrightarrow> view_follows u w"
proof -
  assume h: "view_follows u v" "view_follows v w"
  have "take (length (tv_received u)) (tv_received w) = tv_received u"
  proof -
    have "take (length (tv_received v)) (tv_received w) = tv_received v"
      "take (length (tv_received u)) (tv_received v) = tv_received u"
      using h by (simp_all add: view_follows_def)
    then show ?thesis by (metis length_take min.cobounded1 min_def take_take)
  qed
  with h show ?thesis unfolding view_follows_def by (auto intro: entry_follows_trans)
qed

lemma view_step_follows: "trade_step v w \<Longrightarrow> view_follows v w"
proof (induction rule: trade_step.induct)
  case (tr_commit v p r)
  with exchanged_length [OF tr_commit(4)] show ?case by (auto simp: view_follows_def committed_def)
qed (auto simp: view_follows_def)

interpretation trade: transition_follows trade_step view_ok view_follows
  by unfold_locales
     (auto intro: view_ok_step view_follows_refl view_follows_trans view_step_follows)

subsection \<open>The engine's view\<close>

definition view :: "engine \<Rightarrow> trade_view" where
  "view e =
     \<lparr>tv_party = te_party e, tv_slot = te_trade_slot e, tv_slots = te_offered_slots e,
      tv_trades = te_trades e, tv_round = te_round e, tv_commits = te_commits e,
      tv_received = te_received_mons e, tv_offered = te_offered e, tv_leaving = te_leaving e,
      tv_finish = te_finish_sent e, tv_finish_at = te_finish_at_commit e,
      tv_pending = te_pending_confirm e, tv_cancelled = te_cancelled e,
      tv_push = te_pending_push e, tv_entry = te_entry e\<rparr>"


named_theorems quiet \<open>operations that leave the view of the engine alone\<close>

lemma view_set_state [quiet]: "view (set_state s e) = view e"
  by (simp add: view_def set_state_def Let_def)

lemma view_begin_send [quiet]: "view (begin_send buf e) = view e"
  by (simp add: view_def begin_send_def)

lemma view_seated [quiet]: "view (note_self_seated e) = view e"
  by (simp add: view_def note_self_seated_def)

lemma view_sender [quiet]: "view (snd (tick_sender s e)) = view e"
  by (simp add: tick_sender_def sender_finished_def Let_def view_set_state split: prod.split)
     (simp add: view_def set_state_def Let_def)

lemma view_quiescent [quiet]: "view (snd (quiescent e)) = view e"
  by (simp add: quiescent_def view_def split: prod.split)

lemma view_stages [quiet]:
  "view (snd (tick_cancel_exit e)) = view e" "view (snd (tick_return_field e)) = view e"
  "view (snd (tick_overworld e)) = view e" "view (snd (tick_save e)) = view e"
  "view (snd (tick_warp e)) = view e" "view (snd (tick_post_seat e)) = view e"
  "view (snd (tick_idle e)) = view e" "view (tick_seam e) = view e"
  by (simp_all add: tick_cancel_exit_def tick_return_field_def tick_overworld_def tick_save_def
        tick_warp_def tick_post_seat_def tick_idle_def tick_seam_def run_save_chain_def Let_def
        view_quiescent split: prod.split)
     (simp_all add: view_def)

lemma view_notify [quiet]: "view (notify_remote cmd c e) = view e"
  by (simp add: notify_remote_def view_def split: option.split)

lemma view_save_chain [quiet]: "view (end_save_chain b e) = view e"
  by (simp add: end_save_chain_def view_def)

lemma view_upd [quiet]:
  "view (e\<lparr>te_suppress := b\<rparr>) = view e" "view (e\<lparr>te_rx := rx\<rparr>) = view e"
  "view (e\<lparr>te_bt_settle := n\<rparr>) = view e" "view (e\<lparr>te_sender := s\<rparr>) = view e"
  "view (e\<lparr>te_barrier := br\<rparr>) = view e" "view (e\<lparr>te_got_ribbons := b\<rparr>) = view e"
  "view (e\<lparr>te_host_cursor := c\<rparr>) = view e" "view (e\<lparr>te_confirmed := b\<rparr>) = view e"
  "view (e\<lparr>te_host_ready := b\<rparr>) = view e" "view (e\<lparr>te_host_exiting := b\<rparr>) = view e"
  "view (e\<lparr>te_save_settle := n\<rparr>) = view e" "view (e\<lparr>te_host_in_seat := b\<rparr>) = view e"
  "view (e\<lparr>te_party_sent := n\<rparr>) = view e" "view (e\<lparr>te_lp_sent := b\<rparr>) = view e"
  "view (e\<lparr>te_host_lp := h\<rparr>) = view e" "view (e\<lparr>te_host_party := hp\<rparr>) = view e"
  "view (e\<lparr>te_host_blocks := n\<rparr>) = view e" "view (e\<lparr>te_cancel_wait := cw\<rparr>) = view e"
  "view (e\<lparr>te_anim_wait := aw\<rparr>) = view e" "view (e\<lparr>te_left_gracefully := b\<rparr>) = view e"
  "view (e\<lparr>te_cancel_barrier := b\<rparr>) = view e" "view (e\<lparr>te_done := b\<rparr>) = view e"
  "view (e\<lparr>te_selected := b\<rparr>) = view e" "view (e\<lparr>te_leader_cancel := b\<rparr>) = view e"
  "view (e\<lparr>te_leader_ready := b\<rparr>) = view e" "view (e\<lparr>te_requested_cancel := b\<rparr>) = view e"
  "view (e\<lparr>te_cancel_after_send := b\<rparr>) = view e" "view (e\<lparr>te_seam_init := b\<rparr>) = view e"
  by (simp_all add: view_def)

lemma view_loud:
  "view (e\<lparr>te_pending_push := p\<rparr>) = (view e)\<lparr>tv_push := p\<rparr>"
  "view (e\<lparr>te_cancelled := b\<rparr>) = (view e)\<lparr>tv_cancelled := b\<rparr>"
  "view (e\<lparr>te_finish_sent := b\<rparr>) = (view e)\<lparr>tv_finish := b\<rparr>"
  "view (e\<lparr>te_pending_confirm := b\<rparr>) = (view e)\<lparr>tv_pending := b\<rparr>"
  "view (e\<lparr>te_entry := n\<rparr>) = (view e)\<lparr>tv_entry := n\<rparr>"
  by (simp_all add: view_def)

lemma view_simps [simp]:
  "tv_party (view e) = te_party e" "tv_slot (view e) = te_trade_slot e"
  "tv_slots (view e) = te_offered_slots e" "tv_trades (view e) = te_trades e"
  "tv_round (view e) = te_round e" "tv_commits (view e) = te_commits e"
  "tv_received (view e) = te_received_mons e" "tv_offered (view e) = te_offered e"
  "tv_leaving (view e) = te_leaving e" "tv_finish (view e) = te_finish_sent e"
  "tv_finish_at (view e) = te_finish_at_commit e" "tv_pending (view e) = te_pending_confirm e"
  "tv_cancelled (view e) = te_cancelled e" "tv_push (view e) = te_pending_push e"
  "tv_entry (view e) = te_entry e"
  by (simp_all add: view_def)

subsection \<open>The steps of the operations\<close>

abbreviation runs :: "engine \<Rightarrow> engine \<Rightarrow> bool" where
  "runs e e' \<equiv> trade_steps (view e) (view e')"

lemma say_step:
  "cmd \<in> set follower_opcodes \<Longrightarrow> trade_steps v (v\<lparr>tv_push := Some (linkcmd_block cmd c)\<rparr>)"
  by (rule r_into_rtranclp) (rule tr_say)

lemma entry_step: "entry_follows (tv_entry v) n \<Longrightarrow> trade_steps v (v\<lparr>tv_entry := n\<rparr>)"
  by (rule r_into_rtranclp) (rule tr_entry)

lemma cancel_step: "trade_steps v (v\<lparr>tv_cancelled := True\<rparr>)"
  by (rule r_into_rtranclp) (rule tr_cancel)

lemma sent_step: "trade_steps v (v\<lparr>tv_push := None\<rparr>)"
  by (rule r_into_rtranclp) (rule tr_sent)

lemma finish_step: "trade_steps v (v\<lparr>tv_finish := True\<rparr>)"
  by (rule r_into_rtranclp) (rule tr_finish)

lemma say_cancel_step:
  "cmd \<in> set follower_opcodes \<Longrightarrow>
     trade_steps v (v\<lparr>tv_push := Some (linkcmd_block cmd c), tv_cancelled := True\<rparr>)"
  using rtranclp_trans [OF say_step cancel_step] by blast

lemma follower_simps [simp]:
  "ready_to_trade \<in> set follower_opcodes" "init_block \<in> set follower_opcodes"
  "ready_finish_trade \<in> set follower_opcodes" "request_cancel \<in> set follower_opcodes"
  "ready_cancel_trade \<in> set follower_opcodes"
  by (simp_all add: follower_opcodes_def)

lemma run_confirm_runs:
  assumes "run_confirm e = Inr e'"
  shows "runs e e'"
proof (cases "te_confirmed e \<or> te_decline e")
  case True
  with assms show ?thesis
    by (auto simp: run_confirm_def Let_def quiet view_loud intro!: say_cancel_step split: if_splits)
next
  case False
  with assms obtain v where v: "confirm_verdict (e\<lparr>te_confirmed := True\<rparr>) = Inr v"
    by (auto simp: run_confirm_def Let_def)
  with False assms show ?thesis
    by (cases v) (auto simp: run_confirm_def Let_def quiet view_loud intro!: say_step cancel_step)
qed

lemma on_set_mons_runs: "on_set_mons c e = Inr e' \<Longrightarrow> runs e e'"
  by (auto simp: on_set_mons_def Let_def quiet dest!: run_confirm_runs split: if_splits)

lemma on_start_trade_view [quiet]: "view (on_start_trade e) = view e"
  by (simp add: on_start_trade_def quiet)

lemma on_cancel_echo_runs: "runs e (on_cancel_echo cmd e)"
  by (auto simp: on_cancel_echo_def Let_def quiet view_loud intro!: cancel_step)

lemma reset_round_view:
  "reset_round_state e = Inr e' \<Longrightarrow> view e' = (view e)\<lparr>tv_finish := False, tv_pending := False\<rparr>"
  by (auto simp: reset_round_state_def view_def)

lemma host_mon_length: "host_mon c e = Inr m \<Longrightarrow> length m = party_mon_size"
  by (auto simp: host_mon_def mon_new_def Let_def split: if_splits)

lemma take_received_view:
  assumes "take_received slot e = Inr e'"
  shows "\<exists>p r. exchanged slot (te_party e, te_received_mons e) (p, r)
           \<and> view e' = (view e)\<lparr>tv_party := p, tv_received := r\<rparr>"
proof (cases "te_host_cursor e")
  case None
  with assms have "e' = e" by (simp add: take_received_def)
  then show ?thesis by (auto simp: view_def intro: exchanged.intros)
next
  case (Some c)
  with assms obtain m p where m: "host_mon c e = Inr m" "py_setitem (te_party e) slot m = Inr p"
    and e': "e' = e\<lparr>te_received_mon := Some m, te_received_mons := te_received_mons e @ [m], te_party := p\<rparr>"
    by (auto simp: take_received_def)
  have "exchanged slot (te_party e, te_received_mons e) (p, te_received_mons e @ [m])"
    using host_mon_length [OF m(1)] m(2) by (rule swapped)
  moreover have "view e' = (view e)\<lparr>tv_party := p, tv_received := te_received_mons e @ [m]\<rparr>"
    by (simp add: e' view_def)
  ultimately show ?thesis by blast
qed


lemma arm_round_view:
  "arm_next_round e = Inr e' \<Longrightarrow> te_round e < length (te_offered_slots e) \<Longrightarrow>
     view e' = (view e)\<lparr>tv_finish := False, tv_pending := False,
                        tv_slot := te_offered_slots e ! te_round e\<rparr>"
  "arm_leave_round e = Inr e' \<Longrightarrow> view e' = (view e)\<lparr>tv_finish := False, tv_pending := False\<rparr>"
proof -
  assume h: "arm_next_round e = Inr e'" "te_round e < length (te_offered_slots e)"
  obtain e1 slot where e1: "reset_round_state e = Inr e1"
    and slot: "py_index (te_offered_slots e1) (te_round e1) = Inr slot"
    and e': "e' = set_state S1_link (e1\<lparr>te_trade_slot := slot\<rparr>)"
    using h(1) unfolding arm_next_round_def bindr_eq_Inr by blast
  have v: "view e1 = (view e)\<lparr>tv_finish := False, tv_pending := False\<rparr>"
    by (rule reset_round_view [OF e1])
  have "te_offered_slots e1 = te_offered_slots e" "te_round e1 = te_round e"
    using arg_cong [OF v, of tv_slots] arg_cong [OF v, of tv_round] by simp_all
  with slot h(2) have "slot = te_offered_slots e ! te_round e" by (simp add: py_index_def)
  moreover have "view (e1\<lparr>te_trade_slot := slot\<rparr>) = (view e1)\<lparr>tv_slot := slot\<rparr>"
    by (simp add: view_def)
  ultimately show "view e' = (view e)\<lparr>tv_finish := False, tv_pending := False,
                        tv_slot := te_offered_slots e ! te_round e\<rparr>"
    by (simp add: e' quiet v)
next
  assume "arm_leave_round e = Inr e'"
  then show "view e' = (view e)\<lparr>tv_finish := False, tv_pending := False\<rparr>"
    by (auto simp: arm_leave_round_def quiet dest: reset_round_view)
qed

lemma commit_view:
  assumes "commit_trade e = Inr e'" and ok: "te_trades e \<le> length (te_offered_slots e)"
    and fin: "te_finish_sent e"
  shows "\<exists>p r. te_round e < length (te_offered_slots e)
     \<and> exchanged (te_offered_slots e ! te_round e) (te_party e, te_received_mons e) (p, r)
     \<and> view e' = committed p r (view e)"
proof -
  define e1 where "e1 = e\<lparr>te_finish_at_commit := te_finish_sent e, te_commits := te_commits e + 1\<rparr>"
  obtain slot e2 where slot: "py_index (te_offered_slots e) (te_round e) = Inr slot"
    and e2: "take_received slot e1 = Inr e2"
    and fin_e: "(let e3 = set_state S8_done (e2\<lparr>te_offered := insert slot (te_offered e2),
                                          te_round := te_round e2 + 1\<rparr>);
               e4 = e3\<lparr>te_save_barriers := True, te_save_settle := 0\<rparr>
           in if te_round e4 < te_trades e4 then arm_next_round e4
              else arm_leave_round (e4\<lparr>te_leaving := True\<rparr>)) = Inr e'"
    using assms(1) unfolding commit_trade_def Let_def e1_def [symmetric] bindr_eq_Inr
    by (auto simp: e1_def)
  have slot_eq: "slot = te_offered_slots e ! te_round e" and lt: "te_round e < length (te_offered_slots e)"
    using slot by (auto simp: py_index_def split: if_splits)
  obtain p r where ex: "exchanged slot (te_party e, te_received_mons e) (p, r)"
    and v2: "view e2 = (view e1)\<lparr>tv_party := p, tv_received := r\<rparr>"
    using take_received_view [OF e2] by (auto simp: e1_def)
  define e4 where "e4 = (set_state S8_done (e2\<lparr>te_offered := insert slot (te_offered e2),
      te_round := te_round e2 + 1\<rparr>))\<lparr>te_save_barriers := True, te_save_settle := 0\<rparr>"
  have v1: "view e1 = (view e)\<lparr>tv_finish_at := True, tv_commits := te_commits e + 1\<rparr>"
    by (simp add: e1_def view_def fin)
  have "view e4 = view (e2\<lparr>te_offered := insert slot (te_offered e2), te_round := te_round e2 + 1\<rparr>)"
    by (simp add: e4_def view_def set_state_def Let_def)
  also have "\<dots> = (view e2)\<lparr>tv_offered := insert slot (tv_offered (view e2)),
                            tv_round := tv_round (view e2) + 1\<rparr>"
    by (simp add: view_def)
  also have "\<dots> = (view e)\<lparr>tv_finish_at := True, tv_commits := te_commits e + 1, tv_party := p,
      tv_received := r, tv_offered := insert slot (te_offered e), tv_round := te_round e + 1\<rparr>"
    by (simp add: v2 v1)
  finally have v4: "view e4 = \<dots>" .
  have r4: "te_round e4 = te_round e + 1" "te_trades e4 = te_trades e"
      "te_offered_slots e4 = te_offered_slots e" "te_leaving e4 = te_leaving e"
    using arg_cong [OF v4, of tv_round] arg_cong [OF v4, of tv_trades] arg_cong [OF v4, of tv_slots]
      arg_cong [OF v4, of tv_leaving] by simp_all
  have "view e' = committed p r (view e)"
  proof (cases "te_round e4 < te_trades e4")
    case True
    then have "arm_next_round e4 = Inr e'" using fin_e unfolding Let_def e4_def [symmetric] by simp
    then have "view e' = (view e4)\<lparr>tv_finish := False, tv_pending := False,
                        tv_slot := te_offered_slots e4 ! te_round e4\<rparr>"
      by (rule arm_round_view) (use True ok r4 in simp)
    with True show ?thesis by (simp add: v4 r4 committed_def slot_eq)
  next
    case False
    then have "arm_leave_round (e4\<lparr>te_leaving := True\<rparr>) = Inr e'"
      using fin_e unfolding Let_def e4_def [symmetric] by simp
    then have "view e' = (view (e4\<lparr>te_leaving := True\<rparr>))\<lparr>tv_finish := False, tv_pending := False\<rparr>"
      by (rule arm_round_view)
    moreover have "view (e4\<lparr>te_leaving := True\<rparr>) = (view e4)\<lparr>tv_leaving := True\<rparr>"
      by (simp add: view_def)
    ultimately show ?thesis using False by (simp add: v4 r4 committed_def slot_eq)
  qed
  with ex lt slot_eq show ?thesis by blast
qed


definition slots_ok :: "trade_view \<Rightarrow> bool" where
  "slots_ok v \<longleftrightarrow> tv_trades v \<le> length (tv_slots v)"

lemma slots_ok_steps: "trade_steps v w \<Longrightarrow> slots_ok v \<Longrightarrow> slots_ok w"
proof (induction rule: rtranclp_induct)
  case (step v w)
  have "view_follows v w" using step(2) by (rule view_step_follows)
  with step show ?case by (simp add: slots_ok_def view_follows_def)
qed

lemma view_ok_slots: "view_ok v \<Longrightarrow> slots_ok v"
  by (simp add: view_ok_def slots_ok_def)

lemma commit_runs:
  assumes "commit_trade e = Inr e'" "slots_ok (view e)" "te_finish_sent e"
    and "\<not> te_cancelled e \<or> te_pending_confirm e"
  shows "runs e e'"
proof -
  obtain p r where "te_round e < length (te_offered_slots e)"
     "exchanged (te_offered_slots e ! te_round e) (te_party e, te_received_mons e) (p, r)"
     and e': "view e' = committed p r (view e)"
    using commit_view [OF assms(1)] assms(2,3) by (auto simp: slots_ok_def)
  then have "trade_step (view e) (committed p r (view e))"
    using assms(3,4) by (intro tr_commit) simp_all
  then show ?thesis by (simp add: e')
qed

lemma on_confirm_finish_runs:
  assumes "on_confirm_finish e = Inr e'" "slots_ok (view e)"
  shows "runs e e'"
proof (cases "te_cancelled e \<or> te_finish_sent e")
  case True
  with assms show ?thesis
    by (auto simp: on_confirm_finish_def dest: commit_runs split: if_splits)
next
  case False
  with assms(1) have "e' = e\<lparr>te_pending_confirm := True\<rparr>" by (simp add: on_confirm_finish_def)
  moreover have "trade_step (view e) ((view e)\<lparr>tv_pending := True\<rparr>)"
    using False by (intro tr_early) simp_all
  ultimately show ?thesis by (simp add: view_loud r_into_rtranclp)
qed

lemma on_linkcmd_runs:
  assumes "on_linkcmd cmd c e = Inr e'" "slots_ok (view e)"
  shows "runs e e'"
  using assms on_set_mons_runs [of c "notify_remote cmd c e" e']
    on_confirm_finish_runs [of "notify_remote cmd c e" e']
    on_cancel_echo_runs [of "notify_remote cmd c e" cmd]
  by (auto simp: on_linkcmd_def Let_def quiet split: if_splits)

lemma apply_remote_runs:
  assumes "apply_remote t p e = Inr e'" "slots_ok (view e)"
  shows "runs e e'"
proof (cases "t \<in> {remote_trade_select, remote_trade_confirm, remote_trade_cancel}")
  case True
  with assms(1) obtain cmd c e1 where "on_linkcmd cmd c (e\<lparr>te_suppress := True\<rparr>) = Inr e1"
    and "e' = e1\<lparr>te_suppress := False\<rparr>"
    by (auto simp: apply_remote_def Let_def split: if_splits)
  then show ?thesis using on_linkcmd_runs assms(2) by (fastforce simp: quiet)
next
  case False
  with assms(1) show ?thesis by (simp add: apply_remote_def Let_def)
qed

lemma on_party_block_runs: "on_party_block d e = Inr e' \<Longrightarrow> runs e e'"
proof -
  assume h: "on_party_block d e = Inr e'"
  define e1 where "e1 = (if te_host_in_seat e then e\<lparr>te_entry := on_trade_menu_open (te_entry e)\<rparr> else e)"
  have "runs e e1" by (auto simp: e1_def view_loud intro!: entry_step entry_ops_follow)
  moreover have "view e' = view e1"
  proof -
    obtain lp ok where "lp_parse_block d = Inr (lp, ok)"
      using h unfolding on_party_block_def Let_def bindr_eq_Inr by (metis surj_pair)
    then have "e' = e1 \<or> (\<exists>x. e' = e1\<lparr>te_host_lp := x\<rparr>)
        \<or> (\<exists>p n. e' = e1\<lparr>te_host_party := p, te_host_blocks := n\<rparr>
                \<or> e' = set_state S4_party (e1\<lparr>te_host_party := p, te_host_blocks := n\<rparr>))"
      using h unfolding on_party_block_def Let_def e1_def [symmetric]
      by (cases ok) (auto split: if_split_asm)
    then show ?thesis by (auto simp: quiet)
  qed
  ultimately show ?thesis by simp
qed

lemma on_host_block_runs:
  assumes "on_host_block n d e = Inr e'" "slots_ok (view e)"
  shows "runs e e'"
  using assms on_linkcmd_runs [of _ _ e e'] on_party_block_runs [of d e e']
  by (auto simp: on_host_block_def view_loud quiet intro!: entry_step entry_ops_follow split: if_splits)

lemma on_req_runs: "on_req t e = Inr e' \<Longrightarrow> runs e e'"
proof -
  have blk: "runs e e1" if "block_for_size t sz e = Inr (buf, e1)" for sz buf e1
    using that
    by (auto simp: block_for_size_def Let_def view_loud quiet
        intro!: entry_step entry_ops_follow entry_follows_trans [OF entry_ops_follow(1) entry_ops_follow(2)]
        split: if_splits)
  assume "on_req t e = Inr e'"
  then show ?thesis by (auto simp: on_req_def Let_def quiet dest!: blk split: if_splits)
qed

lemma seat_scan_runs: "seat_scan slots e = Inr e' \<Longrightarrow> runs e e'"
proof (induction slots arbitrary: e)
  case (Cons x rest)
  obtain mpid slot where x: "x = (mpid, slot)" by (rule prod.exhaust)
  define e1 where "e1 = (if \<not> te_host_in_seat e
                   then e\<lparr>te_host_in_seat := True, te_entry := on_seat_reached (te_entry e),
                          te_barrier := reset_to_idle (te_barrier e)\<rparr> else e)"
  have e1: "runs e e1" by (auto simp: e1_def view_loud quiet intro!: entry_step entry_ops_follow)
  from Cons.prems have "seat_scan rest e = Inr e' \<or> seat_scan rest e1 = Inr e'
      \<or> e' = e1\<lparr>te_host_ready := True\<rparr>"
    unfolding x seat_scan.simps Let_def e1_def [symmetric]
    by (auto split: option.splits if_splits)
  then show ?case
  proof (elim disjE)
    assume "seat_scan rest e = Inr e'"
    then show ?thesis by (rule Cons.IH)
  next
    assume "seat_scan rest e1 = Inr e'"
    from rtranclp_trans [OF e1 Cons.IH [OF this]] show ?thesis .
  next
    assume "e' = e1\<lparr>te_host_ready := True\<rparr>"
    with e1 show ?thesis by (simp add: quiet)
  qed
qed simp

lemma exit_scan_result: "exit_scan slots e = Inr e' \<Longrightarrow> e' = e \<or> e' = e\<lparr>te_host_exiting := True\<rparr>"
proof (induction slots)
  case (Cons x rest)
  obtain mpid slot where x: "x = (mpid, slot)" by (rule prod.exhaust)
  from Cons.prems have "exit_scan rest e = Inr e' \<or> e' = e\<lparr>te_host_exiting := True\<rparr>"
    unfolding x exit_scan.simps by (auto split: option.splits if_splits)
  with Cons.IH show ?case by blast
qed simp

lemma exit_scan_view: "exit_scan slots e = Inr e' \<Longrightarrow> view e' = view e"
  using exit_scan_result [of slots e e'] by (auto simp: quiet)

lemma hear_watch_view [quiet]:
  "view (hear_barrier hs e) = view e" "view (watch_frame saw e) = view e"
  "view (note_traffic b f e) = view e"
  by (simp_all add: hear_barrier_def watch_frame_def note_traffic_def Let_def quiet)

lemma feed_barrier_view: "feed_barrier f e = Inr e' \<Longrightarrow> view e' = view e"
  by (auto simp: feed_barrier_def Let_def quiet)

lemma fold_err_runs:
  assumes "\<And>x e e'. f x e = Inr e' \<Longrightarrow> slots_ok (view e) \<Longrightarrow> runs e e'"
  shows "fold_err f xs e = Inr e' \<Longrightarrow> slots_ok (view e) \<Longrightarrow> runs e e'"
proof (induction xs arbitrary: e)
  case (Cons x xs)
  then obtain e1 where e1: "f x e = Inr e1" "fold_err f xs e1 = Inr e'" by auto
  have r: "runs e e1" by (rule assms [OF e1(1) Cons.prems(2)])
  moreover have "runs e1 e'"
    by (rule Cons.IH [OF e1(2) slots_ok_steps [OF r Cons.prems(2)]])
  ultimately show ?case by (rule rtranclp_trans)
qed simp

lemma feed_in_frame_runs:
  assumes "feed_in_frame f e = Inr e'" "slots_ok (view e)"
  shows "runs e e'"
proof -
  obtain fr where fr0: "feed_frame f (te_rx e) = Inr fr"
    using assms(1) unfolding feed_in_frame_def bindr_eq_Inr by blast
  obtain rx cmpl reqs where fr: "feed_frame f (te_rx e) = Inr (rx, cmpl, reqs)"
    using fr0 by (cases fr) auto
  define b where "b = (reqs \<noteq> [] \<or> list_ex (\<lambda>(mpid, _). mpid = 0) cmpl)"
  obtain e2 e3 e4 e5 e6 where
    e2: "(if f \<noteq> None \<and> \<not> te_host_ready (e\<lparr>te_rx := rx\<rparr>) then seat_scan (host_slots f) (e\<lparr>te_rx := rx\<rparr>)
          else Inr (e\<lparr>te_rx := rx\<rparr>)) = Inr e2" and
    e3: "(if te_post_cancel e2 \<and> \<not> te_host_exiting e2 \<and> f \<noteq> None
          then exit_scan (host_slots f) e2 else Inr e2) = Inr e3" and
    e4: "feed_barrier f e3 = Inr e4" and
    e5: "fold_err on_req reqs (end_save_chain b e4) = Inr e5" and
    e6: "feed_blocks cmpl e5 = Inr e6" and e'0: "Inr (note_traffic b f e6) = (Inr e' :: py_error + engine)"
    using assms(1) unfolding feed_in_frame_def fr bindr.simps prod.case Let_def b_def [symmetric]
      bindr_eq_Inr by blast
  have e': "e' = note_traffic b f e6" using e'0 by simp
  have "runs e e2"
    using e2 seat_scan_runs [of "host_slots f" "e\<lparr>te_rx := rx\<rparr>" e2]
    by (auto simp: quiet split: if_split_asm)
  moreover have "view e3 = view e2"
    using e3 exit_scan_view [of "host_slots f" e2 e3] by (auto split: if_split_asm)
  moreover have "view e4 = view e3" by (rule feed_barrier_view [OF e4])
  ultimately have r4: "runs e e4" by simp
  have s4: "slots_ok (view e4)" by (rule slots_ok_steps [OF r4 assms(2)])
  have r5: "runs e4 e5"
    using fold_err_runs [of on_req reqs, OF on_req_runs e5] s4 by (simp add: quiet)
  have s5: "slots_ok (view e5)" by (rule slots_ok_steps [OF r5 s4])
  have "runs x y" if "(\<lambda>(mpid, n, data) e. if mpid = 0 then on_host_block n data e else Inr e) c x = Inr y"
      "slots_ok (view x)" for c x y
    using that on_host_block_runs by (auto split: prod.splits if_split_asm)
  from fold_err_runs [OF this e6 [unfolded feed_blocks_def] s5] have "runs e5 e6" .
  with r4 r5 have "runs e e6" by (meson rtranclp_trans)
  then show ?thesis by (simp add: e' quiet)
qed


subsection \<open>Timers and the emitted slot\<close>

lemma cancel_timer_runs: "runs e (cancel_timer e)"
  by (auto simp: cancel_timer_def quiet view_loud intro!: say_step split: option.split)

lemma anim_timer_runs:
  assumes "anim_timer e = Inr e'" "slots_ok (view e)"
  shows "runs e e'"
proof (cases "\<exists>w. te_anim_wait e = Some w \<and> \<not> 0 < w")
  case True
  define e1 where "e1 = e\<lparr>te_anim_wait := None,
      te_pending_push := Some (linkcmd_block ready_finish_trade 0), te_finish_sent := True\<rparr>"
  have "view e1 = (view e)\<lparr>tv_push := Some (linkcmd_block ready_finish_trade 0), tv_finish := True\<rparr>"
    by (simp add: e1_def quiet view_loud)
  moreover have "trade_steps (view e) \<dots>"
    by (rule rtranclp_trans [OF say_step finish_step]) simp
  ultimately have r1: "runs e e1" by simp
  have s1: "slots_ok (view e1)" by (rule slots_ok_steps [OF r1 assms(2)])
  have dec: "(if te_pending_confirm e1 then commit_trade (e1\<lparr>te_pending_confirm := False\<rparr>) else Inr e1) = Inr e'"
    using assms(1) True unfolding anim_timer_def by (auto simp: Let_def e1_def)
  show ?thesis
  proof (cases "te_pending_confirm e1")
    case True
    define e2 where "e2 = e1\<lparr>te_pending_confirm := False\<rparr>"
    from True dec have c: "commit_trade e2 = Inr e'" by (simp add: e2_def)
    have v2: "view e2 = (view e1)\<lparr>tv_pending := False\<rparr>" by (simp add: e2_def view_loud)
    have ok2: "te_trades e2 \<le> length (te_offered_slots e2)" "te_finish_sent e2"
      using s1 by (simp_all add: slots_ok_def e2_def e1_def)
    obtain p r where pr: "te_round e2 < length (te_offered_slots e2)"
      "exchanged (te_offered_slots e2 ! te_round e2) (te_party e2, te_received_mons e2) (p, r)"
      and e': "view e' = committed p r (view e2)"
      using commit_view [OF c ok2] by blast
    have "trade_step (view e1) (committed p r (view e1))"
      using pr True by (intro tr_commit) (simp_all add: e2_def e1_def)
    moreover have "committed p r (view e2) = committed p r (view e1)"
      by (simp add: v2 committed_def)
    ultimately have "runs e1 e'" by (simp add: e' r_into_rtranclp)
    with r1 show ?thesis by (rule rtranclp_trans)
  next
    case False
    with dec r1 show ?thesis by simp
  qed
next
  case False
  then show ?thesis
    using assms(1) by (auto simp: anim_timer_def quiet split: option.splits if_splits)
qed

lemma advance_timers_runs:
  assumes "advance_timers e = Inr e'" "slots_ok (view e)"
  shows "runs e e'"
proof -
  have "runs (cancel_timer e) e'"
    using assms by (auto simp: advance_timers_def
        intro: anim_timer_runs slots_ok_steps [OF cancel_timer_runs])
  with cancel_timer_runs show ?thesis by (rule rtranclp_trans)
qed

lemma cancel_menu_runs: "runs e (cancel_menu e)"
  by (auto simp: cancel_menu_def quiet view_loud intro!: say_cancel_step)

lemma tick_select_runs: "runs e (tick_select e)"
proof (cases "\<not> te_selected e \<and> te_state e = S4_party \<and> trade_menu_live e \<and> te_pending_push e = None")
  case True
  define e1 where "e1 = e\<lparr>te_selected := True, te_entry := on_trade_menu_live (te_entry e)\<rparr>"
  have r1: "runs e e1" by (auto simp: e1_def quiet view_loud intro!: entry_step entry_ops_follow)
  have dec: "tick_select e =
      (if te_leaving e1 then
         (if te_leader_mode e1 then e1\<lparr>te_leader_cancel := True\<rparr> else cancel_menu e1)
       else if is_valid_slot (te_trade_slot e1) e1 then
         let e2 = set_state S5_select e1
         in if te_leader_mode e2 then e2\<lparr>te_leader_ready := True\<rparr>
            else e2\<lparr>te_pending_push := Some (linkcmd_block ready_to_trade (te_trade_slot e2))\<rparr>
       else cancel_menu (set_state S5_select e1))"
    using True unfolding tick_select_def e1_def [symmetric] by (simp add: Let_def e1_def)
  have "runs e1 (tick_select e)"
    unfolding dec Let_def
    using cancel_menu_runs [of e1] cancel_menu_runs [of "set_state S5_select e1"]
    by (simp add: quiet view_loud say_step)
  with r1 show ?thesis by (rule rtranclp_trans)
next
  case False
  then show ?thesis by (auto simp: tick_select_def)
qed

lemma tick_push_runs: "runs e (snd (tick_push e))"
proof (cases "te_pending_push e")
  case None
  then show ?thesis by (simp add: tick_push_def)
next
  case (Some buf)
  have "trade_steps v (v\<lparr>tv_push := None, tv_cancelled := True\<rparr>)" for v
    using rtranclp_trans [OF sent_step cancel_step] .
  with Some show ?thesis
    by (simp add: tick_push_def Let_def quiet view_loud sent_step split: prod.split)
qed

lemma or_else_runs:
  assumes "or_else st k = Inr (ws, e')" and "runs e (snd st)"
    and "\<And>x. st = (None, x) \<Longrightarrow> k x = Inr (ws, e') \<Longrightarrow> runs x e'"
  shows "runs e e'"
proof (cases st)
  case (Pair w x)
  show ?thesis
  proof (cases w)
    case None
    with assms Pair have "runs x e'" by (simp add: or_else_def)
    with assms(2) Pair show ?thesis by simp
  next
    case (Some v)
    with assms Pair show ?thesis by (simp add: or_else_def)
  qed
qed

lemma or_else_quiet:
  assumes "or_else st k = Inr (ws, e')" and "view (snd st) = view e"
    and "\<And>x. st = (None, x) \<Longrightarrow> k x = Inr (ws, e') \<Longrightarrow> view x = view e \<Longrightarrow> runs x e'"
  shows "runs e e'"
  using assms by (intro or_else_runs [of st k ws e' e]) auto

lemma te_tick_runs:
  assumes "te_tick e = Inr (ws, e')" "slots_ok (view e)"
  shows "runs e e'"
proof (cases "te_sender e")
  case (Some s)
  with assms(1) have "tick_sender s e = (ws, e')" by (simp add: te_tick_def)
  then show ?thesis using view_sender [of s e] by simp
next
  case None
  note t = assms(1) [unfolded te_tick_def None option.case]
  show ?thesis
  proof (rule or_else_quiet [OF t view_stages(1)], rule or_else_quiet [OF _ view_stages(2)], assumption,
      rule or_else_quiet [OF _ view_stages(3)], assumption,
      rule or_else_quiet [OF _ view_stages(4)], assumption, goal_cases)
    case (1 e1 e2 e3 e4)
    then have s4: "slots_ok (view e4)" using assms(2) by simp
    from 1 obtain e5 where e5: "advance_timers e4 = Inr e5"
      and t5: "or_else (tick_push (tick_select (tick_seam e5))) (\<lambda>e6.
          or_else (tick_warp e6) (\<lambda>e7. or_else (tick_post_seat e7) (\<lambda>e8. Inr (tick_idle e8))))
        = Inr (ws, e')" by auto
    have "runs e4 e5" by (rule advance_timers_runs [OF e5 s4])
    moreover have "runs e5 e'"
    proof (rule or_else_runs [OF t5])
      have "runs e5 (tick_select (tick_seam e5))"
        using tick_select_runs [of "tick_seam e5"] by (simp add: quiet)
      then show "runs e5 (snd (tick_push (tick_select (tick_seam e5))))"
        using tick_push_runs by (rule rtranclp_trans)
    next
      fix e6
      assume k: "or_else (tick_warp e6) (\<lambda>e7. or_else (tick_post_seat e7) (\<lambda>e8. Inr (tick_idle e8)))
        = Inr (ws, e')"
      show "runs e6 e'"
      proof (rule or_else_quiet [OF k view_stages(5)], rule or_else_quiet [OF _ view_stages(6)],
          assumption, goal_cases)
        case (1 e7 e8)
        then show ?case using view_stages(7) [of e8] by simp
      qed
    qed
    ultimately show ?case by (rule rtranclp_trans)
  qed
qed

lemma poll_send_done_runs:
  assumes "poll_send_done e = Inr e'" "slots_ok (view e)"
  shows "runs e e'"
proof -
  obtain e1 where e1: "advance_timers e = Inr e1"
    using assms(1) unfolding poll_send_done_def bindr_eq_Inr by blast
  have r1: "runs e e1" by (rule advance_timers_runs [OF e1 assms(2)])
  have "e' = e1 \<or> (\<exists>ws. te_tick e1 = Inr (ws, e'))"
    using assms(1) unfolding poll_send_done_def e1 bindr.simps
    by (cases "te_sender e1") (auto split: if_split_asm)
  with r1 te_tick_runs [of e1 _ e'] slots_ok_steps [OF r1 assms(2)] show ?thesis
    by (meson rtranclp_trans)
qed

lemma engine_call_runs:
  assumes "engine_call c e = Inr e'" "slots_ok (view e)"
  shows "runs e e'"
proof (cases c)
  case (Feed f)
  with assms show ?thesis by (simp add: feed_in_frame_runs)
next
  case Tick
  with assms show ?thesis by (auto intro: te_tick_runs)
next
  case Poll
  with assms show ?thesis by (simp add: poll_send_done_runs)
next
  case (Remote t p)
  with assms show ?thesis by (simp add: apply_remote_runs)
next
  case Seated
  with assms show ?thesis by (auto simp: quiet)
qed

lemma engine_calls_runs:
  "engine_calls cs e = Inr e' \<Longrightarrow> slots_ok (view e) \<Longrightarrow> runs e e'"
  unfolding engine_calls_def by (rule fold_err_runs [OF engine_call_runs])

end
