(* ===== verification/Trade_Props.thy ===== *)
theory Trade_Props
  imports Trade_View
begin

section \<open>What the trade engine guarantees\<close>

subsection \<open>Sessions\<close>

text \<open>
  An engine as the simulator starts it: built by the constructor, with the live, leader and
  hook wiring of \<^verbatim>\<open>sim.py\<close> set on it.
\<close>

definition wired :: "bool \<Rightarrow> bool \<Rightarrow> bool \<Rightarrow> engine \<Rightarrow> engine" where
  "wired live leader hook e = e\<lparr>te_live := live, te_leader_mode := leader, te_hook := hook\<rparr>"

inductive session :: "bytes list \<Rightarrow> engine \<Rightarrow> bool" where
  started: "engine_new party slot lp delay mpid decline refuse trades offered trust = Inr e \<Longrightarrow>
     session party (wired live leader hook e)"
| called: "session party e \<Longrightarrow> engine_call c e = Inr e' \<Longrightarrow> session party e'"

inductive engine_step :: "engine \<Rightarrow> engine \<Rightarrow> bool" where
  "engine_call c e = Inr e' \<Longrightarrow> engine_step e e'"

inductive_cases engine_stepE: "engine_step e e'"

lemma engine_new_view:
  assumes "engine_new party slot lp delay mpid decline refuse trades offered trust = Inr e"
  shows "view_ok (view e) \<and> te_party e = party \<and> te_rx e = block_receiver_new 5"
proof -
  from assms have tr: "1 \<le> trades" "trades \<le> 6"
    by (auto simp: engine_new_def split: if_splits)
  with assms obtain slots slot0 p600 where
    sl: "resolve_offered_slots offered slot trades (Some (length party)) = Inr slots"
    and s0: "py_index slots 0 = Inr slot0"
    and e: "te_party e = party" "te_trade_slot e = slot0" "te_offered_slots e = slots" "te_trades e = trades"
      "te_round e = 0" "te_commits e = 0" "te_received_mons e = []" "te_offered e = {}" "\<not> te_leaving e"
      "\<not> te_finish_at_commit e" "te_pending_push e = None" "te_entry e = entry_new"
      "te_rx e = block_receiver_new 5"
    by (auto simp: engine_new_def split: if_splits)
  from resolve_offered_distinct [OF sl] s0 tr show ?thesis
    by (auto simp: view_ok_def e py_index_def split: if_splits)
qed

lemma view_wired [simp]: "view (wired live leader hook e) = view e"
  by (simp add: wired_def view_def)

interpretation engine: transition_follows engine_step "\<lambda>e. view_ok (view e)"
    "\<lambda>e e'. view_follows (view e) (view e')"
proof unfold_locales
  have run: "runs e e'" if "engine_step e e'" "view_ok (view e)" for e e'
    using that by (auto elim!: engine_stepE intro: engine_call_runs view_ok_slots)
  show "view_ok (view e')" if "engine_step e e'" "view_ok (view e)" for e e'
    using trade.runs_inv [OF run [OF that]] that(2) .
  show "view_follows (view e) (view e')" if "engine_step e e'" "view_ok (view e)" for e e'
    using trade.runs_follow [OF run [OF that] that(2)] .
qed (auto intro: view_follows_refl view_follows_trans)

lemma engine_calls_steps: "engine_calls cs e = Inr e' \<Longrightarrow> engine_step\<^sup>*\<^sup>* e e'"
  unfolding engine_calls_def
proof (induction cs arbitrary: e)
  case (Cons c cs)
  then obtain e1 where "engine_call c e = Inr e1" "engine_step\<^sup>*\<^sup>* e1 e'" by auto
  then show ?case by (meson converse_rtranclp_into_rtranclp engine_step.intros)
qed simp

lemma session_ok: "session party e \<Longrightarrow> view_ok (view e) \<and> length (te_party e) = length party"
proof (induction rule: session.induct)
  case (started party slot lp delay mpid decline refuse trades offered trust e live leader hook)
  from engine_new_view [OF this] show ?case by (simp only: view_wired) (simp add: wired_def)
next
  case (called party e c e')
  have st: "engine_step e e'" using called(2) by (rule engine_step.intros)
  have "view_ok (view e')" using called(3) engine.trans_inv [OF st] by blast
  moreover have "view_follows (view e) (view e')" using called(3) engine.trans_follows [OF st] by blast
  ultimately show ?case using called(3) by (simp add: view_follows_def)
qed

lemma session_calls: "session party e \<Longrightarrow> engine_calls cs e = Inr e' \<Longrightarrow> session party e'"
  unfolding engine_calls_def
proof (induction cs arbitrary: e)
  case (Cons c cs)
  then show ?case by (auto intro: called)
qed simp

subsection \<open>A concrete session\<close>

definition block_slots :: "bytes \<Rightarrow> (nat \<times> bytes) list" where
  "block_slots data =
     (0, words_to_slot (init_words (int (frag_count (length data))) 0))
     # map (\<lambda>i. (0, words_to_slot (send_block_words (int i) (chunk_of data i))))
         [0..<frag_count (length data)]"

definition slots_frame :: "(nat \<times> bytes) list \<Rightarrow> t_frame option" where
  "slots_frame slots = Some \<lparr>tf_ts = None, tf_slot_len = 0, tf_llsf_state = None, tf_slots = slots,
     tf_payload = [], tf_ni = None\<rparr>"

definition command_frame :: "int \<Rightarrow> int \<Rightarrow> t_frame option" where
  "command_frame cmd cursor = slots_frame (block_slots (linkcmd_block cmd cursor))"

definition demo_mon :: "nat \<Rightarrow> bytes" where
  "demo_mon k = word_of_nat k # replicate 99 0"

definition demo_party :: "bytes list" where "demo_party = [demo_mon 1, demo_mon 2]"

definition demo_new :: "py_error + engine" where
  "demo_new = engine_new demo_party 0 emu_player (Some 0) 1 False False 1 None True"

definition demo_run :: "trade_event list \<Rightarrow> py_error + engine" where
  "demo_run cs = bindr demo_new (\<lambda>e. engine_calls cs (wired False False True e))"

lemma demo_run_session: "demo_run cs = Inr e \<Longrightarrow> session demo_party e"
  unfolding demo_run_def demo_new_def bindr_eq_Inr by (blast intro: session_calls started)

text \<open>The start command of the leader, heard by an engine whose reassembler is fresh.\<close>

definition start_rx :: block_receiver where
  "start_rx = (case feed_frame (command_frame start_trade 0) (block_receiver_new 5) of
                 Inr (rx, _) \<Rightarrow> rx | Inl _ \<Rightarrow> block_receiver_new 5)"

lemma start_heard:
  "feed_frame (command_frame start_trade 0) (block_receiver_new 5)
     = Inr (start_rx, [(0, 2, linkcmd_block start_trade 0 @ replicate 4 0)], [])"
proof -
  have "(case feed_frame (command_frame start_trade 0) (block_receiver_new 5) of
           Inr (rx, r) \<Rightarrow> r = ([(0, 2, linkcmd_block start_trade 0 @ replicate 4 0)], []) | Inl _ \<Rightarrow> False)"
    by code_simp
  then show ?thesis by (auto simp: start_rx_def split: sum.splits)
qed

definition inert_slot :: "bytes \<Rightarrow> bool" where
  "inert_slot s \<longleftrightarrow> (case parse_slot s of Inr (Some r) \<Rightarrow>
     ps_word0 r AND 0xFF00 \<noteq> rfu_send_held_keys \<and> ps_op r \<noteq> rfu_ready_exit_standby
     \<and> ps_op r \<noteq> rfu_ready_close_link | _ \<Rightarrow> False)"

lemma inert_slots:
  "list_all (\<lambda>(m, s). inert_slot s) slots \<Longrightarrow>
     seat_scan slots e = Inr e \<and> host_barrier_scan k slots = Inr None"
proof (induction slots)
  case (Cons x slots)
  obtain m s where x: "x = (m, s)" by (rule prod.exhaust)
  from Cons.prems x have "inert_slot s" by simp
  then obtain r where "parse_slot s = Inr (Some r)" "ps_word0 r AND 0xFF00 \<noteq> rfu_send_held_keys"
    "ps_op r \<noteq> rfu_ready_exit_standby" "ps_op r \<noteq> rfu_ready_close_link"
    by (auto simp: inert_slot_def split: sum.splits option.splits)
  with Cons x show ?case by simp
qed simp

lemma start_slots_inert: "list_all (\<lambda>(m, s). inert_slot s) (host_slots (command_frame start_trade 0))"
  by code_simp

lemma command_frame_some [simp]: "command_frame cmd c \<noteq> None"
  by (simp add: command_frame_def slots_frame_def)

lemma barrier_in_slots: "host_barrier_in_frame f e = host_barrier_scan (te_mpid e) (host_slots f)"
  by (cases f) (simp_all add: host_barrier_in_frame_def host_slots_def)

lemma padded_command:
  "linkcmd_of (linkcmd_block cmd c @ zs) = cmd mod 65536"
  "cursor_of (linkcmd_block cmd c @ zs) = c mod 65536"
proof -
  show "linkcmd_of (linkcmd_block cmd c @ zs) = cmd mod 65536"
    using linkcmd_of_block [of cmd c] unfolding linkcmd_of_def by (subst slice_append_left) simp_all
  show "cursor_of (linkcmd_block cmd c @ zs) = c mod 65536"
    using cursor_of_block [of cmd c] unfolding cursor_of_def by (subst slice_append_left) simp_all
qed

lemma on_linkcmd_simps:
  "on_linkcmd set_mons_to_trade c e = on_set_mons c (notify_remote set_mons_to_trade c e)"
  "on_linkcmd start_trade c e = Inr (on_start_trade (notify_remote start_trade c e))"
  "on_linkcmd confirm_finish_trade c e = on_confirm_finish (notify_remote confirm_finish_trade c e)"
  "on_linkcmd both_cancel_trade c e
     = Inr (on_cancel_echo both_cancel_trade (notify_remote both_cancel_trade c e))"
  "on_linkcmd player_cancel_trade c e
     = Inr (on_cancel_echo player_cancel_trade (notify_remote player_cancel_trade c e))"
  "on_linkcmd partner_cancel_trade c e
     = Inr (on_cancel_echo partner_cancel_trade (notify_remote partner_cancel_trade c e))"
  by (simp_all add: on_linkcmd_def Let_def linkcmds)

lemma start_command:
  assumes "te_rx e = block_receiver_new 5" "te_mpid e = 1" "\<not> te_post_cancel e" "\<not> te_hook e"
    and "\<not> te_save_barriers e" "\<not> te_cancelled e"
  shows "\<exists>b. engine_call (Feed (command_frame start_trade 0)) e
    = Inr ((set_state S7_anim (e\<lparr>te_rx := start_rx, te_barrier := b\<rparr>))
             \<lparr>te_anim_wait := Some (te_anim_delay e), te_bt_settle := 0\<rparr>)"
proof -
  note inert = inert_slots [OF start_slots_inert]
  have hb: "host_barrier_in_frame (command_frame start_trade 0) x = Inr None" for x
    using inert by (simp add: barrier_in_slots)
  have cmd: "linkcmd_of (linkcmd_block start_trade 0 @ replicate 4 0) = start_trade"
    by (simp add: padded_command linkcmds)
  have f: "feed_in_frame (command_frame start_trade 0) e
    = Inr (note_traffic True (command_frame start_trade 0)
        (on_start_trade (watch_frame False (e\<lparr>te_rx := start_rx\<rparr>))))"
    using assms hb
    by (simp add: feed_in_frame_def start_heard inert feed_barrier_def hear_barrier_def
        end_save_chain_def watch_frame_def Let_def feed_blocks_def on_host_block_def block_counts
        on_linkcmd_simps cmd notify_remote_def)
  show ?thesis
    using assms unfolding engine_call.simps f
    by (auto simp: note_traffic_def on_start_trade_def watch_frame_def set_state_def Let_def)
qed

subsection \<open>A committed trade\<close>

definition offered_mon :: "int \<Rightarrow> bytes \<Rightarrow> bytes" where
  "offered_mon cursor party600 = py_slice party600 (nat (cursor mod 6) * 100) (nat (cursor mod 6) * 100 + 100)"

lemma host_mon_ok:
  assumes "length (te_host_party e) = 600"
  shows "host_mon c e = Inr (offered_mon c (te_host_party e))"
proof -
  have "nat (c mod 6) < 6" by (simp add: nat_less_iff)
  then have "nat (c mod 6) * 100 + 100 \<le> 600" by linarith
  then show ?thesis
    using assms by (simp add: host_mon_def mon_new_def offered_mon_def party_size_def mon_sizes Let_def)
qed

definition staged :: "bytes list \<Rightarrow> bytes list" where
  "staged party = party_blocks (put_mons 0 party (replicate 600 0))"

lemma arm_rounds:
  assumes "length (te_party e) \<le> 6"
  shows "\<exists>e'. arm_leave_round e = Inr e' \<and> te_party_blocks e' = staged (te_party e)
      \<and> te_party_sent e' = 0 \<and> te_host_blocks e' = 0 \<and> te_lp_sent e' = te_lp_sent e
      \<and> te_state e' = S1_link \<and> te_save_barriers e' = te_save_barriers e
      \<and> te_party e' = te_party e \<and> te_received_mons e' = te_received_mons e"
    and "te_round e < length (te_offered_slots e) \<Longrightarrow>
      \<exists>e'. arm_next_round e = Inr e' \<and> te_party_blocks e' = staged (te_party e)
      \<and> te_party_sent e' = 0 \<and> te_host_blocks e' = 0 \<and> te_lp_sent e' = te_lp_sent e
      \<and> te_state e' = S1_link \<and> te_save_barriers e' = te_save_barriers e
      \<and> te_party e' = te_party e \<and> te_received_mons e' = te_received_mons e"
  using assms
  by (simp_all add: arm_leave_round_def arm_next_round_def reset_round_state_def build_player_party_def
        set_state_def staged_def mon_sizes Let_def)

lemma commit_total:
  assumes "te_round e < length (te_offered_slots e)" "te_trades e \<le> length (te_offered_slots e)"
    and "te_offered_slots e ! te_round e = int k" "k < length (te_party e)" "length (te_party e) \<le> 6"
    and "length (te_host_party e) = 600" "te_host_cursor e = Some c" "te_finish_sent e"
  defines "m \<equiv> offered_mon c (te_host_party e)"
  shows "\<exists>e'. commit_trade e = Inr e'
     \<and> view e' = committed ((te_party e)[k := m]) (te_received_mons e @ [m]) (view e)
     \<and> te_party_blocks e' = staged ((te_party e)[k := m]) \<and> te_party_sent e' = 0
     \<and> te_host_blocks e' = 0 \<and> te_lp_sent e' = te_lp_sent e \<and> te_save_barriers e' \<and> te_state e' = S1_link"
proof -
  define e1 where "e1 = e\<lparr>te_finish_at_commit := te_finish_sent e, te_commits := te_commits e + 1\<rparr>"
  define e2 where "e2 = e1\<lparr>te_received_mon := Some m, te_received_mons := te_received_mons e1 @ [m],
                         te_party := (te_party e)[k := m]\<rparr>"
  define e3 where "e3 = set_state S8_done (e2\<lparr>te_offered := insert (int k) (te_offered e2),
      te_round := te_round e2 + 1\<rparr>)"
  define e4 where "e4 = e3\<lparr>te_save_barriers := True, te_save_settle := 0\<rparr>"
  have hm: "host_mon c e1 = Inr m"
    using host_mon_ok [of e1 c] assms(6) by (simp add: e1_def m_def)
  have tr: "take_received (int k) e1 = Inr e2"
    using assms(4,7) hm by (simp add: take_received_def py_setitem_def e2_def e1_def)
  have cm: "commit_trade e = (if te_round e4 < te_trades e4 then arm_next_round e4
      else arm_leave_round (e4\<lparr>te_leaving := True\<rparr>))"
    unfolding commit_trade_def e1_def [symmetric] Let_def
    using assms(1,3) tr by (simp add: e1_def e3_def e4_def)
  have q: "te_party e4 = (te_party e)[k := m]" "te_lp_sent e4 = te_lp_sent e" "te_save_barriers e4"
    "te_round e4 = te_round e + 1" "te_trades e4 = te_trades e" "te_offered_slots e4 = te_offered_slots e"
    "te_received_mons e4 = te_received_mons e @ [m]"
    by (simp_all add: e4_def e3_def e2_def e1_def set_state_def Let_def)
  have len: "length (te_party e4) \<le> 6" using assms(5) q by simp
  obtain e' where e': "commit_trade e = Inr e'" "te_party_blocks e' = staged ((te_party e)[k := m])"
    "te_party_sent e' = 0" "te_host_blocks e' = 0" "te_lp_sent e' = te_lp_sent e" "te_save_barriers e'"
    "te_state e' = S1_link" "te_party e' = (te_party e)[k := m]"
    "te_received_mons e' = te_received_mons e @ [m]"
  proof (cases "te_round e4 < te_trades e4")
    case True
    then show thesis using arm_rounds(2) [OF len] assms(2) q cm that by auto
  next
    case False
    then show thesis using arm_rounds(1) [of "e4\<lparr>te_leaving := True\<rparr>"] len q cm that by auto
  qed
  obtain p r where ex: "exchanged (int k) (te_party e, te_received_mons e) (p, r)"
    and v: "view e' = committed p r (view e)"
    using commit_view [OF e'(1) assms(2,8)] assms(3) by auto
  have "p = (te_party e)[k := m] \<and> r = te_received_mons e @ [m]"
  proof -
    have "te_party e' = p" "te_received_mons e' = r"
      using arg_cong [OF v, of tv_party] arg_cong [OF v, of tv_received] by (simp_all add: committed_def)
    with e'(8,9) show ?thesis by simp
  qed
  with e' v show ?thesis by blast
qed

text \<open>A commit leaves the block in flight, the barrier and the relay alone.\<close>

definition outside :: "engine \<Rightarrow> block_sender option \<times> barrier \<times> (int \<times> bytes) list \<times> bool \<times> bool" where
  "outside e = (te_sender e, te_barrier e, te_relayed e, te_hook e, te_suppress e)"

lemma set_state_outside [simp]: "outside (set_state v e) = outside e"
  by (simp add: outside_def set_state_def Let_def)

lemma reset_round_outside: "reset_round_state e = Inr e' \<Longrightarrow> outside e' = outside e"
  by (auto simp: reset_round_state_def outside_def)

lemma arm_round_outside:
  "arm_next_round e = Inr e' \<Longrightarrow> outside e' = outside e"
  "arm_leave_round e = Inr e' \<Longrightarrow> outside e' = outside e"
proof -
  assume "arm_next_round e = Inr e'"
  then obtain e1 slot where "reset_round_state e = Inr e1" "e' = set_state S1_link (e1\<lparr>te_trade_slot := slot\<rparr>)"
    by (auto simp: arm_next_round_def)
  moreover have "outside (e1\<lparr>te_trade_slot := slot\<rparr>) = outside e1" for e1 slot
    by (simp add: outside_def)
  ultimately show "outside e' = outside e" using reset_round_outside [of e] by auto
qed (auto simp: arm_leave_round_def dest: reset_round_outside)

lemma take_received_outside: "take_received k e = Inr e' \<Longrightarrow> outside e' = outside e"
  by (cases "te_host_cursor e") (auto simp: take_received_def outside_def)

lemma commit_outside:
  assumes "commit_trade e = Inr e'"
  shows "outside e' = outside e"
proof -
  define e1 where "e1 = e\<lparr>te_finish_at_commit := te_finish_sent e, te_commits := te_commits e + 1\<rparr>"
  obtain slot e2 where e2: "take_received slot e1 = Inr e2"
    and fin: "(let e3 = set_state S8_done (e2\<lparr>te_offered := insert slot (te_offered e2),
                                          te_round := te_round e2 + 1\<rparr>);
               e4 = e3\<lparr>te_save_barriers := True, te_save_settle := 0\<rparr>
           in if te_round e4 < te_trades e4 then arm_next_round e4
              else arm_leave_round (e4\<lparr>te_leaving := True\<rparr>)) = Inr e'"
    using assms unfolding commit_trade_def Let_def e1_def [symmetric] bindr_eq_Inr by blast
  define e4 where "e4 = (set_state S8_done (e2\<lparr>te_offered := insert slot (te_offered e2),
      te_round := te_round e2 + 1\<rparr>))\<lparr>te_save_barriers := True, te_save_settle := 0\<rparr>"
  have "outside e4 = outside e2" by (simp add: e4_def outside_def set_state_def Let_def)
  moreover have "outside (e4\<lparr>te_leaving := True\<rparr>) = outside e4" by (simp add: outside_def)
  moreover have "outside e' = outside e4"
    using fin arm_round_outside(1) [of e4 e'] arm_round_outside(2) [of "e4\<lparr>te_leaving := True\<rparr>" e'] calculation(2)
    unfolding Let_def e4_def [symmetric] by (cases "te_round e4 < te_trades e4") simp_all
  ultimately show ?thesis using take_received_outside [OF e2] by (simp add: e1_def outside_def)
qed

lemma commit_sender: "commit_trade e = Inr e' \<Longrightarrow> te_sender e' = te_sender e"
  using commit_outside [of e e'] by (simp add: outside_def)

subsection \<open>The concrete session, up to its commit\<close>

definition calm :: "engine \<Rightarrow> bool" where
  "calm e \<longleftrightarrow> \<not> te_cancel_barrier e \<and> \<not> te_return_barrier e \<and> \<not> te_post_cancel e
     \<and> \<not> te_save_barriers e"

lemma demo_started:
  "\<exists>e. demo_new = Inr e \<and> te_party e = demo_party \<and> te_offered_slots e = [0] \<and> te_trades e = 1
     \<and> te_round e = 0 \<and> te_commits e = 0 \<and> te_received_mons e = [] \<and> te_state e = S1_link
     \<and> te_rx e = block_receiver_new 5 \<and> te_mpid e = 1 \<and> te_anim_delay e = 0 \<and> te_sender e = None
     \<and> te_host_party e = replicate 600 0 \<and> te_cancel_wait e = None
     \<and> calm e \<and> \<not> te_cancelled e \<and> \<not> te_pending_confirm e"
  by (simp add: calm_def demo_new_def engine_new_def resolve_offered_slots_def demo_party_def py_index_def
      build_player_party_def mon_sizes party_size_def)

lemma demo_animating:
  "\<exists>e. session demo_party e \<and> te_party e = demo_party \<and> te_offered_slots e = [0] \<and> te_trades e = 1
     \<and> te_round e = 0 \<and> te_commits e = 0 \<and> te_received_mons e = [] \<and> te_state e = S7_anim
     \<and> te_anim_wait e = Some 0 \<and> te_sender e = None \<and> te_host_party e = replicate 600 0
     \<and> te_cancel_wait e = None \<and> te_host_cursor e = Some 1
     \<and> \<not> te_cancelled e \<and> \<not> te_pending_confirm e \<and> \<not> te_finish_sent e \<and> \<not> te_hook e \<and> calm e"
proof -
  obtain e0 where e0: "demo_new = Inr e0" "te_party e0 = demo_party" "te_offered_slots e0 = [0]"
    "te_trades e0 = 1" "te_round e0 = 0" "te_commits e0 = 0" "te_received_mons e0 = []"
    "te_state e0 = S1_link" "te_rx e0 = block_receiver_new 5" "te_mpid e0 = 1" "te_anim_delay e0 = 0"
    "te_sender e0 = None" "te_host_party e0 = replicate 600 0" "te_cancel_wait e0 = None"
    "calm e0" "\<not> te_cancelled e0" "\<not> te_pending_confirm e0"
    using demo_started by blast
  define e1 where "e1 = wired False False False e0"
  define e2 where "e2 = e1\<lparr>te_suppress := False, te_host_cursor := Some 1\<rparr>"
  have w: "te_party e2 = demo_party" "te_offered_slots e2 = [0]" "te_trades e2 = 1" "te_round e2 = 0"
    "te_commits e2 = 0" "te_received_mons e2 = []" "te_state e2 = S1_link"
    "te_rx e2 = block_receiver_new 5" "te_mpid e2 = 1" "te_anim_delay e2 = 0" "te_sender e2 = None"
    "te_host_party e2 = replicate 600 0" "te_cancel_wait e2 = None" "te_host_cursor e2 = Some 1"
    "\<not> te_post_cancel e2" "\<not> te_save_barriers e2" "\<not> te_cancelled e2" "\<not> te_pending_confirm e2"
    "\<not> te_hook e2" "te_finish_sent e2 = te_finish_sent e0" "calm e2"
    using e0 by (simp_all add: e2_def e1_def wired_def calm_def)
  have s1: "session demo_party e1"
    unfolding e1_def using e0(1) unfolding demo_new_def by (rule started)
  have r: "engine_call (Remote 1 [1]) e1 = Inr e2"
    using e0 by (simp add: apply_remote_def remote_types on_linkcmd_simps on_set_mons_def Let_def
        notify_remote_def e2_def e1_def wired_def)
  have s2: "session demo_party e2" by (rule called [OF s1 r])
  obtain b where f: "engine_call (Feed (command_frame start_trade 0)) e2
    = Inr ((set_state S7_anim (e2\<lparr>te_rx := start_rx, te_barrier := b\<rparr>))
             \<lparr>te_anim_wait := Some (te_anim_delay e2), te_bt_settle := 0\<rparr>)"
    using start_command [of e2] w by blast
  have fs: "te_finish_sent e0 = False"
    using e0(1) by (auto simp: demo_new_def engine_new_def split: if_splits)
  show ?thesis
    by (intro exI conjI, rule called [OF s2 f]) (use w fs in \<open>simp_all add: set_state_def Let_def calm_def\<close>)
qed

lemma demo_ready:
  "\<exists>e. session demo_party e \<and> te_party e = demo_party \<and> te_offered_slots e = [0] \<and> te_trades e = 1
     \<and> te_round e = 0 \<and> te_commits e = 0 \<and> te_received_mons e = []
     \<and> te_host_party e = replicate 600 0 \<and> te_host_cursor e = Some 1
     \<and> \<not> te_cancelled e \<and> te_finish_sent e \<and> te_sender e = None \<and> te_state e = S7_anim
     \<and> te_anim_wait e = None \<and> te_cancel_wait e = None
     \<and> te_pending_push e = Some (linkcmd_block ready_finish_trade 0) \<and> calm e"
proof -
  obtain e where e: "session demo_party e" "te_party e = demo_party" "te_offered_slots e = [0]"
    "te_trades e = 1" "te_round e = 0" "te_commits e = 0" "te_received_mons e = []"
    "te_anim_wait e = Some 0" "te_sender e = None" "te_host_party e = replicate 600 0"
    "te_cancel_wait e = None" "te_host_cursor e = Some 1" "\<not> te_cancelled e" "\<not> te_pending_confirm e"
    "calm e" "te_state e = S7_anim"
    using demo_animating by blast
  have "engine_call Poll e = Inr (e\<lparr>te_anim_wait := None,
      te_pending_push := Some (linkcmd_block ready_finish_trade 0), te_finish_sent := True\<rparr>)"
    using e by (simp add: poll_send_done_def advance_timers_def cancel_timer_def anim_timer_def Let_def)
  note s = called [OF e(1) this]
  show ?thesis
    by (intro exI conjI, rule s) (use e in \<open>simp_all add: calm_def\<close>)
qed

subsection \<open>The claims\<close>

text \<open>
  C7: The commit exchanges one mon for one mon.  When the leader confirms a trade whose
  READY_FINISH went out, the mon the leader's cursor names (modulo six, out of the received party)
  takes the offered slot, every other mon stays, the trade is counted, the party of the next
  menu is staged from the exchanged party and restarts at its first block, and the link player
  is not sent again.
\<close>

theorem commit_exchanges:
  assumes "\<not> te_cancelled e" "te_finish_sent e" "te_host_cursor e = Some c"
    and "te_round e < te_trades e" "te_trades e = length (te_offered_slots e)"
    and "te_offered_slots e ! te_round e = int k" "k < length (te_party e)" "length (te_party e) \<le> 6"
    and "length (te_host_party e) = 600"
  shows "\<exists>e'. on_linkcmd confirm_finish_trade c' e = Inr e'
     \<and> te_party e' = (te_party e)[k := offered_mon c (te_host_party e)]
     \<and> te_received_mons e' = te_received_mons e @ [offered_mon c (te_host_party e)]
     \<and> te_commits e' = te_commits e + 1 \<and> te_round e' = te_round e + 1
     \<and> te_party_blocks e' = staged (te_party e') \<and> te_party_sent e' = 0
     \<and> te_lp_sent e' = te_lp_sent e \<and> (te_leaving e' \<longleftrightarrow> te_leaving e \<or> te_round e' = te_trades e)"
proof -
  define e1 where "e1 = notify_remote confirm_finish_trade c' e"
  have v1: "view e1 = view e" by (simp add: e1_def quiet)
  have q: "te_host_cursor e1 = te_host_cursor e" "te_host_party e1 = te_host_party e"
    "te_lp_sent e1 = te_lp_sent e"
    by (simp_all add: e1_def notify_remote_def split: option.split)
  have f: "te_party e1 = te_party e" "te_round e1 = te_round e" "te_offered_slots e1 = te_offered_slots e"
    "te_trades e1 = te_trades e" "te_finish_sent e1 = te_finish_sent e" "te_cancelled e1 = te_cancelled e"
    "te_received_mons e1 = te_received_mons e"
    using v1 by (metis view_simps)+
  have "\<exists>e'. commit_trade e1 = Inr e'
     \<and> view e' = committed ((te_party e1)[k := offered_mon c (te_host_party e1)])
                   (te_received_mons e1 @ [offered_mon c (te_host_party e1)]) (view e1)
     \<and> te_party_blocks e' = staged ((te_party e1)[k := offered_mon c (te_host_party e1)])
     \<and> te_party_sent e' = 0 \<and> te_host_blocks e' = 0 \<and> te_lp_sent e' = te_lp_sent e1
     \<and> te_save_barriers e' \<and> te_state e' = S1_link"
    by (rule commit_total) (use assms f q in simp_all)
  then obtain e' where e': "commit_trade e1 = Inr e'"
     "view e' = committed ((te_party e)[k := offered_mon c (te_host_party e)])
                   (te_received_mons e @ [offered_mon c (te_host_party e)]) (view e)"
     "te_party_blocks e' = staged ((te_party e)[k := offered_mon c (te_host_party e)])"
     "te_party_sent e' = 0" "te_lp_sent e' = te_lp_sent e"
    unfolding f q v1 by blast
  have "on_linkcmd confirm_finish_trade c' e = Inr e'"
    using e'(1) assms(1,2) f by (simp add: on_linkcmd_simps on_confirm_finish_def e1_def)
  moreover have "te_party e' = (te_party e)[k := offered_mon c (te_host_party e)]"
    "te_received_mons e' = te_received_mons e @ [offered_mon c (te_host_party e)]"
    "te_commits e' = te_commits e + 1" "te_round e' = te_round e + 1"
    "te_leaving e' \<longleftrightarrow> te_leaving e \<or> \<not> te_round e + 1 < te_trades e"
    using arg_cong [OF e'(2), of tv_party] arg_cong [OF e'(2), of tv_received]
      arg_cong [OF e'(2), of tv_commits] arg_cong [OF e'(2), of tv_round]
      arg_cong [OF e'(2), of tv_leaving] by (simp_all add: committed_def)
  ultimately show ?thesis using e'(3,4,5) assms(4) by auto
qed


lemma demo_sizes: "length demo_party = 2" by (simp add: demo_party_def)

lemma commit_exchanges_witness:
  "\<exists>e e'. session demo_party e \<and> on_linkcmd confirm_finish_trade 0 e = Inr e'
     \<and> te_party e' = [replicate 100 0, demo_mon 2] \<and> te_commits e' = 1 \<and> te_leaving e'"
proof -
  obtain e where e: "session demo_party e" "te_party e = demo_party" "te_offered_slots e = [0]"
    "te_trades e = 1" "te_round e = 0" "te_commits e = 0"
    "te_host_party e = replicate 600 0" "te_host_cursor e = Some 1" "\<not> te_cancelled e" "te_finish_sent e"
    using demo_ready by blast
  from commit_exchanges [of e 1 0 0] e obtain e' where "on_linkcmd confirm_finish_trade 0 e = Inr e'"
     "te_party e' = demo_party[0 := offered_mon 1 (replicate 600 0)]" "te_commits e' = 1"
     "te_round e' = 1" "te_leaving e' \<longleftrightarrow> te_leaving e \<or> te_round e' = te_trades e"
    by (auto simp: demo_sizes)
  with e show ?thesis
    by (intro exI [of _ e] exI [of _ e'])
       (simp add: demo_party_def offered_mon_def py_slice_def)
qed

text \<open>
  C1: The engine implements the follower's protocol.  Every call an engine answers without
  an exception, a received frame, an emitted slot, a gated frame, a relayed message or the
  seating, is a run of the abstract steps on its view; so every session is one from its start.
\<close>

theorem engine_refines_protocol:
  assumes "session party e" "engine_calls cs e = Inr e'"
  shows "trade_steps (view e) (view e') \<and> view_ok (view e')"
proof
  have ok: "view_ok (view e)" using session_ok [OF assms(1)] by blast
  then show st: "trade_steps (view e) (view e')"
    by (intro engine_calls_runs [OF assms(2)] view_ok_slots)
  show "view_ok (view e')" by (rule trade.runs_inv [OF st ok])
qed

lemma engine_refines_protocol_witness:
  "\<exists>e e'. te_commits e' = 1 \<and> trade_steps (view e) (view e') \<and> view_ok (view e')"
proof -
  obtain e where e: "session demo_party e" "te_party e = demo_party" "te_offered_slots e = [0]"
    "te_trades e = 1" "te_round e = 0" "te_commits e = 0" "te_received_mons e = []"
    "te_anim_wait e = Some 0" "te_sender e = None" "te_host_party e = replicate 600 0"
    "te_cancel_wait e = None" "te_host_cursor e = Some 1" "\<not> te_cancelled e" "\<not> te_pending_confirm e"
    "\<not> te_finish_sent e" "\<not> te_hook e"
    using demo_animating by blast
  define e1 where "e1 = e\<lparr>te_anim_wait := None,
      te_pending_push := Some (linkcmd_block ready_finish_trade 0), te_finish_sent := True\<rparr>"
  have p: "engine_call Poll e = Inr e1"
    using e by (simp add: poll_send_done_def advance_timers_def cancel_timer_def anim_timer_def Let_def e1_def)
  have "\<exists>e2. commit_trade (e1\<lparr>te_suppress := True\<rparr>) = Inr e2 \<and> view e2
      = committed (demo_party[0 := offered_mon 1 (replicate 600 0)]) [offered_mon 1 (replicate 600 0)]
          (view (e1\<lparr>te_suppress := True\<rparr>))"
    using commit_total [of "e1\<lparr>te_suppress := True\<rparr>" 0 1] e by (auto simp: e1_def demo_sizes)
  then obtain e2 where e2: "commit_trade (e1\<lparr>te_suppress := True\<rparr>) = Inr e2"
    and v2: "view e2 = committed (demo_party[0 := offered_mon 1 (replicate 600 0)])
       [offered_mon 1 (replicate 600 0)] (view (e1\<lparr>te_suppress := True\<rparr>))" by blast
  have "engine_call (Remote 2 []) e1 = Inr (e2\<lparr>te_suppress := False\<rparr>)"
    using e e2 by (simp add: apply_remote_def remote_types on_linkcmd_simps on_confirm_finish_def
        Let_def notify_remote_def e1_def)
  with p have c: "engine_calls [Poll, Remote 2 []] e = Inr (e2\<lparr>te_suppress := False\<rparr>)"
    by (simp add: engine_calls_def)
  have "te_commits (e2\<lparr>te_suppress := False\<rparr>) = 1"
    using arg_cong [OF v2, of tv_commits] e by (simp add: committed_def e1_def)
  with engine_refines_protocol [OF e(1) c] show ?thesis by blast
qed


text \<open>
  C2: The books of a session balance.  At every moment the number of commits is the round,
  which never exceeds the trades ordered; the slots given away are the first so many of the
  offered slots, which are distinct, so no slot is given twice and no received mon is given
  on; there is at most one received mon per commit; the party keeps its size; the session is
  leaving exactly when the last trade is done; and no commit happened before READY_FINISH was
  sent for it.
\<close>

theorem trades_accounted:
  assumes "session party e"
  shows "te_commits e = te_round e \<and> te_round e \<le> te_trades e \<and> te_trades e \<le> 6
     \<and> distinct (te_offered_slots e) \<and> length (te_offered_slots e) = te_trades e
     \<and> te_offered e = set (take (te_round e) (te_offered_slots e))
     \<and> (te_round e < te_trades e \<longrightarrow> te_trade_slot e = te_offered_slots e ! te_round e
           \<and> te_trade_slot e \<notin> te_offered e)
     \<and> length (te_received_mons e) \<le> te_commits e \<and> length (te_party e) = length party
     \<and> (te_leaving e \<longleftrightarrow> te_round e = te_trades e)
     \<and> (0 < te_commits e \<longrightarrow> te_finish_at_commit e)"
proof -
  have ok: "view_ok (view e)" and len: "length (te_party e) = length party"
    using session_ok [OF assms] by auto
  have "te_offered_slots e ! te_round e \<notin> set (take (te_round e) (te_offered_slots e))"
    if "te_round e < te_trades e"
  proof -
    have "distinct (take (Suc (te_round e)) (te_offered_slots e))" "te_round e < length (te_offered_slots e)"
      using ok that by (simp_all add: view_ok_def)
    then show ?thesis by (simp add: take_Suc_conv_app_nth)
  qed
  with ok len show ?thesis by (auto simp: view_ok_def)
qed

lemma trades_accounted_witness:
  "\<exists>e. session demo_party e \<and> te_commits e = 0 \<and> te_finish_sent e
     \<and> te_trade_slot e = 0 \<and> te_trade_slot e \<notin> te_offered e \<and> \<not> te_leaving e"
proof -
  obtain e where e: "session demo_party e" "te_offered_slots e = [0]"
    "te_trades e = 1" "te_round e = 0" "te_commits e = 0" "te_finish_sent e"
    using demo_ready by blast
  from trades_accounted [OF e(1)] e show ?thesis by (intro exI [of _ e]) auto
qed

text \<open>
  C8: A cancelled session is over.  Once a session is cancelled and no confirmation is
  pending, nothing that happens later commits a trade, changes the party or receives a mon,
  and the session stays cancelled.
\<close>

theorem cancelled_is_final:
  assumes "session party e" "te_cancelled e" "\<not> te_pending_confirm e" "engine_calls cs e = Inr e'"
  shows "te_cancelled e' \<and> te_commits e' = te_commits e \<and> te_party e' = te_party e
     \<and> te_received_mons e' = te_received_mons e \<and> \<not> te_pending_confirm e'"
proof -
  have ok: "view_ok (view e)" using session_ok [OF assms(1)] by blast
  note st = engine_calls_steps [OF assms(4)]
  have "view_ok (view e')" by (rule engine.runs_inv [OF st ok])
  moreover have "view_follows (view e) (view e')" by (rule engine.runs_follow [OF st ok])
  ultimately show ?thesis using ok assms(2,3) by (auto simp: view_follows_def view_ok_def)
qed

lemma demo_cancelled:
  "\<exists>e. session demo_party e \<and> te_commits e = 0 \<and> te_cancelled e \<and> te_anim_wait e = Some 0
     \<and> te_round e = 0 \<and> te_offered_slots e = [0] \<and> te_trades e = 1 \<and> te_party e = demo_party
     \<and> te_host_party e = replicate 600 0 \<and> te_host_cursor e = Some 1 \<and> te_sender e = None
     \<and> te_cancel_wait e = None \<and> te_pending_confirm e = early \<and> te_received_mons e = []
     \<and> \<not> te_finish_sent e"
proof -
  obtain e where e: "session demo_party e" "te_party e = demo_party" "te_offered_slots e = [0]"
    "te_trades e = 1" "te_round e = 0" "te_commits e = 0" "te_received_mons e = []"
    "te_anim_wait e = Some 0" "te_sender e = None" "te_host_party e = replicate 600 0"
    "te_cancel_wait e = None" "te_host_cursor e = Some 1" "\<not> te_cancelled e" "\<not> te_pending_confirm e"
    "\<not> te_finish_sent e" "\<not> te_hook e"
    using demo_animating by blast
  define e1 where "e1 = (if early then e\<lparr>te_suppress := False, te_pending_confirm := True\<rparr> else e)"
  have s1: "session demo_party e1"
  proof (cases early)
    case True
    have "engine_call (Remote 2 []) e = Inr e1"
      using e True by (simp add: apply_remote_def remote_types on_linkcmd_simps on_confirm_finish_def
          Let_def notify_remote_def e1_def)
    then show ?thesis by (rule called [OF e(1)])
  next
    case False
    then show ?thesis by (simp add: e1_def e(1))
  qed
  have neq: "player_cancel_trade \<noteq> both_cancel_trade" by (simp add: linkcmds)
  have "\<exists>e2. engine_call (Remote 3 []) e1 = Inr e2 \<and> te_cancelled e2 \<and> te_commits e2 = 0
     \<and> te_anim_wait e2 = Some 0 \<and> te_pending_confirm e2 = early
     \<and> te_round e2 = 0 \<and> te_offered_slots e2 = [0] \<and> te_trades e2 = 1 \<and> te_party e2 = demo_party
     \<and> te_host_party e2 = replicate 600 0 \<and> te_host_cursor e2 = Some 1 \<and> te_sender e2 = None
     \<and> te_cancel_wait e2 = None \<and> te_received_mons e2 = [] \<and> \<not> te_finish_sent e2"
    using e neq by (simp add: apply_remote_def remote_types on_linkcmd_simps on_cancel_echo_def
        set_state_def Let_def notify_remote_def e1_def)
  then show ?thesis using called [OF s1] by blast
qed

lemma cancelled_is_final_witness:
  "\<exists>e e'. session demo_party e \<and> engine_calls [Remote 2 [], Poll, Remote 2 []] e = Inr e'
     \<and> te_finish_sent e' \<and> te_commits e' = 0 \<and> te_party e' = demo_party"
proof -
  obtain e where e: "session demo_party e" "te_commits e = 0" "te_cancelled e" "te_anim_wait e = Some 0"
    "te_party e = demo_party" "te_sender e = None" "te_cancel_wait e = None" "\<not> te_pending_confirm e"
    using demo_cancelled [of False] by auto
  have "\<exists>e'. engine_calls [Remote 2 [], Poll, Remote 2 []] e = Inr e' \<and> te_finish_sent e'"
    using e by (simp add: engine_calls_def apply_remote_def remote_types on_linkcmd_simps
        on_confirm_finish_def Let_def notify_remote_def poll_send_done_def advance_timers_def
        cancel_timer_def anim_timer_def split: option.split)
  then obtain e' where "engine_calls [Remote 2 [], Poll, Remote 2 []] e = Inr e'" "te_finish_sent e'"
    by blast
  with cancelled_is_final [OF e(1,3,8) this(1)] e show ?thesis by metis
qed

text \<open>
  C37: A confirmation that came early survives a cancellation.  When the leader's confirmation
  arrives during the animation and the leader then cancels, the countdown still ends in a
  commit: the next timer step of the cancelled session takes the mon and counts the trade.
\<close>

theorem cancelled_session_commits:
  assumes "session party e" "te_cancelled e" "te_pending_confirm e" "te_anim_wait e = Some 0"
    and "poll_send_done e = Inr e'"
  shows "te_commits e' = te_commits e + 1 \<and> te_cancelled e'"
proof -
  have ok: "slots_ok (view e)" using session_ok [OF assms(1)] by (simp add: view_ok_slots)
  define e1 where "e1 = cancel_timer e"
  have q: "te_anim_wait e1 = Some 0" "te_pending_confirm e1" "te_commits e1 = te_commits e"
    "te_trades e1 = te_trades e" "te_offered_slots e1 = te_offered_slots e" "te_sender e1 = te_sender e"
    "te_cancelled e1"
    using assms by (simp_all add: e1_def cancel_timer_def split: option.split)
  define e2 where "e2 = e1\<lparr>te_anim_wait := None,
      te_pending_push := Some (linkcmd_block ready_finish_trade 0), te_finish_sent := True,
      te_pending_confirm := False\<rparr>"
  have adv: "advance_timers e = commit_trade e2"
    using q unfolding advance_timers_def e1_def [symmetric] by (simp add: anim_timer_def Let_def e2_def)
  obtain e3 where e3: "commit_trade e2 = Inr e3"
    using assms(5) unfolding poll_send_done_def adv bindr_eq_Inr by blast
  obtain p r where v3: "view e3 = committed p r (view e2)"
    using commit_view [OF e3] ok q by (auto simp: slots_ok_def e2_def)
  have c3: "te_commits e3 = te_commits e + 1" "te_cancelled e3"
    using arg_cong [OF v3, of tv_commits] arg_cong [OF v3, of tv_cancelled] q
    by (simp_all add: committed_def e2_def)
  have "e' = e3 \<or> (\<exists>s. e' = snd (tick_sender s e3))"
    using assms(5) unfolding poll_send_done_def adv e3 bindr.simps
    by (cases "te_sender e3") (auto simp: te_tick_def split: if_split_asm prod.splits, metis snd_conv)
  then have "view e' = view e3" using view_sender by metis
  with c3 show ?thesis by (metis view_simps(6,13))
qed

lemma cancelled_session_commits_witness:
  "\<exists>e e'. session demo_party e \<and> te_cancelled e \<and> te_commits e = 0 \<and> poll_send_done e = Inr e'
     \<and> te_commits e' = 1 \<and> te_cancelled e'"
proof -
  obtain e where e: "session demo_party e" "te_commits e = 0" "te_cancelled e" "te_anim_wait e = Some 0"
    "te_round e = 0" "te_offered_slots e = [0]" "te_trades e = 1" "te_party e = demo_party"
    "te_host_party e = replicate 600 0" "te_host_cursor e = Some 1" "te_sender e = None"
    "te_cancel_wait e = None" "te_pending_confirm e"
    using demo_cancelled [of True] by auto
  define e2 where "e2 = e\<lparr>te_anim_wait := None,
      te_pending_push := Some (linkcmd_block ready_finish_trade 0), te_finish_sent := True,
      te_pending_confirm := False\<rparr>"
  have adv: "advance_timers e = commit_trade e2"
    using e by (simp add: advance_timers_def cancel_timer_def anim_timer_def Let_def e2_def)
  have "\<exists>e3. commit_trade e2 = Inr e3"
    using commit_total [of e2 0 1] e by (auto simp: e2_def demo_sizes)
  then obtain e3 where e3: "commit_trade e2 = Inr e3" by blast
  have "te_sender e3 = None" using commit_sender [OF e3] e by (simp add: e2_def)
  then have "poll_send_done e = Inr e3" by (simp add: poll_send_done_def adv e3)
  with cancelled_session_commits [OF e(1,3,13,4) this] e show ?thesis by auto
qed

end
