(* ===== verification/Trade_Wire.thy ===== *)
theory Trade_Wire
  imports Trade_Props
begin

section \<open>What the engine puts on the wire\<close>

subsection \<open>Every slot is seven words\<close>

definition words_ok :: "int list \<Rightarrow> bool" where
  "words_ok ws \<longleftrightarrow> length ws = 7 \<and> (\<forall>w\<in>set ws. 0 \<le> w \<and> w < 65536)"

lemma masked_word: "0 \<le> (x :: int) AND 0xFFFF \<and> x AND 0xFFFF < 65536"
  using take_bit_int_less_exp [of 16 x] by (simp add: masks)

lemma words_ok_simple [simp]:
  "words_ok idle_words" "words_ok (exit_standby_words c)" "words_ok (close_link_words c)"
  "words_ok (init_words c ow)"
  using masked_word [of c] masked_word [of "ow OR owner_flag"]
  by (simp_all add: words_ok_def idle_words_def exit_standby_words_def close_link_words_def
        init_words_def rfu_ops)

lemma two_bytes: "from_le (py_slice c i (i + 2)) < 65536"
proof -
  have "from_le (py_slice c i (i + 2)) < 256 ^ length (py_slice c i (i + 2))" by (rule from_le_less)
  also have "\<dots> \<le> (256 :: int) ^ 2" by (rule power_increasing) simp_all
  finally show ?thesis by simp
qed

lemma words_ok_send_block [simp]: "words_ok (send_block_words i chunk)"
proof -
  have "i AND 0x1F = take_bit 5 i" by (simp add: masks)
  moreover have "0 \<le> take_bit 5 i" "take_bit 5 i < 2 ^ 5"
    using take_bit_int_less_exp [of 5 i] by simp_all
  moreover have "(0x8900 :: int) OR x = 0x8900 + x" if "0 \<le> x" "x < 2 ^ 5" for x
    using or_plus [of x 5 "0x448"] that by (simp add: push_bit_eq_mult)
  ultimately have w0: "0 \<le> 0x8900 OR (i AND 0x1F)" "0x8900 OR (i AND 0x1F) < 65536" by simp_all
  define c where "c = ljust 12 0 (take 12 chunk)"
  from w0 show ?thesis
    using two_bytes [of c 0] two_bytes [of c 2] two_bytes [of c 4] two_bytes [of c 6]
      two_bytes [of c 8] two_bytes [of c 10]
    unfolding c_def
    by (auto simp: words_ok_def send_block_words_def rfu_ops Let_def)
qed

lemma words_ok_sender: "words_ok (fst (bs_tick ack s))"
proof -
  have st: "words_ok (fst (bs_stream s))" for s
    by (simp add: bs_stream_def Let_def)
  have hd: "words_ok (fst (bs_hold ack s))" for s
    by (simp add: bs_hold_def Let_def split: option.split)
  show ?thesis
    by (cases "bs_state s") (simp_all add: bs_tick_def st hd Let_def)
qed

lemma words_ok_emit: "want_emit b = (Some ws, b') \<Longrightarrow> words_ok ws"
  by (auto simp: want_emit_def Let_def split: if_splits option.splits)

lemma words_ok_quiescent: "quiescent e = (Some ws, e') \<Longrightarrow> words_ok ws"
  by (auto simp: quiescent_def dest: words_ok_emit split: prod.splits option.splits)

lemma words_ok_stages:
  "tick_cancel_exit e = (Some ws, e') \<Longrightarrow> words_ok ws"
  "tick_return_field e = (Some ws, e') \<Longrightarrow> words_ok ws"
  "tick_overworld e = (Some ws, e') \<Longrightarrow> words_ok ws"
  "tick_save e = (Some ws, e') \<Longrightarrow> words_ok ws"
  "tick_push e = (Some ws, e') \<Longrightarrow> words_ok ws"
  "tick_warp e = (Some ws, e') \<Longrightarrow> words_ok ws"
  "tick_post_seat e = (Some ws, e') \<Longrightarrow> words_ok ws"
  "words_ok (fst (tick_idle e))"
proof -
  show "words_ok ws" if "tick_push e = (Some ws, e')"
  proof (cases "te_pending_push e")
    case None
    with that show ?thesis by (simp add: tick_push_def)
  next
    case (Some buf)
    with that obtain ack s where "ws = fst (bs_tick ack s)"
      by (auto simp: tick_push_def Let_def split: prod.splits) (metis fst_conv)
    then show ?thesis by (simp add: words_ok_sender)
  qed
  show "words_ok ws" if "tick_post_seat e = (Some ws, e')"
    using that by (auto simp: tick_post_seat_def sustain_standby_def Let_def split: if_splits)
  show "words_ok (fst (tick_idle e))"
    by (auto simp: tick_idle_def dest: words_ok_emit split: prod.splits option.splits)
qed (auto simp: tick_cancel_exit_def tick_return_field_def tick_overworld_def tick_save_def
      tick_warp_def Let_def dest: words_ok_quiescent split: if_splits prod.splits bool.splits)

lemma or_else_cases:
  assumes "or_else st k = Inr (ws, e')"
  obtains "st = (Some ws, e')" | e where "st = (None, e)" "k e = Inr (ws, e')"
  using assms by (cases st; cases "fst st") (auto simp: or_else_def)

lemma words_ok_tick:
  assumes "te_tick e = Inr (ws, e')"
  shows "words_ok ws"
proof (cases "te_sender e")
  case (Some s)
  with assms obtain ack where "ws = fst (bs_tick ack s)"
    by (auto simp: te_tick_def tick_sender_def Let_def split: prod.splits) (metis fst_conv)
  then show ?thesis by (simp add: words_ok_sender)
next
  case None
  note t = assms [unfolded te_tick_def None option.case]
  have tail: "words_ok ws" if "or_else (tick_push x) (\<lambda>e6. or_else (tick_warp e6)
      (\<lambda>e7. or_else (tick_post_seat e7) (\<lambda>e8. Inr (tick_idle e8)))) = Inr (ws, e')" for x
    using that
    using words_ok_stages(8)
    by (elim or_else_cases) (auto dest: words_ok_stages(1-7) simp: eq_fst_iff, metis fst_conv)
  show ?thesis
    using t by (elim or_else_cases) (auto dest: words_ok_stages(1-7) tail)
qed

named_theorems frames \<open>fields an operation leaves alone\<close>

lemma stage_frames [frames]:
  "te_anim_wait (snd (quiescent e)) = te_anim_wait e"
  "te_anim_wait (snd (tick_cancel_exit e)) = te_anim_wait e"
  "te_anim_wait (snd (tick_return_field e)) = te_anim_wait e"
  "te_anim_wait (snd (tick_overworld e)) = te_anim_wait e"
  "te_anim_wait (snd (tick_save e)) = te_anim_wait e"
  by (simp_all add: quiescent_def tick_cancel_exit_def tick_return_field_def tick_overworld_def
        tick_save_def run_save_chain_def split: prod.split)

lemma or_else_total:
  "(\<And>x. st = (None, x) \<Longrightarrow> \<exists>r. k x = Inr r) \<Longrightarrow> \<exists>r. or_else st k = Inr r"
  by (cases st; cases "fst st") (auto simp: or_else_def)

lemma timers_idle:
  assumes "te_anim_wait e = None"
  shows "advance_timers e = Inr (cancel_timer e)"
proof -
  have "te_anim_wait (cancel_timer e) = None"
    using assms by (simp add: cancel_timer_def split: option.split)
  then show ?thesis by (simp add: advance_timers_def anim_timer_def)
qed

lemma tick_tail_total:
  "\<exists>r. or_else (tick_push x) (\<lambda>e6. or_else (tick_warp e6)
     (\<lambda>e7. or_else (tick_post_seat e7) (\<lambda>e8. Inr (tick_idle e8)))) = Inr r"
  by (rule or_else_total, rule or_else_total, rule or_else_total) blast

lemma te_tick_total:
  assumes "te_anim_wait e = None"
  shows "\<exists>r. te_tick e = Inr r"
proof (cases "te_sender e")
  case (Some s)
  then show ?thesis by (simp add: te_tick_def)
next
  case None
  show ?thesis
    unfolding te_tick_def None option.case
  proof (rule or_else_total, rule or_else_total, rule or_else_total, rule or_else_total, goal_cases)
    case (1 e1 e2 e3 e4)
    then have "te_anim_wait e4 = None"
      using assms stage_frames(2) [of e] stage_frames(3) [of e1] stage_frames(4) [of e2]
        stage_frames(5) [of e3] by simp
    then have "advance_timers e4 = Inr (cancel_timer e4)" by (rule timers_idle)
    with 1 show ?case using tick_tail_total [of "tick_select (tick_seam (cancel_timer e4))"] by simp
  qed
qed

text \<open>
  C30: Every frame yields one well-formed slot.  Whatever state the engine is in, the words
  its tick returns are seven 16-bit values, which the slot builder turns into a 14-byte slot.
\<close>

theorem tick_yields_slot:
  assumes "te_tick e = Inr (ws, e')"
  shows "length ws = 7 \<and> (\<forall>w\<in>set ws. 0 \<le> w \<and> w < 65536)
     \<and> (\<exists>slot b'. slot_build b ws = Inr (slot, b') \<and> length slot = 14)"
proof -
  have w: "words_ok ws" by (rule words_ok_tick [OF assms])
  then have len: "length ws = 7" by (simp add: words_ok_def)
  have slot: "length (words_to_slot xs) = 14" if "length xs = 7" for xs
    using that by (simp add: words_to_slot_def length_concat comp_def sum_list_triv)
  have "\<exists>slot b'. slot_build b ws = Inr (slot, b') \<and> length slot = 14"
    using len slot [of "ws[0 := (ws ! 0 OR push_bit 5 (sb_tag b)) AND 0xFFFF]"]
    by (auto simp: slot_build_def Let_def idle_slot_def comm_slot_length_def)
  with w show ?thesis by (simp add: words_ok_def)
qed

lemma tick_yields_slot_witness:
  "\<exists>e ws e'. session demo_party e \<and> te_tick e = Inr (ws, e') \<and> length ws = 7"
proof -
  obtain e0 where e0: "demo_new = Inr e0" using demo_started by blast
  have s: "session demo_party (wired False False False e0)"
    using e0 unfolding demo_new_def by (rule started)
  have "te_anim_wait e0 = None"
    using e0 by (auto simp: demo_new_def engine_new_def split: if_splits)
  then obtain ws e' where "te_tick (wired False False False e0) = Inr (ws, e')"
    using te_tick_total [of "wired False False False e0"] by (auto simp: wired_def)
  with tick_yields_slot [OF this] s show ?thesis by blast
qed

subsection \<open>The commands the follower says\<close>





lemma stage_view: "st = (None, x) \<Longrightarrow> view (snd st) = view e \<Longrightarrow> te_sender (snd st) = te_sender e \<Longrightarrow>
    view x = view e \<and> te_sender x = te_sender e"
  by simp






subsection \<open>Sustained standby commands\<close>

definition sustained :: "int \<Rightarrow> nat \<Rightarrow> nat \<times> nat" where
  "sustained k n = ((\<lambda>c. snd (sustain_standby k c)) ^^ n) (0, 0)"

lemma sustained_phase:
  "sustained k n = (let r = n mod 66 in if r \<le> 6 then (r, 0) else (6, r - 6))"
proof (induction n)
  case 0
  then show ?case by (simp add: sustained_def)
next
  case (Suc n)
  have st: "sustained k (Suc n) = snd (sustain_standby k (sustained k n))"
    by (simp add: sustained_def)
  have "n mod 66 < 66" by simp
  then show ?case
    unfolding st Suc.IH mod_Suc
    by (auto simp: sustain_standby_def warp_standby_emits_def standby_rearm_gap_def Let_def)
qed

text \<open>
  A sustained standby never floods.  Counting the frames for which the engine sustains a
  standby round, it emits the command in the first six of every sixty-six and is silent in
  the other sixty, for ever: at most one frame in eleven, and never more than sixty silent
  frames in a row.
\<close>

theorem sustained_duty_cycle:
  "fst (sustain_standby k (sustained k n)) =
     (if n mod 66 < 6 then exit_standby_words k else idle_words)"
proof -
  have "n mod 66 < 66" by simp
  then show ?thesis
    unfolding sustained_phase
    by (auto simp: sustain_standby_def warp_standby_emits_def standby_rearm_gap_def Let_def)
qed


subsection \<open>The countdown to READY_FINISH\<close>

lemma poll_frames:
  assumes "te_sender e = Some s"
  shows "te_anim_wait (snd (tick_sender s e)) = te_anim_wait e"
    "te_finish_sent (snd (tick_sender s e)) = te_finish_sent e"
    "te_pending_confirm (snd (tick_sender s e)) = te_pending_confirm e"
    "te_pending_push (snd (tick_sender s e)) = te_pending_push e"
  by (simp_all add: tick_sender_def sender_finished_def set_state_def Let_def split: prod.split)

lemma poll_step:
  assumes "advance_timers e = Inr e1"
  shows "\<exists>e'. poll_send_done e = Inr e' \<and> te_anim_wait e' = te_anim_wait e1
     \<and> te_finish_sent e' = te_finish_sent e1 \<and> te_pending_confirm e' = te_pending_confirm e1
     \<and> te_pending_push e' = te_pending_push e1"
proof (cases "te_sender e1")
  case None
  then show ?thesis by (simp add: poll_send_done_def assms)
next
  case (Some s)
  then show ?thesis
    using poll_frames [OF Some]
    by (cases "tick_sender s e1") (simp add: poll_send_done_def assms te_tick_def)
qed

lemma poll_counts_down:
  assumes "te_anim_wait e = Some (int (Suc d))"
  shows "\<exists>e'. poll_send_done e = Inr e' \<and> te_anim_wait e' = Some (int d)
     \<and> te_finish_sent e' = te_finish_sent e \<and> te_pending_confirm e' = te_pending_confirm e"
proof -
  define e1 where "e1 = cancel_timer e"
  have q: "te_anim_wait e1 = te_anim_wait e" "te_finish_sent e1 = te_finish_sent e"
    "te_pending_confirm e1 = te_pending_confirm e"
    by (simp_all add: e1_def cancel_timer_def split: option.split)
  have "advance_timers e = Inr (e1\<lparr>te_anim_wait := Some (int d)\<rparr>)"
    using assms q by (simp add: advance_timers_def anim_timer_def e1_def [symmetric])
  from poll_step [OF this] q show ?thesis by auto
qed

lemma poll_finishes:
  assumes "te_anim_wait e = Some 0" "\<not> te_pending_confirm e"
  shows "\<exists>e'. poll_send_done e = Inr e' \<and> te_finish_sent e'
     \<and> te_pending_push e' = Some (linkcmd_block ready_finish_trade 0)"
proof -
  define e1 where "e1 = cancel_timer e"
  have q: "te_anim_wait e1 = Some 0" "\<not> te_pending_confirm e1"
    using assms by (simp_all add: e1_def cancel_timer_def split: option.split)
  have "advance_timers e = Inr (e1\<lparr>te_anim_wait := None,
      te_pending_push := Some (linkcmd_block ready_finish_trade 0), te_finish_sent := True\<rparr>)"
    using q by (simp add: advance_timers_def anim_timer_def e1_def [symmetric])
  from poll_step [OF this] show ?thesis by auto
qed

text \<open>
  READY_FINISH is on time however congested the link.  On frames whose send window is
  full, an animation of \<open>d\<close> frames counts down by one each, without staging anything before
  its end, and the frame after the last stages READY_FINISH; a block that is still being held
  does not delay it.
\<close>

theorem ready_finish_on_time:
  assumes "te_anim_wait e = Some (int d)" "\<not> te_pending_confirm e" "\<not> te_finish_sent e"
  shows "(\<forall>k\<le>d. \<exists>x. engine_calls (replicate k Poll) e = Inr x \<and> te_anim_wait x = Some (int (d - k))
           \<and> \<not> te_finish_sent x)
     \<and> (\<exists>x. engine_calls (replicate (Suc d) Poll) e = Inr x \<and> te_finish_sent x
           \<and> te_pending_push x = Some (linkcmd_block ready_finish_trade 0))"
  using assms
proof (induction d arbitrary: e)
  case 0
  from poll_finishes [of e] 0 obtain e' where "poll_send_done e = Inr e'" "te_finish_sent e'"
    "te_pending_push e' = Some (linkcmd_block ready_finish_trade 0)" by auto
  with 0 show ?case by (simp add: engine_calls_def)
next
  case (Suc d)
  from poll_counts_down [OF Suc.prems(1)] Suc.prems obtain e1 where e1: "poll_send_done e = Inr e1"
    "te_anim_wait e1 = Some (int d)" "\<not> te_finish_sent e1" "\<not> te_pending_confirm e1" by auto
  note IH = Suc.IH [OF e1(2,4,3)]
  have next_call: "engine_calls (replicate (Suc k) Poll) e = engine_calls (replicate k Poll) e1" for k
    by (simp add: engine_calls_def e1(1))
  have "\<exists>x. engine_calls (replicate k Poll) e = Inr x \<and> te_anim_wait x = Some (int (Suc d - k))
           \<and> \<not> te_finish_sent x" if "k \<le> Suc d" for k
  proof (cases k)
    case 0
    with Suc.prems show ?thesis by (simp add: engine_calls_def)
  next
    case (Suc j)
    with that IH next_call [of j] show ?thesis by auto
  qed
  with IH next_call [of "Suc d"] show ?case by auto
qed

lemma ready_finish_on_time_witness:
  "\<exists>e x. session demo_party e \<and> engine_calls [Poll] e = Inr x \<and> te_finish_sent x"
proof -
  obtain e where e: "session demo_party e" "te_anim_wait e = Some 0" "\<not> te_pending_confirm e"
    "\<not> te_finish_sent e" using demo_animating by blast
  from ready_finish_on_time [of e 0] e show ?thesis by auto
qed

end
