(* ===== verification/Trade_Leave.thy ===== *)
theory Trade_Leave
  imports Trade_Wire
begin

section \<open>Leaving a cancelled trade\<close>




definition heard :: "engine \<Rightarrow> engine" where
  "heard e = note_traffic False (slots_frame []) (watch_frame False e)"


lemma heard_fields [simp]:
  "te_sender (heard e) = te_sender e" "te_anim_wait (heard e) = te_anim_wait e"
  "te_cancel_barrier (heard e) = te_cancel_barrier e" "te_return_barrier (heard e) = te_return_barrier e"
  "te_barrier (heard e) = observe_frame False (te_barrier e)"
  by (simp_all add: heard_def note_traffic_def watch_frame_def Let_def)


















end
