(* ===== verification/Trade_Peers.thy ===== *)
theory Trade_Peers
  imports Trade_Props
begin

section \<open>The trade engine and its two peers\<close>

text \<open>
  The host, which pulls the party and closes the session, and the remote engine, to which a
  leader's commands are relayed.
\<close>

subsection \<open>Pulling the party\<close>

fun pulls :: "nat \<Rightarrow> engine \<Rightarrow> py_error + (bytes list \<times> engine)" where
  "pulls 0 e = Inr ([], e)"
| "pulls (Suc n) e =
     bindr (block_for_size 1 200 e) (\<lambda>(b, e1). bindr (pulls n e1) (\<lambda>(bs, e2). Inr (b # bs, e2)))"

lemma pull_party:
  assumes "te_round e = 0 \<longrightarrow> te_lp_sent e"
  shows "\<exists>n. block_for_size 1 200 e = Inr (if te_party_sent e < length (te_party_blocks e)
            then te_party_blocks e ! te_party_sent e else replicate 200 0,
          e\<lparr>te_entry := n, te_party_sent := te_party_sent e + 1\<rparr>)"
proof -
  define e1 where "e1 = (if te_host_in_seat e then e\<lparr>te_entry := on_trade_menu_open (te_entry e)\<rparr> else e)"
  have "\<exists>n. e1 = e\<lparr>te_entry := n\<rparr>"
  proof (cases "te_host_in_seat e")
    case False
    then have "e1 = e\<lparr>te_entry := te_entry e\<rparr>" by (simp add: e1_def)
    then show ?thesis by blast
  qed (auto simp: e1_def)
  then obtain n where e1: "e1 = e\<lparr>te_entry := n\<rparr>" by blast
  have "block_for_size 1 200 e = Inr (if te_party_sent e1 < length (te_party_blocks e1)
            then te_party_blocks e1 ! te_party_sent e1 else replicate 200 0,
          e1\<lparr>te_party_sent := te_party_sent e1 + 1\<rparr>)"
    using assms unfolding block_for_size_def e1_def [symmetric] Let_def
    by (auto simp: block_req_size_100_def e1)
  then show ?thesis by (auto simp: e1)
qed

lemma pulls_party:
  assumes "te_round e = 0 \<longrightarrow> te_lp_sent e" "te_party_sent e = i" "i + n \<le> length (te_party_blocks e)"
  shows "\<exists>e'. pulls n e = Inr (take n (drop i (te_party_blocks e)), e') \<and> te_party_sent e' = i + n
     \<and> te_party_blocks e' = te_party_blocks e"
  using assms
proof (induction n arbitrary: e i)
  case 0
  then show ?case by simp
next
  case (Suc n)
  from pull_party [OF Suc.prems(1)] Suc.prems(2,3) obtain m where
    b: "block_for_size 1 200 e = Inr (te_party_blocks e ! i, e\<lparr>te_entry := m, te_party_sent := i + 1\<rparr>)"
    by auto
  from Suc.IH [of "e\<lparr>te_entry := m, te_party_sent := i + 1\<rparr>" "i + 1"] Suc.prems obtain e' where
    "pulls n (e\<lparr>te_entry := m, te_party_sent := i + 1\<rparr>)
       = Inr (take n (drop (i + 1) (te_party_blocks e)), e')" "te_party_sent e' = i + 1 + n"
    "te_party_blocks e' = te_party_blocks e" by auto
  moreover have "take (Suc n) (drop i (te_party_blocks e))
      = te_party_blocks e ! i # take n (drop (i + 1) (te_party_blocks e))"
    using Suc.prems(3) by (simp add: Cons_nth_drop_Suc [symmetric])
  ultimately show ?case using b by simp
qed

lemma party_blocks_concat:
  assumes "length p = 600"
  shows "concat (party_blocks p) = p" "length (party_blocks p) = 3"
proof -
  have "py_slice p 0 200 @ py_slice p 200 400 @ py_slice p 400 600 = p"
  proof -
    have "p = take 200 p @ take 200 (drop 200 p) @ drop 400 p"
      by (metis append_take_drop_id drop_drop numeral_Bit0)
    moreover have "drop 400 p = take 200 (drop 400 p)" using assms by simp
    ultimately show ?thesis by (simp add: py_slice_def)
  qed
  then show "concat (party_blocks p) = p" "length (party_blocks p) = 3"
    by (simp_all add: party_blocks_def party_block_size_def upt_rec)
qed

text \<open>
  The host receives exactly our party.  Once the link player was sent, the first three
  200-byte pulls of a menu return the three blocks of the staged 600-byte party in order, whose
  concatenation is the party; further pulls return zeros; and a request repeated while a
  block is still streaming serves nothing and changes nothing.
\<close>

theorem party_pulled_in_order:
  assumes "te_round e = 0 \<longrightarrow> te_lp_sent e" "te_party_sent e = 0"
    and "te_party_blocks e = party_blocks p" "length p = 600"
  shows "(\<exists>bs e'. pulls 3 e = Inr (bs, e') \<and> concat bs = p \<and> map length bs = [200, 200, 200]
           \<and> (\<exists>e''. block_for_size 1 200 e' = Inr (replicate 200 0, e'')))
     \<and> (\<forall>s t. \<not> sender_done s \<longrightarrow> on_req t (e\<lparr>te_sender := Some s\<rparr>) = Inr (e\<lparr>te_sender := Some s\<rparr>))"
proof
  note pc = party_blocks_concat [OF assms(4)]
  obtain e' where e': "pulls 3 e = Inr (party_blocks p, e')" "te_party_sent e' = 3"
    "te_party_blocks e' = party_blocks p"
    using pulls_party [of e 0 3] assms pc by auto
  have "map length (party_blocks p) = [200, 200, 200]"
    using assms(4) by (simp add: party_blocks_def party_block_size_def upt_rec)
  moreover have "\<exists>e''. block_for_size 1 200 e' = Inr (replicate 200 0, e'')"
  proof -
    have "te_round e' = 0 \<longrightarrow> te_lp_sent e'"
    proof -
      have keep: "te_round y = te_round x \<and> te_lp_sent y = te_lp_sent x"
        if "pulls n x = Inr (bs, y)" "te_round x = 0 \<longrightarrow> te_lp_sent x" for n x bs y
        using that
      proof (induction n arbitrary: x bs)
        case (Suc n)
        obtain m where "block_for_size 1 200 x = Inr (if te_party_sent x < length (te_party_blocks x)
            then te_party_blocks x ! te_party_sent x else replicate 200 0,
          x\<lparr>te_entry := m, te_party_sent := te_party_sent x + 1\<rparr>)"
          using pull_party [OF Suc.prems(2)] by blast
        with Suc.prems obtain cs where
          "pulls n (x\<lparr>te_entry := m, te_party_sent := te_party_sent x + 1\<rparr>) = Inr (cs, y)" by auto
        from Suc.IH [OF this] Suc.prems(2) show ?case by simp
      qed simp
      from keep [OF e'(1) assms(1)] assms(1) show ?thesis by simp
    qed
    from pull_party [OF this] e'(2,3) pc show ?thesis by auto
  qed
  ultimately show "\<exists>bs e'. pulls 3 e = Inr (bs, e') \<and> concat bs = p \<and> map length bs = [200, 200, 200]
           \<and> (\<exists>e''. block_for_size 1 200 e' = Inr (replicate 200 0, e''))"
    using e'(1) pc(1) by auto
  show "\<forall>s t. \<not> sender_done s \<longrightarrow> on_req t (e\<lparr>te_sender := Some s\<rparr>) = Inr (e\<lparr>te_sender := Some s\<rparr>)"
    by (simp add: on_req_def)
qed

lemma party_pulled_in_order_witness:
  "\<exists>e bs e'. te_party e = demo_party \<and> pulls 3 e = Inr (bs, e')
     \<and> concat bs = put_mons 0 demo_party (replicate 600 0)"
proof -
  obtain e0 where e0: "demo_new = Inr e0" "te_party e0 = demo_party" using demo_started by blast
  define e where "e = e0\<lparr>te_lp_sent := True\<rparr>"
  have "te_party_sent e0 = 0" "te_party_blocks e0 = party_blocks (put_mons 0 demo_party (replicate 600 0))"
    using e0(1) by (auto simp: demo_new_def engine_new_def build_player_party_def mon_sizes split: if_splits)
  moreover have "length (put_mons 0 demo_party (replicate 600 0)) = 600"
    by (simp add: demo_party_def demo_mon_def slice_assign_def mon_sizes)
  ultimately have "\<exists>bs e'. pulls 3 e = Inr (bs, e') \<and> concat bs = put_mons 0 demo_party (replicate 600 0)"
    using party_pulled_in_order [of e "put_mons 0 demo_party (replicate 600 0)"] by (auto simp: e_def)
  with e0(2) show ?thesis by (intro exI [of _ e]) (simp add: e_def)
qed


subsection \<open>The relay to the remote engine\<close>










subsection \<open>Entering and offering\<close>

text \<open>
  The room is entered once.  At every moment the entry history is the phases up to the
  current one in their order, each once; later it only grows; the trade menu has closed the
  seat phase exactly when the phase is P4 or P5; and once closed the seat phase is only
  re-entered by the overworld after a cancelled trade.
\<close>

theorem entry_one_shot:
  assumes "session party e" "engine_calls cs e = Inr e'"
  shows "en_history (te_entry e') = take (Suc (phase_index (en_phase (te_entry e')))) entry_phases
     \<and> en_phase (te_entry e) \<le> en_phase (te_entry e')
     \<and> (en_seat_over (te_entry e') \<longleftrightarrow> P4_trade_menu \<le> en_phase (te_entry e'))
     \<and> (in_seat_phase e' \<longrightarrow> \<not> en_seat_over (te_entry e) \<or> te_post_cancel e')"
proof -
  have ok: "view_ok (view e)" using session_ok [OF assms(1)] by blast
  note st = engine_calls_steps [OF assms(2)]
  have "view_ok (view e')" by (rule engine.runs_inv [OF st ok])
  moreover have "view_follows (view e) (view e')" by (rule engine.runs_follow [OF st ok])
  ultimately show ?thesis
    by (auto simp: view_ok_def view_follows_def entry_ok_def entry_follows_def in_seat_phase_def)
qed

lemma entry_one_shot_witness:
  "\<exists>e e'. session demo_party e \<and> engine_calls [Poll, Seated] e = Inr e'
     \<and> en_phase (te_entry e) \<le> en_phase (te_entry e')"
proof -
  obtain e where e: "session demo_party e" "te_anim_wait e = Some 0" "\<not> te_pending_confirm e"
    "te_sender e = None" "te_cancel_wait e = None" using demo_animating by blast
  obtain e' where "engine_calls [Poll, Seated] e = Inr e'"
    using e by (simp add: engine_calls_def poll_send_done_def advance_timers_def cancel_timer_def
        anim_timer_def Let_def)
  with entry_one_shot [OF e(1) this] e(1) show ?thesis by blast
qed

lemma other_alive: "0 < num_other_alive slot e \<Longrightarrow>
    \<exists>j<length (te_party e). int j \<noteq> slot \<and> \<not> mon_is_empty (te_party e ! j)"
proof -
  assume "0 < num_other_alive slot e"
  then have "filter (\<lambda>(i, m). int i \<noteq> slot \<and> \<not> mon_is_empty m) (enumerate 0 (te_party e)) \<noteq> []"
    by (simp add: num_other_alive_def)
  then obtain i m where "(i, m) \<in> set (enumerate 0 (te_party e))" "int i \<noteq> slot" "\<not> mon_is_empty m"
    by (auto simp: filter_empty_conv)
  then show ?thesis by (auto simp: in_set_enumerate_eq)
qed

lemma ready_push:
  assumes "te_pending_push e = None" "te_pending_push (tick_select e) = Some b" "linkcmd_of b = ready_to_trade"
  shows "te_state e = S4_party \<and> trade_menu_live e \<and> \<not> te_leaving e
     \<and> is_valid_slot (te_trade_slot e) e \<and> b = linkcmd_block ready_to_trade (te_trade_slot e)"
proof -
  have neq: "request_cancel mod 65536 \<noteq> ready_to_trade" by (simp add: linkcmds)
  have v: "is_valid_slot k (e\<lparr>te_selected := s, te_entry := n\<rparr>) = is_valid_slot k e" for k s n
    by (simp add: is_valid_slot_def num_other_alive_def)
  show ?thesis
    using assms neq
    by (auto simp: tick_select_def cancel_menu_def set_state_def Let_def v split: if_split_asm)
qed

text \<open>
  C34: An offer is sound.  READY_TO_TRADE is only queued in the trade menu with the party
  exchange complete in both directions (in live mode the ribbons received, or ten seconds of
  silence), before the last trade is done, for a slot of our party that was not given away
  before, holds a mon, and leaves us another mon; the block names exactly that slot.
\<close>

theorem offers_are_sound:
  assumes "view_ok (view e)" "length (te_party e) \<le> 6" "te_pending_push e = None"
    and "te_pending_push (tick_select e) = Some b" "linkcmd_of b = ready_to_trade"
  shows "te_state e = S4_party \<and> 3 \<le> te_host_blocks e \<and> te_lp_sent e
     \<and> length (te_party_blocks e) \<le> te_party_sent e
     \<and> (te_live e \<longrightarrow> te_got_ribbons e \<or> 600 \<le> te_bt_settle e)
     \<and> te_round e < te_trades e \<and> te_trade_slot e \<notin> te_offered e
     \<and> cursor_of b = te_trade_slot e \<and> 0 \<le> te_trade_slot e \<and> nat (te_trade_slot e) < length (te_party e)
     \<and> \<not> mon_is_empty (te_party e ! nat (te_trade_slot e))
     \<and> (\<exists>j<length (te_party e). int j \<noteq> te_trade_slot e \<and> \<not> mon_is_empty (te_party e ! j))"
proof -
  note ok = assms(1)
  note r = ready_push [OF assms(3-5)]
  then have valid: "0 \<le> te_trade_slot e" "te_trade_slot e < int (length (te_party e))"
    "\<not> mon_is_empty (te_party e ! nat (te_trade_slot e))" "0 < num_other_alive (te_trade_slot e) e"
    by (simp_all add: is_valid_slot_def)
  have "te_trade_slot e mod 65536 = te_trade_slot e"
    using valid(1,2) assms(2) by simp
  then have cur: "cursor_of b = te_trade_slot e" using r by simp
  have lt: "te_round e < te_trades e" using r ok by (auto simp: view_ok_def)
  have "distinct (take (Suc (te_round e)) (te_offered_slots e))" "te_round e < length (te_offered_slots e)"
    using ok lt by (simp_all add: view_ok_def)
  then have "te_offered_slots e ! te_round e \<notin> set (take (te_round e) (te_offered_slots e))"
    by (simp add: take_Suc_conv_app_nth)
  then have "te_trade_slot e \<notin> te_offered e" using ok lt by (simp add: view_ok_def)
  with r cur lt valid other_alive [OF valid(4)] show ?thesis
    by (auto simp: trade_menu_live_def Let_def buffertrade_settle_def split: if_splits)
qed

lemma demo_menu:
  "\<exists>e. view_ok (view e) \<and> te_party e = demo_party \<and> te_pending_push e = None \<and> \<not> te_selected e
     \<and> te_state e = S4_party \<and> trade_menu_live e \<and> te_trade_slot e = 0 \<and> \<not> te_leaving e
     \<and> \<not> te_leader_mode e"
proof -
  obtain e0 where e0: "demo_new = Inr e0" "te_party e0 = demo_party" using demo_started by blast
  have f: "te_pending_push e0 = None" "\<not> te_selected e0" "te_trade_slot e0 = 0" "\<not> te_leaving e0"
    "\<not> te_leader_mode e0" "\<not> te_live e0" "length (te_party_blocks e0) = 3"
    using e0(1) by (auto simp: demo_new_def engine_new_def resolve_offered_slots_def py_index_def
        party_blocks_def split: if_splits)
  define e where "e = e0\<lparr>te_state := S4_party, te_host_blocks := 3, te_lp_sent := True, te_party_sent := 3\<rparr>"
  have "view_ok (view e0)" using engine_new_view e0(1) unfolding demo_new_def by blast
  moreover have "view e = view e0" by (simp add: e_def view_def)
  ultimately have "view_ok (view e)" by simp
  moreover have "te_party e = demo_party" "te_pending_push e = None" "\<not> te_selected e"
    "te_state e = S4_party" "trade_menu_live e" "te_trade_slot e = 0" "\<not> te_leaving e" "\<not> te_leader_mode e"
    using e0(2) f by (simp_all add: e_def trade_menu_live_def)
  ultimately show ?thesis by blast
qed

lemma offers_are_sound_witness:
  "\<exists>e b. te_party e = demo_party \<and> te_pending_push (tick_select e) = Some b
     \<and> linkcmd_of b = ready_to_trade \<and> cursor_of b = 0 \<and> te_trade_slot e \<notin> te_offered e"
proof -
  obtain e where e: "view_ok (view e)" "te_party e = demo_party" "te_pending_push e = None"
    "\<not> te_selected e" "te_state e = S4_party" "trade_menu_live e" "te_trade_slot e = 0" "\<not> te_leaving e"
    "\<not> te_leader_mode e"
    using demo_menu by blast
  have nonempty: "\<not> mon_is_empty (demo_mon 1)" "\<not> mon_is_empty (demo_mon 2)" by code_simp+
  then have "is_valid_slot 0 (e\<lparr>te_selected := True, te_entry := n\<rparr>)" for n
    using e(2) by (simp add: is_valid_slot_def num_other_alive_def demo_party_def)
  then have p: "te_pending_push (tick_select e) = Some (linkcmd_block ready_to_trade 0)"
    using e by (simp add: tick_select_def set_state_def Let_def)
  have "linkcmd_of (linkcmd_block ready_to_trade 0) = ready_to_trade" by (simp add: linkcmds)
  from offers_are_sound [OF e(1) _ e(3) p this] p e this show ?thesis
    by (intro exI [of _ e] exI [of _ "linkcmd_block ready_to_trade 0"]) (simp add: demo_sizes)
qed

text \<open>
  A confirmation too many is not caught.  When all trades are done and the session is only
  leaving, the leader can still start and finish another trade; its confirmation indexes past
  the offered slots and raises.
\<close>

theorem extra_confirmation_raises:
  assumes "te_round e = te_trades e" "length (te_offered_slots e) = te_trades e" "\<not> te_cancelled e"
    and "te_finish_sent e"
  shows "on_linkcmd confirm_finish_trade c e = Inl IndexError
     \<and> te_state (on_start_trade e) = S7_anim"
proof
  show "te_state (on_start_trade e) = S7_anim"
    using assms(3) by (simp add: on_start_trade_def set_state_def Let_def)
  define e1 where "e1 = notify_remote confirm_finish_trade c e"
  have "te_cancelled e1 = te_cancelled e" "te_finish_sent e1 = te_finish_sent e"
    "te_round e1 = te_round e" "te_offered_slots e1 = te_offered_slots e"
    by (simp_all add: e1_def notify_remote_def split: option.split)
  then show "on_linkcmd confirm_finish_trade c e = Inl IndexError"
    using assms
    by (simp add: on_linkcmd_simps on_confirm_finish_def commit_trade_def py_index_def Let_def e1_def [symmetric])
qed

lemma extra_confirmation_raises_witness:
  "\<exists>e. te_round e = 1 \<and> te_offered_slots e = [0]
     \<and> on_linkcmd confirm_finish_trade 0 e = Inl IndexError"
proof -
  obtain e :: engine where e: "te_offered_slots e = [0]" "te_trades e = 1" "\<not> te_cancelled e"
    "te_finish_sent e"
    using demo_ready by blast
  with extra_confirmation_raises [of "e\<lparr>te_round := 1\<rparr>" 0] show ?thesis
    by (intro exI [of _ "e\<lparr>te_round := 1\<rparr>"]) simp
qed

end
