(* ===== verification/Wire.thy ===== *)
theory Wire
  imports Charmap
begin

section \<open>UTF-8 and \<open>struct\<close> as the tunnel formats use them\<close>

text \<open>
  The two parts of the Python standard library the tunnel envelopes are built from:
  \<^verbatim>\<open>str.encode("utf-8")\<close> and the strict \<^verbatim>\<open>bytes.decode("utf-8")\<close>, which refuses overlong
  forms, surrogates and code points above U+10FFFF, and \<^verbatim>\<open>struct.pack\<close> and
  \<^verbatim>\<open>struct.unpack_from\<close> on a sequence of unsigned big-endian fields.  Both are shown to be
  exact inverses, so that the envelope theories need no fact about bytes of their own.
\<close>

datatype wire_error = Value_error | Struct_error

subsection \<open>UTF-8\<close>

definition tail_byte :: "nat \<Rightarrow> byte" where
  "tail_byte c = of_nat (0x80 + c mod 64)"

definition lead_byte :: "nat \<Rightarrow> nat \<Rightarrow> byte" where
  "lead_byte k h = of_nat (k + h)"

definition utf8_char :: "nat \<Rightarrow> bytes option" where
  "utf8_char c =
     (if c < 0x80 then Some [of_nat c]
      else if c < 0x800 then Some [lead_byte 0xC0 (c div 64), tail_byte c]
      else if c < 0x10000 then
        (if 0xD800 \<le> c \<and> c < 0xE000 then None
         else Some [lead_byte 0xE0 (c div 4096), tail_byte (c div 64), tail_byte c])
      else if c < 0x110000 then
        Some [lead_byte 0xF0 (c div 262144), tail_byte (c div 4096), tail_byte (c div 64), tail_byte c]
      else None)"

fun utf8_encode :: "ustr \<Rightarrow> bytes option" where
  "utf8_encode [] = Some []"
| "utf8_encode (c # cs) =
     (case utf8_char c of None \<Rightarrow> None
      | Some b \<Rightarrow> (case utf8_encode cs of None \<Rightarrow> None | Some bs \<Rightarrow> Some (b @ bs)))"

definition tail_bits :: "byte \<Rightarrow> nat option" where
  "tail_bits b = (if 0x80 \<le> unat b \<and> unat b < 0xC0 then Some (unat b - 0x80) else None)"

text \<open>The code point the string starts with, and the rest of the string.\<close>

definition utf8_two :: "nat \<Rightarrow> bytes \<Rightarrow> (nat \<times> bytes) option" where
  "utf8_two h bs =
     (case bs of b # r \<Rightarrow>
        (case tail_bits b of
           Some x \<Rightarrow> (let c = h * 64 + x in if 0x80 \<le> c then Some (c, r) else None)
         | None \<Rightarrow> None)
      | [] \<Rightarrow> None)"

definition utf8_three :: "nat \<Rightarrow> bytes \<Rightarrow> (nat \<times> bytes) option" where
  "utf8_three h bs =
     (case bs of b # b' # r \<Rightarrow>
        (case (tail_bits b, tail_bits b') of
           (Some x, Some y) \<Rightarrow>
             (let c = (h * 64 + x) * 64 + y
              in if 0x800 \<le> c \<and> \<not> (0xD800 \<le> c \<and> c < 0xE000) then Some (c, r) else None)
         | _ \<Rightarrow> None)
      | _ \<Rightarrow> None)"

definition utf8_four :: "nat \<Rightarrow> bytes \<Rightarrow> (nat \<times> bytes) option" where
  "utf8_four h bs =
     (case bs of b # b' # b'' # r \<Rightarrow>
        (case (tail_bits b, tail_bits b', tail_bits b'') of
           (Some x, Some y, Some z) \<Rightarrow>
             (let c = ((h * 64 + x) * 64 + y) * 64 + z
              in if 0x10000 \<le> c \<and> c < 0x110000 then Some (c, r) else None)
         | _ \<Rightarrow> None)
      | _ \<Rightarrow> None)"

definition utf8_first :: "byte \<Rightarrow> bytes \<Rightarrow> (nat \<times> bytes) option" where
  "utf8_first b r =
     (let n = unat b
      in if n < 0x80 then Some (n, r)
         else if n < 0xC0 then None
         else if n < 0xE0 then utf8_two (n - 0xC0) r
         else if n < 0xF0 then utf8_three (n - 0xE0) r
         else if n < 0xF8 then utf8_four (n - 0xF0) r
         else None)"

lemma utf8_first_shorter: "utf8_first b r = Some (c, r') \<Longrightarrow> length r' < Suc (length r)"
  by (auto simp: utf8_first_def utf8_two_def utf8_three_def utf8_four_def Let_def
      split: if_splits list.splits option.splits prod.splits)

function utf8_decode :: "bytes \<Rightarrow> ustr option" where
  "utf8_decode [] = Some []"
| "utf8_decode (b # r) =
     (case utf8_first b r of None \<Rightarrow> None
      | Some (c, r') \<Rightarrow> map_option ((#) c) (utf8_decode r'))"
  by pat_completeness auto
termination
  by (relation "measure length") (auto dest: utf8_first_shorter)

lemma unat_of_nat_byte: "n < 256 \<Longrightarrow> unat (of_nat n :: byte) = n"
  by (simp add: unat_of_nat take_bit_nat_eq_self)

lemma unat_lead_byte: "k + h < 256 \<Longrightarrow> unat (lead_byte k h) = k + h"
  unfolding lead_byte_def by (rule unat_of_nat_byte)

lemma lead_byte_unat: "k \<le> unat b \<Longrightarrow> lead_byte k (unat b - k) = b"
  unfolding lead_byte_def by simp

lemma tail_bits_byte [simp]: "tail_bits (tail_byte c) = Some (c mod 64)"
proof -
  have "c mod 64 < 64" by simp
  then have "unat (tail_byte c) = 0x80 + c mod 64"
    unfolding tail_byte_def by (intro unat_of_nat_byte) simp
  then show ?thesis using \<open>c mod 64 < 64\<close> by (simp add: tail_bits_def)
qed

lemma tail_byte_bits: "tail_bits b = Some x \<Longrightarrow> x < 64 \<and> (\<forall>h. tail_byte (h * 64 + x) = b)"
  by (auto simp: tail_bits_def tail_byte_def split: if_splits)

lemma tail_byte_eq: "tail_bits b = Some x \<Longrightarrow> c = h * 64 + x \<Longrightarrow> x < 64 \<and> tail_byte c = b"
  using tail_byte_bits by blast

lemma div_mod_64: "(c :: nat) div 64 * 64 + c mod 64 = c"
  by simp

lemma div_4096: "(c :: nat) div 4096 = c div 64 div 64"
  by (simp add: div_mult2_eq [symmetric])

lemma div_262144: "(c :: nat) div 262144 = c div 64 div 64 div 64"
  by (simp add: div_mult2_eq [symmetric])

lemma utf8_char_nonempty: "utf8_char c = Some b \<Longrightarrow> b \<noteq> []"
  by (auto simp: utf8_char_def split: if_splits)

lemma utf8_first_char:
  assumes "utf8_char c = Some (b # bs)"
  shows "utf8_first b (bs @ r) = Some (c, r)"
proof -
  consider (one) "c < 0x80" | (two) "0x80 \<le> c" "c < 0x800"
    | (three) "0x800 \<le> c" "c < 0x10000" "\<not> (0xD800 \<le> c \<and> c < 0xE000)"
    | (four) "0x10000 \<le> c" "c < 0x110000"
    using assms by (auto simp: utf8_char_def not_less split: if_splits)
  then show ?thesis
  proof cases
    case one
    then show ?thesis using assms by (auto simp: utf8_char_def utf8_first_def unat_of_nat_byte)
  next
    case two
    then have "c div 64 < 32" by simp
    then have "utf8_first (lead_byte 0xC0 (c div 64)) (tail_byte c # r) = Some (c, r)"
      using two by (simp add: utf8_first_def Let_def unat_lead_byte utf8_two_def)
    with two assms show ?thesis by (auto simp: utf8_char_def)
  next
    case three
    then have "c div 4096 < 16" by simp
    moreover have "(c div 4096 * 64 + c div 64 mod 64) * 64 + c mod 64 = c"
      by (simp add: div_4096)
    ultimately have "utf8_first (lead_byte 0xE0 (c div 4096)) (tail_byte (c div 64) # tail_byte c # r) = Some (c, r)"
      using three by (simp add: utf8_first_def Let_def unat_lead_byte utf8_three_def)
    with three assms show ?thesis by (auto simp: utf8_char_def)
  next
    case four
    then have "c div 262144 < 5" by simp
    moreover have "((c div 262144 * 64 + c div 4096 mod 64) * 64 + c div 64 mod 64) * 64 + c mod 64 = c"
      by (simp add: div_262144 div_4096)
    ultimately have "utf8_first (lead_byte 0xF0 (c div 262144))
        (tail_byte (c div 4096) # tail_byte (c div 64) # tail_byte c # r) = Some (c, r)"
      using four by (simp add: utf8_first_def Let_def unat_lead_byte utf8_four_def)
    with four assms show ?thesis by (auto simp: utf8_char_def)
  qed
qed

lemma utf8_first_inv:
  assumes "utf8_first b r = Some (c, r')"
  shows "\<exists>bs. utf8_char c = Some (b # bs) \<and> r = bs @ r'"
proof -
  consider (one) "unat b < 0x80" | (two) "0xC0 \<le> unat b" "unat b < 0xE0" "utf8_two (unat b - 0xC0) r = Some (c, r')"
    | (three) "0xE0 \<le> unat b" "unat b < 0xF0" "utf8_three (unat b - 0xE0) r = Some (c, r')"
    | (four) "0xF0 \<le> unat b" "unat b < 0xF8" "utf8_four (unat b - 0xF0) r = Some (c, r')"
    using assms by (auto simp: utf8_first_def Let_def not_less split: if_splits)
  then show ?thesis
  proof cases
    case one
    then show ?thesis using assms by (auto simp: utf8_first_def utf8_char_def)
  next
    case two
    then obtain b1 x where r: "r = b1 # r'" "tail_bits b1 = Some x" "c = (unat b - 0xC0) * 64 + x" "0x80 \<le> c"
      by (auto simp: utf8_two_def Let_def split: list.splits option.splits if_splits)
    have x: "x < 64" "tail_byte c = b1" using tail_byte_eq [OF r(2) r(3)] by simp_all
    have d: "c div 64 = unat b - 0xC0" using r(3) x(1) by simp
    have "c < 0x800" using two r(3) x(1) by linarith
    then show ?thesis using two(1) r x d by (simp add: utf8_char_def lead_byte_unat)
  next
    case three
    then obtain b1 b2 x y where r: "r = b1 # b2 # r'" "tail_bits b1 = Some x" "tail_bits b2 = Some y"
        "c = ((unat b - 0xE0) * 64 + x) * 64 + y" "0x800 \<le> c" "\<not> (0xD800 \<le> c \<and> c < 0xE000)"
      by (auto simp: utf8_three_def Let_def split: list.splits option.splits if_splits)
    have y: "y < 64" "tail_byte c = b2" using tail_byte_eq [OF r(3) r(4)] by simp_all
    have e: "c div 64 = (unat b - 0xE0) * 64 + x" using r(4) y(1) by simp
    have x: "x < 64" "tail_byte (c div 64) = b1" using tail_byte_eq [OF r(2) e] by simp_all
    have d: "c div 4096 = unat b - 0xE0" using e x(1) by (simp add: div_4096)
    have "unat b - 0xE0 \<le> 15" "x \<le> 63" "y \<le> 63" using three x(1) y(1) by simp_all
    then have "c < 0x10000" unfolding r(4) by simp
    then show ?thesis using three(1) r x y d by (auto simp: utf8_char_def lead_byte_unat)
  next
    case four
    then obtain b1 b2 b3 x y z where r: "r = b1 # b2 # b3 # r'" "tail_bits b1 = Some x" "tail_bits b2 = Some y"
        "tail_bits b3 = Some z" "c = (((unat b - 0xF0) * 64 + x) * 64 + y) * 64 + z" "0x10000 \<le> c" "c < 0x110000"
      by (auto simp: utf8_four_def Let_def split: list.splits option.splits if_splits)
    have z: "z < 64" "tail_byte c = b3" using tail_byte_eq [OF r(4) r(5)] by simp_all
    have e: "c div 64 = ((unat b - 0xF0) * 64 + x) * 64 + y" using r(5) z(1) by simp
    have y: "y < 64" "tail_byte (c div 64) = b2" using tail_byte_eq [OF r(3) e] by simp_all
    have f: "c div 4096 = (unat b - 0xF0) * 64 + x" using e y(1) by (simp add: div_4096)
    have x: "x < 64" "tail_byte (c div 4096) = b1" using tail_byte_eq [OF r(2) f] by simp_all
    have d: "c div 262144 = unat b - 0xF0" using f x(1) by (simp add: div_262144 div_4096)
    show ?thesis using four(1) r x y z d by (simp add: utf8_char_def lead_byte_unat)
  qed
qed

lemma utf8_decode_encode: "utf8_encode s = Some b \<Longrightarrow> utf8_decode b = Some s"
proof (induction s arbitrary: b)
  case (Cons c cs)
  then obtain x bs where b: "utf8_char c = Some x" "utf8_encode cs = Some bs" "b = x @ bs"
    by (auto split: option.splits)
  then obtain h t where "x = h # t" using utf8_char_nonempty by (cases x) auto
  with b Cons.IH show ?case using utf8_first_char [of c h t bs] by simp
qed simp

lemma utf8_encode_decode: "utf8_decode b = Some s \<Longrightarrow> utf8_encode s = Some b"
proof (induction b arbitrary: s rule: utf8_decode.induct)
  case (2 b r)
  then obtain c r' s' where f: "utf8_first b r = Some (c, r')" "utf8_decode r' = Some s'" "s = c # s'"
    by (auto split: option.splits prod.splits)
  with 2(1) [OF f(1) refl f(2)] utf8_first_inv [OF f(1)] show ?case by auto
qed simp

theorem utf8_exact: "utf8_decode b = Some s \<longleftrightarrow> utf8_encode s = Some b"
  using utf8_decode_encode utf8_encode_decode by blast

subsection \<open>Unsigned big-endian fields\<close>

fun pack_fields :: "(nat \<times> int) list \<Rightarrow> wire_error + bytes" where
  "pack_fields [] = Inr []"
| "pack_fields ((n, v) # fs) =
     (if 0 \<le> v \<and> v < 256 ^ n then bindr (pack_fields fs) (\<lambda>r. Inr (to_be n v @ r))
      else Inl Struct_error)"

fun unpack_fields :: "nat list \<Rightarrow> bytes \<Rightarrow> int list" where
  "unpack_fields [] bs = []"
| "unpack_fields (n # ns) bs = from_be (take n bs) # unpack_fields ns (drop n bs)"

lemma pack_fields_length: "pack_fields fs = Inr b \<Longrightarrow> length b = sum_list (map fst fs)"
  by (induction fs arbitrary: b) (auto split: if_splits)

lemma unpack_fields_pack: "pack_fields fs = Inr b \<Longrightarrow> unpack_fields (map fst fs) (b @ r) = map snd fs"
  by (induction fs arbitrary: b) (auto simp: from_be_to_be split: if_splits)

lemma length_unpack [simp]: "length (unpack_fields ns b) = length ns"
  by (induction ns arbitrary: b) auto

lemma unpack_fits:
  "sum_list ns \<le> length b \<Longrightarrow> i < length ns \<Longrightarrow>
     0 \<le> unpack_fields ns b ! i \<and> unpack_fields ns b ! i < 256 ^ (ns ! i)"
proof (induction ns arbitrary: b i)
  case (Cons n ns)
  have "length (take n b) = n" using Cons.prems by simp
  then have "from_be (take n b) < 256 ^ n" using from_be_less [of "take n b"] by simp
  then show ?case using Cons by (cases i) auto
qed simp

lemma pack_unpack:
  "sum_list ns \<le> length b \<Longrightarrow> pack_fields (zip ns (unpack_fields ns b)) = Inr (take (sum_list ns) b)"
proof (induction ns arbitrary: b)
  case (Cons n ns)
  have l: "length (take n b) = n" using Cons.prems by simp
  have "from_be (take n b) < 256 ^ n" using from_be_less [of "take n b"] l by simp
  moreover have "to_be n (from_be (take n b)) = take n b" using to_be_from_be [of "take n b"] l by simp
  moreover have "pack_fields (zip ns (unpack_fields ns (drop n b))) = Inr (take (sum_list ns) (drop n b))"
    using Cons by simp
  ultimately show ?case by (simp add: take_add)
qed simp

lemma pack_fields_err: "pack_fields fs = Inl e \<Longrightarrow> e = Struct_error"
  by (induction fs) (auto simp: bindr_eq_Inl split: if_splits)

subsection \<open>A gate over a stream of frames\<close>

text \<open>
  Both tunnels pass the frames of a stream through a gate that keeps a state and lets a frame
  through or not.  An invariant that relates the state to the frames let through so far holds
  at the end of every stream.
\<close>

fun gate_run :: "('g \<Rightarrow> 'e \<Rightarrow> 'g \<times> bool) \<Rightarrow> 'g \<Rightarrow> 'e list \<Rightarrow> 'g \<times> 'e list" where
  "gate_run accept g [] = (g, [])"
| "gate_run accept g (e # es) =
     (let (g', ok) = accept g e; (g'', out) = gate_run accept g' es
      in (g'', if ok then e # out else out))"

locale stream_gate =
  fixes accept :: "'g \<Rightarrow> 'e \<Rightarrow> 'g \<times> bool"
    and inv :: "'g \<Rightarrow> 'e list \<Rightarrow> bool"
  assumes inv_accept: "inv g acc \<Longrightarrow> accept g e = (g', ok) \<Longrightarrow> inv g' (if ok then acc @ [e] else acc)"
begin

lemma inv_run: "inv g acc \<Longrightarrow> gate_run accept g es = (g', out) \<Longrightarrow> inv g' (acc @ out)"
proof (induction es arbitrary: g acc out)
  case (Cons e es)
  obtain h ok where a: "accept g e = (h, ok)" by force
  obtain k r where r: "gate_run accept h es = (k, r)" by force
  have o: "k = g'" "out = (if ok then e # r else r)" using Cons.prems(2) by (simp_all add: a r)
  have "inv h (if ok then acc @ [e] else acc)" by (rule inv_accept [OF Cons.prems(1) a])
  from Cons.IH [OF this] r o show ?case by (auto split: if_splits)
qed simp

lemma run_subset: "gate_run accept g es = (g', out) \<Longrightarrow> set out \<subseteq> set es"
proof (induction es arbitrary: g out)
  case (Cons e es)
  obtain h ok where a: "accept g e = (h, ok)" by force
  obtain k r where r: "gate_run accept h es = (k, r)" by force
  have "k = g'" "out = (if ok then e # r else r)" using Cons.prems by (simp_all add: a r)
  with Cons.IH r show ?case by auto
qed simp

end

end
