(* ===== verification/Tunnel.thy ===== *)
theory Tunnel
  imports Wire
begin

section \<open>The RFU tunnel envelope and its ordering (\<open>switchtrade/rfu_tunnel.py\<close>)\<close>

text \<open>
  The first tunnel format: a 32-byte big-endian header, the session name in UTF-8 and an opaque
  payload, the gate that refuses duplicate frames and retired epochs, the transmit direction of
  a role and the player numbering.  \<^verbatim>\<open>time.monotonic_ns()\<close> is the argument \<open>now\<close>.  A
  \<^verbatim>\<open>struct.error\<close> of the header is the \<open>Struct_error\<close> of the wire.
\<close>

subsection \<open>The envelope\<close>

datatype rfu_kind = Kind_rfu | Kind_heartbeat | Kind_peer_ready | Kind_peer_close | Kind_advertisement

fun rfu_kind_value :: "rfu_kind \<Rightarrow> int" where
  "rfu_kind_value Kind_rfu = 1"
| "rfu_kind_value Kind_heartbeat = 2"
| "rfu_kind_value Kind_peer_ready = 3"
| "rfu_kind_value Kind_peer_close = 4"
| "rfu_kind_value Kind_advertisement = 5"

definition rfu_kind_of :: "int \<Rightarrow> rfu_kind option" where
  "rfu_kind_of n =
     (if n = 1 then Some Kind_rfu else if n = 2 then Some Kind_heartbeat
      else if n = 3 then Some Kind_peer_ready else if n = 4 then Some Kind_peer_close
      else if n = 5 then Some Kind_advertisement else None)"

datatype direction = Host_to_guest | Guest_to_host

fun direction_value :: "direction \<Rightarrow> int" where
  "direction_value Host_to_guest = 1"
| "direction_value Guest_to_host = 2"

definition direction_of :: "int \<Rightarrow> direction option" where
  "direction_of n = (if n = 1 then Some Host_to_guest else if n = 2 then Some Guest_to_host else None)"

lemma rfu_kind_of_value [simp]: "rfu_kind_of (rfu_kind_value k) = Some k"
  by (cases k) (auto simp: rfu_kind_of_def)

lemma rfu_kind_of_SomeD: "rfu_kind_of n = Some k \<Longrightarrow> n = rfu_kind_value k"
  by (cases k) (auto simp: rfu_kind_of_def split: if_splits)

lemma direction_of_value [simp]: "direction_of (direction_value d) = Some d"
  by (cases d) (auto simp: direction_of_def)

lemma direction_of_SomeD: "direction_of n = Some d \<Longrightarrow> n = direction_value d"
  by (cases d) (auto simp: direction_of_def split: if_splits)

lemma rfu_kind_byte [simp]: "0 \<le> rfu_kind_value k \<and> rfu_kind_value k < 256"
  by (cases k) auto

lemma direction_byte [simp]: "0 \<le> direction_value d \<and> direction_value d < 256"
  by (cases d) auto

definition rfu_magic :: bytes where "rfu_magic = [0x4D, 0x57, 0x52, 0x46]"
definition rfu_version :: int where "rfu_version = 1"
definition max_session_bytes :: nat where "max_session_bytes = 64"
definition rfu_header_size :: nat where "rfu_header_size = 32"
definition max_rfu_payload :: nat where "max_rfu_payload = 0xFFFF - 8"

record rfu_envelope =
  re_session :: ustr
  re_direction :: direction
  re_epoch :: int
  re_sequence :: int
  re_source :: int
  re_target :: int
  re_payload :: bytes
  re_kind :: rfu_kind
  re_timestamp :: int
  re_flags :: int

definition rfu_widths :: "nat list" where
  "rfu_widths = [1, 1, 1, 1, 4, 4, 8, 1, 1, 2, 4]"

definition rfu_header_values :: "int \<Rightarrow> rfu_envelope \<Rightarrow> bytes \<Rightarrow> int list" where
  "rfu_header_values now e session =
     [rfu_version, rfu_kind_value (re_kind e), direction_value (re_direction e), re_flags e AND 0xFF,
      re_epoch e, re_sequence e, (if re_timestamp e = 0 then now else re_timestamp e),
      re_source e, re_target e, int (length session), int (length (re_payload e))]"

definition rfu_envelope_encode :: "int \<Rightarrow> rfu_envelope \<Rightarrow> wire_error + bytes" where
  "rfu_envelope_encode now e =
     (case utf8_encode (re_session e) of
        None \<Rightarrow> Inl Value_error
      | Some session \<Rightarrow>
          if \<not> (1 \<le> length session \<and> length session \<le> max_session_bytes) then Inl Value_error
          else if max_rfu_payload < length (re_payload e) then Inl Value_error
          else if \<not> (0 \<le> re_source e \<and> re_source e \<le> 0xFF) then Inl Value_error
          else if \<not> (0 \<le> re_target e \<and> re_target e \<le> 0xFF) then Inl Value_error
          else bindr (pack_fields (zip rfu_widths (rfu_header_values now e session))) (\<lambda>h.
                 Inr (rfu_magic @ h @ session @ re_payload e)))"

definition rfu_envelope_fields ::
  "bytes \<Rightarrow> int \<Rightarrow> int \<Rightarrow> int \<Rightarrow> int \<Rightarrow> int \<Rightarrow> int \<Rightarrow> int \<Rightarrow> int \<Rightarrow> int \<Rightarrow> nat \<Rightarrow> nat
     \<Rightarrow> wire_error + rfu_envelope" where
  "rfu_envelope_fields data version kind direction flags epoch sequence timestamp source target
     session_len payload_len =
     (let payload_start = rfu_header_size + session_len
      in if take 4 data \<noteq> rfu_magic \<or> version \<noteq> rfu_version then Inl Value_error
         else if \<not> (1 \<le> session_len \<and> session_len \<le> max_session_bytes) \<or> max_rfu_payload < payload_len
         then Inl Value_error
         else if length data \<noteq> rfu_header_size + session_len + payload_len then Inl Value_error
         else case (utf8_decode (py_slice data rfu_header_size payload_start), rfu_kind_of kind,
                    direction_of direction) of
                (Some session, Some kind', Some direction') \<Rightarrow>
                  Inr \<lparr>re_session = session, re_direction = direction', re_epoch = epoch,
                       re_sequence = sequence, re_source = source, re_target = target,
                       re_payload = drop payload_start data, re_kind = kind',
                       re_timestamp = timestamp, re_flags = flags\<rparr>
              | _ \<Rightarrow> Inl Value_error)"

definition rfu_envelope_decode :: "bytes \<Rightarrow> wire_error + rfu_envelope" where
  "rfu_envelope_decode data =
     (if length data < rfu_header_size then Inl Value_error
      else case unpack_fields rfu_widths (drop 4 data) of
             [version, kind, direction, flags, epoch, sequence, timestamp, source, target,
              session_len, payload_len] \<Rightarrow>
               rfu_envelope_fields data version kind direction flags epoch sequence timestamp
                 source target (nat session_len) (nat payload_len)
           | _ \<Rightarrow> Inl Struct_error)"

text \<open>What the wire keeps of an envelope: the low byte of the flags and a stamped time.\<close>

definition stamped :: "int \<Rightarrow> rfu_envelope \<Rightarrow> rfu_envelope" where
  "stamped now e =
     e\<lparr>re_timestamp := (if re_timestamp e = 0 then now else re_timestamp e),
       re_flags := re_flags e AND 0xFF\<rparr>"

subsection \<open>The sequence gate\<close>

record rfu_gate =
  rg_epoch :: "int option"
  rg_sequence :: int
  rg_gaps :: int
  rg_retired :: "int list"

definition rfu_gate_new :: rfu_gate where
  "rfu_gate_new = \<lparr>rg_epoch = None, rg_sequence = -1, rg_gaps = 0, rg_retired = []\<rparr>"

definition rfu_gate_sequence :: "rfu_gate \<Rightarrow> int \<Rightarrow> rfu_gate \<times> bool" where
  "rfu_gate_sequence g n =
     (if n \<le> rg_sequence g then (g, False)
      else
        let g' = (if 0 \<le> rg_sequence g \<and> n \<noteq> rg_sequence g + 1
                  then g\<lparr>rg_gaps := rg_gaps g + (n - rg_sequence g - 1)\<rparr> else g)
        in (g'\<lparr>rg_sequence := n\<rparr>, True))"

definition rfu_gate_accept :: "rfu_gate \<Rightarrow> rfu_envelope \<Rightarrow> rfu_gate \<times> bool" where
  "rfu_gate_accept g e =
     (case rg_epoch g of
        None \<Rightarrow> rfu_gate_sequence (g\<lparr>rg_epoch := Some (re_epoch e), rg_sequence := -1\<rparr>) (re_sequence e)
      | Some epoch \<Rightarrow>
          if re_epoch e \<noteq> epoch then
            if re_epoch e \<in> set (rg_retired g) then (g, False)
            else rfu_gate_sequence
                   (g\<lparr>rg_retired := List.insert epoch (rg_retired g), rg_epoch := Some (re_epoch e),
                      rg_sequence := -1\<rparr>) (re_sequence e)
          else rfu_gate_sequence g (re_sequence e))"

text \<open>
  Within an epoch the frames let through have rising sequence numbers, and an epoch the gate has
  left never comes back.
\<close>

definition rfu_gate_inv :: "rfu_gate \<Rightarrow> rfu_envelope list \<Rightarrow> bool" where
  "rfu_gate_inv g acc \<longleftrightarrow>
     (case rg_epoch g of
        None \<Rightarrow> acc = [] \<and> rg_retired g = []
      | Some ep \<Rightarrow> ep \<notin> set (rg_retired g) \<and>
          (\<forall>e \<in> set acc. re_epoch e = ep \<and> re_sequence e \<le> rg_sequence g
                       \<or> re_epoch e \<in> set (rg_retired g)))
     \<and> sorted_wrt (\<lambda>x y. re_epoch x = re_epoch y \<longrightarrow> re_sequence x < re_sequence y) acc"

lemma rfu_gate_sequence_inv:
  assumes "rfu_gate_inv g acc" "rg_epoch g = Some (re_epoch e)"
    "rfu_gate_sequence g (re_sequence e) = (g', ok)"
  shows "rfu_gate_inv g' (if ok then acc @ [e] else acc)"
proof (cases ok)
  case False
  then show ?thesis using assms by (auto simp: rfu_gate_sequence_def Let_def split: if_splits)
next
  case True
  then have g: "rg_epoch g' = Some (re_epoch e)" "rg_retired g' = rg_retired g"
      "rg_sequence g' = re_sequence e" "rg_sequence g < re_sequence e"
    using assms by (auto simp: rfu_gate_sequence_def Let_def split: if_splits)
  have i: "re_epoch e \<notin> set (rg_retired g)"
      "\<And>x. x \<in> set acc \<Longrightarrow> re_epoch x = re_epoch e \<and> re_sequence x \<le> rg_sequence g
                    \<or> re_epoch x \<in> set (rg_retired g)"
      "sorted_wrt (\<lambda>x y. re_epoch x = re_epoch y \<longrightarrow> re_sequence x < re_sequence y) acc"
    using assms(1,2) by (auto simp: rfu_gate_inv_def)
  have "sorted_wrt (\<lambda>x y. re_epoch x = re_epoch y \<longrightarrow> re_sequence x < re_sequence y) (acc @ [e])"
    using i g(4) by (fastforce simp: sorted_wrt_append)
  moreover have "re_epoch x = re_epoch e \<and> re_sequence x \<le> re_sequence e
      \<or> re_epoch x \<in> set (rg_retired g)" if "x \<in> set (acc @ [e])" for x
    using that i(2) [of x] g(4) by auto
  ultimately show ?thesis using True g i(1) by (simp add: rfu_gate_inv_def)
qed

lemma rfu_gate_accept_inv:
  assumes i: "rfu_gate_inv g acc" and a: "rfu_gate_accept g e = (g', ok)"
  shows "rfu_gate_inv g' (if ok then acc @ [e] else acc)"
proof (cases "rg_epoch g")
  case None
  then have "rfu_gate_inv (g\<lparr>rg_epoch := Some (re_epoch e), rg_sequence := -1\<rparr>) acc"
    using i by (simp add: rfu_gate_inv_def)
  from rfu_gate_sequence_inv [OF this] a None show ?thesis by (simp add: rfu_gate_accept_def)
next
  case (Some ep)
  consider "re_epoch e = ep" | "re_epoch e \<noteq> ep" "re_epoch e \<in> set (rg_retired g)"
    | (fresh) "re_epoch e \<noteq> ep" "re_epoch e \<notin> set (rg_retired g)" by blast
  then show ?thesis
  proof cases
    case fresh
    then have "rfu_gate_inv (g\<lparr>rg_retired := List.insert ep (rg_retired g), rg_epoch := Some (re_epoch e),
                 rg_sequence := -1\<rparr>) acc"
      using i Some by (auto simp: rfu_gate_inv_def)
    from rfu_gate_sequence_inv [OF this] a Some fresh show ?thesis by (simp add: rfu_gate_accept_def)
  qed (use i a Some rfu_gate_sequence_inv [OF i, of e] in \<open>simp_all add: rfu_gate_accept_def\<close>)
qed

interpretation rfu: stream_gate rfu_gate_accept rfu_gate_inv
  by unfold_locales (rule rfu_gate_accept_inv)

lemma rfu_gate_orders:
  assumes "gate_run rfu_gate_accept rfu_gate_new es = (g, out)"
  shows "sorted_wrt (\<lambda>x y. re_epoch x = re_epoch y \<longrightarrow> re_sequence x < re_sequence y) out"
proof -
  have "rfu_gate_inv rfu_gate_new []" by (simp add: rfu_gate_inv_def rfu_gate_new_def)
  from rfu.inv_run [OF this assms] show ?thesis by (simp add: rfu_gate_inv_def)
qed

subsection \<open>Directions and players\<close>

definition direction_for_role :: "string \<Rightarrow> wire_error + direction" where
  "direction_for_role role =
     (if role = ''host'' then Inr Host_to_guest else if role = ''guest'' then Inr Guest_to_host
      else Inl Value_error)"

definition player_map :: "string \<Rightarrow> wire_error + string" where
  "player_map role = (if role \<in> {''host'', ''guest''} then Inr role else Inl Value_error)"

definition local_to_wire :: "string \<Rightarrow> int \<Rightarrow> wire_error + int" where
  "local_to_wire role player =
     (if player \<notin> {0, 1} then Inl Value_error
      else Inr (if role = ''host'' then player else 1 - player))"

definition wire_to_local :: "string \<Rightarrow> int \<Rightarrow> wire_error + int" where
  "wire_to_local role player = local_to_wire role player"

lemma player_map_involution:
  "local_to_wire role p = Inr w \<Longrightarrow> wire_to_local role w = Inr p"
  by (auto simp: local_to_wire_def wire_to_local_def split: if_splits)

lemma player_map_seats_differ:
  "player_map r = Inr h \<Longrightarrow> player_map r' = Inr g \<Longrightarrow> h \<noteq> g \<Longrightarrow>
     local_to_wire h 0 = Inr w \<Longrightarrow> local_to_wire g 0 \<noteq> Inr w"
  by (auto simp: player_map_def local_to_wire_def split: if_splits)

subsection \<open>The round trip\<close>

lemma rfu_widths_simps: "sum_list rfu_widths = 28" "length rfu_widths = 11"
  by (simp_all add: rfu_widths_def)

lemma length_rfu_magic [simp]: "length rfu_magic = 4"
  by (simp add: rfu_magic_def)

lemma length_rfu_header_values [simp]: "length (rfu_header_values now e s) = 11"
  by (simp add: rfu_header_values_def)

lemma envelope_parts:
  fixes a b h p :: "'x list"
  assumes "length h = n" "length s = k"
  shows "take n (h @ s @ p) = h" "drop n (h @ s @ p) = s @ p"
    "py_slice (h @ s @ p) n (n + k) = s" "drop (n + k) (h @ s @ p) = p"
  using assms by (simp_all add: py_slice_def)

lemma rfu_fields_back:
  assumes "pack_fields (zip rfu_widths (rfu_header_values now e s)) = Inr h"
  shows "length h = 28" "unpack_fields rfu_widths (h @ r) = rfu_header_values now e s"
proof -
  have w: "map fst (zip rfu_widths (rfu_header_values now e s)) = rfu_widths"
    by (simp add: rfu_widths_simps)
  show "length h = 28" using pack_fields_length [OF assms] by (simp add: w rfu_widths_simps)
  show "unpack_fields rfu_widths (h @ r) = rfu_header_values now e s"
    using unpack_fields_pack [OF assms, of r] by (simp add: w rfu_widths_simps)
qed

lemma rfu_decode_encode:
  assumes "rfu_envelope_encode now e = Inr b"
  shows "rfu_envelope_decode b = Inr (stamped now e)"
proof -
  obtain s h where s: "utf8_encode (re_session e) = Some s" "1 \<le> length s" "length s \<le> max_session_bytes"
      "length (re_payload e) \<le> max_rfu_payload"
    and h: "pack_fields (zip rfu_widths (rfu_header_values now e s)) = Inr h"
    and b: "b = rfu_magic @ h @ s @ re_payload e"
    using assms by (auto simp: rfu_envelope_encode_def not_less split: option.splits if_splits)
  note hb = rfu_fields_back [OF h]
  have b': "b = (rfu_magic @ h) @ s @ re_payload e" and l: "length (rfu_magic @ h) = 32"
    by (simp_all add: b hb)
  have v: "unpack_fields rfu_widths (drop 4 b) = rfu_header_values now e s"
    unfolding b using hb(2) by simp
  have m: "take 4 b = rfu_magic" by (simp add: b)
  have len: "length b = 32 + length s + length (re_payload e)" by (simp add: b hb)
  have sl: "py_slice b 32 (32 + length s) = s" and pl: "drop (32 + length s) b = re_payload e"
    unfolding b' by (rule envelope_parts(3,4) [OF l refl])+
  show ?thesis
    unfolding rfu_envelope_decode_def v rfu_header_values_def
    using s m len sl pl utf8_decode_encode [OF s(1)]
    by (simp add: rfu_envelope_fields_def rfu_header_size_def stamped_def)
qed

text \<open>Decoding keeps every byte: what decodes is the encoding of the envelope it decodes to.\<close>

lemma rfu_unpacked:
  assumes "28 \<le> length r" "unpack_fields rfu_widths r = vs"
  shows "pack_fields (zip rfu_widths vs) = Inr (take 28 r)"
  using pack_unpack [of rfu_widths r] assms by (simp add: rfu_widths_simps)

lemma rfu_encode_decode:
  assumes "rfu_envelope_decode b = Inr e" "re_timestamp e \<noteq> 0"
  shows "rfu_envelope_encode now e = Inr b"
proof -
  have l: "32 \<le> length b"
    using assms(1) by (auto simp: rfu_envelope_decode_def rfu_header_size_def not_less split: if_splits)
  obtain ver kd dir fl ep sq ts src tgt sl pl where
    u: "unpack_fields rfu_widths (drop 4 b) = [ver, kd, dir, fl, ep, sq, ts, src, tgt, sl, pl]"
    by (simp add: rfu_widths_def)
  have rng: "0 \<le> [ver, kd, dir, fl, ep, sq, ts, src, tgt, sl, pl] ! i \<and>
      [ver, kd, dir, fl, ep, sq, ts, src, tgt, sl, pl] ! i < 256 ^ (rfu_widths ! i)" if "i < 11" for i
    unfolding u [symmetric] by (rule unpack_fits) (use l that in \<open>simp_all add: rfu_widths_simps\<close>)
  have f: "0 \<le> fl \<and> fl < 256" "0 \<le> src \<and> src < 256" "0 \<le> tgt \<and> tgt < 256" "0 \<le> sl" "0 \<le> pl"
    using rng [of 3] rng [of 7] rng [of 8] rng [of 9] rng [of 10] by (simp_all add: rfu_widths_def)
  define n where "n = nat sl"
  have e: "rfu_envelope_fields b ver kd dir fl ep sq ts src tgt n (nat pl) = Inr e"
    using assms(1) l by (simp add: rfu_envelope_decode_def u rfu_header_size_def n_def)
  then obtain s k d where
    c: "take 4 b = rfu_magic" "ver = rfu_version" "1 \<le> n" "n \<le> max_session_bytes"
      "nat pl \<le> max_rfu_payload" "length b = 32 + n + nat pl"
    and s: "utf8_decode (py_slice b 32 (32 + n)) = Some s" "rfu_kind_of kd = Some k"
      "direction_of dir = Some d"
    and er: "e = \<lparr>re_session = s, re_direction = d, re_epoch = ep, re_sequence = sq, re_source = src,
       re_target = tgt, re_payload = drop (32 + n) b, re_kind = k, re_timestamp = ts, re_flags = fl\<rparr>"
    by (auto simp: rfu_envelope_fields_def Let_def rfu_header_size_def not_less
        split: if_splits option.splits)
  have ss: "utf8_encode s = Some (py_slice b 32 (32 + n))" by (rule utf8_encode_decode [OF s(1)])
  have ls: "length (py_slice b 32 (32 + n)) = n" using c(6) by simp
  have lp: "length (drop (32 + n) b) = nat pl" using c(6) by simp
  have flag: "fl AND 255 = fl"
    using f(1) take_bit_int_eq_self [of fl 8] by (simp add: masks)
  have hv: "rfu_header_values now e (py_slice b 32 (32 + n)) =
      [ver, kd, dir, fl, ep, sq, ts, src, tgt, sl, pl]"
    unfolding rfu_header_values_def er
    using assms(2) c(2) f ls lp flag rfu_kind_of_SomeD [OF s(2)] direction_of_SomeD [OF s(3)]
    by (simp add: er n_def)
  have pk: "pack_fields (zip rfu_widths (rfu_header_values now e (py_slice b 32 (32 + n)))) =
      Inr (take 28 (drop 4 b))"
    unfolding hv by (rule rfu_unpacked) (use l u in simp_all)
  have "b = take 4 b @ take 28 (drop 4 b) @ py_slice b 32 (32 + n) @ drop (32 + n) b"
  proof -
    have "drop 4 b = take 28 (drop 4 b) @ drop 32 b"
      using append_take_drop_id [of 28 "drop 4 b"] by simp
    moreover have "drop 32 b = py_slice b 32 (32 + n) @ drop (32 + n) b"
      using append_take_drop_id [of n "drop 32 b"] by (simp add: py_slice_def add.commute)
    ultimately show ?thesis using append_take_drop_id [of 4 b] by metis
  qed
  then show ?thesis
    using ss ls lp c f pk by (simp add: rfu_envelope_encode_def er)
qed

end
