(* ===== verification/Tunnel_V2.thy ===== *)
theory Tunnel_V2
  imports Tunnel
begin

section \<open>The attempt-scoped tunnel (\<open>switchtrade/rfu_tunnel_v2.py\<close>)\<close>

text \<open>
  The second tunnel format: a frame names its attempt, the seat it comes from, the epoch of its
  source and its place in that epoch; the receiver accepts one gapless stream per epoch, opened
  by \<open>PEER_READY\<close>, and never an epoch it has left.  A refusal is the code of the
  \<^verbatim>\<open>TunnelV2Error\<close>.  Not modelled: the random probe bytes and the SHA-256 of an advertisement.
\<close>

datatype tunnel_code =
    C_source_seat_invalid | C_attempt_invalid | C_flags_invalid | C_payload_too_large
  | C_payload_invalid | C_rfu_payload_invalid | C_envelope_invalid | C_epoch_invalid
  | C_sequence_invalid | C_attempt_mismatch | C_source_seat_mismatch | C_epoch_stale
  | C_epoch_start_invalid | C_sequence_duplicate | C_sequence_gap | C_peer_ready_duplicate

datatype tunnel_error = Refused tunnel_code | Header_error wire_error

datatype source_seat = Member_a | Member_b

fun seat_number :: "source_seat \<Rightarrow> int" where
  "seat_number Member_a = 1"
| "seat_number Member_b = 2"

definition seat_of :: "int \<Rightarrow> source_seat option" where
  "seat_of n = (if n = 1 then Some Member_a else if n = 2 then Some Member_b else None)"

definition source_seat_parse :: "string \<Rightarrow> tunnel_error + source_seat" where
  "source_seat_parse s =
     (if s = ''member_a'' then Inr Member_a else if s = ''member_b'' then Inr Member_b
      else Inl (Refused C_source_seat_invalid))"

definition seat_label :: "source_seat \<Rightarrow> string" where
  "seat_label s = (if s = Member_a then ''member_a'' else ''member_b'')"

definition seat_peer :: "source_seat \<Rightarrow> source_seat" where
  "seat_peer s = (if s = Member_a then Member_b else Member_a)"

datatype tunnel_kind =
    Peer_ready | Probe_challenge | Probe_response | Advertisement | Side_ready | Peer_close | Rfu_data

fun tunnel_kind_value :: "tunnel_kind \<Rightarrow> int" where
  "tunnel_kind_value Peer_ready = 1"
| "tunnel_kind_value Probe_challenge = 2"
| "tunnel_kind_value Probe_response = 3"
| "tunnel_kind_value Advertisement = 4"
| "tunnel_kind_value Side_ready = 5"
| "tunnel_kind_value Peer_close = 6"
| "tunnel_kind_value Rfu_data = 7"

definition tunnel_kind_of :: "int \<Rightarrow> tunnel_kind option" where
  "tunnel_kind_of n =
     (if n = 1 then Some Peer_ready else if n = 2 then Some Probe_challenge
      else if n = 3 then Some Probe_response else if n = 4 then Some Advertisement
      else if n = 5 then Some Side_ready else if n = 6 then Some Peer_close
      else if n = 7 then Some Rfu_data else None)"

definition tunnel_magic :: bytes where "tunnel_magic = [0x53, 0x54, 0x52, 0x32]"
definition tunnel_version :: int where "tunnel_version = 2"
definition max_attempt_bytes :: nat where "max_attempt_bytes = 128"
definition max_tunnel_payload :: nat where "max_tunnel_payload = 64 * 1024"
definition tunnel_header_size :: nat where "tunnel_header_size = 30"
definition probe_bytes :: nat where "probe_bytes = 32"

lemma seat_of_value [simp]: "seat_of (seat_number s) = Some s"
  by (cases s) (auto simp: seat_of_def)

lemma seat_of_SomeD: "seat_of n = Some s \<Longrightarrow> n = seat_number s"
  by (cases s) (auto simp: seat_of_def split: if_splits)

lemma tunnel_kind_of_value [simp]: "tunnel_kind_of (tunnel_kind_value k) = Some k"
  by (cases k) (auto simp: tunnel_kind_of_def)

lemma tunnel_kind_of_SomeD: "tunnel_kind_of n = Some k \<Longrightarrow> n = tunnel_kind_value k"
  by (cases k) (auto simp: tunnel_kind_of_def split: if_splits)

lemma seat_labels: "source_seat_parse (seat_label s) = Inr s" "seat_peer (seat_peer s) = s" "seat_peer s \<noteq> s"
  by (cases s; simp add: source_seat_parse_def seat_label_def seat_peer_def)+

subsection \<open>The envelope\<close>

record tunnel_envelope =
  env_attempt :: ustr
  env_seat :: source_seat
  env_epoch :: int
  env_sequence :: int
  env_kind :: tunnel_kind
  env_payload :: bytes
  env_flags :: int

definition attempt_bytes :: "ustr \<Rightarrow> tunnel_error + bytes" where
  "attempt_bytes attempt_id =
     (case utf8_encode attempt_id of
        None \<Rightarrow> Inl (Refused C_attempt_invalid)
      | Some encoded \<Rightarrow>
          if 1 \<le> length encoded \<and> length encoded \<le> max_attempt_bytes then Inr encoded
          else Inl (Refused C_attempt_invalid))"

definition validate_payload :: "tunnel_kind \<Rightarrow> bytes \<Rightarrow> int \<Rightarrow> tunnel_error + unit" where
  "validate_payload kind payload flags =
     (if \<not> (0 \<le> flags \<and> flags \<le> 0xFF) then Inl (Refused C_flags_invalid)
      else if kind \<noteq> Rfu_data \<and> flags \<noteq> 0 then Inl (Refused C_flags_invalid)
      else if max_tunnel_payload < length payload then Inl (Refused C_payload_too_large)
      else if kind = Peer_ready \<and> payload \<noteq> [] then Inl (Refused C_payload_invalid)
      else if kind \<in> {Probe_challenge, Probe_response} \<and> length payload \<noteq> probe_bytes
      then Inl (Refused C_payload_invalid)
      else if kind \<in> {Advertisement, Side_ready} \<and> payload = [] then Inl (Refused C_payload_invalid)
      else if kind = Rfu_data \<and> (payload = [] \<or> max_rfu_payload < length payload)
      then Inl (Refused C_rfu_payload_invalid)
      else Inr ())"

definition tunnel_widths :: "nat list" where
  "tunnel_widths = [1, 1, 1, 1, 8, 8, 2, 4]"

definition tunnel_header :: "tunnel_envelope \<Rightarrow> bytes \<Rightarrow> int list" where
  "tunnel_header e attempt =
     [tunnel_version, tunnel_kind_value (env_kind e), seat_number (env_seat e), env_flags e,
      env_epoch e, env_sequence e, int (length attempt), int (length (env_payload e))]"

definition lift_header :: "wire_error + 'a \<Rightarrow> tunnel_error + 'a" where
  "lift_header r = (case r of Inl e \<Rightarrow> Inl (Header_error e) | Inr x \<Rightarrow> Inr x)"

definition tunnel_encode :: "tunnel_envelope \<Rightarrow> tunnel_error + bytes" where
  "tunnel_encode e =
     bindr (attempt_bytes (env_attempt e)) (\<lambda>attempt.
       if \<not> (0 \<le> env_epoch e \<and> env_epoch e \<le> 0xFFFFFFFFFFFFFFFF) then Inl (Refused C_epoch_invalid)
       else if \<not> (0 \<le> env_sequence e \<and> env_sequence e \<le> 0xFFFFFFFFFFFFFFFF)
       then Inl (Refused C_sequence_invalid)
       else bindr (validate_payload (env_kind e) (env_payload e) (env_flags e)) (\<lambda>_.
            bindr (lift_header (pack_fields (zip tunnel_widths (tunnel_header e attempt)))) (\<lambda>h.
              Inr (tunnel_magic @ h @ attempt @ env_payload e))))"

definition tunnel_fields ::
  "bytes \<Rightarrow> int \<Rightarrow> int \<Rightarrow> int \<Rightarrow> int \<Rightarrow> int \<Rightarrow> int \<Rightarrow> nat \<Rightarrow> nat \<Rightarrow> tunnel_error + tunnel_envelope" where
  "tunnel_fields raw version kind seat flags epoch sequence attempt_len payload_len =
     (let boundary = tunnel_header_size + attempt_len
      in if take 4 raw \<noteq> tunnel_magic \<or> version \<noteq> tunnel_version then Inl (Refused C_envelope_invalid)
         else if \<not> (1 \<le> attempt_len \<and> attempt_len \<le> max_attempt_bytes) \<or> max_tunnel_payload < payload_len
         then Inl (Refused C_envelope_invalid)
         else if length raw \<noteq> tunnel_header_size + attempt_len + payload_len
         then Inl (Refused C_envelope_invalid)
         else case (utf8_decode (py_slice raw tunnel_header_size boundary), seat_of seat,
                    tunnel_kind_of kind) of
                (Some attempt, Some source, Some kind') \<Rightarrow>
                  bindr (attempt_bytes attempt) (\<lambda>_.
                  bindr (validate_payload kind' (drop boundary raw) flags) (\<lambda>_.
                    Inr \<lparr>env_attempt = attempt, env_seat = source, env_epoch = epoch,
                         env_sequence = sequence, env_kind = kind', env_payload = drop boundary raw,
                         env_flags = flags\<rparr>))
              | _ \<Rightarrow> Inl (Refused C_envelope_invalid))"

definition tunnel_decode :: "bytes \<Rightarrow> tunnel_error + tunnel_envelope" where
  "tunnel_decode raw =
     (if length raw < tunnel_header_size then Inl (Refused C_envelope_invalid)
      else case unpack_fields tunnel_widths (drop 4 raw) of
             [version, kind, seat, flags, epoch, sequence, attempt_len, payload_len] \<Rightarrow>
               tunnel_fields raw version kind seat flags epoch sequence (nat attempt_len) (nat payload_len)
           | _ \<Rightarrow> Inl (Header_error Struct_error))"

subsection \<open>The sequence gate\<close>

record tunnel_gate =
  tg_attempt :: ustr
  tg_seat :: source_seat
  tg_epoch :: "int option"
  tg_next :: int
  tg_retired :: "int list"

definition tunnel_gate_new :: "ustr \<Rightarrow> source_seat \<Rightarrow> tunnel_error + tunnel_gate" where
  "tunnel_gate_new attempt_id seat =
     bindr (attempt_bytes attempt_id) (\<lambda>_.
       Inr \<lparr>tg_attempt = attempt_id, tg_seat = seat, tg_epoch = None, tg_next = 0, tg_retired = []\<rparr>)"

definition tunnel_gate_sequence :: "tunnel_gate \<Rightarrow> tunnel_envelope \<Rightarrow> tunnel_error + tunnel_gate" where
  "tunnel_gate_sequence g e =
     (if env_sequence e < tg_next g then Inl (Refused C_sequence_duplicate)
      else if tg_next g < env_sequence e then Inl (Refused C_sequence_gap)
      else if env_kind e = Peer_ready \<and> env_sequence e \<noteq> 0 then Inl (Refused C_peer_ready_duplicate)
      else Inr (g\<lparr>tg_next := tg_next g + 1\<rparr>))"

definition tunnel_gate_accept :: "tunnel_gate \<Rightarrow> tunnel_envelope \<Rightarrow> tunnel_error + tunnel_gate" where
  "tunnel_gate_accept g e =
     (if env_attempt e \<noteq> tg_attempt g then Inl (Refused C_attempt_mismatch)
      else if env_seat e \<noteq> tg_seat g then Inl (Refused C_source_seat_mismatch)
      else if env_epoch e \<in> set (tg_retired g) then Inl (Refused C_epoch_stale)
      else if Some (env_epoch e) \<noteq> tg_epoch g then
        if env_sequence e \<noteq> 0 \<or> env_kind e \<noteq> Peer_ready then Inl (Refused C_epoch_start_invalid)
        else tunnel_gate_sequence
               (g\<lparr>tg_retired := (case tg_epoch g of None \<Rightarrow> tg_retired g
                                | Some old \<Rightarrow> List.insert old (tg_retired g)),
                  tg_epoch := Some (env_epoch e), tg_next := 0\<rparr>) e
      else tunnel_gate_sequence g e)"

text \<open>A refused frame leaves the gate as it is: no refusal follows a change of the epoch.\<close>

definition tunnel_gate_try :: "tunnel_gate \<Rightarrow> tunnel_envelope \<Rightarrow> tunnel_gate \<times> bool" where
  "tunnel_gate_try g e = (case tunnel_gate_accept g e of Inl _ \<Rightarrow> (g, False) | Inr g' \<Rightarrow> (g', True))"

lemma epoch_opening_never_refused:
  assumes "env_sequence e = 0" "env_kind e = Peer_ready" "tg_next g = 0"
  shows "tunnel_gate_sequence g e = Inr (g\<lparr>tg_next := 1\<rparr>)"
  using assms by (simp add: tunnel_gate_sequence_def)

definition verify_probe :: "bytes \<Rightarrow> bytes \<Rightarrow> bool" where
  "verify_probe challenge response \<longleftrightarrow> length challenge = probe_bytes \<and> challenge = response"

subsection \<open>Encoding and decoding are exact inverses\<close>

lemma tunnel_widths_simps: "sum_list tunnel_widths = 26" "length tunnel_widths = 8"
  by (simp_all add: tunnel_widths_def)

lemma length_tunnel_magic [simp]: "length tunnel_magic = 4"
  by (simp add: tunnel_magic_def)

lemma length_tunnel_header [simp]: "length (tunnel_header e s) = 8"
  by (simp add: tunnel_header_def)

lemma attempt_bytes_eq:
  "attempt_bytes a = Inr s \<longleftrightarrow> utf8_encode a = Some s \<and> 1 \<le> length s \<and> length s \<le> max_attempt_bytes"
  by (auto simp: attempt_bytes_def split: option.splits)

lemma lift_header_Inr [simp]: "lift_header r = Inr h \<longleftrightarrow> r = Inr h"
  by (cases r) (auto simp: lift_header_def)

lemma validate_payload_bound: "validate_payload k p f = Inr () \<Longrightarrow> length p \<le> max_tunnel_payload"
  by (auto simp: validate_payload_def not_less split: if_splits)

lemma tunnel_fields_back:
  assumes "pack_fields (zip tunnel_widths (tunnel_header e s)) = Inr h"
  shows "length h = 26" "unpack_fields tunnel_widths (h @ r) = tunnel_header e s"
proof -
  have w: "map fst (zip tunnel_widths (tunnel_header e s)) = tunnel_widths"
    by (simp add: tunnel_widths_simps)
  show "length h = 26" using pack_fields_length [OF assms] by (simp add: w tunnel_widths_simps)
  show "unpack_fields tunnel_widths (h @ r) = tunnel_header e s"
    using unpack_fields_pack [OF assms, of r] by (simp add: w tunnel_widths_simps)
qed

lemma tunnel_decode_encode:
  assumes "tunnel_encode e = Inr b"
  shows "tunnel_decode b = Inr e"
proof -
  obtain s h where s: "attempt_bytes (env_attempt e) = Inr s"
    and ok: "validate_payload (env_kind e) (env_payload e) (env_flags e) = Inr ()"
    and h: "pack_fields (zip tunnel_widths (tunnel_header e s)) = Inr h"
    and b: "b = tunnel_magic @ h @ s @ env_payload e"
    using assms by (auto simp: tunnel_encode_def split: if_splits)
  note hb = tunnel_fields_back [OF h]
  have b': "b = (tunnel_magic @ h) @ s @ env_payload e" and l: "length (tunnel_magic @ h) = 30"
    by (simp_all add: b hb)
  have v: "unpack_fields tunnel_widths (drop 4 b) = tunnel_header e s"
    unfolding b using hb(2) by simp
  have m: "take 4 b = tunnel_magic" by (simp add: b)
  have len: "length b = 30 + length s + length (env_payload e)" by (simp add: b hb)
  have sl: "py_slice b 30 (30 + length s) = s" and pl: "drop (30 + length s) b = env_payload e"
    unfolding b' by (rule envelope_parts(3,4) [OF l refl])+
  have u: "utf8_decode s = Some (env_attempt e)" "1 \<le> length s" "length s \<le> max_attempt_bytes"
    using s by (auto simp: attempt_bytes_eq intro: utf8_decode_encode)
  show ?thesis
    unfolding tunnel_decode_def v tunnel_header_def
    using s u m len sl pl ok validate_payload_bound [OF ok]
    by (simp add: tunnel_fields_def tunnel_header_size_def)
qed

lemma tunnel_unpacked:
  assumes "26 \<le> length r" "unpack_fields tunnel_widths r = vs"
  shows "pack_fields (zip tunnel_widths vs) = Inr (take 26 r)"
  using pack_unpack [of tunnel_widths r] assms by (simp add: tunnel_widths_simps)

lemma tunnel_encode_decode:
  assumes "tunnel_decode b = Inr e"
  shows "tunnel_encode e = Inr b"
proof -
  have l: "30 \<le> length b"
    using assms by (auto simp: tunnel_decode_def tunnel_header_size_def not_less split: if_splits)
  obtain ver kd st fl ep sq al pl where
    u: "unpack_fields tunnel_widths (drop 4 b) = [ver, kd, st, fl, ep, sq, al, pl]"
    by (simp add: tunnel_widths_def)
  have rng: "0 \<le> [ver, kd, st, fl, ep, sq, al, pl] ! i \<and>
      [ver, kd, st, fl, ep, sq, al, pl] ! i < 256 ^ (tunnel_widths ! i)" if "i < 8" for i
    unfolding u [symmetric] by (rule unpack_fits) (use l that in \<open>simp_all add: tunnel_widths_simps\<close>)
  have f: "0 \<le> ep \<and> ep \<le> 0xFFFFFFFFFFFFFFFF" "0 \<le> sq \<and> sq \<le> 0xFFFFFFFFFFFFFFFF" "0 \<le> al" "0 \<le> pl"
    using rng [of 4] rng [of 5] rng [of 6] rng [of 7] by (simp_all add: tunnel_widths_def)
  define n where "n = nat al"
  have e: "tunnel_fields b ver kd st fl ep sq n (nat pl) = Inr e"
    using assms l by (simp add: tunnel_decode_def u tunnel_header_size_def n_def)
  then obtain a k d s where
    c: "take 4 b = tunnel_magic" "ver = tunnel_version" "length b = 30 + n + nat pl"
    and s: "utf8_decode (py_slice b 30 (30 + n)) = Some a" "tunnel_kind_of kd = Some k"
      "seat_of st = Some d" "attempt_bytes a = Inr s"
    and ok: "validate_payload k (drop (30 + n) b) fl = Inr ()"
    and er: "e = \<lparr>env_attempt = a, env_seat = d, env_epoch = ep, env_sequence = sq, env_kind = k,
       env_payload = drop (30 + n) b, env_flags = fl\<rparr>"
    by (auto simp: tunnel_fields_def Let_def tunnel_header_size_def not_less
        split: if_splits option.splits)
  have ss: "attempt_bytes a = Inr (py_slice b 30 (30 + n))"
    using utf8_encode_decode [OF s(1)] s(4) by (simp add: attempt_bytes_eq)
  have ls: "length (py_slice b 30 (30 + n)) = n" using c(3) by simp
  have lp: "length (drop (30 + n) b) = nat pl" using c(3) by simp
  have hv: "tunnel_header e (py_slice b 30 (30 + n)) = [ver, kd, st, fl, ep, sq, al, pl]"
    unfolding tunnel_header_def er
    using c(2) f ls lp tunnel_kind_of_SomeD [OF s(2)] seat_of_SomeD [OF s(3)]
    by (simp add: n_def)
  have pk: "pack_fields (zip tunnel_widths (tunnel_header e (py_slice b 30 (30 + n)))) =
      Inr (take 26 (drop 4 b))"
    unfolding hv by (rule tunnel_unpacked) (use l u in simp_all)
  have "b = take 4 b @ take 26 (drop 4 b) @ py_slice b 30 (30 + n) @ drop (30 + n) b"
  proof -
    have "drop 4 b = take 26 (drop 4 b) @ drop 30 b"
      using append_take_drop_id [of 26 "drop 4 b"] by simp
    moreover have "drop 30 b = py_slice b 30 (30 + n) @ drop (30 + n) b"
      using append_take_drop_id [of n "drop 30 b"] by (simp add: py_slice_def add.commute)
    ultimately show ?thesis using append_take_drop_id [of 4 b] by metis
  qed
  then show ?thesis
    using ss c f pk ok by (simp add: tunnel_encode_def er)
qed

text \<open>
  C12: An envelope of the attempt tunnel encodes to a byte string exactly when that byte string
  decodes to it: nothing is lost, no second byte string reads as the same envelope, and whatever
  the decoder accepts the encoder would have sent.
\<close>

theorem tunnel_codec_exact: "tunnel_encode e = Inr b \<longleftrightarrow> tunnel_decode b = Inr e"
  using tunnel_decode_encode tunnel_encode_decode by blast

subsection \<open>The accepted stream\<close>

text \<open>The frames of one epoch: numbered from 0 without a gap, \<open>PEER_READY\<close> exactly first.\<close>

definition block_epoch :: "tunnel_envelope list \<Rightarrow> int" where
  "block_epoch b = env_epoch (hd b)"

definition epoch_block :: "ustr \<Rightarrow> source_seat \<Rightarrow> tunnel_envelope list \<Rightarrow> bool" where
  "epoch_block a d b \<longleftrightarrow>
     b \<noteq> [] \<and> map env_sequence b = map int [0..<length b] \<and>
     (\<forall>e \<in> set b. env_attempt e = a \<and> env_seat e = d \<and> env_epoch e = block_epoch b \<and>
                  (env_kind e = Peer_ready \<longleftrightarrow> env_sequence e = 0))"

definition accepted_stream :: "tunnel_gate \<Rightarrow> tunnel_envelope list list \<Rightarrow> bool" where
  "accepted_stream g bs \<longleftrightarrow>
     list_all (epoch_block (tg_attempt g) (tg_seat g)) bs \<and> distinct (map block_epoch bs) \<and>
     (case tg_epoch g of
        None \<Rightarrow> bs = [] \<and> tg_retired g = []
      | Some ep \<Rightarrow> bs \<noteq> [] \<and> block_epoch (last bs) = ep \<and> tg_next g = int (length (last bs)) \<and>
          set (tg_retired g) = block_epoch ` set (butlast bs))"

definition tunnel_gate_inv :: "ustr \<Rightarrow> source_seat \<Rightarrow> tunnel_gate \<Rightarrow> tunnel_envelope list \<Rightarrow> bool" where
  "tunnel_gate_inv a d g acc \<longleftrightarrow>
     tg_attempt g = a \<and> tg_seat g = d \<and> (\<exists>bs. acc = concat bs \<and> accepted_stream g bs)"

lemma tunnel_gate_binding:
  "tunnel_gate_accept g e = Inr g' \<Longrightarrow> tg_attempt g' = tg_attempt g \<and> tg_seat g' = tg_seat g"
  by (auto simp: tunnel_gate_accept_def tunnel_gate_sequence_def split: if_splits)

lemma epoch_block_snoc:
  assumes "epoch_block a d b" "env_attempt e = a" "env_seat e = d" "env_epoch e = block_epoch b"
    "env_sequence e = int (length b)" "env_kind e \<noteq> Peer_ready"
  shows "epoch_block a d (b @ [e])" "block_epoch (b @ [e]) = block_epoch b"
proof -
  have b: "b \<noteq> []" "map env_sequence b = map int [0..<length b]"
      "\<And>x. x \<in> set b \<Longrightarrow> env_attempt x = a \<and> env_seat x = d \<and> env_epoch x = block_epoch b \<and>
                  (env_kind x = Peer_ready \<longleftrightarrow> env_sequence x = 0)"
    using assms(1) by (simp_all add: epoch_block_def)
  show h: "block_epoch (b @ [e]) = block_epoch b" using b(1) by (simp add: block_epoch_def)
  have "map env_sequence (b @ [e]) = map int [0..<length (b @ [e])]"
    using b(2) assms(5) by simp
  moreover have "env_attempt x = a \<and> env_seat x = d \<and> env_epoch x = block_epoch b \<and>
                  (env_kind x = Peer_ready \<longleftrightarrow> env_sequence x = 0)" if "x \<in> set (b @ [e])" for x
    using that b(1,3) assms(2-6) by (cases "x = e") auto
  ultimately show "epoch_block a d (b @ [e])" unfolding epoch_block_def h by blast
qed

lemma epoch_block_single:
  "env_attempt e = a \<Longrightarrow> env_seat e = d \<Longrightarrow> env_sequence e = 0 \<Longrightarrow> env_kind e = Peer_ready \<Longrightarrow>
     epoch_block a d [e]"
  by (simp add: epoch_block_def block_epoch_def)

lemma accepted_same_epoch:
  assumes s: "accepted_stream g bs" and ep: "tg_epoch g = Some (env_epoch e)"
    and e: "env_attempt e = tg_attempt g" "env_seat e = tg_seat g"
    and a: "tunnel_gate_sequence g e = Inr g'"
  shows "\<exists>bs'. concat bs' = concat bs @ [e] \<and> accepted_stream g' bs'"
proof -
  obtain cs b where bs: "bs = cs @ [b]"
    using s ep by (cases bs rule: rev_cases) (auto simp: accepted_stream_def)
  have b: "epoch_block (tg_attempt g) (tg_seat g) b" "block_epoch b = env_epoch e"
      "tg_next g = int (length b)" "b \<noteq> []"
    using s ep by (auto simp: accepted_stream_def bs epoch_block_def)
  have g': "g' = g\<lparr>tg_next := tg_next g + 1\<rparr>" "env_sequence e = int (length b)" "env_kind e \<noteq> Peer_ready"
    using a b(3,4) by (auto simp: tunnel_gate_sequence_def split: if_splits)
  note nb = epoch_block_snoc [OF b(1) e b(2) [symmetric] g'(2,3)]
  have "accepted_stream g' (cs @ [b @ [e]])"
    using s ep nb b by (simp add: accepted_stream_def bs g'(1))
  then show ?thesis by (intro exI [of _ "cs @ [b @ [e]]"]) (simp add: bs)
qed

lemma accepted_new_epoch:
  assumes s: "accepted_stream g bs" and ep: "tg_epoch g \<noteq> Some (env_epoch e)"
    and n: "env_epoch e \<notin> set (tg_retired g)"
    and e: "env_attempt e = tg_attempt g" "env_seat e = tg_seat g" "env_sequence e = 0" "env_kind e = Peer_ready"
    and g': "tg_epoch g' = Some (env_epoch e)" "tg_next g' = 1" "tg_attempt g' = tg_attempt g" "tg_seat g' = tg_seat g"
      "set (tg_retired g') = set (tg_retired g) \<union> set_option (tg_epoch g)"
  shows "accepted_stream g' (bs @ [[e]])"
proof -
  have r: "set (tg_retired g') = block_epoch ` set bs"
  proof (cases "tg_epoch g")
    case None
    then show ?thesis using s g'(5) by (simp add: accepted_stream_def)
  next
    case (Some old)
    then have o: "bs \<noteq> []" "block_epoch (last bs) = old" "set (tg_retired g) = block_epoch ` set (butlast bs)"
      using s by (auto simp: accepted_stream_def)
    have "set bs = insert (last bs) (set (butlast bs))"
      using o(1) by (cases bs rule: rev_cases) auto
    then show ?thesis using o g'(5) Some by simp
  qed
  have "env_epoch e \<notin> set (tg_retired g')" using n ep g'(5) by (cases "tg_epoch g") auto
  then have "block_epoch [e] \<notin> block_epoch ` set bs" unfolding r by (simp add: block_epoch_def)
  moreover have "epoch_block (tg_attempt g) (tg_seat g) [e]" by (rule epoch_block_single) (use e in simp_all)
  moreover have "list_all (epoch_block (tg_attempt g) (tg_seat g)) bs" "distinct (map block_epoch bs)"
    using s by (simp_all add: accepted_stream_def)
  ultimately show ?thesis
    unfolding accepted_stream_def g'(1-4) using r by (simp add: block_epoch_def [of "[e]"])
qed

lemma tunnel_gate_accept_inv:
  assumes i: "tunnel_gate_inv x d g acc" and a: "tunnel_gate_accept g e = Inr g'"
  shows "tunnel_gate_inv x d g' (acc @ [e])"
proof -
  note k = tunnel_gate_binding [OF a]
  have xd: "tg_attempt g = x" "tg_seat g = d" using i by (simp_all add: tunnel_gate_inv_def)
  obtain bs where bs: "acc = concat bs" "accepted_stream g bs"
    using i by (auto simp: tunnel_gate_inv_def)
  have e: "env_attempt e = tg_attempt g" "env_seat e = tg_seat g" "env_epoch e \<notin> set (tg_retired g)"
    using a by (auto simp: tunnel_gate_accept_def split: if_splits)
  show ?thesis
  proof (cases "tg_epoch g = Some (env_epoch e)")
    case True
    then have "tunnel_gate_sequence g e = Inr g'" using a e by (simp add: tunnel_gate_accept_def)
    from accepted_same_epoch [OF bs(2) True e(1,2) this] bs(1) k xd show ?thesis
      unfolding tunnel_gate_inv_def by metis
  next
    case False
    define h where "h = g\<lparr>tg_retired := (case tg_epoch g of None \<Rightarrow> tg_retired g
        | Some old \<Rightarrow> List.insert old (tg_retired g)), tg_epoch := Some (env_epoch e), tg_next := 0\<rparr>"
    have o: "env_sequence e = 0" "env_kind e = Peer_ready" and s: "tunnel_gate_sequence h e = Inr g'"
      using a e False by (auto simp: tunnel_gate_accept_def h_def split: if_splits)
    have g': "g' = h\<lparr>tg_next := 1\<rparr>"
      using s epoch_opening_never_refused [OF o, of h] by (simp add: h_def)
    have "accepted_stream g' (bs @ [[e]])"
      by (rule accepted_new_epoch [OF bs(2) False e(3,1,2) o])
        (simp_all add: g' h_def split: option.splits)
    then show ?thesis
      unfolding tunnel_gate_inv_def using bs(1) k xd by (metis concat.simps concat_append append_Nil2)
  qed
qed

interpretation attempt: stream_gate tunnel_gate_try "tunnel_gate_inv a d" for a d
proof unfold_locales
  fix g acc e g' ok
  assume i: "tunnel_gate_inv a d g acc" and t: "tunnel_gate_try g e = (g', ok)"
  show "tunnel_gate_inv a d g' (if ok then acc @ [e] else acc)"
  proof (cases "tunnel_gate_accept g e")
    case (Inl x)
    then show ?thesis using i t by (simp add: tunnel_gate_try_def)
  next
    case (Inr h)
    then show ?thesis using tunnel_gate_accept_inv [OF i Inr] t by (simp add: tunnel_gate_try_def)
  qed
qed

text \<open>
  C13: Whatever stream of frames reaches a fresh gate, with losses, repetitions, foreign attempts
  or restarted sources, the frames it accepts are complete epochs one after the other: the frames
  of an epoch are numbered from 0 without a gap, the first one and no other is the
  \<open>PEER_READY\<close>, all of them carry the attempt and the seat the gate is bound to, and no epoch
  occurs twice.
\<close>

theorem accepted_stream_gapless:
  assumes "tunnel_gate_new a d = Inr g" "gate_run tunnel_gate_try g es = (g', out)"
  shows "\<exists>bs. out = concat bs \<and> list_all (epoch_block a d) bs \<and> distinct (map block_epoch bs)"
proof -
  have "tunnel_gate_inv a d g []"
    using assms(1) by (auto simp: tunnel_gate_new_def tunnel_gate_inv_def accepted_stream_def)
  from attempt.inv_run [OF this assms(2)] show ?thesis
    by (auto simp: tunnel_gate_inv_def accepted_stream_def)
qed

definition sample_frame :: "int \<Rightarrow> int \<Rightarrow> tunnel_kind \<Rightarrow> tunnel_envelope" where
  "sample_frame epoch n k =
     \<lparr>env_attempt = [97, 49], env_seat = Member_b, env_epoch = epoch, env_sequence = n, env_kind = k,
      env_payload = [1], env_flags = 0\<rparr>"

definition sample_gate :: tunnel_gate where
  "sample_gate = \<lparr>tg_attempt = [97, 49], tg_seat = Member_b, tg_epoch = None, tg_next = 0, tg_retired = []\<rparr>"

lemma sample_gate_new: "tunnel_gate_new [97, 49] Member_b = Inr sample_gate"
  by code_simp

text \<open>A gap, a repetition and a return to the first epoch are refused.\<close>

lemma sample_gate_run:
  "gate_run tunnel_gate_try sample_gate
     [sample_frame 5 0 Peer_ready, sample_frame 5 1 Rfu_data, sample_frame 5 1 Rfu_data,
      sample_frame 5 3 Rfu_data, sample_frame 9 0 Peer_ready, sample_frame 5 2 Rfu_data] =
   (\<lparr>tg_attempt = [97, 49], tg_seat = Member_b, tg_epoch = Some 9, tg_next = 1, tg_retired = [5]\<rparr>,
    [sample_frame 5 0 Peer_ready, sample_frame 5 1 Rfu_data, sample_frame 9 0 Peer_ready])"
  by code_simp

lemma accepted_stream_gapless_witness:
  "\<exists>bs. [sample_frame 5 0 Peer_ready, sample_frame 5 1 Rfu_data, sample_frame 9 0 Peer_ready] = concat bs
     \<and> list_all (epoch_block [97, 49] Member_b) bs \<and> distinct (map block_epoch bs)"
  by (rule accepted_stream_gapless [OF sample_gate_new sample_gate_run])

end
