(* ===== verification/Relay_Session.thy ===== *)
theory Relay_Session
  imports Tunnel_V2 "HOL-Library.Sublist"
begin

section \<open>The attempt-scoped relay session (\<open>relay/server.py\<close>, \<open>switchtrade/c2_protocol.py\<close>)\<close>

text \<open>
  One \<^verbatim>\<open>V2Session\<close>: the connections of the two seats, their sequence gates, the frames
  retained for a reconnecting peer, the readiness of both sides and the advertisement the attempt
  is bound to.  Every operation is one critical section of the session lock, so a run is a list of
  them in any order; a connection is a number that stands for the WebSocket object, and whether a
  send succeeds within its time is an argument.

  The hash functions, the JSON parser and the UUID check of \<^verbatim>\<open>SideReady\<close> are the fields
  of a \<open>relay_env\<close>: the parser answers a record of the eleven fields, or \<^term>\<open>None\<close> where
  the payload is not a JSON object of exactly these fields with their types.
\<close>

subsection \<open>SIDE\_READY\<close>

record side_ready =
  sr_contract :: string
  sr_attempt :: ustr
  sr_activation :: int
  sr_seat :: string
  sr_role :: string
  sr_gate :: string
  sr_run :: string
  sr_stage :: int
  sr_launch :: string
  sr_advert :: string
  sr_proof :: int

record launch =
  la_run :: string
  la_stage :: int
  la_nonce :: string
  la_pid :: int

record relay_env =
  en_sha :: "bytes \<Rightarrow> string"
  en_parse :: "bytes \<Rightarrow> side_ready option"
  en_canonical_uuid :: "string \<Rightarrow> bool"
  en_launch_hash :: "launch \<Rightarrow> string"

datatype relay_code =
    Tunnel_code tunnel_code | C_identity_mismatch | C_advertisement_changed
  | C_side_ready_invalid | C_side_ready_contract | C_side_ready_identity | C_side_ready_role
  | C_side_ready_generation | C_side_ready_advertisement | C_side_ready_duplicate
  | C_bridge_not_ready | C_retention_overflow

definition side_ready_contract :: string where "side_ready_contract = ''side-ready.v1''"

definition role_gate :: "string \<Rightarrow> string option" where
  "role_gate role =
     (if role = ''a_room_joiner'' then Some ''A_READY'' else if role = ''b_ap_host'' then Some ''B_READY''
      else None)"

definition hex_digits :: string where "hex_digits = ''0123456789abcdef''"

definition sha_pattern :: "string \<Rightarrow> bool" where
  "sha_pattern s \<longleftrightarrow> length s = 64 \<and> list_all (\<lambda>c. c \<in> set hex_digits) s"

definition side_ready_validate :: "relay_env \<Rightarrow> side_ready \<Rightarrow> relay_code + side_ready" where
  "side_ready_validate env r =
     (if sr_contract r \<noteq> side_ready_contract then Inl C_side_ready_contract
      else case attempt_bytes (sr_attempt r) of
             Inl _ \<Rightarrow> Inl C_side_ready_identity
           | Inr _ \<Rightarrow>
               if sr_seat r \<notin> {''member_a'', ''member_b''} \<or> \<not> en_canonical_uuid env (sr_run r)
               then Inl C_side_ready_identity
               else if role_gate (sr_role r) \<noteq> Some (sr_gate r) then Inl C_side_ready_role
               else if sr_activation r < 1 \<or> sr_stage r < 1 \<or> sr_proof r < 1
               then Inl C_side_ready_generation
               else if \<not> sha_pattern (sr_launch r) then Inl C_side_ready_identity
               else if \<not> sha_pattern (sr_advert r) then Inl C_side_ready_advertisement
               else Inr r)"

definition side_ready_decode :: "relay_env \<Rightarrow> bytes \<Rightarrow> relay_code + side_ready" where
  "side_ready_decode env payload =
     (case en_parse env payload of
        None \<Rightarrow> Inl C_side_ready_invalid
      | Some r \<Rightarrow> side_ready_validate env r)"

subsection \<open>The session\<close>

definition max_envelope_bytes :: nat where
  "max_envelope_bytes = tunnel_header_size + max_attempt_bytes + max_tunnel_payload"

definition retained_frames :: nat where "retained_frames = 32"
definition retained_limit :: nat where "retained_limit = 128 * 1024"

record relay_session =
  rs_attempt :: ustr
  rs_peers :: "source_seat \<Rightarrow> nat option"
  rs_generations :: "source_seat \<Rightarrow> nat"
  rs_gates :: "source_seat \<Rightarrow> tunnel_gate"
  rs_retained :: "source_seat \<Rightarrow> bytes list"
  rs_retained_bytes :: "source_seat \<Rightarrow> nat"
  rs_side_ready :: "source_seat \<Rightarrow> int option"
  rs_advert :: "string option"
  rs_open :: bool

definition relay_session_new :: "ustr \<Rightarrow> relay_session" where
  "relay_session_new attempt =
     \<lparr>rs_attempt = attempt, rs_peers = (\<lambda>_. None), rs_generations = (\<lambda>_. 0),
      rs_gates = (\<lambda>seat. \<lparr>tg_attempt = attempt, tg_seat = seat, tg_epoch = None, tg_next = 0,
                         tg_retired = []\<rparr>),
      rs_retained = (\<lambda>_. []), rs_retained_bytes = (\<lambda>_. 0), rs_side_ready = (\<lambda>_. None),
      rs_advert = None, rs_open = True\<rparr>"

text \<open>What an operation sends: to which connection, which bytes, and whether it is a live frame.\<close>

datatype sent = Replayed nat bytes | Forwarded nat source_seat bytes

datatype relay_outcome = Proceed | Refuse_slot | Send_failed | Fatal relay_code

subsection \<open>Connecting\<close>

definition relay_connect ::
  "source_seat \<Rightarrow> nat \<Rightarrow> nat \<Rightarrow> relay_session \<Rightarrow> relay_session \<times> sent list \<times> relay_outcome" where
  "relay_connect seat conn delivered s =
     (if rs_peers s seat \<noteq> None then (s, [], Refuse_slot)
      else
        let old = rs_retained s (seat_peer seat);
            s' = s\<lparr>rs_generations := (rs_generations s)(seat := rs_generations s seat + 1),
                   rs_peers := (rs_peers s)(seat := Some conn)\<rparr>
        in (s', map (Replayed conn) (take delivered old),
            if delivered < length old then Send_failed else Proceed))"

text \<open>The replay timed out: the seat is given back if it still belongs to the connection.\<close>

definition relay_connect_failed :: "source_seat \<Rightarrow> nat \<Rightarrow> relay_session \<Rightarrow> relay_session" where
  "relay_connect_failed seat conn s =
     (if rs_peers s seat = Some conn then s\<lparr>rs_peers := (rs_peers s)(seat := None)\<rparr> else s)"

subsection \<open>One frame\<close>

record conn_binding =
  cb_launch :: launch
  cb_role :: "string option"
  cb_activation :: "int option"

definition expected_role :: "string option \<Rightarrow> string option" where
  "expected_role role =
     (if role = Some ''creator'' then Some ''a_room_joiner''
      else if role = Some ''finder'' then Some ''b_ap_host'' else None)"

definition note_epoch :: "source_seat \<Rightarrow> tunnel_gate \<Rightarrow> relay_session \<Rightarrow> relay_session" where
  "note_epoch seat gate s =
     (let s' = s\<lparr>rs_gates := (rs_gates s)(seat := gate)\<rparr>
      in if tg_epoch (rs_gates s seat) \<noteq> tg_epoch gate
         then s'\<lparr>rs_retained := (rs_retained s)(seat := []),
                 rs_retained_bytes := (rs_retained_bytes s)(seat := 0),
                 rs_side_ready := (rs_side_ready s)(seat := None)\<rparr>
         else s')"

definition on_advertisement :: "relay_env \<Rightarrow> tunnel_envelope \<Rightarrow> relay_session \<Rightarrow> relay_code + relay_session" where
  "on_advertisement env e s =
     (let digest = en_sha env (env_payload e)
      in if rs_advert s \<noteq> None \<and> rs_advert s \<noteq> Some digest then Inl C_advertisement_changed
         else Inr (s\<lparr>rs_advert := Some digest\<rparr>))"

definition on_side_ready ::
  "relay_env \<Rightarrow> source_seat \<Rightarrow> conn_binding \<Rightarrow> tunnel_envelope \<Rightarrow> relay_session
     \<Rightarrow> relay_code + relay_session" where
  "on_side_ready env seat b e s =
     (case side_ready_decode env (env_payload e) of
        Inl c \<Rightarrow> Inl c
      | Inr r \<Rightarrow>
          if sr_attempt r \<noteq> rs_attempt s \<or> sr_seat r \<noteq> seat_label seat \<or>
             Some (sr_role r) \<noteq> expected_role (cb_role b) \<or> sr_run r \<noteq> la_run (cb_launch b) \<or>
             sr_stage r \<noteq> la_stage (cb_launch b) \<or>
             sr_launch r \<noteq> en_launch_hash env (cb_launch b) \<or>
             Some (sr_activation r) \<noteq> cb_activation b
          then Inl C_side_ready_identity
          else if rs_advert s = None \<or> Some (sr_advert r) \<noteq> rs_advert s
          then Inl C_side_ready_advertisement
          else if rs_side_ready s seat = Some (env_epoch e) then Inl C_side_ready_duplicate
          else Inr (s\<lparr>rs_side_ready := (rs_side_ready s)(seat := Some (env_epoch e))\<rparr>))"

text \<open>The check compares the ready epoch of each seat with the epoch of its gate, present or not.\<close>

definition bridge_ready :: "relay_session \<Rightarrow> bool" where
  "bridge_ready s \<longleftrightarrow>
     list_all (\<lambda>seat. rs_side_ready s seat = tg_epoch (rs_gates s seat)) [Member_a, Member_b]"

definition on_kind ::
  "relay_env \<Rightarrow> source_seat \<Rightarrow> conn_binding \<Rightarrow> tunnel_envelope \<Rightarrow> relay_session
     \<Rightarrow> relay_code + relay_session" where
  "on_kind env seat b e s =
     (if env_kind e = Advertisement then on_advertisement env e s
      else if env_kind e = Side_ready then on_side_ready env seat b e s
      else if env_kind e = Rfu_data then (if bridge_ready s then Inr s else Inl C_bridge_not_ready)
      else Inr s)"

definition retain_frame :: "source_seat \<Rightarrow> tunnel_envelope \<Rightarrow> bytes \<Rightarrow> relay_session \<Rightarrow> relay_code + relay_session" where
  "retain_frame seat e raw s =
     (if env_kind e \<in> {Peer_ready, Advertisement} then
        if retained_frames \<le> length (rs_retained s seat) \<or>
           retained_limit < rs_retained_bytes s seat + length raw
        then Inl C_retention_overflow
        else Inr (s\<lparr>rs_retained := (rs_retained s)(seat := rs_retained s seat @ [raw]),
                    rs_retained_bytes := (rs_retained_bytes s)(seat := rs_retained_bytes s seat + length raw)\<rparr>)
      else Inr s)"

definition forward_frame ::
  "source_seat \<Rightarrow> bytes \<Rightarrow> bool \<Rightarrow> relay_session \<Rightarrow> relay_session \<times> sent list \<times> relay_outcome" where
  "forward_frame seat raw delivered s =
     (case rs_peers s (seat_peer seat) of
        None \<Rightarrow> (s, [], Proceed)
      | Some conn \<Rightarrow>
          if delivered then (s, [Forwarded conn seat raw], Proceed) else (s, [], Send_failed))"

definition read_envelope ::
  "source_seat \<Rightarrow> bytes \<Rightarrow> relay_session \<Rightarrow> relay_code + tunnel_envelope" where
  "read_envelope seat raw s =
     (if max_envelope_bytes < length raw then Inl (Tunnel_code C_envelope_invalid)
      else case tunnel_decode raw of
             Inl (Refused c) \<Rightarrow> Inl (Tunnel_code c)
           | Inl (Header_error _) \<Rightarrow> Inl (Tunnel_code C_envelope_invalid)
           | Inr e \<Rightarrow> if env_attempt e \<noteq> rs_attempt s \<or> env_seat e \<noteq> seat then Inl C_identity_mismatch
                     else Inr e)"

text \<open>
  A refusal after the gate has accepted the frame keeps what the frame has already changed; the
  connection then ends with a fatal code.
\<close>

definition relay_frame ::
  "relay_env \<Rightarrow> source_seat \<Rightarrow> conn_binding \<Rightarrow> bytes \<Rightarrow> bool \<Rightarrow> relay_session
     \<Rightarrow> relay_session \<times> sent list \<times> relay_outcome" where
  "relay_frame env seat b raw delivered s =
     (case read_envelope seat raw s of
        Inl c \<Rightarrow> (s, [], Fatal c)
      | Inr e \<Rightarrow>
          (case tunnel_gate_accept (rs_gates s seat) e of
             Inl (Refused c) \<Rightarrow> (s, [], Fatal (Tunnel_code c))
           | Inl (Header_error _) \<Rightarrow> (s, [], Fatal (Tunnel_code C_envelope_invalid))
           | Inr gate \<Rightarrow>
               let s1 = note_epoch seat gate s
               in case on_kind env seat b e s1 of
                    Inl c \<Rightarrow> (s1, [], Fatal c)
                  | Inr s2 \<Rightarrow>
                      (case retain_frame seat e raw s2 of
                         Inl c \<Rightarrow> (s2, [], Fatal c)
                       | Inr s3 \<Rightarrow> forward_frame seat raw delivered s3)))"

subsection \<open>The end of a connection\<close>

definition relay_disconnect_session :: "relay_session \<Rightarrow> relay_session" where
  "relay_disconnect_session s =
     s\<lparr>rs_peers := (\<lambda>_. None), rs_retained := (\<lambda>_. []), rs_retained_bytes := (\<lambda>_. 0), rs_open := False\<rparr>"

definition peer_transport_reset :: bytes where
  "peer_transport_reset =
     [0x70, 0x65, 0x65, 0x72, 0x20, 0x74, 0x72, 0x61, 0x6E, 0x73, 0x70, 0x6F, 0x72, 0x74, 0x20, 0x72,
      0x65, 0x73, 0x65, 0x74]"

definition close_envelope :: "source_seat \<Rightarrow> tunnel_gate \<Rightarrow> int \<Rightarrow> relay_session \<Rightarrow> tunnel_envelope" where
  "close_envelope seat gate epoch s =
     \<lparr>env_attempt = rs_attempt s, env_seat = seat, env_epoch = epoch, env_sequence = tg_next gate,
      env_kind = Peer_close, env_payload = peer_transport_reset, env_flags = 0\<rparr>"

text \<open>The peer is told that the seat is gone, then loses its own connection.\<close>

definition reset_peer ::
  "source_seat \<Rightarrow> bool \<Rightarrow> relay_session \<Rightarrow> relay_session \<times> sent list" where
  "reset_peer seat delivered s =
     (case rs_peers s (seat_peer seat) of
        None \<Rightarrow> (s, [])
      | Some conn \<Rightarrow>
          let gone = s\<lparr>rs_peers := (rs_peers s)(seat_peer seat := None)\<rparr>
          in (case tg_epoch (rs_gates s seat) of
                None \<Rightarrow> (gone, [])
              | Some epoch \<Rightarrow>
                  let e = close_envelope seat (rs_gates s seat) epoch s
                  in (case tunnel_gate_accept (rs_gates s seat) e of
                        Inl _ \<Rightarrow> (gone, [])
                      | Inr gate \<Rightarrow>
                          (gone\<lparr>rs_gates := (rs_gates s)(seat := gate)\<rparr>,
                           (case tunnel_encode e of
                              Inl _ \<Rightarrow> []
                            | Inr raw \<Rightarrow> if delivered then [Forwarded conn seat raw] else [])))))"

definition relay_disconnect ::
  "source_seat \<Rightarrow> nat \<Rightarrow> bool \<Rightarrow> bool \<Rightarrow> relay_session \<Rightarrow> relay_session \<times> sent list" where
  "relay_disconnect seat conn fatal delivered s =
     (let (s', out) =
        (if rs_peers s seat \<noteq> Some conn then (s, [])
         else
           let free = s\<lparr>rs_peers := (rs_peers s)(seat := None)\<rparr>
           in if fatal \<or> \<not> rs_open s then (free, [])
              else reset_peer seat delivered
                     (free\<lparr>rs_retained := (\<lambda>_. []), rs_retained_bytes := (\<lambda>_. 0),
                           rs_side_ready := (\<lambda>_. None)\<rparr>))
      in (if fatal then relay_disconnect_session s' else s', out))"

text \<open>The reconnect deadline of a seat that has stayed empty since the given generation.\<close>

definition relay_expire :: "source_seat \<Rightarrow> nat \<Rightarrow> relay_session \<Rightarrow> relay_session" where
  "relay_expire seat generation s =
     (if rs_peers s seat = None \<and> rs_generations s seat = generation \<and> rs_open s
      then relay_disconnect_session s else s)"

subsection \<open>Runs\<close>

datatype relay_event =
    Rv_connect source_seat nat nat
  | Rv_connect_failed source_seat nat
  | Rv_frame source_seat conn_binding bytes bool
  | Rv_disconnect source_seat nat bool bool
  | Rv_expire source_seat nat
  | Rv_disconnect_session

fun relay_step :: "relay_env \<Rightarrow> relay_session \<Rightarrow> relay_event \<Rightarrow> relay_session \<times> sent list" where
  "relay_step env s (Rv_connect seat conn n) = (let (s', out, _) = relay_connect seat conn n s in (s', out))"
| "relay_step env s (Rv_connect_failed seat conn) = (relay_connect_failed seat conn s, [])"
| "relay_step env s (Rv_frame seat b raw ok) = (let (s', out, _) = relay_frame env seat b raw ok s in (s', out))"
| "relay_step env s (Rv_disconnect seat conn fatal ok) = relay_disconnect seat conn fatal ok s"
| "relay_step env s (Rv_expire seat g) = (relay_expire seat g s, [])"
| "relay_step env s Rv_disconnect_session = (relay_disconnect_session s, [])"

fun relay_run :: "relay_env \<Rightarrow> relay_session \<Rightarrow> relay_event list \<Rightarrow> relay_session \<times> sent list" where
  "relay_run env s [] = (s, [])"
| "relay_run env s (x # xs) =
     (let (s', out) = relay_step env s x; (s'', out') = relay_run env s' xs in (s'', out @ out'))"

end
