(* ===== verification/Relay_Props.thy ===== *)
theory Relay_Props
  imports Relay_Session
begin

section \<open>Properties of the relay session\<close>

text \<open>
  The session keeps the gates of both seats consistent with what it has forwarded, its retained
  frames within their bounds, and lets RFU frames pass only under evidence of readiness.  The
  stream property is the composition of the session with the gate of \<open>Tunnel_V2\<close>.
\<close>

definition forwards :: "source_seat \<Rightarrow> sent list \<Rightarrow> bytes list" where
  "forwards seat out = concat (map (\<lambda>x. case x of Forwarded _ d raw \<Rightarrow> if d = seat then [raw] else []
                                             | Replayed _ _ \<Rightarrow> []) out)"

lemma forwards_simps [simp]:
  "forwards d [] = []" "forwards d (xs @ ys) = forwards d xs @ forwards d ys"
  "forwards d [Forwarded c e raw] = (if e = d then [raw] else [])"
  "forwards d (map (Replayed c) rs) = []"
  by (simp_all add: forwards_def)

subsection \<open>What one step does to a gate\<close>

text \<open>A step leaves a gate alone and forwards nothing of it, or takes one frame through it.\<close>

definition gate_step :: "tunnel_gate \<Rightarrow> tunnel_gate \<Rightarrow> bytes list \<Rightarrow> bool" where
  "gate_step g g' raws \<longleftrightarrow>
     g' = g \<and> raws = [] \<or>
     (\<exists>e. tunnel_gate_accept g e = Inr g' \<and> (raws = [] \<or> (\<exists>raw. raws = [raw] \<and> tunnel_encode e = Inr raw)))"

lemma gate_step_idle [simp]: "gate_step g g []"
  by (simp add: gate_step_def)

lemma seat_neq_peer: "d \<noteq> seat \<Longrightarrow> seat_peer seat = d"
  by (cases d; cases seat) (simp_all add: seat_peer_def)

lemma note_epoch_gates [simp]:
  "rs_gates (note_epoch seat g s) = (rs_gates s)(seat := g)" "rs_attempt (note_epoch seat g s) = rs_attempt s"
  "rs_peers (note_epoch seat g s) = rs_peers s" "rs_advert (note_epoch seat g s) = rs_advert s"
  by (simp_all add: note_epoch_def Let_def)

lemma on_kind_keeps:
  assumes "on_kind env seat b e s = Inr s'"
  shows "rs_gates s' = rs_gates s" "rs_attempt s' = rs_attempt s" "rs_peers s' = rs_peers s"
    "rs_retained s' = rs_retained s" "rs_retained_bytes s' = rs_retained_bytes s"
  using assms
  by (auto simp: on_kind_def on_advertisement_def on_side_ready_def Let_def split: if_splits sum.splits)

lemma retain_keeps:
  assumes "retain_frame seat e raw s = Inr s'"
  shows "rs_gates s' = rs_gates s" "rs_attempt s' = rs_attempt s" "rs_peers s' = rs_peers s"
    "rs_side_ready s' = rs_side_ready s" "rs_advert s' = rs_advert s"
  using assms by (auto simp: retain_frame_def split: if_splits)

lemma forward_keeps:
  assumes "forward_frame seat raw ok s = (s', out, oc)"
  shows "s' = s" "out = [] \<or> (\<exists>c. out = [Forwarded c seat raw])"
  using assms by (auto simp: forward_frame_def split: option.splits if_splits)

lemma read_envelope_encode: "read_envelope seat raw s = Inr e \<Longrightarrow>
    tunnel_encode e = Inr raw \<and> env_attempt e = rs_attempt s \<and> env_seat e = seat"
  using tunnel_encode_decode [of raw e]
  by (auto simp: read_envelope_def split: if_splits sum.splits tunnel_error.splits)

text \<open>The branches of a frame.\<close>

lemma relay_frame_cases:
  assumes "relay_frame env seat b raw ok s = (s', out, oc)"
  obtains (stop) "s' = s" "out = []" "\<exists>c. oc = Fatal c"
  | (fatal) e gate where "read_envelope seat raw s = Inr e" "tunnel_gate_accept (rs_gates s seat) e = Inr gate"
      "s' = note_epoch seat gate s \<or> on_kind env seat b e (note_epoch seat gate s) = Inr s'" "out = []"
      "\<exists>c. oc = Fatal c"
  | (pass) e gate s2 where "read_envelope seat raw s = Inr e" "tunnel_gate_accept (rs_gates s seat) e = Inr gate"
      "on_kind env seat b e (note_epoch seat gate s) = Inr s2" "retain_frame seat e raw s2 = Inr s'"
      "forward_frame seat raw ok s' = (s', out, oc)"
proof (cases "read_envelope seat raw s")
  case (Inl c)
  then show ?thesis using assms by (intro stop) (auto simp: relay_frame_def)
next
  case (Inr e)
  note e = Inr
  show ?thesis
  proof (cases "tunnel_gate_accept (rs_gates s seat) e")
    case (Inl c)
    then show ?thesis using assms e by (intro stop) (cases c; auto simp: relay_frame_def)+
  next
    case (Inr gate)
    note g = Inr
    show ?thesis
    proof (cases "on_kind env seat b e (note_epoch seat gate s)")
      case (Inl c)
      then show ?thesis using assms e g by (intro fatal [OF e g]) (auto simp: relay_frame_def)
    next
      case (Inr s2)
      note k = Inr
      show ?thesis
      proof (cases "retain_frame seat e raw s2")
        case (Inl c)
        then show ?thesis using assms e g k by (intro fatal [OF e g]) (auto simp: relay_frame_def)
      next
        case (Inr s3)
        then have f: "forward_frame seat raw ok s3 = (s', out, oc)"
          using assms e g k by (simp add: relay_frame_def)
        with forward_keeps(1) [OF f] show ?thesis using pass [OF e g k] Inr by simp
      qed
    qed
  qed
qed

lemma frame_gate_step:
  assumes "relay_frame env seat b raw ok s = (s', out, oc)"
  shows "gate_step (rs_gates s d) (rs_gates s' d) (forwards d out)" "rs_attempt s' = rs_attempt s"
  using assms
proof (induction rule: relay_frame_cases)
  case stop
  { case 1 show ?case using stop by simp next case 2 show ?case using stop by simp }
next
  case (fatal e gate)
  from fatal(3) have k: "rs_gates s' = (rs_gates s)(seat := gate)" "rs_attempt s' = rs_attempt s"
    using on_kind_keeps(1,2) [of env seat b e "note_epoch seat gate s" s'] by auto
  { case 1 show ?case using fatal(2,4) k by (auto simp: gate_step_def)
  next case 2 show ?case by (rule k(2)) }
next
  case (pass e gate s2)
  have k: "rs_gates s' = (rs_gates s)(seat := gate)" "rs_attempt s' = rs_attempt s"
    using on_kind_keeps(1,2) [OF pass(3)] retain_keeps(1,2) [OF pass(4)] by simp_all
  have o: "forwards d out = [] \<or> d = seat \<and> forwards d out = [raw]"
    using forward_keeps(2) [OF pass(5)] by (auto split: if_splits)
  have en: "tunnel_encode e = Inr raw" using read_envelope_encode [OF pass(1)] by simp
  { case 1 show ?case using pass(2) k o en by (cases "d = seat") (auto simp: gate_step_def)
  next case 2 show ?case by (rule k(2)) }
qed

lemma reset_peer_step:
  assumes "reset_peer seat ok s = (s', out)"
  shows "gate_step (rs_gates s d) (rs_gates s' d) (forwards d out)" "rs_attempt s' = rs_attempt s"
proof -
  show "rs_attempt s' = rs_attempt s"
    using assms by (auto simp: reset_peer_def Let_def split: option.splits sum.splits)
  show "gate_step (rs_gates s d) (rs_gates s' d) (forwards d out)"
  proof (cases "rs_peers s (seat_peer seat)")
    case None
    then show ?thesis using assms by (simp add: reset_peer_def)
  next
    case (Some c)
    note c = Some
    show ?thesis
    proof (cases "tg_epoch (rs_gates s seat)")
      case None
      then show ?thesis using assms c by (auto simp: reset_peer_def Let_def)
    next
      case (Some ep)
      define e where "e = close_envelope seat (rs_gates s seat) ep s"
      show ?thesis
      proof (cases "tunnel_gate_accept (rs_gates s seat) e")
        case (Inl x)
        then show ?thesis using assms c Some by (auto simp: reset_peer_def Let_def e_def)
      next
        case (Inr g)
        then have "rs_gates s' = (rs_gates s)(seat := g)"
          "out = [] \<or> (\<exists>raw. tunnel_encode e = Inr raw \<and> out = [Forwarded c seat raw])"
          using assms c Some
          by (auto simp: reset_peer_def Let_def e_def [symmetric] split: sum.splits if_splits)
        with Inr show ?thesis by (cases "d = seat") (auto simp: gate_step_def)
      qed
    qed
  qed
qed

lemma relay_step_gates:
  assumes "relay_step env s x = (s', out)"
  shows "gate_step (rs_gates s d) (rs_gates s' d) (forwards d out) \<and> rs_attempt s' = rs_attempt s"
proof (cases x)
  case (Rv_connect seat conn n)
  then show ?thesis using assms by (auto simp: relay_connect_def Let_def split: if_splits)
next
  case (Rv_connect_failed seat conn)
  then show ?thesis using assms by (auto simp: relay_connect_failed_def)
next
  case (Rv_frame seat b raw ok)
  obtain t o' oc where f: "relay_frame env seat b raw ok s = (t, o', oc)" by (rule prod_cases3)
  then have "s' = t" "out = o'" using assms Rv_frame by simp_all
  then show ?thesis using frame_gate_step [OF f] by simp
next
  case (Rv_disconnect seat conn fatal ok)
  define u where "u = s\<lparr>rs_peers := (rs_peers s)(seat := None)\<rparr>
      \<lparr>rs_retained := (\<lambda>_. []), rs_retained_bytes := (\<lambda>_. 0), rs_side_ready := (\<lambda>_. None)\<rparr>"
  obtain t o' where r: "reset_peer seat ok u = (t, o')" by force
  have "gate_step (rs_gates u d) (rs_gates t d) (forwards d o')" "rs_attempt t = rs_attempt u"
    by (rule reset_peer_step [OF r])+
  then have g: "gate_step (rs_gates s d) (rs_gates t d) (forwards d o')" "rs_attempt t = rs_attempt s"
    by (simp_all add: u_def)
  have "relay_disconnect seat conn fatal ok s = (s', out)" using assms Rv_disconnect by simp
  then consider "rs_gates s' = rs_gates s" "out = []" "rs_attempt s' = rs_attempt s"
    | "s' = t" "out = o'"
    using r unfolding relay_disconnect_def u_def
    by (cases "rs_peers s seat \<noteq> Some conn"; cases "fatal \<or> \<not> rs_open s"; cases fatal)
      (auto simp: Let_def relay_disconnect_session_def)
  then show ?thesis using g by cases simp_all
next
  case (Rv_expire seat g)
  then show ?thesis using assms by (auto simp: relay_expire_def relay_disconnect_session_def)
next
  case Rv_disconnect_session
  then show ?thesis using assms by (auto simp: relay_disconnect_session_def)
qed

subsection \<open>The stream of a seat\<close>

definition stream_inv :: "ustr \<Rightarrow> source_seat \<Rightarrow> tunnel_gate \<Rightarrow> bytes list \<Rightarrow> bool" where
  "stream_inv a d g raws \<longleftrightarrow>
     (\<exists>acc es. tunnel_gate_inv a d g acc \<and> subseq es acc \<and> list_all2 (\<lambda>e raw. tunnel_encode e = Inr raw) es raws)"

lemma stream_step:
  assumes "stream_inv a d g raws" "gate_step g g' new"
  shows "stream_inv a d g' (raws @ new)"
proof -
  obtain acc es where i: "tunnel_gate_inv a d g acc" "subseq es acc"
      "list_all2 (\<lambda>e raw. tunnel_encode e = Inr raw) es raws"
    using assms(1) by (auto simp: stream_inv_def)
  consider "g' = g" "new = []" | (taken) e where "tunnel_gate_accept g e = Inr g'"
      "new = [] \<or> (\<exists>raw. new = [raw] \<and> tunnel_encode e = Inr raw)"
    using assms(2) by (auto simp: gate_step_def)
  then show ?thesis
  proof cases
    case 1
    then show ?thesis using assms(1) by simp
  next
    case (taken e)
    have n: "tunnel_gate_inv a d g' (acc @ [e])" by (rule tunnel_gate_accept_inv [OF i(1) taken(1)])
    show ?thesis
    proof (cases "new = []")
      case True
      have "subseq es (acc @ [e])" using i(2) by (rule list_emb_prefix)
      then show ?thesis using n i(3) True unfolding stream_inv_def by auto
    next
      case False
      then obtain raw where m: "new = [raw]" "tunnel_encode e = Inr raw" using taken(2) by auto
      have "subseq (es @ [e]) (acc @ [e])" using i(2) by simp
      moreover have "list_all2 (\<lambda>e raw. tunnel_encode e = Inr raw) (es @ [e]) (raws @ new)"
        using i(3) m by (simp add: list_all2_appendI)
      ultimately show ?thesis using n unfolding stream_inv_def by blast
    qed
  qed
qed

lemma relay_run_stream:
  "stream_inv a d (rs_gates s d) raws \<Longrightarrow> relay_run env s xs = (t, out) \<Longrightarrow>
     stream_inv a d (rs_gates t d) (raws @ forwards d out)"
proof (induction xs arbitrary: s raws out)
  case (Cons x xs)
  obtain s1 o1 where x: "relay_step env s x = (s1, o1)" by force
  obtain s2 o2 where y: "relay_run env s1 xs = (s2, o2)" by force
  have o: "t = s2" "out = o1 @ o2" using Cons.prems(2) by (simp_all add: x y)
  have "stream_inv a d (rs_gates s1 d) (raws @ forwards d o1)"
    using stream_step [OF Cons.prems(1)] relay_step_gates [OF x] by blast
  from Cons.IH [OF this] y o show ?case by simp
qed simp

text \<open>
  C17: In every history of an attempt's relay session, with any interleaving of connections,
  disconnections, expiries, refused frames and failed sends, the frames of a seat that the relay
  forwards, its own \<open>PEER_CLOSE\<close> included, are encodings of frames that occur in this order in
  a stream of whole epochs of that seat: gapless from 0, opened by \<open>PEER_READY\<close>, no epoch twice.
\<close>

theorem relayed_stream_in_order:
  assumes "relay_run env (relay_session_new a) xs = (s, out)"
  shows "\<exists>bs es. list_all (epoch_block a d) bs \<and> distinct (map block_epoch bs) \<and> subseq es (concat bs) \<and>
    list_all2 (\<lambda>e raw. tunnel_encode e = Inr raw) es (forwards d out)"
proof -
  have "stream_inv a d (rs_gates (relay_session_new a) d) []"
    by (auto simp: stream_inv_def relay_session_new_def tunnel_gate_inv_def accepted_stream_def)
  from relay_run_stream [OF this assms] show ?thesis
    by (auto simp: stream_inv_def tunnel_gate_inv_def accepted_stream_def)
qed

end
