(* ===== verification/Relay_Ready.thy ===== *)
theory Relay_Ready
  imports Relay_Props
begin

section \<open>Readiness and retention of the relay session\<close>

text \<open>
  What must have happened before the relay forwards an RFU frame, what it does not check, and the
  bounds of the frames it retains.
\<close>

subsection \<open>Readiness and the advertisement\<close>

text \<open>A \<open>SIDE_READY\<close> frame that the relay has checked against the admitted launch and advertisement.\<close>

definition proves_ready ::
  "relay_env \<Rightarrow> ustr \<Rightarrow> string option \<Rightarrow> source_seat \<Rightarrow> int \<Rightarrow> relay_event \<Rightarrow> bool" where
  "proves_ready env a advert d ep x \<longleftrightarrow>
     (case x of
        Rv_frame seat b raw _ \<Rightarrow>
          (\<exists>e r. seat = d \<and> tunnel_decode raw = Inr e \<and> env_kind e = Side_ready \<and> env_epoch e = ep \<and>
             side_ready_decode env (env_payload e) = Inr r \<and> sr_attempt r = a \<and>
             sr_seat r = seat_label d \<and> Some (sr_role r) = expected_role (cb_role b) \<and>
             sr_launch r = en_launch_hash env (cb_launch b) \<and> Some (sr_activation r) = cb_activation b \<and>
             advert \<noteq> None \<and> Some (sr_advert r) = advert)
      | _ \<Rightarrow> False)"

lemma read_envelope_decode: "read_envelope seat raw s = Inr e \<Longrightarrow> tunnel_decode raw = Inr e"
  by (auto simp: read_envelope_def split: if_splits sum.splits tunnel_error.splits)

lemma note_epoch_ready: "rs_side_ready (note_epoch seat g s) d = Some ep \<Longrightarrow> rs_side_ready s d = Some ep"
  by (auto simp: note_epoch_def Let_def split: if_splits)

lemma note_epoch_other: "d \<noteq> seat \<Longrightarrow> rs_side_ready (note_epoch seat g s) d = rs_side_ready s d"
  by (simp add: note_epoch_def Let_def)

lemma on_kind_advert: "on_kind env seat b e s = Inr s' \<Longrightarrow> rs_advert s \<noteq> None \<Longrightarrow> rs_advert s' = rs_advert s"
  by (auto simp: on_kind_def on_advertisement_def on_side_ready_def Let_def split: if_splits sum.splits)

lemma on_kind_ready:
  assumes "on_kind env seat b e s = Inr s'" "rs_side_ready s' d = Some ep" "rs_side_ready s d \<noteq> Some ep"
    "tunnel_decode raw = Inr e"
  shows "proves_ready env (rs_attempt s) (rs_advert s') d ep (Rv_frame seat b raw ok)"
  using assms
  by (auto simp: on_kind_def on_advertisement_def on_side_ready_def Let_def proves_ready_def
      split: if_splits sum.splits)

lemma reset_peer_keeps:
  "reset_peer seat ok s = (s', out) \<Longrightarrow>
     rs_side_ready s' = rs_side_ready s \<and> rs_advert s' = rs_advert s \<and>
     rs_retained s' = rs_retained s \<and> rs_retained_bytes s' = rs_retained_bytes s"
  by (auto simp: reset_peer_def Let_def split: option.splits sum.splits)

definition ready_step :: "relay_env \<Rightarrow> relay_session \<Rightarrow> relay_session \<Rightarrow> relay_event \<Rightarrow> bool" where
  "ready_step env s s' x \<longleftrightarrow>
     (rs_advert s \<noteq> None \<longrightarrow> rs_advert s' = rs_advert s) \<and>
     (\<forall>d ep. rs_side_ready s' d = Some ep \<longrightarrow>
        rs_side_ready s d = Some ep \<or> proves_ready env (rs_attempt s) (rs_advert s') d ep x)"

lemma ready_step_same:
  "rs_advert s' = rs_advert s \<Longrightarrow> rs_side_ready s' = rs_side_ready s \<or> rs_side_ready s' = (\<lambda>_. None) \<Longrightarrow>
     ready_step env s s' x"
  unfolding ready_step_def by force

lemma ready_step_note: "ready_step env s (note_epoch seat g s) x"
  unfolding ready_step_def using note_epoch_ready [of seat g s] by simp

lemma ready_step_kind:
  assumes "on_kind env seat b e (note_epoch seat gate s) = Inr s'" "tunnel_decode raw = Inr e"
  shows "ready_step env s s' (Rv_frame seat b raw ok)"
  unfolding ready_step_def
proof (intro conjI allI impI)
  show "rs_advert s' = rs_advert s" if "rs_advert s \<noteq> None"
    using on_kind_advert [OF assms(1)] that by simp
next
  fix d ep
  assume "rs_side_ready s' d = Some ep"
  then show "rs_side_ready s d = Some ep \<or> proves_ready env (rs_attempt s) (rs_advert s') d ep (Rv_frame seat b raw ok)"
    using on_kind_ready [OF assms(1) _ _ assms(2), of d ep ok] note_epoch_ready [of seat gate s d ep]
    by (cases "rs_side_ready (note_epoch seat gate s) d = Some ep") simp_all
qed

lemma relay_frame_ready:
  assumes "relay_frame env seat b raw ok s = (s', out, oc)"
  shows "ready_step env s s' (Rv_frame seat b raw ok)"
  using assms
proof (cases rule: relay_frame_cases)
  case stop
  then show ?thesis by (intro ready_step_same) simp_all
next
  case (fatal e gate)
  have dec: "tunnel_decode raw = Inr e" by (rule read_envelope_decode [OF fatal(1)])
  from fatal(3) show ?thesis
  proof
    assume "s' = note_epoch seat gate s"
    then show ?thesis by (simp add: ready_step_note)
  next
    assume "on_kind env seat b e (note_epoch seat gate s) = Inr s'"
    then show ?thesis by (rule ready_step_kind [OF _ dec])
  qed
next
  case (pass e gate s2)
  have "ready_step env s s2 (Rv_frame seat b raw ok)"
    by (rule ready_step_kind [OF pass(3) read_envelope_decode [OF pass(1)]])
  then show ?thesis by (simp add: ready_step_def retain_keeps(4,5) [OF pass(4)])
qed

text \<open>A disconnection keeps the session, resets it, or tells the peer.\<close>

lemma relay_disconnect_cases:
  assumes "relay_disconnect seat conn fatal ok s = (s', out)"
  obtains (kept) "rs_side_ready s' = rs_side_ready s" "rs_advert s' = rs_advert s"
      "rs_retained s' = rs_retained s \<and> rs_retained_bytes s' = rs_retained_bytes s \<or>
       rs_retained s' = (\<lambda>_. []) \<and> rs_retained_bytes s' = (\<lambda>_. 0)"
  | (reset) "rs_side_ready s' = (\<lambda>_. None)" "rs_advert s' = rs_advert s"
      "rs_retained s' = (\<lambda>_. []) \<and> rs_retained_bytes s' = (\<lambda>_. 0)"
proof -
  define u where "u = s\<lparr>rs_peers := (rs_peers s)(seat := None)\<rparr>
      \<lparr>rs_retained := (\<lambda>_. []), rs_retained_bytes := (\<lambda>_. 0), rs_side_ready := (\<lambda>_. None)\<rparr>"
  obtain t o' where r: "reset_peer seat ok u = (t, o')" by force
  have k: "rs_side_ready t = (\<lambda>_. None)" "rs_advert t = rs_advert s" "rs_retained t = (\<lambda>_. [])"
      "rs_retained_bytes t = (\<lambda>_. 0)"
    using reset_peer_keeps [OF r] by (simp_all add: u_def)
  consider "rs_peers s seat \<noteq> Some conn" | "rs_peers s seat = Some conn" "fatal \<or> \<not> rs_open s"
    | "rs_peers s seat = Some conn" "\<not> (fatal \<or> \<not> rs_open s)" by blast
  then show thesis
  proof cases
    case 1
    then show ?thesis using assms
      by (intro kept) (auto simp: relay_disconnect_def relay_disconnect_session_def split: if_splits)
  next
    case 2
    then show ?thesis using assms
      by (intro kept) (auto simp: relay_disconnect_def relay_disconnect_session_def split: if_splits)
  next
    case 3
    then have "s' = t" using assms r by (simp add: relay_disconnect_def u_def)
    then show ?thesis using k by (intro reset) simp_all
  qed
qed

lemma relay_step_ready:
  assumes "relay_step env s x = (s', out)"
  shows "ready_step env s s' x"
proof (cases x)
  case (Rv_connect seat conn n)
  then show ?thesis using assms
    by (intro ready_step_same) (auto simp: relay_connect_def Let_def split: if_splits)
next
  case (Rv_connect_failed seat conn)
  then show ?thesis using assms
    by (intro ready_step_same) (auto simp: relay_connect_failed_def split: if_splits)
next
  case (Rv_frame seat b raw ok)
  obtain t o' oc where f: "relay_frame env seat b raw ok s = (t, o', oc)" by (rule prod_cases3)
  then have "s' = t" using assms Rv_frame by simp
  then show ?thesis using relay_frame_ready [OF f] Rv_frame by simp
next
  case (Rv_disconnect seat conn fatal ok)
  then have "relay_disconnect seat conn fatal ok s = (s', out)" using assms by simp
  then show ?thesis by (cases rule: relay_disconnect_cases) (intro ready_step_same; simp)+
next
  case (Rv_expire seat g)
  then show ?thesis using assms
    by (intro ready_step_same) (auto simp: relay_expire_def relay_disconnect_session_def split: if_splits)
next
  case Rv_disconnect_session
  then show ?thesis using assms
    by (intro ready_step_same) (auto simp: relay_disconnect_session_def)
qed

lemma relay_run_snoc:
  "relay_run env s (xs @ [x]) =
     (let (t, out) = relay_run env s xs; (u, out') = relay_step env t x in (u, out @ out'))"
  by (induction xs arbitrary: s) (auto simp: Let_def split: prod.splits)

lemma relay_run_attempt:
  "relay_run env (relay_session_new a) xs = (s, out) \<Longrightarrow> rs_attempt s = a"
proof (induction xs arbitrary: s out rule: rev_induct)
  case Nil
  then show ?case by (auto simp: relay_session_new_def)
next
  case (snoc x xs)
  obtain t o1 where t: "relay_run env (relay_session_new a) xs = (t, o1)" by force
  obtain o2 where u: "relay_step env t x = (s, o2)"
    using snoc.prems by (auto simp: relay_run_snoc t split: prod.splits)
  show ?case using relay_step_gates [OF u] snoc.IH [OF t] by simp
qed

lemma relay_run_ready:
  "relay_run env (relay_session_new a) xs = (s, out) \<Longrightarrow> rs_side_ready s d = Some ep \<Longrightarrow>
     \<exists>x \<in> set xs. proves_ready env a (rs_advert s) d ep x"
proof (induction xs arbitrary: s out ep rule: rev_induct)
  case Nil
  then show ?case by (auto simp: relay_session_new_def)
next
  case (snoc x xs)
  obtain t o1 where t: "relay_run env (relay_session_new a) xs = (t, o1)" by force
  obtain o2 where u: "relay_step env t x = (s, o2)"
    using snoc.prems by (auto simp: relay_run_snoc t split: prod.splits)
  have st: "ready_step env t s x" by (rule relay_step_ready [OF u])
  show ?case
  proof (cases "rs_side_ready t d = Some ep")
    case True
    then obtain y where y: "y \<in> set xs" "proves_ready env a (rs_advert t) d ep y"
      using snoc.IH [OF t] by blast
    then have "rs_advert t \<noteq> None" by (auto simp: proves_ready_def split: relay_event.splits)
    then have "rs_advert s = rs_advert t" using st by (simp add: ready_step_def)
    then show ?thesis using y by auto
  next
    case False
    then have "proves_ready env (rs_attempt t) (rs_advert s) d ep x"
      using st snoc.prems(2) unfolding ready_step_def by blast
    then show ?thesis using relay_run_attempt [OF t] by simp
  qed
qed

text \<open>
  C18: An RFU frame reaches the other side only if its own side has proved ready, with a
  \<open>SIDE_READY\<close> of the same epoch that matched the admitted role, launch and advertisement, and
  if the other side has done the same in its current epoch, or has not opened any epoch.
\<close>

theorem rfu_needs_side_ready:
  assumes "relay_run env (relay_session_new a) xs = (s, out)"
    "relay_frame env seat b raw ok s = (s', [Forwarded conn seat raw], oc)"
    "tunnel_decode raw = Inr e" "env_kind e = Rfu_data"
  shows "\<exists>x \<in> set xs. proves_ready env a (rs_advert s) seat (env_epoch e) x \<and>
    (tg_epoch (rs_gates s (seat_peer seat)) = None \<or>
     (\<exists>y \<in> set xs. \<exists>ep. tg_epoch (rs_gates s (seat_peer seat)) = Some ep \<and>
        proves_ready env a (rs_advert s) (seat_peer seat) ep y))"
proof -
  from assms(2) obtain e' gate s2 where p: "read_envelope seat raw s = Inr e'"
      "tunnel_gate_accept (rs_gates s seat) e' = Inr gate"
      "on_kind env seat b e' (note_epoch seat gate s) = Inr s2"
    by (cases rule: relay_frame_cases) auto
  have e': "e' = e" using read_envelope_decode [OF p(1)] assms(3) by simp
  have ready: "bridge_ready (note_epoch seat gate s)"
    using p(3) assms(4) by (auto simp: on_kind_def e' split: if_splits)
  have gate: "tg_epoch gate = Some (env_epoch e)"
    using p(2) by (auto simp: e' tunnel_gate_accept_def tunnel_gate_sequence_def split: if_splits)
  have both: "rs_side_ready (note_epoch seat gate s) d = tg_epoch (rs_gates (note_epoch seat gate s) d)" for d
    using ready by (cases d) (simp_all add: bridge_ready_def)
  have own: "rs_side_ready s seat = Some (env_epoch e)"
    by (rule note_epoch_ready [of seat gate]) (simp add: both gate)
  have sp: "seat_peer seat \<noteq> seat" by (cases seat) (simp_all add: seat_peer_def)
  have other: "rs_side_ready s (seat_peer seat) = tg_epoch (rs_gates s (seat_peer seat))"
    using both [of "seat_peer seat"] sp by (simp add: note_epoch_other)
  show ?thesis
  proof (cases "tg_epoch (rs_gates s (seat_peer seat))")
    case None
    with relay_run_ready [OF assms(1) own] show ?thesis by blast
  next
    case (Some ep)
    then have o: "rs_side_ready s (seat_peer seat) = Some ep" using other by simp
    obtain x where x: "x \<in> set xs" "proves_ready env a (rs_advert s) seat (env_epoch e) x"
      using relay_run_ready [OF assms(1) own] by blast
    obtain y where y: "y \<in> set xs" "proves_ready env a (rs_advert s) (seat_peer seat) ep y"
      using relay_run_ready [OF assms(1) o] by blast
    show ?thesis using x y Some by blast
  qed
qed

subsection \<open>Retained frames\<close>

definition buffer_ok :: "bytes list \<Rightarrow> nat \<Rightarrow> bool" where
  "buffer_ok raws n \<longleftrightarrow> length raws \<le> retained_frames \<and> n = sum_list (map length raws) \<and> n \<le> retained_limit"

definition retention_ok :: "relay_session \<Rightarrow> bool" where
  "retention_ok s \<longleftrightarrow> (\<forall>d. buffer_ok (rs_retained s d) (rs_retained_bytes s d))"

lemma buffer_ok_empty [simp]: "buffer_ok [] 0"
  by (simp add: buffer_ok_def)

lemma retention_same:
  "retention_ok s \<Longrightarrow> rs_retained s' = rs_retained s \<and> rs_retained_bytes s' = rs_retained_bytes s \<or>
     rs_retained s' = (\<lambda>_. []) \<and> rs_retained_bytes s' = (\<lambda>_. 0) \<Longrightarrow> retention_ok s'"
  unfolding retention_ok_def by auto

lemma retention_note: "retention_ok s \<Longrightarrow> retention_ok (note_epoch seat g s)"
  by (auto simp: retention_ok_def note_epoch_def Let_def)

lemma retention_retain:
  assumes "retain_frame seat e raw s = Inr s'" "retention_ok s"
  shows "retention_ok s'"
proof (cases "env_kind e \<in> {Peer_ready, Advertisement}")
  case True
  then have s': "rs_retained s' = (rs_retained s)(seat := rs_retained s seat @ [raw])"
      "rs_retained_bytes s' = (rs_retained_bytes s)(seat := rs_retained_bytes s seat + length raw)"
      "length (rs_retained s seat) < retained_frames" "rs_retained_bytes s seat + length raw \<le> retained_limit"
    using assms(1) by (auto simp: retain_frame_def split: if_splits)
  have "buffer_ok (rs_retained s d) (rs_retained_bytes s d)" for d
    using assms(2) by (simp add: retention_ok_def)
  from this [of seat] have "buffer_ok (rs_retained s seat @ [raw]) (rs_retained_bytes s seat + length raw)"
    using s'(3,4) by (simp add: buffer_ok_def)
  then show ?thesis using assms(2) unfolding retention_ok_def s' by simp
next
  case False
  then show ?thesis using assms by (simp add: retain_frame_def)
qed

lemma retention_step:
  assumes "retention_ok s" "relay_step env s x = (s', out)"
  shows "retention_ok s'"
proof (cases x)
  case (Rv_connect seat conn n)
  then show ?thesis using assms(2)
    by (intro retention_same [OF assms(1)]) (auto simp: relay_connect_def Let_def split: if_splits)
next
  case (Rv_connect_failed seat conn)
  then show ?thesis using assms(2)
    by (intro retention_same [OF assms(1)]) (auto simp: relay_connect_failed_def split: if_splits)
next
  case (Rv_frame seat b raw ok)
  obtain t o' oc where f: "relay_frame env seat b raw ok s = (t, o', oc)" by (rule prod_cases3)
  have t: "s' = t" using assms(2) Rv_frame f by simp
  note n = retention_note [OF assms(1)]
  from f have "retention_ok t"
  proof (cases rule: relay_frame_cases)
    case stop
    then show ?thesis using assms(1) by simp
  next
    case (fatal e gate)
    from fatal(3) show ?thesis
    proof
      assume "on_kind env seat b e (note_epoch seat gate s) = Inr t"
      from on_kind_keeps(4,5) [OF this] show ?thesis by (intro retention_same [OF n [of seat gate]]) simp
    qed (simp add: n)
  next
    case (pass e gate s2)
    have "retention_ok s2" using on_kind_keeps(4,5) [OF pass(3)] by (intro retention_same [OF n [of seat gate]]) simp
    then show ?thesis by (rule retention_retain [OF pass(4)])
  qed
  then show ?thesis by (simp add: t)
next
  case (Rv_disconnect seat conn fatal ok)
  then have "relay_disconnect seat conn fatal ok s = (s', out)" using assms(2) by simp
  then show ?thesis
    by (cases rule: relay_disconnect_cases) (intro retention_same [OF assms(1)]; simp)+
next
  case (Rv_expire seat g)
  then show ?thesis using assms(2)
    by (intro retention_same [OF assms(1)]) (auto simp: relay_expire_def relay_disconnect_session_def split: if_splits)
next
  case Rv_disconnect_session
  then show ?thesis using assms(2)
    by (intro retention_same [OF assms(1)]) (auto simp: relay_disconnect_session_def)
qed

lemma relay_run_retention: "retention_ok s \<Longrightarrow> relay_run env s xs = (t, out) \<Longrightarrow> retention_ok t"
proof (induction xs arbitrary: s out)
  case (Cons x xs)
  obtain s1 o1 where x: "relay_step env s x = (s1, o1)" by force
  obtain s2 o2 where y: "relay_run env s1 xs = (s2, o2)" by force
  have "t = s2" using Cons.prems(2) by (simp add: x y)
  with Cons.IH [OF retention_step [OF Cons.prems(1) x]] y show ?case by simp
qed simp

lemma retention_bounded:
  "relay_run env (relay_session_new a) xs = (s, out) \<Longrightarrow> retention_ok s"
  by (rule relay_run_retention) (simp_all add: relay_session_new_def retention_ok_def)

subsection \<open>A peer that has not spoken\<close>

text \<open>
  C23: The readiness check compares two absent epochs as equal: when the other seat is connected
  but has not opened its first epoch, an RFU frame of a side that is ready is forwarded to it,
  though no \<open>SIDE_READY\<close> of that seat has arrived.
\<close>

theorem silent_peer_counts_as_ready:
  assumes "read_envelope seat raw s = Inr e" "env_kind e = Rfu_data"
    "tunnel_gate_accept (rs_gates s seat) e = Inr gate" "rs_side_ready s seat = tg_epoch gate"
    "tg_epoch (rs_gates s seat) = tg_epoch gate"
    "rs_peers s (seat_peer seat) = Some conn" "tg_epoch (rs_gates s (seat_peer seat)) = None"
    "rs_side_ready s (seat_peer seat) = None"
  shows "relay_frame env seat b raw True s =
    (s\<lparr>rs_gates := (rs_gates s)(seat := gate)\<rparr>, [Forwarded conn seat raw], Proceed)"
proof -
  have n: "note_epoch seat gate s = s\<lparr>rs_gates := (rs_gates s)(seat := gate)\<rparr>"
    using assms(5) by (simp add: note_epoch_def)
  have "bridge_ready (s\<lparr>rs_gates := (rs_gates s)(seat := gate)\<rparr>)"
    using assms(4,7,8) by (cases seat) (simp_all add: bridge_ready_def seat_peer_def)
  then have k: "on_kind env seat b e (note_epoch seat gate s) = Inr (note_epoch seat gate s)"
    using assms(2) by (simp add: on_kind_def n)
  show ?thesis
    using assms(1,2,3,6) k
    by (simp add: relay_frame_def retain_frame_def forward_frame_def n)
qed

subsection \<open>Sample runs\<close>

definition relay_hash :: string where "relay_hash = replicate 64 CHR ''0''"

definition relay_launch :: launch where
  "relay_launch = \<lparr>la_run = ''r'', la_stage = 1, la_nonce = ''n'', la_pid = 7\<rparr>"

definition relay_ready_frame :: "source_seat \<Rightarrow> side_ready" where
  "relay_ready_frame seat =
     \<lparr>sr_contract = side_ready_contract, sr_attempt = [97, 49], sr_activation = 1,
      sr_seat = seat_label seat,
      sr_role = (if seat = Member_a then ''a_room_joiner'' else ''b_ap_host''),
      sr_gate = (if seat = Member_a then ''A_READY'' else ''B_READY''), sr_run = ''r'', sr_stage = 1,
      sr_launch = relay_hash, sr_advert = relay_hash, sr_proof = 1\<rparr>"

definition relay_demo_env :: relay_env where
  "relay_demo_env =
     \<lparr>en_sha = (\<lambda>_. relay_hash),
      en_parse = (\<lambda>payload. Some (relay_ready_frame (if payload = [0] then Member_a else Member_b))),
      en_canonical_uuid = (\<lambda>_. True), en_launch_hash = (\<lambda>_. relay_hash)\<rparr>"

definition relay_binding :: "source_seat \<Rightarrow> conn_binding" where
  "relay_binding seat =
     \<lparr>cb_launch = relay_launch,
      cb_role = Some (if seat = Member_a then ''creator'' else ''finder''), cb_activation = Some 1\<rparr>"

definition relay_said :: "source_seat \<Rightarrow> int \<Rightarrow> tunnel_kind \<Rightarrow> bytes \<Rightarrow> tunnel_envelope" where
  "relay_said seat sequence kind payload =
     \<lparr>env_attempt = [97, 49], env_seat = seat, env_epoch = 5, env_sequence = sequence, env_kind = kind,
      env_payload = payload, env_flags = 0\<rparr>"

definition relay_raw :: "source_seat \<Rightarrow> int \<Rightarrow> tunnel_kind \<Rightarrow> bytes \<Rightarrow> bytes" where
  "relay_raw seat sequence kind payload =
     (case tunnel_encode (relay_said seat sequence kind payload) of Inl _ \<Rightarrow> [] | Inr raw \<Rightarrow> raw)"

definition relay_say :: "source_seat \<Rightarrow> int \<Rightarrow> tunnel_kind \<Rightarrow> bytes \<Rightarrow> relay_event" where
  "relay_say seat sequence kind payload =
     Rv_frame seat (relay_binding seat) (relay_raw seat sequence kind payload) True"

text \<open>Side A gets ready; side B is connected, and has not spoken or has.\<close>

definition relay_a_ready :: "relay_event list" where
  "relay_a_ready =
     [Rv_connect Member_a 1 9, Rv_connect Member_b 2 9, relay_say Member_a 0 Peer_ready [],
      relay_say Member_a 1 Advertisement [9], relay_say Member_a 2 Side_ready [0]]"

definition relay_both_ready :: "relay_event list" where
  "relay_both_ready = relay_a_ready @
     [relay_say Member_b 0 Peer_ready [], relay_say Member_b 1 Side_ready [1]]"

definition relay_after :: "relay_event list \<Rightarrow> relay_session" where
  "relay_after xs = fst (relay_run relay_demo_env (relay_session_new [97, 49]) xs)"

lemma relay_after_run:
  "relay_run relay_demo_env (relay_session_new [97, 49]) xs =
     (relay_after xs, snd (relay_run relay_demo_env (relay_session_new [97, 49]) xs))"
  by (simp add: relay_after_def)

lemma relay_raw_encode:
  assumes "0 \<le> n" "n < 10" "length payload < 10" "validate_payload kind payload 0 = Inr ()"
  shows "tunnel_encode (relay_said seat n kind payload) = Inr (relay_raw seat n kind payload)"
    "length (relay_raw seat n kind payload) < 50"
proof -
  have "attempt_bytes [97, 49] = Inr [97, 49]" by code_simp
  moreover have "0 \<le> tunnel_kind_value kind" "tunnel_kind_value kind < 256" "0 \<le> seat_number seat"
      "seat_number seat < 256"
    by (cases kind; simp)+ (cases seat; simp)+
  ultimately obtain raw where r: "tunnel_encode (relay_said seat n kind payload) = Inr raw" "length raw < 50"
    using assms
    by (simp add: tunnel_encode_def relay_said_def
        tunnel_header_def tunnel_widths_def tunnel_version_def lift_header_def tunnel_magic_def)
  then show "tunnel_encode (relay_said seat n kind payload) = Inr (relay_raw seat n kind payload)"
    "length (relay_raw seat n kind payload) < 50"
    by (simp_all add: relay_raw_def)
qed

lemma relay_raw_read:
  assumes "0 \<le> n" "n < 10" "length payload < 10" "validate_payload kind payload 0 = Inr ()"
    "rs_attempt s = [97, 49]"
  shows "read_envelope seat (relay_raw seat n kind payload) s = Inr (relay_said seat n kind payload)"
  using relay_raw_encode [OF assms(1-4), of seat] tunnel_decode_encode [of "relay_said seat n kind payload"]
    assms(5)
  by (simp add: read_envelope_def max_envelope_bytes_def tunnel_header_size_def max_attempt_bytes_def
      max_tunnel_payload_def relay_said_def)

lemmas relay_demo_defs = relay_after_def relay_say_def relay_a_ready_def relay_both_ready_def relay_session_new_def
  relay_connect_def relay_frame_def relay_raw_read note_epoch_def on_kind_def on_advertisement_def
  on_side_ready_def retain_frame_def forward_frame_def bridge_ready_def seat_peer_def

lemma relay_said_simps [simp]:
  "env_attempt (relay_said seat n kind payload) = [97, 49]" "env_seat (relay_said seat n kind payload) = seat"
  "env_epoch (relay_said seat n kind payload) = 5" "env_sequence (relay_said seat n kind payload) = n"
  "env_kind (relay_said seat n kind payload) = kind" "env_payload (relay_said seat n kind payload) = payload"
  by (simp_all add: relay_said_def)

lemma relay_payloads [simp]:
  "validate_payload Peer_ready [] 0 = Inr ()" "validate_payload Advertisement [b] 0 = Inr ()"
  "validate_payload Side_ready [b] 0 = Inr ()" "validate_payload Rfu_data [b] 0 = Inr ()"
  by (simp_all add: validate_payload_def max_tunnel_payload_def max_rfu_payload_def)

lemma relay_demo_decode: "side_ready_decode relay_demo_env [if seat = Member_a then 0 else 1] =
    Inr (relay_ready_frame seat)"
proof -
  have "sha_pattern relay_hash" by code_simp
  moreover have "attempt_bytes [97, 49] = Inr [97, 49]" by code_simp
  ultimately show ?thesis
    by (cases seat) (simp_all add: side_ready_decode_def side_ready_validate_def relay_demo_env_def
        relay_ready_frame_def role_gate_def seat_label_def)
qed

lemma relay_lengths:
  "length (relay_raw seat 0 Peer_ready []) < 50" "length (relay_raw seat 1 Advertisement [b]) < 50"
  by (rule relay_raw_encode(2); simp)+

lemma relay_lengths' [simp]:
  "\<not> retained_limit < length (relay_raw seat 0 Peer_ready [])"
  "\<not> retained_limit < length (relay_raw seat 0 Peer_ready []) + length (relay_raw seat' 1 Advertisement [b])"
  using relay_lengths(1) [of seat] relay_lengths(2) [of seat' b] by (simp_all add: retained_limit_def)

lemma relay_demo_sha [simp]: "en_sha relay_demo_env p = relay_hash" "en_launch_hash relay_demo_env l = relay_hash"
  by (simp_all add: relay_demo_env_def)

lemma relay_demo_decodes [simp]:
  "side_ready_decode relay_demo_env [0] = Inr (relay_ready_frame Member_a)"
  "side_ready_decode relay_demo_env [1] = Inr (relay_ready_frame Member_b)"
  using relay_demo_decode [of Member_a] relay_demo_decode [of Member_b] by simp_all

lemmas relay_demo_steps = relay_demo_defs tunnel_gate_accept_def tunnel_gate_sequence_def Let_def retained_frames_def
   relay_ready_frame_def relay_binding_def expected_role_def relay_launch_def

lemma relay_a_ready_state:
  "rs_attempt (relay_after relay_a_ready) = [97, 49]" "rs_peers (relay_after relay_a_ready) Member_b = Some 2"
  "rs_gates (relay_after relay_a_ready) Member_a =
     \<lparr>tg_attempt = [97, 49], tg_seat = Member_a, tg_epoch = Some 5, tg_next = 3, tg_retired = []\<rparr>"
  "tg_epoch (rs_gates (relay_after relay_a_ready) Member_b) = None"
  "rs_side_ready (relay_after relay_a_ready) Member_a = Some 5"
  "rs_side_ready (relay_after relay_a_ready) Member_b = None"
  by (simp_all add: relay_demo_steps)

lemma relay_both_ready_state:
  "rs_attempt (relay_after relay_both_ready) = [97, 49]" "rs_peers (relay_after relay_both_ready) Member_b = Some 2"
  "rs_gates (relay_after relay_both_ready) Member_a =
     \<lparr>tg_attempt = [97, 49], tg_seat = Member_a, tg_epoch = Some 5, tg_next = 3, tg_retired = []\<rparr>"
  "tg_epoch (rs_gates (relay_after relay_both_ready) Member_b) = Some 5"
  "rs_side_ready (relay_after relay_both_ready) Member_a = Some 5"
  "rs_side_ready (relay_after relay_both_ready) Member_b = Some 5"
  by (simp_all add: relay_demo_steps)

lemma relay_rfu_accept:
  "tunnel_gate_accept
     \<lparr>tg_attempt = [97, 49], tg_seat = Member_a, tg_epoch = Some 5, tg_next = 3, tg_retired = []\<rparr>
     (relay_said Member_a 3 Rfu_data [1]) =
   Inr \<lparr>tg_attempt = [97, 49], tg_seat = Member_a, tg_epoch = Some 5, tg_next = 4, tg_retired = []\<rparr>"
  by (simp add: tunnel_gate_accept_def tunnel_gate_sequence_def)

lemma silent_peer_counts_as_ready_witness:
  "snd (relay_frame relay_demo_env Member_a (relay_binding Member_a) (relay_raw Member_a 3 Rfu_data [1]) True
     (relay_after relay_a_ready)) = ([Forwarded 2 Member_a (relay_raw Member_a 3 Rfu_data [1])], Proceed)"
proof -
  have r: "read_envelope Member_a (relay_raw Member_a 3 Rfu_data [1]) (relay_after relay_a_ready) =
      Inr (relay_said Member_a 3 Rfu_data [1])"
    by (rule relay_raw_read) (simp_all add: relay_a_ready_state)
  show ?thesis
    by (subst silent_peer_counts_as_ready [OF r _ relay_rfu_accept [folded relay_a_ready_state(3)],
          where conn = 2])
      (simp_all add: relay_a_ready_state seat_peer_def)
qed

lemma relay_rfu_passes:
  "relay_frame relay_demo_env Member_a (relay_binding Member_a) (relay_raw Member_a 3 Rfu_data [1]) True
     (relay_after relay_both_ready) =
   (note_epoch Member_a
      \<lparr>tg_attempt = [97, 49], tg_seat = Member_a, tg_epoch = Some 5, tg_next = 4, tg_retired = []\<rparr>
      (relay_after relay_both_ready),
    [Forwarded 2 Member_a (relay_raw Member_a 3 Rfu_data [1])], Proceed)"
  by (simp add: relay_frame_def relay_raw_read relay_both_ready_state relay_rfu_accept on_kind_def
      bridge_ready_def note_epoch_def retain_frame_def forward_frame_def seat_peer_def)

lemma rfu_needs_side_ready_witness:
  "\<exists>x \<in> set relay_both_ready.
     proves_ready relay_demo_env [97, 49] (rs_advert (relay_after relay_both_ready)) Member_a 5 x"
  using rfu_needs_side_ready [OF relay_after_run relay_rfu_passes
      tunnel_decode_encode [OF relay_raw_encode(1)]]
  by auto

lemma relayed_stream_in_order_witness:
  "\<exists>bs es. list_all (epoch_block [97, 49] Member_a) bs \<and> distinct (map block_epoch bs) \<and>
     subseq es (concat bs) \<and>
     list_all2 (\<lambda>e raw. tunnel_encode e = Inr raw) es
       [relay_raw Member_a 0 Peer_ready [], relay_raw Member_a 1 Advertisement [9],
        relay_raw Member_a 2 Side_ready [0]]"
proof -
  obtain s out where r: "relay_run relay_demo_env (relay_session_new [97, 49]) relay_a_ready = (s, out)" by force
  have "forwards Member_a (snd (relay_run relay_demo_env (relay_session_new [97, 49]) relay_a_ready)) =
      [relay_raw Member_a 0 Peer_ready [], relay_raw Member_a 1 Advertisement [9],
       relay_raw Member_a 2 Side_ready [0]]"
    by (simp add: relay_demo_steps forwards_def)
  then show ?thesis using relayed_stream_in_order [OF r, of Member_a] r by simp
qed

end
