(* ===== verification/Relay_Admission.thy ===== *)
theory Relay_Admission
  imports Relay_Session Authority_Rooms Authority_Closing
begin

section \<open>Admission to the relay (\<open>relay/server.py\<close>)\<close>

text \<open>
  What stands between the room authority and a relay session: the request limit of an identity,
  the readiness calls that collect a P0 proof of each member, the check of a WebSocket against
  that proof and an earlier launch, and the two calls of the closing barrier.  The handlers work
  on the \<open>store\<close> of the authority and call its operations.

  The pending and the attempt table hold the same admission objects, so these live in a store of
  their own and the tables hold addresses.  The parsed headers of a request are its arguments:
  the bearer token, the command id and the room version, or the error their check raises.
\<close>

subsection \<open>The request limit\<close>

record rate_limiter =
  rl_limit :: nat
  rl_window :: rat
  rl_hits :: "(string \<times> rat list) list"

definition rate_capacity :: nat where "rate_capacity = 4096"

definition rate_limiter_new :: "nat \<Rightarrow> rat \<Rightarrow> rate_limiter" where
  "rate_limiter_new limit window = \<lparr>rl_limit = limit, rl_window = window, rl_hits = []\<rparr>"

definition fresh_hits :: "rat \<Rightarrow> rat \<Rightarrow> rat list \<Rightarrow> rat list" where
  "fresh_hits now window = filter (\<lambda>stamp. now - stamp < window)"

definition rate_evict :: "rat \<Rightarrow> rat \<Rightarrow> (string \<times> rat list) list \<Rightarrow> (string \<times> rat list) list" where
  "rate_evict now window hits =
     map (\<lambda>(k, stamps). (k, fresh_hits now window stamps))
       (filter (\<lambda>(k, stamps). fresh_hits now window stamps \<noteq> []) hits)"

definition rate_hit :: "rat \<Rightarrow> string \<Rightarrow> rate_limiter \<Rightarrow> rate_limiter \<times> (auth_error + unit)" where
  "rate_hit now identity l =
     (let hits = fresh_hits now (rl_window l)
                   (case map_of (rl_hits l) identity of None \<Rightarrow> [] | Some stamps \<Rightarrow> stamps)
      in if rl_limit l \<le> length hits then (l, Inl (Denied 429 ''rate limit exceeded''))
         else (l\<lparr>rl_hits := AList.update identity (hits @ [now]) (rl_hits l)\<rparr>, Inr ()))"

definition rate_check :: "rat \<Rightarrow> string \<Rightarrow> rate_limiter \<Rightarrow> rate_limiter \<times> (auth_error + unit)" where
  "rate_check now identity l =
     (if rate_capacity \<le> length (rl_hits l) \<and> map_of (rl_hits l) identity = None then
        let l' = l\<lparr>rl_hits := rate_evict now (rl_window l) (rl_hits l)\<rparr>
        in if rate_capacity \<le> length (rl_hits l')
           then (l', Inl (Denied 429 ''rate limit capacity exceeded''))
           else rate_hit now identity l'
      else rate_hit now identity l)"

subsection \<open>Admissions\<close>

record p0_proof =
  pf_run :: string
  pf_release :: string
  pf_generation :: int
  pf_stage :: int
  pf_adapter :: string
  pf_report :: string

record admission =
  ad_code :: string
  ad_room :: string
  ad_proofs :: "(string \<times> p0_proof) list"
  ad_roles :: "(string \<times> string) list"
  ad_launches :: "(string \<times> launch) list"
  ad_attempt :: "string option"
  ad_lock_version :: "int option"
  ad_generation :: "int option"

definition admission_new :: "string \<Rightarrow> string \<Rightarrow> admission" where
  "admission_new code rid =
     \<lparr>ad_code = code, ad_room = rid, ad_proofs = [], ad_roles = [], ad_launches = [], ad_attempt = None,
      ad_lock_version = None, ad_generation = None\<rparr>"

record admissions =
  am_heap :: "nat \<Rightarrow> admission"
  am_next :: nat
  am_pending :: "(string \<times> nat) list"
  am_attempts :: "((string \<times> string) \<times> nat) list"

definition admissions_empty :: admissions where
  "admissions_empty = \<lparr>am_heap = (\<lambda>_. admission_new '''' ''''), am_next = 0, am_pending = [], am_attempts = []\<rparr>"

definition am_write :: "nat \<Rightarrow> (admission \<Rightarrow> admission) \<Rightarrow> admissions \<Rightarrow> admissions" where
  "am_write a f am = am\<lparr>am_heap := (am_heap am)(a := f (am_heap am a))\<rparr>"

definition am_lookup :: "string \<Rightarrow> string \<Rightarrow> admissions \<Rightarrow> admission option" where
  "am_lookup code aid am = map_option (am_heap am) (map_of (am_attempts am) (code, aid))"

definition retire_admission :: "string \<Rightarrow> string option \<Rightarrow> admissions \<Rightarrow> admissions" where
  "retire_admission code aid am =
     am\<lparr>am_attempts := filter (\<lambda>((c, i), a). \<not> (c = code \<and> (aid = None \<or> Some i = aid))) (am_attempts am),
        am_pending := filter (\<lambda>(r, a). \<not> (ad_code (am_heap am a) = code \<and>
                                         (aid = None \<or> ad_attempt (am_heap am a) = aid))) (am_pending am)\<rparr>"

subsection \<open>Readiness with a proof\<close>

record request =
  rq_token :: "auth_error + string"
  rq_command :: "auth_error + string"
  rq_version :: "auth_error + int"

record ready_payload =
  ry_ready :: bool
  ry_role :: "string option"
  ry_proof :: "p0_proof option"

definition ready_dump :: "ready_payload \<Rightarrow> payload" where
  "ready_dump p = [(''ready'', S_bool (ry_ready p)), (''switch_room_role'', opt_scalar (ry_role p))]"

definition view_active :: "view \<Rightarrow> attempt option" where
  "view_active v = (case v_attempt v of
       None \<Rightarrow> None
     | Some (a, _) \<Rightarrow> if at_id a \<noteq> [] \<and> active_phase a then Some a else None)"

definition live_ids :: "view \<Rightarrow> string set" where
  "live_ids v = set (map (\<lambda>(m, _). mb_id m) (filter (\<lambda>(m, _). live m) (v_members v)))"

text \<open>The pending admission of the room, made when there is none.\<close>

definition pending_admission ::
  "string \<Rightarrow> string \<Rightarrow> admissions \<Rightarrow> nat \<times> admissions" where
  "pending_admission rid code am =
     (case map_of (am_pending am) rid of
        Some a \<Rightarrow> (a, am)
      | None \<Rightarrow>
          (am_next am,
           am\<lparr>am_heap := (am_heap am)(am_next am := admission_new code rid), am_next := am_next am + 1,
              am_pending := AList.update rid (am_next am) (am_pending am)\<rparr>))"

definition proof_conflict :: "string \<Rightarrow> p0_proof \<Rightarrow> admission \<Rightarrow> auth_error option" where
  "proof_conflict mid p ad =
     (let others = map snd (filter (\<lambda>(k, _). k \<noteq> mid) (ad_proofs ad))
      in if others \<noteq> [] \<and> pf_release p \<notin> set (map pf_release others)
         then Some (Denied 409 ''v2 endpoint releases do not match'')
         else if pf_run p \<in> set (map pf_run others)
         then Some (Denied 409 ''v2 members must use distinct P0 runs'') else None)"

definition ready_guard :: "string \<Rightarrow> ready_payload \<Rightarrow> view \<Rightarrow> admissions \<Rightarrow> auth_error option" where
  "ready_guard rid p before am =
     (if ry_ready p \<and> (case view_active before of
            None \<Rightarrow> False
          | Some a \<Rightarrow> (case map_of (am_pending am) rid of
              None \<Rightarrow> True
            | Some x \<Rightarrow> ad_attempt (am_heap am x) \<noteq> Some (at_id a)))
      then Some (Denied 409 ''v2 P0 readiness must precede attempt creation'') else None)"

definition put_proof :: "string \<Rightarrow> p0_proof \<Rightarrow> string \<Rightarrow> admission \<Rightarrow> admission" where
  "put_proof mid pf role ad =
     ad\<lparr>ad_proofs := AList.update mid pf (ad_proofs ad), ad_roles := AList.update mid role (ad_roles ad)\<rparr>"

definition clear_admission :: "admission \<Rightarrow> admission" where
  "clear_admission ad = ad\<lparr>ad_proofs := [], ad_roles := [], ad_launches := []\<rparr>"

definition put_attempt :: "attempt \<Rightarrow> admission \<Rightarrow> admission" where
  "put_attempt x ad =
     ad\<lparr>ad_attempt := Some (at_id x), ad_lock_version := Some (at_lock_version x),
        ad_generation := Some (at_generation x)\<rparr>"

definition put_launch :: "string \<Rightarrow> launch \<Rightarrow> admission \<Rightarrow> admission" where
  "put_launch mid la ad =
     (if map_of (ad_launches ad) mid = None then ad\<lparr>ad_launches := AList.update mid la (ad_launches ad)\<rparr>
      else ad)"

text \<open>What the call records once the authority has accepted it.\<close>

definition record_ready :: "nat \<Rightarrow> string \<Rightarrow> string \<Rightarrow> ready_payload \<Rightarrow> admissions \<Rightarrow> admissions" where
  "record_ready a code mid p am =
     (if ry_ready p then
        (case (ry_proof p, ry_role p) of
           (Some pf, Some role) \<Rightarrow>
             am_write a (put_proof mid pf role) am
         | _ \<Rightarrow> am)
      else
        retire_admission code None (am_write a clear_admission am))"

definition admit_attempt :: "nat \<Rightarrow> string \<Rightarrow> view \<Rightarrow> admissions \<Rightarrow> admissions \<times> (auth_error + bool)" where
  "admit_attempt a code v am =
     (case view_active v of
        Some x \<Rightarrow>
          if \<not> at_locked x then (am, Inr False)
          else if \<not> (card (live_ids v) = 2 \<and> set (map fst (ad_proofs (am_heap am a))) = live_ids v)
          then (am, Inl (Denied 409 ''both v2 P0 proofs are required''))
          else
            (let am' = am_write a (put_attempt x) am
             in (am'\<lparr>am_attempts := AList.update (code, at_id x) a (am_attempts am')\<rparr>, Inr True))
      | None \<Rightarrow> (am, Inr False))"

record ready_reply =
  rr_room :: view
  rr_proofs :: nat
  rr_admitted :: bool
  rr_generation :: "int option"

type_synonym relay_front = "store \<times> admissions"

definition read_view :: "env \<Rightarrow> string \<Rightarrow> string \<Rightarrow> relay_front \<Rightarrow> relay_front \<times> (auth_error + view)" where
  "read_view e rid token f = (case snapshot e rid token (fst f) of (s, v) \<Rightarrow> ((s, snd f), v))"

definition ready_locked ::
  "env \<Rightarrow> string \<Rightarrow> string \<Rightarrow> string \<Rightarrow> int \<Rightarrow> ready_payload \<Rightarrow> view \<Rightarrow> relay_front
     \<Rightarrow> relay_front \<times> (auth_error + ready_reply)" where
  "ready_locked e rid token cid version p before f =
     (case ready_guard rid p before (snd f) of
        Some err \<Rightarrow> (f, Inl err)
      | None \<Rightarrow>
          (case pending_admission rid (r_code before) (snd f) of (a, am) \<Rightarrow>
             if ad_code (am_heap am a) \<noteq> r_code before
             then ((fst f, am), Inl (Denied 409 ''v2 room identity changed''))
             else (case (case ry_proof p of None \<Rightarrow> None
                         | Some pf \<Rightarrow> proof_conflict (v_local before) pf (am_heap am a)) of
                 Some err \<Rightarrow> ((fst f, am), Inl err)
               | None \<Rightarrow>
                   (case mutate e rid token cid ''ready'' (ready_dump p) (Some version) (fst f) of
                      (s, Inl err) \<Rightarrow> ((s, am), Inl err)
                    | (s, Inr (Marker _)) \<Rightarrow> ((s, am), Inl Type_error)
                    | (s, Inr (Snapshot v)) \<Rightarrow>
                        (let am1 = record_ready a (r_code before) (v_local before) p am
                         in case admit_attempt a (r_code before) v am1 of
                              (am2, Inl err) \<Rightarrow> ((s, am2), Inl err)
                            | (am2, Inr active) \<Rightarrow>
                                ((s, am2), Inr \<lparr>rr_room = v, rr_proofs = length (ad_proofs (am_heap am2 a)),
                                               rr_admitted = active,
                                               rr_generation = (if active then ad_generation (am_heap am2 a)
                                                                else None)\<rparr>))))))"

definition ready_v2 ::
  "env \<Rightarrow> string \<Rightarrow> request \<Rightarrow> ready_payload \<Rightarrow> relay_front
     \<Rightarrow> relay_front \<times> (auth_error + ready_reply)" where
  "ready_v2 e rid rq p f =
     (case bindr (rq_token rq) (\<lambda>t. bindr (rq_command rq) (\<lambda>c. bindr (rq_version rq) (\<lambda>n. Inr (t, c, n)))) of
        Inl err \<Rightarrow> (f, Inl err)
      | Inr (token, cid, version) \<Rightarrow>
          (case read_view e rid token f of
             (f1, Inl err) \<Rightarrow> (f1, Inl err)
           | (f1, Inr before) \<Rightarrow>
               if ry_ready p \<and> (ry_proof p = None \<or> ry_role p = None)
               then (f1, Inl (Denied 422 ''v2 readiness requires P0 evidence and a role''))
               else ready_locked e rid token cid version p before f1))"

subsection \<open>A WebSocket\<close>

text \<open>The launch headers: the run id is \<^term>\<open>None\<close> where it is no UUID, a number where it is none.\<close>

record ws_headers =
  wh_run :: "string option"
  wh_stage :: "int option"
  wh_pid :: "int option"
  wh_nonce :: string

definition ws_launch :: "ws_headers \<Rightarrow> launch option" where
  "ws_launch h =
     (case (wh_run h, wh_stage h, wh_pid h) of
        (Some run, Some stage, Some pid) \<Rightarrow>
          if stage < 1 \<or> pid < 1 \<or> \<not> (32 \<le> length (wh_nonce h) \<and> length (wh_nonce h) \<le> 128) \<or>
             char_of (0 :: nat) \<in> set (wh_nonce h)
          then None
          else Some \<lparr>la_run = run, la_stage = stage, la_nonce = wh_nonce h, la_pid = pid\<rparr>
      | _ \<Rightarrow> None)"

datatype ws_close = Ws_credential | Ws_error auth_error | Ws_launch | Ws_not_admitted

definition ws_admitted :: "string \<Rightarrow> string \<Rightarrow> launch \<Rightarrow> admission \<Rightarrow> bool" where
  "ws_admitted rid mid la ad \<longleftrightarrow>
     ad_room ad = rid \<and>
     (case map_of (ad_proofs ad) mid of
        None \<Rightarrow> False
      | Some pf \<Rightarrow> pf_run pf = la_run la \<and> pf_stage pf = la_stage la) \<and>
     (case map_of (ad_launches ad) mid of None \<Rightarrow> True | Some prior \<Rightarrow> prior = la)"

definition ws_admit ::
  "env \<Rightarrow> string \<Rightarrow> string \<Rightarrow> string \<Rightarrow> ws_headers \<Rightarrow> relay_front
     \<Rightarrow> relay_front \<times> (ws_close + nat \<times> string \<times> launch)" where
  "ws_admit e code aid token h f =
     (case member_for_code e code token (Some aid) (fst f) of
        (s, Inl (Denied _ _)) \<Rightarrow> ((s, snd f), Inl Ws_credential)
      | (s, Inl err) \<Rightarrow> ((s, snd f), Inl (Ws_error err))
      | (s, Inr None) \<Rightarrow> ((s, snd f), Inl Ws_credential)
      | (s, Inr (Some (rid, mid, _))) \<Rightarrow>
          (case ws_launch h of
             None \<Rightarrow> ((s, snd f), Inl Ws_launch)
           | Some la \<Rightarrow>
               (case map_of (am_attempts (snd f)) (code, aid) of
                  None \<Rightarrow> ((s, snd f), Inl Ws_not_admitted)
                | Some a \<Rightarrow>
                    if ws_admitted rid mid la (am_heap (snd f) a)
                    then ((s, am_write a (put_launch mid la) (snd f)), Inr (a, mid, la))
                    else ((s, snd f), Inl Ws_not_admitted))))"

text \<open>What a frame of the connection is checked against, read from the admission at that moment.\<close>

definition live_binding :: "admissions \<Rightarrow> nat \<Rightarrow> string \<Rightarrow> launch \<Rightarrow> conn_binding" where
  "live_binding am a mid la =
     \<lparr>cb_launch = la, cb_role = map_of (ad_roles (am_heap am a)) mid, cb_activation = ad_generation (am_heap am a)\<rparr>"

subsection \<open>The closing barrier\<close>

record closing_payload =
  cp_attempt :: string
  cp_generation :: int
  cp_outcome :: string
  cp_primary :: "string option"
  cp_gate :: string

definition closing_dump :: "closing_payload \<Rightarrow> d_payload" where
  "closing_dump p =
     [(''contract_version'', Scalar (S_str ''d-closing-intent.v1'')),
      (''attempt_id'', Scalar (S_str (cp_attempt p))),
      (''activation_generation'', Scalar (S_int (cp_generation p))),
      (''outcome'', Scalar (S_str (cp_outcome p))),
      (''primary_failure_code'', Scalar (opt_scalar (cp_primary p))),
      (''last_passed_gate'', Scalar (S_str (cp_gate p)))]"

definition closing_admitted :: "string \<Rightarrow> closing_payload \<Rightarrow> admission option \<Rightarrow> bool" where
  "closing_admitted mid p ad =
     (case ad of
        None \<Rightarrow> False
      | Some x \<Rightarrow> ad_generation x = Some (cp_generation p) \<and> map_of (ad_proofs x) mid \<noteq> None)"

definition closing_recorded :: "string \<Rightarrow> closing_payload \<Rightarrow> view \<Rightarrow> bool" where
  "closing_recorded aid p before =
     (case v_attempt before of
        None \<Rightarrow> False
      | Some (a, _) \<Rightarrow> at_id a = aid \<and>
          (case at_d a of
             None \<Rightarrow> False
           | Some d \<Rightarrow> d_generation d = cp_generation p \<and> phase_name (d_outcome d) = cp_outcome p \<and>
                       d_primary d = cp_primary p \<and> d_gate d = cp_gate p))"

definition with_command ::
  "request \<Rightarrow> (string \<Rightarrow> int \<Rightarrow> relay_front \<Rightarrow> relay_front \<times> (auth_error + 'a)) \<Rightarrow> relay_front
     \<Rightarrow> relay_front \<times> (auth_error + 'a)" where
  "with_command rq act f =
     (case bindr (rq_command rq) (\<lambda>c. bindr (rq_version rq) (\<lambda>n. Inr (c, n))) of
        Inl err \<Rightarrow> (f, Inl err)
      | Inr (cid, version) \<Rightarrow> act cid version f)"

definition closing_v2 ::
  "env \<Rightarrow> string \<Rightarrow> string \<Rightarrow> request \<Rightarrow> closing_payload \<Rightarrow> relay_front \<Rightarrow> relay_front \<times> (auth_error + reply)" where
  "closing_v2 e rid aid rq p f =
     (case rq_token rq of
        Inl err \<Rightarrow> (f, Inl err)
      | Inr token \<Rightarrow>
          (case read_view e rid token f of
             (f1, Inl err) \<Rightarrow> (f1, Inl err)
           | (f1, Inr before) \<Rightarrow>
               if closing_admitted (v_local before) p (am_lookup (r_code before) aid (snd f1)) \<or>
                  closing_recorded aid p before
               then with_command rq (\<lambda>cid version f2.
                      case begin_d_closing e rid token cid aid (closing_dump p) (Some version) (fst f2) of
                        (s, r) \<Rightarrow> ((s, snd f2), r)) f1
               else (f1, Inl (Denied 409 ''D attempt is not v2-admitted''))))"

record quiescent_payload =
  qp_attempt :: string
  qp_generation :: int
  qp_seat :: seat
  qp_run :: string
  qp_stage :: int
  qp_launch :: string
  qp_evidence :: d_evidence

definition evidence_dump :: "d_evidence \<Rightarrow> (string \<times> scalar) list" where
  "evidence_dump v =
     [(''endpoint_exited'', S_bool (ev_endpoint_exited v)), (''transport_exited'', S_bool (ev_transport_exited v)),
      (''threads_exited'', S_bool (ev_threads_exited v)), (''ldn_released'', S_bool (ev_ldn_released v)),
      (''interfaces_absent'', S_bool (ev_interfaces_absent v)), (''forced'', S_bool (ev_forced v))]"

definition quiescent_dump :: "quiescent_payload \<Rightarrow> d_payload" where
  "quiescent_dump p =
     [(''contract_version'', Scalar (S_str ''d-side-quiescent.v1'')),
      (''attempt_id'', Scalar (S_str (qp_attempt p))),
      (''activation_generation'', Scalar (S_int (qp_generation p))),
      (''source_seat'', Scalar (S_str (seat_name (qp_seat p)))),
      (''run_id'', Scalar (S_str (qp_run p))), (''stage_generation'', Scalar (S_int (qp_stage p))),
      (''launch_identity_sha256'', Scalar (S_str (qp_launch p))),
      (''evidence'', Obj (evidence_dump (qp_evidence p)))]"

definition launch_matches :: "relay_env \<Rightarrow> quiescent_payload \<Rightarrow> launch \<Rightarrow> bool" where
  "launch_matches renv p la \<longleftrightarrow>
     qp_run p = la_run la \<and> qp_stage p = la_stage la \<and> qp_launch p = en_launch_hash renv la"

definition quiescent_recorded :: "seat \<Rightarrow> quiescent_payload \<Rightarrow> view \<Rightarrow> bool" where
  "quiescent_recorded seat p before =
     (case v_attempt before of
        None \<Rightarrow> False
      | Some (a, _) \<Rightarrow>
          (case at_d a of
             None \<Rightarrow> False
           | Some d \<Rightarrow>
               (case side_of seat d of
                  None \<Rightarrow> False
                | Some x \<Rightarrow> dr_run_id x = qp_run p \<and> dr_stage x = qp_stage p \<and> dr_launch x = qp_launch p \<and>
                            dr_evidence x = qp_evidence p)))"

definition quiescent_guard ::
  "relay_env \<Rightarrow> seat \<Rightarrow> quiescent_payload \<Rightarrow> view \<Rightarrow> launch option \<Rightarrow> auth_error option" where
  "quiescent_guard renv seat p before la =
     (case la of
        Some x \<Rightarrow> if launch_matches renv p x then None else Some (Denied 409 ''D launch identity is stale'')
      | None \<Rightarrow> if quiescent_recorded seat p before then None
                else Some (Denied 409 ''D launch identity is not admitted''))"

definition terminal_reply :: "reply \<Rightarrow> bool" where
  "terminal_reply r =
     (case r of
        Marker _ \<Rightarrow> False
      | Snapshot v \<Rightarrow> (case v_attempt v of None \<Rightarrow> False | Some (a, _) \<Rightarrow> at_phase a \<in> terminal_phases))"

definition quiescent_v2 ::
  "env \<Rightarrow> relay_env \<Rightarrow> string \<Rightarrow> string \<Rightarrow> request \<Rightarrow> quiescent_payload \<Rightarrow> relay_front
     \<Rightarrow> relay_front \<times> (auth_error + reply)" where
  "quiescent_v2 e renv rid aid rq p f =
     (case rq_token rq of
        Inl err \<Rightarrow> (f, Inl err)
      | Inr token \<Rightarrow>
          (case read_view e rid token f of
             (f1, Inl err) \<Rightarrow> (f1, Inl err)
           | (f1, Inr before) \<Rightarrow>
               (case List.find (\<lambda>(m, _). mb_id m = v_local before) (v_members before) of
                  None \<Rightarrow> (f1, Inl Stop_iteration)
                | Some (m, _) \<Rightarrow>
                    (case quiescent_guard renv (mb_seat m) p before
                            (case am_lookup (r_code before) aid (snd f1) of None \<Rightarrow> None
                             | Some ad \<Rightarrow> map_of (ad_launches ad) (v_local before)) of
                       Some err \<Rightarrow> (f1, Inl err)
                     | None \<Rightarrow>
                         with_command rq (\<lambda>cid version f2.
                           case acknowledge_d_quiescent e rid token cid aid (quiescent_dump p) (Some version) (fst f2) of
                             (s, Inl err) \<Rightarrow> ((s, snd f2), Inl err)
                           | (s, Inr r) \<Rightarrow>
                               ((s, if terminal_reply r then retire_admission (r_code before) (Some aid) (snd f2)
                                    else snd f2), Inr r)) f1))))"

text \<open>A session that ends for a lost or misbehaving peer: the authority fails the attempt.\<close>

definition session_lost ::
  "env \<Rightarrow> string \<Rightarrow> string \<Rightarrow> string \<Rightarrow> string \<Rightarrow> relay_front \<Rightarrow> relay_front" where
  "session_lost e rid code aid failure f =
     (case fail_transport_attempt e rid aid failure (fst f) of
        (s, Inr True) \<Rightarrow> (s, retire_admission code (Some aid) (snd f))
      | (s, _) \<Rightarrow> (s, snd f))"

subsection \<open>Runs\<close>

text \<open>
  The calls in any order.  \<open>Q_other\<close> stands for every other request: it leaves some store of the
  authority, and \<open>Q_retire\<close> for the retirement that several of them end with.
\<close>

datatype relay_call =
    Q_ready env string request ready_payload
  | Q_socket env string string string ws_headers
  | Q_closing env string string request closing_payload
  | Q_quiescent env relay_env string string request quiescent_payload
  | Q_lost env string string string string
  | Q_retire string "string option"
  | Q_other store

fun front_step :: "relay_front \<Rightarrow> relay_call \<Rightarrow> relay_front" where
  "front_step f (Q_ready e rid rq p) = fst (ready_v2 e rid rq p f)"
| "front_step f (Q_socket e code aid token h) = fst (ws_admit e code aid token h f)"
| "front_step f (Q_closing e rid aid rq p) = fst (closing_v2 e rid aid rq p f)"
| "front_step f (Q_quiescent e renv rid aid rq p) = fst (quiescent_v2 e renv rid aid rq p f)"
| "front_step f (Q_lost e rid code aid failure) = session_lost e rid code aid failure f"
| "front_step f (Q_retire code aid) = (fst f, retire_admission code aid (snd f))"
| "front_step f (Q_other s) = (s, snd f)"

definition front_run :: "store \<Rightarrow> relay_call list \<Rightarrow> relay_front" where
  "front_run s calls = foldl front_step (s, admissions_empty) calls"

end
