(* ===== verification/Relay_Admission_Props.thy ===== *)
theory Relay_Admission_Props
  imports Relay_Admission Authority_Example
begin

section \<open>Properties of the admission\<close>

text \<open>
  The handlers change the admission tables by six moves only; the invariants are proved on the
  moves and hold for every run of the handlers, whatever the authority does between them.
\<close>

subsection \<open>The moves\<close>

inductive am_move :: "(string \<Rightarrow> string \<Rightarrow> p0_proof \<Rightarrow> bool) \<Rightarrow> admissions \<Rightarrow> admissions \<Rightarrow> bool"
  for presented where
  m_pending: "am_move presented am (snd (pending_admission rid code am))"
| m_prove: "map_of (am_pending am) rid = Some a \<Longrightarrow> proof_conflict mid pf (am_heap am a) = None \<Longrightarrow>
    presented rid mid pf \<Longrightarrow> am_move presented am (am_write a (put_proof mid pf role) am)"
| m_clear: "map_of (am_pending am) rid = Some a \<Longrightarrow> ad_code (am_heap am a) = code \<Longrightarrow>
    am_move presented am (retire_admission code None (am_write a clear_admission am))"
| m_admit: "map_of (am_pending am) rid = Some a \<Longrightarrow> ad_code (am_heap am a) = code \<Longrightarrow>
    card (set (map fst (ad_proofs (am_heap am a)))) = 2 \<Longrightarrow> am' = am_write a (put_attempt x) am \<Longrightarrow>
    am_move presented am (am'\<lparr>am_attempts := AList.update (code, at_id x) a (am_attempts am')\<rparr>)"
| m_launch: "map_of (am_attempts am) key = Some a \<Longrightarrow> am_move presented am (am_write a (put_launch mid la) am)"
| m_retire: "am_move presented am (retire_admission code aid am)"

text \<open>A call in which a member, authenticated for a room, presents a proof.\<close>

definition presents :: "relay_front \<Rightarrow> relay_call \<Rightarrow> string \<Rightarrow> string \<Rightarrow> p0_proof \<Rightarrow> bool" where
  "presents f call rid mid pf \<longleftrightarrow>
     (case call of
        Q_ready e room rq p \<Rightarrow> room = rid \<and> ry_ready p \<and> ry_proof p = Some pf \<and>
          (\<exists>token f1 before. rq_token rq = Inr token \<and> read_view e rid token f = (f1, Inr before) \<and>
                             v_local before = mid)
      | _ \<Rightarrow> False)"

lemma pending_admission_keeps:
  assumes "pending_admission rid code am = (a, am')"
  shows "map_of (am_pending am') rid = Some a" "am_move presented am am'"
proof -
  show "am_move presented am am'" using m_pending [of presented am rid code] assms by simp
  show "map_of (am_pending am') rid = Some a"
    using assms by (auto simp: pending_admission_def update_conv' split: option.splits)
qed

lemma am_write_simps [simp]:
  "am_pending (am_write a g am) = am_pending am" "am_attempts (am_write a g am) = am_attempts am"
  "am_next (am_write a g am) = am_next am"
  "am_heap (am_write a g am) = (am_heap am)(a := g (am_heap am a))"
  by (simp_all add: am_write_def)

lemma retire_simps [simp]:
  "am_heap (retire_admission code aid am) = am_heap am" "am_next (retire_admission code aid am) = am_next am"
  by (simp_all add: retire_admission_def)

lemma put_simps [simp]:
  "ad_code (put_proof mid pf role ad) = ad_code ad" "ad_room (put_proof mid pf role ad) = ad_room ad"
  "ad_launches (put_proof mid pf role ad) = ad_launches ad"
  "ad_proofs (put_proof mid pf role ad) = AList.update mid pf (ad_proofs ad)"
  "ad_code (clear_admission ad) = ad_code ad" "ad_room (clear_admission ad) = ad_room ad"
  "ad_launches (clear_admission ad) = []" "ad_proofs (clear_admission ad) = []"
  "ad_code (put_attempt x ad) = ad_code ad" "ad_room (put_attempt x ad) = ad_room ad"
  "ad_launches (put_attempt x ad) = ad_launches ad" "ad_proofs (put_attempt x ad) = ad_proofs ad"
  "ad_code (put_launch mid la ad) = ad_code ad" "ad_room (put_launch mid la ad) = ad_room ad"
  "ad_proofs (put_launch mid la ad) = ad_proofs ad"
  by (simp_all add: put_proof_def clear_admission_def put_attempt_def put_launch_def)

lemma record_ready_moves:
  assumes "map_of (am_pending am) rid = Some a" "ad_code (am_heap am a) = code"
    "ry_ready p \<Longrightarrow> \<exists>pf role. ry_proof p = Some pf \<and> ry_role p = Some role"
    "\<And>pf. ry_proof p = Some pf \<Longrightarrow> proof_conflict mid pf (am_heap am a) = None"
    "\<And>pf. ry_ready p \<Longrightarrow> ry_proof p = Some pf \<Longrightarrow> presented rid mid pf"
  shows "am_move presented am (record_ready a code mid p am)"
    "ry_ready p \<Longrightarrow> map_of (am_pending (record_ready a code mid p am)) rid = Some a"
    "ad_code (am_heap (record_ready a code mid p am) a) = code"
    "\<not> ry_ready p \<Longrightarrow> ad_proofs (am_heap (record_ready a code mid p am) a) = []"
proof -
  show "am_move presented am (record_ready a code mid p am)"
  proof (cases "ry_ready p")
    case True
    obtain pf role where r: "ry_proof p = Some pf" "ry_role p = Some role" using assms(3) True by blast
    have "am_move presented am (am_write a (put_proof mid pf role) am)"
      using assms(1) assms(4) [OF r(1)] assms(5) [OF True r(1)] by (rule m_prove)
    then show ?thesis using True r by (simp add: record_ready_def)
  next
    case False
    then show ?thesis using m_clear [OF assms(1,2), of presented] by (simp add: record_ready_def)
  qed
  show "ry_ready p \<Longrightarrow> map_of (am_pending (record_ready a code mid p am)) rid = Some a"
    using assms(1) by (simp add: record_ready_def split: option.splits)
  show "ad_code (am_heap (record_ready a code mid p am) a) = code"
    using assms(2) by (simp add: record_ready_def split: option.splits)
  show "\<not> ry_ready p \<Longrightarrow> ad_proofs (am_heap (record_ready a code mid p am) a) = []"
    by (simp add: record_ready_def)
qed

lemma admit_attempt_moves:
  assumes "admit_attempt a code v am = (am', r)" "ad_code (am_heap am a) = code"
    "map_of (am_pending am) rid = Some a \<or> ad_proofs (am_heap am a) = []"
  shows "am' = am \<or> am_move presented am am'"
    "r = Inr True \<Longrightarrow> card (set (map fst (ad_proofs (am_heap am a)))) = 2 \<and>
       set (map fst (ad_proofs (am_heap am a))) = live_ids v \<and>
       ad_proofs (am_heap am' a) = ad_proofs (am_heap am a) \<and>
       (\<exists>x. view_active v = Some x \<and> map_of (am_attempts am') (code, at_id x) = Some a)"
proof -
  consider "am' = am" "r \<noteq> Inr True" | x where "view_active v = Some x" "card (live_ids v) = 2"
      "set (map fst (ad_proofs (am_heap am a))) = live_ids v" "r = Inr True"
      "am' = (am_write a (put_attempt x) am)\<lparr>am_attempts := AList.update (code, at_id x) a (am_attempts am)\<rparr>"
  proof (cases "view_active v")
    case None
    then show ?thesis using assms(1) by (intro that(1)) (auto simp: admit_attempt_def)
  next
    case (Some x)
    show ?thesis
    proof (cases "at_locked x \<and> card (live_ids v) = 2 \<and> set (map fst (ad_proofs (am_heap am a))) = live_ids v")
      case True
      then show ?thesis using assms(1) Some by (intro that(2) [of x]) (simp_all add: admit_attempt_def Let_def)
    next
      case False
      then show ?thesis using assms(1) Some
        by (intro that(1)) (auto simp: admit_attempt_def split: if_splits)
    qed
  qed
  note cs = this
  show "am' = am \<or> am_move presented am am'"
    using cs
  proof cases
    case (2 x)
    have "ad_proofs (am_heap am a) \<noteq> []" using 2(2,3) by auto
    then have "map_of (am_pending am) rid = Some a" using assms(3) by simp
    moreover have "card (set (map fst (ad_proofs (am_heap am a)))) = 2" using 2(2,3) by simp
    ultimately have "am_move presented am ((am_write a (put_attempt x) am)
        \<lparr>am_attempts := AList.update (code, at_id x) a (am_attempts (am_write a (put_attempt x) am))\<rparr>)"
      using assms(2) by (intro m_admit) simp_all
    then
    show ?thesis using 2(5) by simp
  qed simp
  show "r = Inr True \<Longrightarrow> card (set (map fst (ad_proofs (am_heap am a)))) = 2 \<and>
       set (map fst (ad_proofs (am_heap am a))) = live_ids v \<and>
       ad_proofs (am_heap am' a) = ad_proofs (am_heap am a) \<and>
       (\<exists>x. view_active v = Some x \<and> map_of (am_attempts am') (code, at_id x) = Some a)"
    using cs
  proof cases
    case (2 x)
    then show ?thesis by (simp add: update_conv')
  qed simp
qed

text \<open>The whole readiness call: how it moves, and what an admission rests on.\<close>

lemma ready_locked_moves:
  assumes "ready_locked e rid token cid version p before f = (f', r)"
    "ry_ready p \<Longrightarrow> \<exists>pf role. ry_proof p = Some pf \<and> ry_role p = Some role"
    "\<And>pf. ry_ready p \<Longrightarrow> ry_proof p = Some pf \<Longrightarrow> presented rid (v_local before) pf"
  shows "(am_move presented)\<^sup>*\<^sup>* (snd f) (snd f')"
    "r = Inr rr \<Longrightarrow> rr_admitted rr \<Longrightarrow>
       \<exists>a am1. (am_move presented)\<^sup>*\<^sup>* (snd f) am1 \<and> card (set (map fst (ad_proofs (am_heap am1 a)))) = 2 \<and>
         set (map fst (ad_proofs (am_heap am1 a))) = live_ids (rr_room rr) \<and>
         map_of (am_pending am1) rid = Some a \<and>
         ad_proofs (am_heap (snd f') a) = ad_proofs (am_heap am1 a) \<and>
         (\<exists>x. view_active (rr_room rr) = Some x \<and>
            map_of (am_attempts (snd f')) (r_code before, at_id x) = Some a) \<and>
         rr_proofs rr = length (ad_proofs (am_heap am1 a))"
proof -
  obtain a am where pa: "pending_admission rid (r_code before) (snd f) = (a, am)" by force
  note pk = pending_admission_keeps [OF pa]
  have m0: "(am_move presented)\<^sup>*\<^sup>* (snd f) am" using pk(2) by blast
  consider (early) "snd f' = snd f \<or> snd f' = am" "\<exists>err. r = Inl err"
    | (go) v am2 r2 where "ad_code (am_heap am a) = r_code before"
        "\<forall>pf. ry_proof p = Some pf \<longrightarrow> proof_conflict (v_local before) pf (am_heap am a) = None"
        "admit_attempt a (r_code before) v (record_ready a (r_code before) (v_local before) p am) = (am2, r2)"
        "snd f' = am2"
        "case r2 of Inl err \<Rightarrow> r = Inl err
         | Inr act \<Rightarrow> r = Inr \<lparr>rr_room = v, rr_proofs = length (ad_proofs (am_heap am2 a)), rr_admitted = act,
                         rr_generation = (if act then ad_generation (am_heap am2 a) else None)\<rparr>"
  proof (cases "ready_guard rid p before (snd f) = None \<and> ad_code (am_heap am a) = r_code before \<and>
      (\<forall>pf. ry_proof p = Some pf \<longrightarrow> proof_conflict (v_local before) pf (am_heap am a) = None)")
    case False
    then show ?thesis using assms(1)
      by (intro that(1)) (auto simp: ready_locked_def pa split: option.splits if_splits)
  next
    case True
    obtain s o1 where mu: "mutate e rid token cid ''ready'' (ready_dump p) (Some version) (fst f) = (s, o1)" by force
    have eq: "ready_locked e rid token cid version p before f =
      (case (s, o1) of
         (s, Inl err) \<Rightarrow> ((s, am), Inl err)
       | (s, Inr (Marker _)) \<Rightarrow> ((s, am), Inl Type_error)
       | (s, Inr (Snapshot v)) \<Rightarrow>
           (case admit_attempt a (r_code before) v (record_ready a (r_code before) (v_local before) p am) of
              (am2, Inl err) \<Rightarrow> ((s, am2), Inl err)
            | (am2, Inr active) \<Rightarrow>
                ((s, am2), Inr \<lparr>rr_room = v, rr_proofs = length (ad_proofs (am_heap am2 a)), rr_admitted = active,
                     rr_generation = (if active then ad_generation (am_heap am2 a) else None)\<rparr>)))"
      using True by (cases "ry_proof p") (simp_all add: ready_locked_def pa mu Let_def)
    show ?thesis
    proof (cases "\<exists>v. o1 = Inr (Snapshot v)")
      case False
      then show ?thesis using assms(1) unfolding eq
        by (intro that(1)) (auto split: sum.splits reply.splits)
    next
      case True
      then obtain v where o1: "o1 = Inr (Snapshot v)" by blast
      obtain am2 r2 where ad: "admit_attempt a (r_code before) v (record_ready a (r_code before) (v_local before) p am)
          = (am2, r2)" by force
      show ?thesis
        using \<open>ready_guard rid p before (snd f) = None \<and> _ \<and> _\<close> assms(1) ad unfolding eq o1
        by (intro that(2) [OF _ _ ad]) (auto split: sum.splits)
    qed
  qed
  note cs = this
  have main: "(am_move presented)\<^sup>*\<^sup>* (snd f) (snd f') \<and>
    (r = Inr rr \<longrightarrow> rr_admitted rr \<longrightarrow>
       (\<exists>a am1. (am_move presented)\<^sup>*\<^sup>* (snd f) am1 \<and> card (set (map fst (ad_proofs (am_heap am1 a)))) = 2 \<and>
         set (map fst (ad_proofs (am_heap am1 a))) = live_ids (rr_room rr) \<and>
         map_of (am_pending am1) rid = Some a \<and>
         ad_proofs (am_heap (snd f') a) = ad_proofs (am_heap am1 a) \<and>
         (\<exists>x. view_active (rr_room rr) = Some x \<and>
            map_of (am_attempts (snd f')) (r_code before, at_id x) = Some a) \<and>
         rr_proofs rr = length (ad_proofs (am_heap am1 a))))"
    using cs
  proof cases
    case early
    then show ?thesis using m0 by auto
  next
    case (go v am2 r2)
    define am1 where "am1 = record_ready a (r_code before) (v_local before) p am"
      have nc: "proof_conflict (v_local before) pf (am_heap am a) = None" if "ry_proof p = Some pf" for pf
      using go(2) that by blast
    note rr = record_ready_moves [where presented = presented and rid = rid and mid = "v_local before",
        OF pk(1) go(1) assms(2) nc assms(3)]
    have m1: "am_move presented am am1" unfolding am1_def by (rule rr(1))
    have c1: "ad_code (am_heap am1 a) = r_code before" unfolding am1_def by (rule rr(3))
    have p1: "map_of (am_pending am1) rid = Some a \<or> ad_proofs (am_heap am1 a) = []"
      unfolding am1_def using rr(2,4) by blast
    note ad = admit_attempt_moves [OF go(3) [folded am1_def] c1 p1]
    have m: "(am_move presented)\<^sup>*\<^sup>* (snd f) am1" using m0 m1 by simp
    then have "(am_move presented)\<^sup>*\<^sup>* (snd f) (snd f')"
      using ad(1) [of presented] go(4) by auto
    moreover have "\<exists>a am1. (am_move presented)\<^sup>*\<^sup>* (snd f) am1 \<and> card (set (map fst (ad_proofs (am_heap am1 a)))) = 2 \<and>
         set (map fst (ad_proofs (am_heap am1 a))) = live_ids (rr_room rr) \<and>
         map_of (am_pending am1) rid = Some a \<and>
         ad_proofs (am_heap (snd f') a) = ad_proofs (am_heap am1 a) \<and>
         (\<exists>x. view_active (rr_room rr) = Some x \<and>
            map_of (am_attempts (snd f')) (r_code before, at_id x) = Some a) \<and>
         rr_proofs rr = length (ad_proofs (am_heap am1 a))"
      if "r = Inr rr" "rr_admitted rr"
    proof -
      have r2: "r2 = Inr True" "rr_room rr = v" "rr_proofs rr = length (ad_proofs (am_heap am2 a))"
        using go(5) that by (auto split: sum.splits)
      note q = ad(2) [OF r2(1)]
      have "ad_proofs (am_heap am1 a) \<noteq> []" using q by auto
      then have "map_of (am_pending am1) rid = Some a" using p1 by blast
      then show ?thesis using m q r2 go(4) by (intro exI [of _ a] exI [of _ am1]) auto
    qed
    ultimately show ?thesis by blast
  qed
  show "(am_move presented)\<^sup>*\<^sup>* (snd f) (snd f')" using main by blast
  show "r = Inr rr \<Longrightarrow> rr_admitted rr \<Longrightarrow>
       \<exists>a am1. (am_move presented)\<^sup>*\<^sup>* (snd f) am1 \<and> card (set (map fst (ad_proofs (am_heap am1 a)))) = 2 \<and>
         set (map fst (ad_proofs (am_heap am1 a))) = live_ids (rr_room rr) \<and>
         map_of (am_pending am1) rid = Some a \<and>
         ad_proofs (am_heap (snd f') a) = ad_proofs (am_heap am1 a) \<and>
         (\<exists>x. view_active (rr_room rr) = Some x \<and>
            map_of (am_attempts (snd f')) (r_code before, at_id x) = Some a) \<and>
         rr_proofs rr = length (ad_proofs (am_heap am1 a))" using main by blast
qed

subsection \<open>Every handler is a sequence of moves\<close>

lemma session_lost_moves: "(am_move presented)\<^sup>*\<^sup>* (snd f) (snd (session_lost e rid code aid failure f))"
  using m_retire by (auto simp: session_lost_def split: prod.splits sum.splits bool.splits)

lemma with_command_snd:
  assumes "\<And>cid n f2. R (snd f2) (snd (fst (act cid n f2)))" "\<And>x. R x x"
  shows "R (snd f) (snd (fst (with_command rq act f)))"
  using assms by (cases "rq_command rq"; cases "rq_version rq") (simp_all add: with_command_def)

lemma read_view_snd: "read_view e rid token f = (f1, v) \<Longrightarrow> snd f1 = snd f"
  by (auto simp: read_view_def split: prod.splits)

lemma closing_v2_snd: "snd (fst (closing_v2 e rid aid rq p f)) = snd f"
proof (cases "rq_token rq")
  case (Inr token)
  obtain f1 v where r: "read_view e rid token f = (f1, v)" by (metis surj_pair)
  have "snd (fst (with_command rq (\<lambda>cid version f2.
      case begin_d_closing e rid token cid aid (closing_dump p) (Some version) (fst f2) of
        (s, r) \<Rightarrow> ((s, snd f2), r)) f1)) = snd f1"
    by (rule with_command_snd [where R = "\<lambda>x y. y = x"]) (auto split: prod.splits)
  then show ?thesis using Inr r read_view_snd [OF r] by (cases v) (simp_all add: closing_v2_def)
qed (simp add: closing_v2_def)

lemma quiescent_v2_moves: "(am_move presented)\<^sup>*\<^sup>* (snd f) (snd (fst (quiescent_v2 e renv rid aid rq p f)))"
proof (cases "rq_token rq")
  case (Inr token)
  obtain f1 v where r: "read_view e rid token f = (f1, v)" by (metis surj_pair)
  have w: "(am_move presented)\<^sup>*\<^sup>* (snd f1) (snd (fst (with_command rq (\<lambda>cid version f2.
      case acknowledge_d_quiescent e rid token cid aid (quiescent_dump p) (Some version) (fst f2) of
        (s, Inl err) \<Rightarrow> ((s, snd f2), Inl err)
      | (s, Inr r) \<Rightarrow> ((s, if terminal_reply r then retire_admission code (Some aid) (snd f2) else snd f2), Inr r)) f1)))"
    for code
    by (rule with_command_snd) (auto intro: m_retire split: prod.splits sum.splits)
  show ?thesis using Inr r read_view_snd [OF r] w
    by (cases v) (auto simp: quiescent_v2_def split: option.splits prod.splits)
qed (simp add: quiescent_v2_def)

lemma ws_admit_moves: "(am_move presented)\<^sup>*\<^sup>* (snd f) (snd (fst (ws_admit e code aid token h f)))"
  using m_launch
  by (auto simp: ws_admit_def split: prod.splits sum.splits option.splits auth_error.splits)

lemma ready_v2_moves:
  "(am_move (presents f (Q_ready e rid rq p)))\<^sup>*\<^sup>* (snd f) (snd (fst (ready_v2 e rid rq p f)))"
proof (cases "bindr (rq_token rq) (\<lambda>t. bindr (rq_command rq) (\<lambda>c. bindr (rq_version rq) (\<lambda>n. Inr (t, c, n))))")
  case (Inr z)
  obtain token cid version where z: "z = (token, cid, version)" by (rule prod_cases3)
  have token: "rq_token rq = Inr token" using Inr z by auto
  obtain f1 v where r: "read_view e rid token f = (f1, v)" by (metis surj_pair)
  note sf = read_view_snd [OF r]
  show ?thesis
  proof (cases v)
    case (Inr before)
    note b = Inr
    show ?thesis
    proof (cases "ry_ready p \<and> (ry_proof p = None \<or> ry_role p = None)")
      case False
      obtain f' out where l: "ready_locked e rid token cid version p before f1 = (f', out)" by (metis surj_pair)
      have "(am_move (presents f (Q_ready e rid rq p)))\<^sup>*\<^sup>* (snd f1) (snd f')"
        using token r b False by (intro ready_locked_moves(1) [OF l]) (auto simp: presents_def)
      then show ?thesis
        using \<open>bindr _ _ = Inr z\<close> z r b False l sf by (auto simp: ready_v2_def)
    qed (use \<open>bindr _ _ = Inr z\<close> z r b sf in \<open>auto simp: ready_v2_def\<close>)
  qed (use Inr z r sf in \<open>simp add: ready_v2_def\<close>)
qed (simp add: ready_v2_def)

lemma front_step_moves: "(am_move (presents f c))\<^sup>*\<^sup>* (snd f) (snd (front_step f c))"
proof (cases c)
  case (Q_ready e rid rq p)
  then show ?thesis using ready_v2_moves by simp
next
  case (Q_socket e code aid token h)
  then show ?thesis using ws_admit_moves by simp
next
  case (Q_closing e rid aid rq p)
  then show ?thesis by (simp add: closing_v2_snd)
next
  case (Q_quiescent e renv rid aid rq p)
  then show ?thesis using quiescent_v2_moves by simp
next
  case (Q_lost e rid code aid failure)
  then show ?thesis using session_lost_moves by simp
next
  case (Q_retire code aid)
  then show ?thesis using m_retire by auto
qed simp

subsection \<open>The invariant of the tables\<close>

definition proofs_ok :: "(string \<times> p0_proof) list \<Rightarrow> bool" where
  "proofs_ok ps \<longleftrightarrow> distinct (map fst ps) \<and>
     (\<forall>(k, p) \<in> set ps. \<forall>(k', p') \<in> set ps. k \<noteq> k' \<longrightarrow> pf_run p \<noteq> pf_run p' \<and> pf_release p = pf_release p')"

definition adm_inv :: "(string \<Rightarrow> string \<Rightarrow> p0_proof \<Rightarrow> bool) \<Rightarrow> admissions \<Rightarrow> bool" where
  "adm_inv presented am \<longleftrightarrow>
     (\<forall>(rid, a) \<in> set (am_pending am). a < am_next am \<and> ad_room (am_heap am a) = rid) \<and>
     (\<forall>((code, aid), a) \<in> set (am_attempts am). a < am_next am \<and> ad_code (am_heap am a) = code) \<and>
     (\<forall>a < am_next am. proofs_ok (ad_proofs (am_heap am a)) \<and>
        (\<forall>(mid, pf) \<in> set (ad_proofs (am_heap am a)). presented (ad_room (am_heap am a)) mid pf))"

lemma proofs_ok_pair: "proofs_ok ps \<Longrightarrow> (k, p) \<in> set ps \<Longrightarrow> (k', p') \<in> set ps \<Longrightarrow> k \<noteq> k' \<Longrightarrow>
    pf_run p \<noteq> pf_run p' \<and> pf_release p = pf_release p'"
  unfolding proofs_ok_def by blast

lemma adm_invI:
  assumes "\<And>rid a. (rid, a) \<in> set (am_pending am) \<Longrightarrow> a < am_next am \<and> ad_room (am_heap am a) = rid"
    "\<And>code aid a. ((code, aid), a) \<in> set (am_attempts am) \<Longrightarrow> a < am_next am \<and> ad_code (am_heap am a) = code"
    "\<And>a. a < am_next am \<Longrightarrow> proofs_ok (ad_proofs (am_heap am a)) \<and>
       (\<forall>(mid, pf) \<in> set (ad_proofs (am_heap am a)). presented (ad_room (am_heap am a)) mid pf)"
  shows "adm_inv presented am"
proof -
  have "\<forall>(rid, a) \<in> set (am_pending am). a < am_next am \<and> ad_room (am_heap am a) = rid"
    using assms(1) by blast
  moreover have "\<forall>((code, aid), a) \<in> set (am_attempts am). a < am_next am \<and> ad_code (am_heap am a) = code"
    using assms(2) by blast
  ultimately show ?thesis using assms(3) unfolding adm_inv_def by blast
qed

lemma adm_inv_memD:
  assumes "adm_inv presented am"
  shows "(rid, a) \<in> set (am_pending am) \<Longrightarrow> a < am_next am \<and> ad_room (am_heap am a) = rid"
    "((code, aid), a) \<in> set (am_attempts am) \<Longrightarrow> a < am_next am \<and> ad_code (am_heap am a) = code"
    "a < am_next am \<Longrightarrow> proofs_ok (ad_proofs (am_heap am a)) \<and>
       (\<forall>(mid, pf) \<in> set (ad_proofs (am_heap am a)). presented (ad_room (am_heap am a)) mid pf)"
  using assms unfolding adm_inv_def by blast+

lemma set_update_subset: "set (AList.update k v xs) \<subseteq> insert (k, v) (set xs)"
  by (induction xs) auto

lemma update_other: "(k', v') \<in> set (AList.update k v xs) \<Longrightarrow> distinct (map fst xs) \<Longrightarrow>
    k' = k \<and> v' = v \<or> k' \<noteq> k \<and> (k', v') \<in> set xs"
  by (induction xs) (auto split: if_splits simp: rev_image_eqI)

lemma proofs_ok_put:
  assumes "proofs_ok (ad_proofs ad)" "proof_conflict mid pf ad = None"
  shows "proofs_ok (AList.update mid pf (ad_proofs ad))"
proof -
  let ?ps = "ad_proofs ad"
  have d: "distinct (map fst ?ps)" using assms(1) by (simp add: proofs_ok_def)
  have o: "pf_run p \<noteq> pf_run pf \<and> pf_release p = pf_release pf" if "(k, p) \<in> set ?ps" "k \<noteq> mid" for k p
  proof -
    have r: "pf_release pf \<in> set (map pf_release (map snd (filter (\<lambda>(k, _). k \<noteq> mid) ?ps)))"
      "pf_run pf \<notin> set (map pf_run (map snd (filter (\<lambda>(k, _). k \<noteq> mid) ?ps)))"
      using assms(2) that by (auto simp: proof_conflict_def Let_def filter_empty_conv split: if_splits)
    from r(1) obtain k' p' where q: "(k', p') \<in> set ?ps" "k' \<noteq> mid" "pf_release p' = pf_release pf" by auto
    have "pf_release p = pf_release p'"
    proof (cases "k = k'")
      case True
      then have "p = p'" using d that(1) q(1) by (metis eq_key_imp_eq_value)
      then show ?thesis by simp
    next
      case False
      then show ?thesis using assms(1) that(1) q(1) by (auto simp: proofs_ok_def)
    qed
    moreover have "pf_run p \<noteq> pf_run pf" using r(2) that by (force simp: image_iff)
    ultimately show ?thesis using q(3) by simp
  qed
  have "pf_run p \<noteq> pf_run p' \<and> pf_release p = pf_release p'"
    if "(k, p) \<in> set (AList.update mid pf ?ps)" "(k', p') \<in> set (AList.update mid pf ?ps)" "k \<noteq> k'" for k p k' p'
  proof -
    have old: "pf_run p \<noteq> pf_run p' \<and> pf_release p = pf_release p'" if "(k, p) \<in> set ?ps" "(k', p') \<in> set ?ps"
      using assms(1) that \<open>k \<noteq> k'\<close> by (auto simp: proofs_ok_def)
    show ?thesis using update_other [OF that(1) d] update_other [OF that(2) d] old o [of k p] o [of k' p'] that(3)
      by metis
  qed
  then show ?thesis using d by (auto simp: proofs_ok_def distinct_update)
qed

text \<open>A write to one object keeps the invariant when it keeps the identity of the object.\<close>

lemma adm_inv_write:
  assumes "adm_inv presented am" "a < am_next am" "ad_room (g (am_heap am a)) = ad_room (am_heap am a)"
    "ad_code (g (am_heap am a)) = ad_code (am_heap am a)" "proofs_ok (ad_proofs (g (am_heap am a)))"
    "\<forall>(mid, pf) \<in> set (ad_proofs (g (am_heap am a))). presented (ad_room (am_heap am a)) mid pf"
  shows "adm_inv presented (am_write a g am)"
proof (rule adm_invI)
  show "a' < am_next (am_write a g am) \<and> ad_room (am_heap (am_write a g am) a') = rid"
    if "(rid, a') \<in> set (am_pending (am_write a g am))" for rid a'
    using adm_inv_memD(1) [OF assms(1), of rid a'] assms(3) that by (cases "a' = a") simp_all
  show "a' < am_next (am_write a g am) \<and> ad_code (am_heap (am_write a g am) a') = code"
    if "((code, aid), a') \<in> set (am_attempts (am_write a g am))" for code aid a'
    using adm_inv_memD(2) [OF assms(1), of code aid a'] assms(4) that by (cases "a' = a") simp_all
  show "proofs_ok (ad_proofs (am_heap (am_write a g am) a')) \<and>
      (\<forall>(mid, pf) \<in> set (ad_proofs (am_heap (am_write a g am) a')).
         presented (ad_room (am_heap (am_write a g am) a')) mid pf)"
    if "a' < am_next (am_write a g am)" for a'
    using adm_inv_memD(3) [OF assms(1), of a'] assms(3,5,6) that by (cases "a' = a") simp_all
qed

lemma adm_inv_retire: "adm_inv presented am \<Longrightarrow> adm_inv presented (retire_admission code aid am)"
  by (rule adm_invI) (auto simp: retire_admission_def dest: adm_inv_memD)

lemma adm_inv_pending: "adm_inv presented am \<Longrightarrow> adm_inv presented (snd (pending_admission rid code am))"
proof (cases "map_of (am_pending am) rid")
  case None
  assume i: "adm_inv presented am"
  define am' where "am' = snd (pending_admission rid code am)"
  have am': "am_heap am' = (am_heap am)(am_next am := admission_new code rid)" "am_next am' = am_next am + 1"
      "am_pending am' = AList.update rid (am_next am) (am_pending am)" "am_attempts am' = am_attempts am"
    using None by (simp_all add: am'_def pending_admission_def)
  show ?thesis unfolding am'_def [symmetric]
  proof (rule adm_invI)
    fix r a
    assume "(r, a) \<in> set (am_pending am')"
    then have "(r, a) = (rid, am_next am) \<or> (r, a) \<in> set (am_pending am)"
      using set_update_subset [of rid "am_next am" "am_pending am"] by (auto simp: am')
    then show "a < am_next am' \<and> ad_room (am_heap am' a) = r"
      using adm_inv_memD(1) [OF i, of r a] by (auto simp: am' admission_new_def)
  next
    fix c aid a
    assume "((c, aid), a) \<in> set (am_attempts am')"
    then show "a < am_next am' \<and> ad_code (am_heap am' a) = c"
      using adm_inv_memD(2) [OF i, of c aid a] by (auto simp: am')
  next
    fix a
    assume "a < am_next am'"
    then show "proofs_ok (ad_proofs (am_heap am' a)) \<and>
        (\<forall>(mid, pf) \<in> set (ad_proofs (am_heap am' a)). presented (ad_room (am_heap am' a)) mid pf)"
      using adm_inv_memD(3) [OF i, of a]
      by (cases "a = am_next am") (auto simp: am' admission_new_def proofs_ok_def)
  qed
qed (simp add: pending_admission_def)

lemma adm_inv_pendingD: "adm_inv presented am \<Longrightarrow> map_of (am_pending am) rid = Some a \<Longrightarrow>
    a < am_next am \<and> ad_room (am_heap am a) = rid"
  by (rule adm_inv_memD(1)) (simp_all add: map_of_SomeD)

lemma adm_inv_attemptsD: "adm_inv presented am \<Longrightarrow> map_of (am_attempts am) (code, aid) = Some a \<Longrightarrow>
    a < am_next am \<and> ad_code (am_heap am a) = code"
  by (erule adm_inv_memD(2)) (erule map_of_SomeD)

lemmas adm_inv_objD = adm_inv_memD(3)

lemma adm_inv_move:
  assumes "am_move presented am am'" "adm_inv presented am"
  shows "adm_inv presented am'"
  using assms
proof (cases rule: am_move.cases)
  case (m_pending rid code)
  then show ?thesis using adm_inv_pending [OF assms(2)] by simp
next
  case (m_prove rid a mid pf role)
  note a = adm_inv_pendingD [OF assms(2) m_prove(2)]
  note o = adm_inv_objD [OF assms(2) conjunct1 [OF a]]
  have "\<forall>(m, q) \<in> set (AList.update mid pf (ad_proofs (am_heap am a))). presented (ad_room (am_heap am a)) m q"
    using o a m_prove(4) set_update_subset [of mid pf "ad_proofs (am_heap am a)"] by auto
  then show ?thesis unfolding m_prove(1)
    using a o proofs_ok_put [OF conjunct1 [OF o] m_prove(3)] by (intro adm_inv_write [OF assms(2)]) simp_all
next
  case (m_clear rid a code)
  note a = adm_inv_pendingD [OF assms(2) m_clear(2)]
  show ?thesis unfolding m_clear(1)
    using a by (intro adm_inv_retire adm_inv_write [OF assms(2)]) (simp_all add: proofs_ok_def)
next
  case (m_admit rid a code w x)
  note a = adm_inv_pendingD [OF assms(2) m_admit(2)]
  note o = adm_inv_objD [OF assms(2) conjunct1 [OF a]]
  have w: "adm_inv presented w" unfolding m_admit(5) using a o by (intro adm_inv_write [OF assms(2)]) simp_all
  show ?thesis unfolding m_admit(1)
  proof (rule adm_invI, goal_cases)
    case (1 r b)
    then show ?case using adm_inv_memD(1) [OF w] by simp
  next
    case (2 c i b)
    then have "((c, i), b) = ((code, at_id x), a) \<or> ((c, i), b) \<in> set (am_attempts w)"
      using set_update_subset [of "(code, at_id x)" a "am_attempts w"] by auto
    then show ?case using adm_inv_memD(2) [OF w, of c i b] a m_admit(3,5) by auto
  next
    case (3 b)
    then show ?case using adm_inv_memD(3) [OF w] by simp
  qed
next
  case (m_launch key a mid la)
  obtain code aid where k: "key = (code, aid)" by force
  note a = adm_inv_attemptsD [OF assms(2) m_launch(2) [unfolded k]]
  note o = adm_inv_objD [OF assms(2) conjunct1 [OF a]]
  show ?thesis unfolding m_launch(1) using a o by (intro adm_inv_write [OF assms(2)]) simp_all
next
  case (m_retire code aid)
  then show ?thesis using adm_inv_retire [OF assms(2)] by simp
qed

lemma adm_inv_moves: "(am_move presented)\<^sup>*\<^sup>* am am' \<Longrightarrow> adm_inv presented am \<Longrightarrow> adm_inv presented am'"
  by (induction rule: rtranclp_induct) (auto intro: adm_inv_move)

lemma adm_inv_mono: "adm_inv P am \<Longrightarrow> (\<And>r m p. P r m p \<Longrightarrow> Q r m p) \<Longrightarrow> adm_inv Q am"
  unfolding adm_inv_def by fast

lemma am_moves_mono:
  "(am_move P)\<^sup>*\<^sup>* am am' \<Longrightarrow> (\<And>r m p. P r m p \<Longrightarrow> Q r m p) \<Longrightarrow> (am_move Q)\<^sup>*\<^sup>* am am'"
proof (induction rule: rtranclp_induct)
  case (step y z)
  have "am_move Q y z"
    using step.hyps(2)
  proof cases
    case (m_prove rid a mid pf role)
    then show ?thesis using step.prems by (auto intro: am_move.m_prove)
  next
    case (m_admit rid a code w x)
    show ?thesis unfolding m_admit(1) by (rule am_move.m_admit [OF m_admit(2-5)])
  qed (auto intro: am_move.intros)
  with step show ?case by (meson rtranclp.rtrancl_into_rtrancl)
qed simp

text \<open>Where a proof comes from: an earlier call of the run.\<close>

definition was_presented :: "store \<Rightarrow> relay_call list \<Rightarrow> string \<Rightarrow> string \<Rightarrow> p0_proof \<Rightarrow> bool" where
  "was_presented s calls rid mid pf \<longleftrightarrow>
     (\<exists>xs c ys. calls = xs @ c # ys \<and> presents (front_run s xs) c rid mid pf)"

lemma front_run_snoc: "front_run s (calls @ [c]) = front_step (front_run s calls) c"
  by (simp add: front_run_def)

lemma was_presented_snoc:
  "was_presented s calls rid mid pf \<Longrightarrow> was_presented s (calls @ [c]) rid mid pf"
  "presents (front_run s calls) c rid mid pf \<Longrightarrow> was_presented s (calls @ [c]) rid mid pf"
proof -
  assume "was_presented s calls rid mid pf"
  then obtain xs d ys where "calls = xs @ d # ys" "presents (front_run s xs) d rid mid pf"
    unfolding was_presented_def by blast
  then show "was_presented s (calls @ [c]) rid mid pf"
    unfolding was_presented_def by (intro exI [of _ xs] exI [of _ d] exI [of _ "ys @ [c]"]) simp
next
  assume "presents (front_run s calls) c rid mid pf"
  then show "was_presented s (calls @ [c]) rid mid pf" unfolding was_presented_def by blast
qed

lemma front_run_inv: "adm_inv (was_presented s calls) (snd (front_run s calls))"
proof (induction calls rule: rev_induct)
  case Nil
  show ?case by (simp add: front_run_def adm_inv_def admissions_empty_def)
next
  case (snoc c calls)
  let ?f = "front_run s calls" and ?W = "was_presented s (calls @ [c])"
  have "adm_inv ?W (snd ?f)" by (rule adm_inv_mono [OF snoc]) (rule was_presented_snoc(1))
  moreover have "(am_move ?W)\<^sup>*\<^sup>* (snd ?f) (snd (front_step ?f c))"
    by (rule am_moves_mono [OF front_step_moves]) (rule was_presented_snoc(2))
  ultimately show ?case unfolding front_run_snoc by (rule adm_inv_moves [rotated])
qed

subsection \<open>What an admission and a connection rest on\<close>

text \<open>
  C16: In every history of the relay, a readiness call admits an attempt only when exactly the two
  live members of the room have presented a P0 proof for it, each in an authenticated call of its
  own, of one release and from distinct runs; the attempt of the answer is then registered.
\<close>

theorem attempt_needs_two_proofs:
  assumes "ready_v2 e rid rq p (front_run s calls) = (f', Inr rr)" "rr_admitted rr"
  shows "\<exists>x code ad ma pa mb pb. view_active (rr_room rr) = Some x \<and>
    am_lookup code (at_id x) (snd f') = Some ad \<and> set (ad_proofs ad) = {(ma, pa), (mb, pb)} \<and> ma \<noteq> mb \<and>
    live_ids (rr_room rr) = {ma, mb} \<and> rr_proofs rr = 2 \<and> pf_run pa \<noteq> pf_run pb \<and> pf_release pa = pf_release pb \<and>
    was_presented s (calls @ [Q_ready e rid rq p]) rid ma pa \<and>
    was_presented s (calls @ [Q_ready e rid rq p]) rid mb pb"
proof -
  let ?f = "front_run s calls" and ?c = "Q_ready e rid rq p"
  let ?W = "was_presented s (calls @ [?c])"
  obtain token cid version where q: "rq_token rq = Inr token" "rq_command rq = Inr cid" "rq_version rq = Inr version"
    using assms(1) by (cases "rq_token rq"; cases "rq_command rq"; cases "rq_version rq") (auto simp: ready_v2_def)
  obtain f1 v where r: "read_view e rid token ?f = (f1, v)" by (metis surj_pair)
  obtain before where v: "v = Inr before" using assms(1) q r by (cases v) (simp_all add: ready_v2_def)
  have pr: "\<not> (ry_ready p \<and> (ry_proof p = None \<or> ry_role p = None))"
    and l: "ready_locked e rid token cid version p before f1 = (f', Inr rr)"
    using assms(1) q r v by (auto simp: ready_v2_def split: if_splits)
  have W: "?W rid (v_local before) pf" if "ry_ready p" "ry_proof p = Some pf" for pf
    using that q(1) r v by (intro was_presented_snoc(2)) (auto simp: presents_def)
  have pp: "\<exists>pf role. ry_proof p = Some pf \<and> ry_role p = Some role" if "ry_ready p" using pr that by auto
  obtain a am x where m: "(am_move ?W)\<^sup>*\<^sup>* (snd f1) am" "card (set (map fst (ad_proofs (am_heap am a)))) = 2"
      "set (map fst (ad_proofs (am_heap am a))) = live_ids (rr_room rr)"
      "map_of (am_pending am) rid = Some a" "ad_proofs (am_heap (snd f') a) = ad_proofs (am_heap am a)"
      "view_active (rr_room rr) = Some x" "map_of (am_attempts (snd f')) (r_code before, at_id x) = Some a"
      "rr_proofs rr = length (ad_proofs (am_heap am a))"
    using ready_locked_moves(2) [where presented = ?W, OF l pp W refl assms(2)] by blast
  have "adm_inv ?W (snd ?f)" by (rule adm_inv_mono [OF front_run_inv]) (rule was_presented_snoc(1))
  then have i: "adm_inv ?W am" using adm_inv_moves [OF m(1)] read_view_snd [OF r] by simp
  note a = adm_inv_pendingD [OF i m(4)]
  note o = adm_inv_objD [OF i conjunct1 [OF a]]
  let ?ps = "ad_proofs (am_heap am a)"
  have d: "distinct (map fst ?ps)" using o by (simp add: proofs_ok_def)
  then have len: "length ?ps = 2" using m(2) by (metis distinct_card length_map)
  then obtain ma pa mb pb where ps: "?ps = [(ma, pa), (mb, pb)]"
    by (metis (no_types) length_0_conv length_Suc_conv numeral_2_eq_2 surj_pair)
  have ne: "ma \<noteq> mb" using d ps by simp
  have "proofs_ok [(ma, pa), (mb, pb)]" using conjunct1 [OF o] unfolding ps .
  then have "pf_run pa \<noteq> pf_run pb \<and> pf_release pa = pf_release pb" by (rule proofs_ok_pair [where k = ma and k' = mb]) (simp_all add: ne)
  moreover have "\<forall>(mid, pf) \<in> set ?ps. ?W rid mid pf"
    using conjunct2 [OF o] unfolding conjunct2 [OF a] .
  then have "?W rid ma pa" "?W rid mb pb" unfolding ps by (simp_all only: list.set insert_iff ball_simps prod.case simp_thms)
  moreover have "am_lookup (r_code before) (at_id x) (snd f') = Some (am_heap (snd f') a)"
    using m(7) by (simp add: am_lookup_def)
  moreover have "live_ids (rr_room rr) = {ma, mb}" using m(3) ps by simp
  moreover have "set (ad_proofs (am_heap (snd f') a)) = {(ma, pa), (mb, pb)}" using m(5) ps by simp
  moreover have "rr_proofs rr = 2" using m(8) len by simp
  ultimately show ?thesis using m(6) ne by blast
qed

text \<open>What an accepted WebSocket tells.\<close>

lemma ws_admit_accepted:
  assumes "ws_admit e code aid token h f = (f', Inr (a, mid, la))"
  obtains s rid seat where "member_for_code e code token (Some aid) (fst f) = (s, Inr (Some (rid, mid, seat)))"
    "ws_launch h = Some la" "map_of (am_attempts (snd f)) (code, aid) = Some a"
    "ws_admitted rid mid la (am_heap (snd f) a)" "snd f' = am_write a (put_launch mid la) (snd f)"
  using assms
  by (auto simp: ws_admit_def split: prod.splits sum.splits option.splits auth_error.splits if_splits)

text \<open>
  C15: A WebSocket is accepted for an attempt only to a member whose credential the authority
  accepts for that room and running attempt, and only for a launch of the run and stage of a P0
  proof that this member itself presented earlier, in an authenticated call for the same room.
\<close>

theorem socket_needs_own_proof:
  assumes "ws_admit e code aid token h (front_run s calls) = (f', Inr (a, mid, la))"
  shows "\<exists>t rid seat pf. member_for_code e code token (Some aid) (fst (front_run s calls)) =
      (t, Inr (Some (rid, mid, seat))) \<and> ws_launch h = Some la \<and>
    was_presented s calls rid mid pf \<and> pf_run pf = la_run la \<and> pf_stage pf = la_stage la"
proof -
  from assms obtain t rid seat where w:
      "member_for_code e code token (Some aid) (fst (front_run s calls)) = (t, Inr (Some (rid, mid, seat)))"
      "ws_launch h = Some la" "map_of (am_attempts (snd (front_run s calls))) (code, aid) = Some a"
      "ws_admitted rid mid la (am_heap (snd (front_run s calls)) a)"
    by (rule ws_admit_accepted)
  note i = front_run_inv [of s calls]
  note a = adm_inv_attemptsD [OF i w(3)]
  obtain pf where pf: "map_of (ad_proofs (am_heap (snd (front_run s calls)) a)) mid = Some pf"
      "pf_run pf = la_run la" "pf_stage pf = la_stage la" "ad_room (am_heap (snd (front_run s calls)) a) = rid"
    using w(4) by (auto simp: ws_admitted_def split: option.splits)
  have "was_presented s calls rid mid pf"
    using adm_inv_objD [OF i conjunct1 [OF a]] map_of_SomeD [OF pf(1)] pf(4) by auto
  with w(1,2) pf(2,3) show ?thesis by blast
qed

subsection \<open>One launch per member and admission\<close>

definition launch_held :: "nat \<Rightarrow> string \<Rightarrow> launch \<Rightarrow> admissions \<Rightarrow> bool" where
  "launch_held a mid la am \<longleftrightarrow> a < am_next am \<and>
     (map_of (ad_launches (am_heap am a)) mid = Some la \<or>
      a \<notin> snd ` set (am_attempts am) \<and> a \<notin> snd ` set (am_pending am))"

lemma map_of_snd: "map_of xs k = Some a \<Longrightarrow> a \<in> snd ` set xs"
  by (metis map_of_SomeD snd_conv image_eqI)

lemma snd_update: "snd ` set (AList.update k v xs) \<subseteq> insert v (snd ` set xs)"
  using set_update_subset [of k v xs] by force

lemma launch_held_move:
  assumes "am_move presented am am'" "adm_inv presented am" "launch_held a mid la am"
  shows "launch_held a mid la am'"
  using assms(1)
proof cases
  case (m_pending rid code)
  show ?thesis
  proof (cases "map_of (am_pending am) rid")
    case None
    then show ?thesis using assms(3) snd_update [of rid "am_next am" "am_pending am"]
      by (auto simp: m_pending launch_held_def pending_admission_def)
  qed (use assms(3) m_pending in \<open>simp add: pending_admission_def\<close>)
next
  case (m_prove rid b m pf role)
  then show ?thesis using assms(3) by (auto simp: launch_held_def)
next
  case (m_clear rid b code)
  note b = adm_inv_pendingD [OF assms(2) m_clear(2)]
  show ?thesis
  proof (cases "b = a")
    case True
    have "ad_code (am_heap am a) = c" if "((c, i), a) \<in> set (am_attempts am)" for c i
      using adm_inv_memD(2) [OF assms(2) that] by simp
    then show ?thesis using assms(3) m_clear(1,3) True
      by (auto simp: launch_held_def retire_admission_def)
  next
    case False
    then show ?thesis using assms(3) m_clear(1) by (auto simp: launch_held_def retire_admission_def)
  qed
next
  case (m_admit rid b code w x)
  have "b \<in> snd ` set (am_pending am)" by (rule map_of_snd [OF m_admit(2)])
  then show ?thesis using assms(3) snd_update [of "(code, at_id x)" b "am_attempts am"]
    by (auto simp: m_admit(1,5) launch_held_def)
next
  case (m_launch key b m l)
  have "b \<in> snd ` set (am_attempts am)" by (rule map_of_snd [OF m_launch(2)])
  then show ?thesis using assms(3)
    by (auto simp: m_launch(1) launch_held_def put_launch_def update_conv')
next
  case (m_retire code aid)
  then show ?thesis using assms(3) by (auto simp: launch_held_def retire_admission_def)
qed

lemma launch_held_moves:
  "(am_move presented)\<^sup>*\<^sup>* am am' \<Longrightarrow> adm_inv presented am \<Longrightarrow> launch_held a mid la am \<Longrightarrow> launch_held a mid la am'"
proof (induction rule: rtranclp_induct)
  case (step y z)
  have "adm_inv presented y" by (rule adm_inv_moves [OF step.hyps(1) step.prems(1)])
  with step show ?case using launch_held_move by blast
qed

lemma front_run_launch_held:
  "launch_held a mid la (snd (front_run s xs)) \<Longrightarrow> launch_held a mid la (snd (front_run s (xs @ ys)))"
proof (induction ys rule: rev_induct)
  case (snoc c ys)
  let ?f = "front_run s (xs @ ys)" and ?W = "was_presented s ((xs @ ys) @ [c])"
  have "adm_inv ?W (snd ?f)" by (rule adm_inv_mono [OF front_run_inv]) (rule was_presented_snoc(1))
  moreover have "(am_move ?W)\<^sup>*\<^sup>* (snd ?f) (snd (front_step ?f c))"
    by (rule am_moves_mono [OF front_step_moves]) (rule was_presented_snoc(2))
  ultimately have "launch_held a mid la (snd (front_step ?f c))"
    using launch_held_moves snoc by blast
  then show ?case using front_run_snoc [of s "xs @ ys" c] by simp
qed simp

text \<open>
  C19: As long as an admission stands, each member connects with one launch only: whatever happens
  in between, a second WebSocket of the member under the same admission is accepted only for the
  run, stage, nonce and process of the first.
\<close>

theorem launch_bound_once:
  assumes "ws_admit e code aid token h (front_run s xs) = (f1, Inr (a, mid, la))"
    "ws_admit e' code' aid' token' h' (front_run s (xs @ Q_socket e code aid token h # ys)) = (f2, Inr (a, mid, la'))"
  shows "la' = la"
proof -
  let ?f = "front_run s xs" and ?c = "Q_socket e code aid token h"
  obtain t rid seat where w: "map_of (am_attempts (snd ?f)) (code, aid) = Some a"
      "ws_admitted rid mid la (am_heap (snd ?f) a)" "snd f1 = am_write a (put_launch mid la) (snd ?f)"
    using assms(1) by (rule ws_admit_accepted)
  note a = adm_inv_attemptsD [OF front_run_inv w(1)]
  have "map_of (ad_launches (put_launch mid la (am_heap (snd ?f) a))) mid = Some la"
    using w(2) by (auto simp: ws_admitted_def put_launch_def update_conv' split: option.splits)
  then have "launch_held a mid la (snd (front_run s (xs @ [?c])))"
    using a w(3) assms(1) by (simp add: front_run_snoc launch_held_def)
  from front_run_launch_held [OF this, of ys]
  have h: "launch_held a mid la (snd (front_run s (xs @ ?c # ys)))" by simp
  obtain t' rid' seat' where w': "map_of (am_attempts (snd (front_run s (xs @ ?c # ys)))) (code', aid') = Some a"
      "ws_admitted rid' mid la' (am_heap (snd (front_run s (xs @ ?c # ys))) a)"
    using assms(2) by (rule ws_admit_accepted)
  have "map_of (ad_launches (am_heap (snd (front_run s (xs @ ?c # ys))) a)) mid = Some la"
    using h map_of_snd [OF w'(1)] by (auto simp: launch_held_def)
  then show ?thesis using w'(2) by (auto simp: ws_admitted_def split: option.splits)
qed

subsection \<open>A sample history\<close>

text \<open>Both members of the sample room present a proof and connect.\<close>

definition sample_request :: "string \<Rightarrow> string \<Rightarrow> int \<Rightarrow> request" where
  "sample_request token cid n = \<lparr>rq_token = Inr token, rq_command = Inr cid, rq_version = Inr n\<rparr>"

definition sample_ready :: "string \<Rightarrow> string \<Rightarrow> ready_payload" where
  "sample_ready role run =
     \<lparr>ry_ready = True, ry_role = Some role,
      ry_proof = Some \<lparr>pf_run = run, pf_release = ''v1'', pf_generation = 1, pf_stage = 1, pf_adapter = ''x'',
                       pf_report = ''y''\<rparr>\<rparr>"

definition sample_headers :: ws_headers where
  "sample_headers = \<lparr>wh_run = Some ''ra'', wh_stage = Some 1, wh_pid = Some 7, wh_nonce = replicate 32 CHR ''n''\<rparr>"

definition sample_first :: relay_call where
  "sample_first = Q_ready (ex_env 2 ''c'') ''a'' (sample_request ''ta'' ''k3'' 2) (sample_ready ''creator'' ''ra'')"

definition sample_second :: relay_call where
  "sample_second = Q_ready (ex_env 3 ''d'') ''a'' (sample_request ''tb'' ''k4'' 3) (sample_ready ''finder'' ''rb'')"

definition sample_socket :: "rat \<Rightarrow> relay_front \<Rightarrow> relay_front \<times> (ws_close + nat \<times> string \<times> launch)" where
  "sample_socket t f = ws_admit (ex_env t ''w'') ''ABC123'' ''d'' ''ta'' sample_headers f"

lemma sample_ready_eval:
  "case snd (ready_v2 (ex_env 3 ''d'') ''a'' (sample_request ''tb'' ''k4'' 3) (sample_ready ''finder'' ''rb'')
     (front_run ex_joined [sample_first])) of Inl _ \<Rightarrow> False | Inr rr \<Rightarrow> rr_admitted rr"
  by code_simp

lemma sample_socket_eval:
  "case snd (sample_socket 4 (front_run ex_joined [sample_first, sample_second])) of
     Inl _ \<Rightarrow> False | Inr (a, mid, la) \<Rightarrow> a = 0 \<and> mid = ''ai''"
  by code_simp

definition sample_connected :: "relay_call list" where
  "sample_connected = [sample_first, sample_second] @
     Q_socket (ex_env 4 ''w'') ''ABC123'' ''d'' ''ta'' sample_headers # []"

lemma sample_again_eval:
  "case snd (sample_socket 5 (front_run ex_joined sample_connected)) of
     Inl _ \<Rightarrow> False | Inr (a, mid, la) \<Rightarrow> a = 0 \<and> mid = ''ai'' \<and> la_pid la = 7"
  by code_simp

lemma attempt_needs_two_proofs_witness:
  "\<exists>ma mb pa pb. ma \<noteq> mb \<and> pf_run pa \<noteq> pf_run pb \<and>
     was_presented ex_joined [sample_first, sample_second] ''a'' ma pa \<and>
     was_presented ex_joined [sample_first, sample_second] ''a'' mb pb"
proof -
  obtain f' rr where "ready_v2 (ex_env 3 ''d'') ''a'' (sample_request ''tb'' ''k4'' 3) (sample_ready ''finder'' ''rb'')
     (front_run ex_joined [sample_first]) = (f', Inr rr)" "rr_admitted rr"
    using sample_ready_eval by (auto split: sum.splits) (metis prod.collapse)
  from attempt_needs_two_proofs [OF this] show ?thesis unfolding sample_second_def by auto
qed

lemma socket_needs_own_proof_witness:
  "\<exists>(la :: launch) rid pf. was_presented ex_joined [sample_first, sample_second] rid ''ai'' pf \<and> pf_run pf = la_run la"
proof -
  obtain f' la where "ws_admit (ex_env 4 ''w'') ''ABC123'' ''d'' ''ta'' sample_headers
      (front_run ex_joined [sample_first, sample_second]) = (f', Inr (0, ''ai'', la))"
    using sample_socket_eval unfolding sample_socket_def by (auto split: sum.splits) (metis prod.collapse)
  from socket_needs_own_proof [OF this] show ?thesis by blast
qed

lemma launch_bound_once_witness:
  "\<exists>f la. ws_admit (ex_env 4 ''w'') ''ABC123'' ''d'' ''ta'' sample_headers
      (front_run ex_joined [sample_first, sample_second]) = (f, Inr (0, ''ai'', la)) \<and> la_pid la = 7"
proof -
  obtain f1 la where 1: "ws_admit (ex_env 4 ''w'') ''ABC123'' ''d'' ''ta'' sample_headers
      (front_run ex_joined [sample_first, sample_second]) = (f1, Inr (0, ''ai'', la))"
    using sample_socket_eval unfolding sample_socket_def by (auto split: sum.splits) (metis prod.collapse)
  obtain f2 la' where 2: "ws_admit (ex_env 5 ''w'') ''ABC123'' ''d'' ''ta'' sample_headers
      (front_run ex_joined sample_connected) = (f2, Inr (0, ''ai'', la'))" "la_pid la' = 7"
    using sample_again_eval unfolding sample_socket_def by (auto split: sum.splits) (metis prod.collapse)
  have "la' = la" by (rule launch_bound_once [OF 1 2(1) [unfolded sample_connected_def]])
  then show ?thesis using 1 2(2) by blast
qed

end
