(* ===== verification/Relay_Rate.thy ===== *)
theory Relay_Rate
  imports Relay_Admission
begin

section \<open>The request limit over a history (\<open>relay/server.py\<close>, \<open>RateLimiter\<close>)\<close>

text \<open>
  A run of checks at non-decreasing times, and what it lets through: the log of the accepted
  requests.  The stamps a limiter still holds for an identity are the accepted ones that are
  young enough; from this the bound for every window follows.
\<close>

fun rate_run :: "rate_limiter \<Rightarrow> (rat \<times> string) list \<Rightarrow> rate_limiter \<times> (rat \<times> string) list" where
  "rate_run l [] = (l, [])"
| "rate_run l ((now, i) # xs) =
     (case rate_check now i l of
        (l', Inl _) \<Rightarrow> rate_run l' xs
      | (l', Inr _) \<Rightarrow> (let (l'', acc) = rate_run l' xs in (l'', (now, i) # acc)))"

definition stamps_of :: "string \<Rightarrow> (rat \<times> string) list \<Rightarrow> rat list" where
  "stamps_of i acc = map fst (filter (\<lambda>(_, k). k = i) acc)"

definition held :: "rate_limiter \<Rightarrow> string \<Rightarrow> rat list" where
  "held l i = (case map_of (rl_hits l) i of None \<Rightarrow> [] | Some xs \<Rightarrow> xs)"

definition in_stretch :: "rat \<Rightarrow> rat \<Rightarrow> rat list \<Rightarrow> rat list" where
  "in_stretch t w = filter (\<lambda>x. t - w < x \<and> x \<le> t)"

definition rate_inv :: "rate_limiter \<Rightarrow> (rat \<times> string) list \<Rightarrow> rat \<Rightarrow> bool" where
  "rate_inv l acc now \<longleftrightarrow>
     (\<forall>x \<in> set acc. fst x \<le> now) \<and> distinct (map fst (rl_hits l)) \<and> length (rl_hits l) \<le> rate_capacity \<and>
     (\<forall>i. fresh_hits now (rl_window l) (held l i) = fresh_hits now (rl_window l) (stamps_of i acc)) \<and>
     (\<forall>i t. length (in_stretch t (rl_window l) (stamps_of i acc)) \<le> rl_limit l)"

lemma fresh_hits_later:
  assumes "now \<le> now'" "fresh_hits now w xs = fresh_hits now w ys"
  shows "fresh_hits now' w xs = fresh_hits now' w ys"
proof -
  have "fresh_hits now' w zs = fresh_hits now' w (fresh_hits now w zs)" for zs
    using assms(1) by (auto simp: fresh_hits_def intro!: filter_cong)
  with assms(2) show ?thesis by metis
qed

lemma fresh_hits_simps [simp]:
  "fresh_hits now w [] = []" "fresh_hits now w (xs @ ys) = fresh_hits now w xs @ fresh_hits now w ys"
  "fresh_hits now w (fresh_hits now w xs) = fresh_hits now w xs"
  by (simp_all add: fresh_hits_def)

lemma stamps_of_snoc: "stamps_of i (acc @ [(t, k)]) = stamps_of i acc @ (if k = i then [t] else [])"
  by (simp add: stamps_of_def)

text \<open>Eviction drops only stamps that no longer count, and the identities left without any.\<close>

lemma rate_evict_held:
  assumes "distinct (map fst hits)"
  shows "fresh_hits now w (case map_of (rate_evict now w hits) i of None \<Rightarrow> [] | Some xs \<Rightarrow> xs) =
      fresh_hits now w (case map_of hits i of None \<Rightarrow> [] | Some xs \<Rightarrow> xs)"
    "distinct (map fst (rate_evict now w hits))" "length (rate_evict now w hits) \<le> length hits"
    "map_of hits i = None \<Longrightarrow> map_of (rate_evict now w hits) i = None"
proof -
  have keys: "set (map fst (rate_evict now w hs)) \<subseteq> set (map fst hs)" for hs
    by (force simp: rate_evict_def)
  show "map_of hits i = None \<Longrightarrow> map_of (rate_evict now w hits) i = None"
    using keys [of hits] by (auto simp: map_of_eq_None_iff)
  show "length (rate_evict now w hits) \<le> length hits" by (simp add: rate_evict_def)
  show "distinct (map fst (rate_evict now w hits))"
  proof -
    have "map fst (rate_evict now w hits) = map fst (filter (\<lambda>(k, st). fresh_hits now w st \<noteq> []) hits)"
      by (simp add: rate_evict_def case_prod_unfold)
    then show ?thesis using assms by (simp add: distinct_map_filter)
  qed
  show "fresh_hits now w (case map_of (rate_evict now w hits) i of None \<Rightarrow> [] | Some xs \<Rightarrow> xs) =
      fresh_hits now w (case map_of hits i of None \<Rightarrow> [] | Some xs \<Rightarrow> xs)"
    using assms
  proof (induction hits)
    case (Cons x hits)
    obtain k st where x: "x = (k, st)" by force
    have n: "map_of (rate_evict now w hits) k = None"
      using keys [of hits] Cons.prems by (auto simp: x map_of_eq_None_iff)
    show ?case
    proof (cases "i = k")
      case True
      then show ?thesis using n by (auto simp: x rate_evict_def)
    next
      case False
      then show ?thesis using Cons by (auto simp: x rate_evict_def)
    qed
  qed (simp add: rate_evict_def)
qed

lemma in_stretch_snoc:
  assumes "\<forall>x \<in> set xs. x \<le> now" "length (fresh_hits now w xs) < n" "\<And>t. length (in_stretch t w xs) \<le> n"
  shows "length (in_stretch t w (xs @ [now])) \<le> n"
proof (cases "now \<le> t")
  case True
  have "in_stretch t w xs = filter (\<lambda>x. t - w < x) (fresh_hits now w xs)"
    using assms(1) True by (auto simp: in_stretch_def fresh_hits_def intro!: filter_cong)
  then have "length (in_stretch t w xs) \<le> length (fresh_hits now w xs)" by simp
  then have "length (in_stretch t w xs) < n" using assms(2) by simp
  then show ?thesis by (simp add: in_stretch_def)
next
  case False
  then show ?thesis using assms(3) [of t] by (simp add: in_stretch_def)
qed

lemma rate_hit_inv:
  assumes "rate_inv l acc now" "rate_hit now i l = (l', r)"
    "map_of (rl_hits l) i = None \<longrightarrow> length (rl_hits l) < rate_capacity"
  shows "case r of Inl _ \<Rightarrow> l' = l | Inr _ \<Rightarrow> rate_inv l' (acc @ [(now, i)]) now" "rl_window l' = rl_window l" "rl_limit l' = rl_limit l"
proof -
  note inv = assms(1) [unfolded rate_inv_def]
  let ?w = "rl_window l" and ?h = "fresh_hits now (rl_window l) (held l i)"
  have le: "\<forall>x \<in> set (stamps_of k acc). x \<le> now" for k
    using inv by (auto simp: stamps_of_def)
  have l': "l' = (if rl_limit l \<le> length ?h then l else l\<lparr>rl_hits := AList.update i (?h @ [now]) (rl_hits l)\<rparr>)"
    and r: "r = (if rl_limit l \<le> length ?h then Inl (Denied 429 ''rate limit exceeded'') else Inr ())"
    using assms(2) by (auto simp: rate_hit_def Let_def held_def split: if_splits)
  show "rl_window l' = rl_window l" "rl_limit l' = rl_limit l" by (simp_all add: l')
  show "case r of Inl _ \<Rightarrow> l' = l | Inr _ \<Rightarrow> rate_inv l' (acc @ [(now, i)]) now"
  proof (cases "rl_limit l \<le> length ?h")
    case False
    have hh: "held l' k = (if k = i then ?h @ [now] else held l k)" for k
      using False by (simp add: l' held_def update_conv')
    have "fresh_hits now ?w (held l' k) = fresh_hits now ?w (stamps_of k (acc @ [(now, i)]))" for k
      using inv by (simp add: hh stamps_of_snoc)
    moreover have "length (in_stretch t ?w (stamps_of k (acc @ [(now, i)]))) \<le> rl_limit l" for k t
      using in_stretch_snoc [OF le [of i], of ?w "rl_limit l" t] inv False
      by (cases "k = i") (simp_all add: stamps_of_snoc)
    moreover have "distinct (map fst (rl_hits l'))" using inv False by (simp add: l' distinct_update)
    moreover have "length (rl_hits l') \<le> rate_capacity"
    proof (cases "map_of (rl_hits l) i")
      case None
      have "length (AList.update i v xs) \<le> Suc (length xs)" for v :: "rat list" and xs by (induction xs) auto
      from this [of "?h @ [now]" "rl_hits l"] show ?thesis using None assms(3) False by (simp add: l')
    next
      case (Some v)
      have "map_of xs i = Some v \<Longrightarrow> length (AList.update i u xs) = length xs" for u :: "rat list" and xs
        by (induction xs) auto
      then show ?thesis using Some inv False by (simp add: l')
    qed
    ultimately show ?thesis using inv False by (auto simp: r rate_inv_def l')
  qed (simp add: r l')
qed

lemma rate_check_inv:
  assumes "rate_inv l acc now0" "now0 \<le> now" "rate_check now i l = (l', r)"
  shows "rate_inv l' (case r of Inl _ \<Rightarrow> acc | Inr _ \<Rightarrow> acc @ [(now, i)]) now" "rl_window l' = rl_window l"
    "rl_limit l' = rl_limit l"
proof -
  have i: "rate_inv l acc now"
    using assms(1,2) fresh_hits_later [OF assms(2)] unfolding rate_inv_def by (metis order_trans)
  have main: "rate_inv l' (case r of Inl _ \<Rightarrow> acc | Inr _ \<Rightarrow> acc @ [(now, i)]) now \<and>
      rl_window l' = rl_window l \<and> rl_limit l' = rl_limit l"
    if "rate_inv k acc now" "rate_hit now i k = (l', r)" "rl_window k = rl_window l" "rl_limit k = rl_limit l"
      "map_of (rl_hits k) i = None \<longrightarrow> length (rl_hits k) < rate_capacity" for k
    using rate_hit_inv [OF that(1,2,5)] that(1,3,4) by (cases r) simp_all
  define k where "k = l\<lparr>rl_hits := rate_evict now (rl_window l) (rl_hits l)\<rparr>"
  have d: "distinct (map fst (rl_hits l))" using i by (simp add: rate_inv_def)
  note ev = rate_evict_held [OF d]
  have kf: "fresh_hits now (rl_window l) (held k j) = fresh_hits now (rl_window l) (held l j)" for j
    by (simp add: held_def k_def ev(1))
  have ik: "rate_inv k acc now"
    unfolding rate_inv_def using i ev(2) order_trans [OF ev(3)] kf
    by (simp add: k_def rate_inv_def)
  have "rate_inv l' (case r of Inl _ \<Rightarrow> acc | Inr _ \<Rightarrow> acc @ [(now, i)]) now \<and>
      rl_window l' = rl_window l \<and> rl_limit l' = rl_limit l"
  proof (cases "rate_capacity \<le> length (rl_hits l) \<and> map_of (rl_hits l) i = None")
    case True
    show ?thesis
    proof (cases "rate_capacity \<le> length (rl_hits k)")
      case full: True
      then have "l' = k" "\<exists>err. r = Inl err" using assms(3) True by (auto simp: rate_check_def k_def Let_def)
      then show ?thesis using ik by (auto simp: k_def)
    next
      case False
      then have "rate_hit now i k = (l', r)" using assms(3) True by (simp add: rate_check_def k_def Let_def)
      then show ?thesis using False by (intro main [OF ik]) (simp_all add: k_def)
    qed
  next
    case False
    then have "rate_hit now i l = (l', r)" using assms(3) unfolding rate_check_def by (simp only: if_False)
    then show ?thesis using False by (intro main [OF i]) auto
  qed
  then show "rate_inv l' (case r of Inl _ \<Rightarrow> acc | Inr _ \<Rightarrow> acc @ [(now, i)]) now" "rl_window l' = rl_window l"
    "rl_limit l' = rl_limit l" by blast+
qed

lemma rate_run_inv:
  "rate_inv l acc now \<Longrightarrow> sorted (now # map fst xs) \<Longrightarrow> rate_run l xs = (l', out) \<Longrightarrow>
     (\<exists>t. rate_inv l' (acc @ out) t) \<and> rl_window l' = rl_window l \<and> rl_limit l' = rl_limit l"
proof (induction xs arbitrary: l acc now out)
  case (Cons x xs)
  obtain t i where x: "x = (t, i)" by force
  obtain k r where k: "rate_check t i l = (k, r)" by force
  have t: "now \<le> t" "sorted (t # map fst xs)" using Cons.prems(2) by (simp_all add: x)
  note st = rate_check_inv [OF Cons.prems(1) t(1) k]
  show ?case
  proof (cases r)
    case (Inl e)
    then have "rate_run k xs = (l', out)" using Cons.prems(3) by (simp add: x k)
    with Cons.IH [OF _ t(2) this] st show ?thesis by (simp add: Inl)
  next
    case (Inr u)
    obtain out' where o: "rate_run k xs = (l', out')" "out = (t, i) # out'"
      using Cons.prems(3) by (auto simp: x k Inr split: prod.splits)
    from Cons.IH [OF _ t(2) o(1), of "acc @ [(t, i)]"] st show ?thesis by (simp add: Inr o(2))
  qed
qed auto

text \<open>
  C22: Whatever requests arrive, at non-decreasing times, the limiter lets through at most
  \<open>limit\<close> requests of an identity in any stretch of the length of its window, and it never
  remembers more than 4096 identities.
\<close>

theorem rate_limit_holds:
  assumes "rate_run (rate_limiter_new limit window) xs = (l, acc)" "sorted (map fst xs)"
  shows "length (in_stretch t window (stamps_of i acc)) \<le> limit \<and> length (rl_hits l) \<le> rate_capacity"
proof -
  let ?now = "case xs of [] \<Rightarrow> 0 | x # _ \<Rightarrow> fst x"
  have "rate_inv (rate_limiter_new limit window) [] ?now"
    by (auto simp: rate_inv_def rate_limiter_new_def held_def stamps_of_def in_stretch_def)
  moreover have "sorted (?now # map fst xs)" using assms(2) by (cases xs) auto
  ultimately obtain u where "rate_inv l acc u" "rl_window l = window" "rl_limit l = limit"
    using rate_run_inv [OF _ _ assms(1)] by (fastforce simp: rate_limiter_new_def)
  then show ?thesis unfolding rate_inv_def by blast
qed

lemma rate_limit_holds_witness:
  "length (in_stretch 4 3 (stamps_of ''a'' [(0, ''a''), (1, ''a''), (4, ''a'')])) \<le> 2"
proof -
  have "snd (rate_run (rate_limiter_new 2 3) [(0, ''a''), (1, ''a''), (2, ''a''), (4, ''a'')]) =
      [(0, ''a''), (1, ''a''), (4, ''a'')]"
    by (simp add: rate_check_def rate_hit_def rate_limiter_new_def rate_capacity_def fresh_hits_def)
  then obtain l where "rate_run (rate_limiter_new 2 3) [(0, ''a''), (1, ''a''), (2, ''a''), (4, ''a'')] =
      (l, [(0, ''a''), (1, ''a''), (4, ''a'')])" by (metis prod.collapse)
  from rate_limit_holds [OF this, of 4 "''a''"] show ?thesis by simp
qed

end
