(* ===== verification/C2_Bridge.thy ===== *)
theory C2_Bridge
  imports Relay_Session
begin

section \<open>The activation barrier and bridge of an endpoint (\<open>switchtrade/connection/c2.py\<close>)\<close>

text \<open>
  A \<^verbatim>\<open>C2Bridge\<close> holds back the game's Reliable frames until both sides have proved ready in
  the current proof generation of the tunnel, then passes them on; it fails closed, and closing it
  seals it and accounts for every queued frame.

  The tunnel client is the part of \<^verbatim>\<open>TunnelClientV2\<close> the bridge uses: the flags and
  counters it reads, its inbox, and a history of everything the bridge has given it, each entry
  with the proof generation of that moment.  Its queue is bounded and a put may time out: the
  number of puts that still succeed is a field.  The client's thread changes these fields between
  the calls of the bridge, not during one.  The JSON codec of \<^verbatim>\<open>SideReady\<close> and the hash of
  a launch are fields of a \<open>c2_env\<close>; messages, the clock and the statistics of times are left out.
\<close>

record c2_env = relay_env +
  en_encode :: "side_ready \<Rightarrow> bytes"

datatype c2_gate = C_local_side_ready | C_bridge_ready | C_rfu_active | D3_bridge_drain

type_synonym c2_failure = "string \<times> c2_gate"

subsection \<open>The tunnel client as the bridge sees it\<close>

record given =
  gv_proof :: nat
  gv_kind :: tunnel_kind
  gv_payload :: bytes
  gv_flags :: int

record c2_client =
  k_error :: string
  k_proven :: bool
  k_proof :: nat
  k_side_sent :: nat
  k_inbox :: "tunnel_envelope list"
  k_room :: nat
  k_given :: "given list"
  k_attempt :: ustr
  k_seat :: source_seat
  k_launch :: launch
  k_running :: bool

definition client_put :: "tunnel_kind \<Rightarrow> bytes \<Rightarrow> int \<Rightarrow> c2_client \<Rightarrow> c2_client option" where
  "client_put kind payload flags k =
     (if max_tunnel_payload < length payload then None
      else case k_room k of
             0 \<Rightarrow> None
           | Suc n \<Rightarrow> Some (k\<lparr>k_room := n,
                            k_given := k_given k @ [\<lparr>gv_proof = k_proof k, gv_kind = kind, gv_payload = payload,
                                                     gv_flags = flags\<rparr>]\<rparr>))"

definition client_side_ready :: "bytes \<Rightarrow> c2_client \<Rightarrow> c2_client option" where
  "client_side_ready payload k =
     (if \<not> k_proven k then None
      else if k_side_sent k = k_proof k then None
      else map_option (k_side_sent_update (\<lambda>_. k_proof k)) (client_put Side_ready payload 0 k))"

definition client_rfu :: "bytes \<Rightarrow> int \<Rightarrow> c2_client \<Rightarrow> c2_client option" where
  "client_rfu payload flags k =
     (if \<not> k_proven k then None
      else if payload = [] \<or> max_rfu_payload < length payload \<or> \<not> (0 \<le> flags \<and> flags \<le> 0xFF) then None
      else client_put Rfu_data payload flags k)"

subsection \<open>The state\<close>

record c2_stats =
  s_peak :: nat
  s_tx :: nat
  s_rx :: nat
  s_activations :: nat
  s_invalidations :: nat

record drain_result =
  dr_pending_local :: nat
  dr_flushed :: nat
  dr_discarded_local :: nat
  dr_discarded_remote :: nat
  dr_error :: "string option"

record c2_bridge =
  b_run :: string
  b_attempt :: ustr
  b_seat :: source_seat
  b_role :: string
  b_activation :: int
  b_advert :: string
  b_client :: c2_client
  b_connected :: bool
  b_active :: bool
  b_conn_generation :: nat
  b_last_gate :: "c2_gate option"
  b_passed :: "c2_gate list"
  b_failure :: "c2_failure option"
  b_local_gate :: "string option"
  b_local_sent :: nat
  b_proof :: nat
  b_peer_key :: "(int \<times> int) option"
  b_local :: "(bytes \<times> int) list"
  b_remote :: "tunnel_envelope list"
  b_canceled :: bool
  b_sealed :: bool
  b_drain :: "(string \<times> drain_result) option"
  b_stopped :: bool
  b_tx :: nat
  b_rx :: nat
  b_stats :: c2_stats

definition max_pre_barrier :: nat where "max_pre_barrier = 256"

definition c2_bridge_new ::
  "string \<Rightarrow> ustr \<Rightarrow> source_seat \<Rightarrow> string \<Rightarrow> int \<Rightarrow> string \<Rightarrow> c2_client \<Rightarrow> c2_bridge option" where
  "c2_bridge_new run attempt seat role activation advert client =
     (if role_gate role = None \<or> k_attempt client \<noteq> attempt \<or> k_seat client \<noteq> seat \<or>
         la_run (k_launch client) \<noteq> run \<or> activation < 1 \<or> \<not> sha_pattern advert then None
      else Some \<lparr>b_run = run, b_attempt = attempt, b_seat = seat, b_role = role, b_activation = activation,
                 b_advert = advert, b_client = client, b_connected = False, b_active = False,
                 b_conn_generation = 0, b_last_gate = None, b_passed = [], b_failure = None,
                 b_local_gate = None, b_local_sent = 0, b_proof = 0, b_peer_key = None, b_local = [],
                 b_remote = [], b_canceled = False, b_sealed = False, b_drain = None, b_stopped = False,
                 b_tx = 0, b_rx = 0,
                 b_stats = \<lparr>s_peak = 0, s_tx = 0, s_rx = 0, s_activations = 0, s_invalidations = 0\<rparr>\<rparr>)"

text \<open>A step may raise and keeps what it has changed by then.\<close>

type_synonym 'a c2_step = "c2_bridge \<Rightarrow> c2_bridge \<times> (c2_failure + 'a)"

definition then_do :: "'a c2_step \<Rightarrow> ('a \<Rightarrow> 'b c2_step) \<Rightarrow> 'b c2_step" where
  "then_do m k b = (case m b of (b', Inl e) \<Rightarrow> (b', Inl e) | (b', Inr x) \<Rightarrow> k x b')"

definition pass_gate :: "c2_gate \<Rightarrow> c2_bridge \<Rightarrow> c2_bridge" where
  "pass_gate g b = (if b_last_gate b = Some g then b
                    else b\<lparr>b_last_gate := Some g, b_passed := b_passed b @ [g]\<rparr>)"

definition c2_fail :: "string \<Rightarrow> c2_gate \<Rightarrow> 'a c2_step" where
  "c2_fail code g b =
     (let f = (case b_failure b of None \<Rightarrow> (code, g) | Some f \<Rightarrow> f)
      in (b\<lparr>b_failure := Some f, b_connected := False, b_active := False\<rparr>, Inl f))"

subsection \<open>The barrier\<close>

definition invalidate :: "c2_bridge \<Rightarrow> c2_bridge" where
  "invalidate b =
     b\<lparr>b_stats := (if b_connected b then (b_stats b)\<lparr>s_invalidations := s_invalidations (b_stats b) + 1\<rparr>
                   else b_stats b),
       b_connected := False, b_active := False, b_peer_key := None, b_local_sent := 0, b_remote := [],
       b_tx := 0, b_rx := 0, b_conn_generation := b_conn_generation b + 1\<rparr>"

definition own_ready :: "c2_env \<Rightarrow> nat \<Rightarrow> string \<Rightarrow> c2_bridge \<Rightarrow> side_ready" where
  "own_ready env proof gate b =
     \<lparr>sr_contract = side_ready_contract, sr_attempt = b_attempt b, sr_activation = b_activation b,
      sr_seat = seat_label (b_seat b), sr_role = b_role b, sr_gate = gate, sr_run = b_run b,
      sr_stage = la_stage (k_launch (b_client b)), sr_launch = en_launch_hash env (k_launch (b_client b)),
      sr_advert = b_advert b, sr_proof = int proof\<rparr>"

definition current_proof :: "c2_bridge \<Rightarrow> nat" where
  "current_proof b = (if k_proven (b_client b) then k_proof (b_client b) else 0)"

definition note_proof :: "c2_bridge \<Rightarrow> c2_bridge" where
  "note_proof b = (if current_proof b \<noteq> b_proof b then (invalidate b)\<lparr>b_proof := current_proof b\<rparr> else b)"

definition send_own_ready :: "c2_env \<Rightarrow> unit c2_step" where
  "send_own_ready env b =
     (case b_local_gate b of
        Some gate \<Rightarrow>
          if b_proof b \<noteq> 0 \<and> gate \<noteq> [] \<and> b_local_sent b \<noteq> b_proof b then
            (case side_ready_validate (relay_env.truncate env) (own_ready env (b_proof b) gate b) of
               Inl _ \<Rightarrow> c2_fail ''C_SIDE_READY_SEND_FAILED'' C_bridge_ready b
             | Inr r \<Rightarrow>
                 (case client_side_ready (en_encode env r) (b_client b) of
                    None \<Rightarrow> c2_fail ''C_SIDE_READY_SEND_FAILED'' C_bridge_ready b
                  | Some k \<Rightarrow> (b\<lparr>b_client := k, b_local_sent := b_proof b\<rparr>, Inr ())))
          else (b, Inr ())
      | None \<Rightarrow> (b, Inr ()))"

definition sync_proof :: "c2_env \<Rightarrow> unit c2_step" where
  "sync_proof env b =
     (if k_error (b_client b) \<noteq> [] then c2_fail (k_error (b_client b)) C_bridge_ready b
      else send_own_ready env (note_proof b))"

definition side_code :: "relay_code \<Rightarrow> string" where
  "side_code c =
     (case c of
        C_side_ready_invalid \<Rightarrow> ''C_SIDE_READY_INVALID'' | C_side_ready_contract \<Rightarrow> ''C_SIDE_READY_CONTRACT''
      | C_side_ready_identity \<Rightarrow> ''C_SIDE_READY_IDENTITY'' | C_side_ready_role \<Rightarrow> ''C_SIDE_READY_ROLE''
      | C_side_ready_generation \<Rightarrow> ''C_SIDE_READY_GENERATION''
      | C_side_ready_advertisement \<Rightarrow> ''C_SIDE_READY_ADVERTISEMENT'' | _ \<Rightarrow> [])"

definition peer_role :: "string \<Rightarrow> string" where
  "peer_role role = (if role = ''a_room_joiner'' then ''b_ap_host'' else ''a_room_joiner'')"

definition accept_side_ready :: "c2_env \<Rightarrow> tunnel_envelope \<Rightarrow> unit c2_step" where
  "accept_side_ready env e b =
     (case side_ready_decode (relay_env.truncate env) (env_payload e) of
        Inl c \<Rightarrow> c2_fail (side_code c) C_bridge_ready b
      | Inr r \<Rightarrow>
          if sr_attempt r \<noteq> b_attempt b \<or> sr_seat r \<noteq> seat_label (seat_peer (b_seat b)) \<or>
             sr_role r \<noteq> peer_role (b_role b) \<or> sr_activation r \<noteq> b_activation b
          then c2_fail ''C_SIDE_READY_STALE'' C_bridge_ready b
          else if sr_advert r \<noteq> b_advert b then c2_fail ''C_SIDE_READY_ADVERTISEMENT'' C_bridge_ready b
          else if sr_run r = b_run b then c2_fail ''C_SIDE_READY_IDENTITY'' C_bridge_ready b
          else if b_peer_key b = Some (env_epoch e, sr_proof r)
          then c2_fail ''C_SIDE_READY_DUPLICATE'' C_bridge_ready b
          else (b\<lparr>b_peer_key := Some (env_epoch e, sr_proof r)\<rparr>, Inr ()))"

definition send_now :: "bytes \<Rightarrow> int \<Rightarrow> unit c2_step" where
  "send_now payload flags b =
     (case client_rfu payload flags (b_client b) of
        None \<Rightarrow> c2_fail ''C_RFU_BACKPRESSURE'' C_rfu_active b
      | Some k \<Rightarrow> (b\<lparr>b_client := k, b_stats := (b_stats b)\<lparr>s_tx := s_tx (b_stats b) + 1\<rparr>,
                    b_tx := b_tx b + 1\<rparr>, Inr ()))"

fun flush_local :: "nat \<Rightarrow> unit c2_step" where
  "flush_local 0 b = (b, Inr ())"
| "flush_local (Suc n) b =
     (case b_local b of
        [] \<Rightarrow> (b, Inr ())
      | (payload, flags) # rest \<Rightarrow>
          then_do (send_now payload flags) (\<lambda>_. flush_local n) (b\<lparr>b_local := rest\<rparr>))"

definition barrier_open :: "c2_bridge \<Rightarrow> bool" where
  "barrier_open b \<longleftrightarrow>
     b_local_sent b = b_proof b \<and> b_peer_key b \<noteq> None \<and> b_proof b \<noteq> 0 \<and> k_proven (b_client b)"

definition activate :: "c2_bridge \<Rightarrow> c2_bridge" where
  "activate b =
     (if barrier_open b \<and> \<not> b_connected b
      then pass_gate C_bridge_ready
             (b\<lparr>b_connected := True, b_stats := (b_stats b)\<lparr>s_activations := s_activations (b_stats b) + 1\<rparr>\<rparr>)
      else b)"

definition flush_batch :: nat where "flush_batch = 32"

definition maybe_activate :: "unit c2_step" where
  "maybe_activate b0 =
     then_do (\<lambda>b. if b_connected b then flush_local flush_batch b else (b, Inr ()))
       (\<lambda>_ b. (if b_connected b \<and> b_tx b \<noteq> 0 \<and> b_rx b \<noteq> 0 \<and> \<not> b_active b
               then pass_gate C_rfu_active (b\<lparr>b_active := True\<rparr>) else b, Inr ()))
       (activate b0)"

subsection \<open>Receiving\<close>

definition take_rfu :: "tunnel_envelope \<Rightarrow> unit c2_step" where
  "take_rfu e b =
     (if \<not> b_connected b then c2_fail ''C_RFU_EARLY'' C_bridge_ready b
      else if even (env_flags e) \<or> max_rfu_payload < length (env_payload e)
      then c2_fail ''C_RFU_INVALID'' C_rfu_active b
      else if max_pre_barrier \<le> length (b_remote b) then c2_fail ''C_RFU_BACKLOG_OVERFLOW'' C_rfu_active b
      else (b\<lparr>b_remote := b_remote b @ [e], b_stats := (b_stats b)\<lparr>s_rx := s_rx (b_stats b) + 1\<rparr>,
              b_rx := b_rx b + 1\<rparr>, Inr ()))"

definition take_envelope :: "c2_env \<Rightarrow> tunnel_envelope \<Rightarrow> unit c2_step" where
  "take_envelope env e =
     (if env_kind e = Side_ready then then_do (accept_side_ready env e) (\<lambda>_. maybe_activate)
      else if env_kind e = Rfu_data then take_rfu e
      else if env_kind e = Peer_close then c2_fail ''C_PEER_CLOSED'' C_bridge_ready
      else (\<lambda>b. (b, Inr ())))"

fun take_all :: "c2_env \<Rightarrow> tunnel_envelope list \<Rightarrow> unit c2_step" where
  "take_all env [] b = (b, Inr ())"
| "take_all env (e # es) b = then_do (take_envelope env e) (\<lambda>_. take_all env es) b"

definition poll_limit :: nat where "poll_limit = 32"

definition poll_client :: "tunnel_envelope list c2_step" where
  "poll_client b =
     (b\<lparr>b_client := (b_client b)\<lparr>k_inbox := drop poll_limit (k_inbox (b_client b))\<rparr>\<rparr>,
      Inr (take poll_limit (k_inbox (b_client b))))"

definition pump :: "c2_env \<Rightarrow> unit c2_step" where
  "pump env b =
     (if b_sealed b then (b, Inr ())
      else case b_failure b of
             Some f \<Rightarrow> (b, Inl f)
           | None \<Rightarrow>
               if b_canceled b then (b, Inr ())
               else then_do (sync_proof env) (\<lambda>_. then_do poll_client (\<lambda>es.
                      then_do (take_all env es) (\<lambda>_. maybe_activate))) b)"

subsection \<open>The calls of the endpoint\<close>

definition mark_local_ready :: "c2_env \<Rightarrow> string \<Rightarrow> unit c2_step" where
  "mark_local_ready env gate b =
     (if role_gate (b_role b) \<noteq> Some gate then c2_fail ''C_SIDE_READY_ROLE'' C_local_side_ready b
      else if b_canceled b then c2_fail ''C_CANCELED'' C_local_side_ready b
      else if b_local_gate b \<noteq> None \<and> b_local_gate b \<noteq> Some gate
      then c2_fail ''C_SIDE_READY_CHANGED'' C_local_side_ready b
      else pump env (pass_gate C_local_side_ready (b\<lparr>b_local_gate := Some gate\<rparr>)))"

definition queue_local :: "bytes \<Rightarrow> int \<Rightarrow> unit c2_step" where
  "queue_local payload flags b =
     (if max_pre_barrier \<le> length (b_local b) then c2_fail ''C_PRE_BARRIER_OVERFLOW'' C_bridge_ready b
      else (let q = b_local b @ [(payload, flags)]
            in (b\<lparr>b_local := q, b_stats := (b_stats b)\<lparr>s_peak := max (s_peak (b_stats b)) (length q)\<rparr>\<rparr>, Inr ())))"

definition bridge_send :: "c2_env \<Rightarrow> bytes \<Rightarrow> int \<Rightarrow> unit c2_step" where
  "bridge_send env payload flags b =
     (if b_sealed b then (b, Inl (''D_BRIDGE_SEALED'', D3_bridge_drain))
      else if payload = [] \<or> max_rfu_payload < length payload \<or> \<not> (0 \<le> flags \<and> flags \<le> 0xFF)
      then c2_fail ''C_RFU_INVALID'' C_rfu_active b
      else if even flags then c2_fail ''C_RFU_INVALID'' C_rfu_active b
      else then_do (pump env) (\<lambda>_ b1.
             if b_connected b1 then then_do (send_now payload flags) (\<lambda>_. maybe_activate) b1
             else queue_local payload flags b1) b)"

definition bridge_poll :: "c2_env \<Rightarrow> nat \<Rightarrow> tunnel_envelope list c2_step" where
  "bridge_poll env limit b =
     (if b_sealed b then (b, Inr [])
      else then_do (pump env) (\<lambda>_ b1. (b1\<lparr>b_remote := drop limit (b_remote b1)\<rparr>, Inr (take limit (b_remote b1)))) b)"

definition bridge_cancel :: "c2_bridge \<Rightarrow> c2_bridge" where
  "bridge_cancel b =
     (if b_canceled b \<or> b_sealed b then b
      else b\<lparr>b_canceled := True, b_local := [], b_remote := [], b_connected := False, b_active := False,
             b_failure := (case b_failure b of None \<Rightarrow> Some (''C_CANCELED'', C_bridge_ready) | Some f \<Rightarrow> Some f)\<rparr>)"

subsection \<open>Draining\<close>

text \<open>The frames still queued go out in order until the client refuses one, which is lost.\<close>

fun drain_local :: "(bytes \<times> int) list \<Rightarrow> c2_client \<Rightarrow> c2_client \<times> nat \<times> (bytes \<times> int) list \<times> bool" where
  "drain_local [] k = (k, 0, [], True)"
| "drain_local ((payload, flags) # rest) k =
     (case client_rfu payload flags k of
        None \<Rightarrow> (k, 0, rest, False)
      | Some k' \<Rightarrow> (case drain_local rest k' of (k'', n, left, ok) \<Rightarrow> (k'', Suc n, left, ok)))"

definition drain_outcomes :: "string set" where
  "drain_outcomes = {''completed'', ''canceled'', ''failed''}"

definition drain_parts ::
  "string \<Rightarrow> c2_bridge \<Rightarrow> c2_client \<times> nat \<times> (bytes \<times> int) list \<times> nat \<times> string option" where
  "drain_parts outcome b =
     (if outcome = ''completed'' \<and> b_connected b then
        (case drain_local (b_local b) (b_client b) of
           (k, n, left, ok) \<Rightarrow> (k, n, left, if ok then 0 else 1, if ok then None else Some ''D_BRIDGE_FLUSH_FAILED''))
      else (b_client b, 0, b_local b, 0,
            if outcome = ''completed'' \<and> b_local b \<noteq> [] then Some ''D_BRIDGE_UNFLUSHED'' else None))"

definition finish_drain :: "string \<Rightarrow> c2_bridge \<Rightarrow> c2_bridge \<times> drain_result option" where
  "finish_drain outcome b =
     (if outcome \<notin> drain_outcomes then (b, None)
      else case b_drain b of
             Some (o', r) \<Rightarrow> (b, if o' = outcome then Some r else None)
           | None \<Rightarrow>
               (case drain_parts outcome b of
                  (k, flushed, left, popped, err) \<Rightarrow>
                    let r = \<lparr>dr_pending_local = length (b_local b), dr_flushed = flushed,
                             dr_discarded_local = length left + popped,
                             dr_discarded_remote = length (b_remote b), dr_error = err\<rparr>
                    in (b\<lparr>b_client := k, b_stats := (b_stats b)\<lparr>s_tx := s_tx (b_stats b) + flushed\<rparr>,
                          b_local := [], b_remote := [], b_connected := False, b_active := False,
                          b_sealed := True, b_drain := Some (outcome, r)\<rparr>, Some r)))"

definition stop_transport :: "c2_bridge \<Rightarrow> c2_bridge" where
  "stop_transport b =
     (if b_stopped b then b
      else b\<lparr>b_client := (b_client b)\<lparr>k_running := False, k_proven := False\<rparr>, b_stopped := True\<rparr>)"

end
