(* ===== verification/C2_Props.thy ===== *)
theory C2_Props
  imports C2_Bridge
begin

section \<open>The bridge on its own\<close>

text \<open>
  Triples over the steps of the bridge, with a postcondition for the normal end and one for a
  failure; then what every history of one bridge keeps: it sends RFU only behind its own
  \<open>SIDE_READY\<close> of the same proof generation, and nothing once it is sealed.
\<close>

definition triple ::
  "(c2_bridge \<Rightarrow> bool) \<Rightarrow> 'a c2_step \<Rightarrow> ('a \<Rightarrow> c2_bridge \<Rightarrow> bool) \<Rightarrow> (c2_failure \<Rightarrow> c2_bridge \<Rightarrow> bool) \<Rightarrow> bool" where
  "triple P m Q E \<longleftrightarrow> (\<forall>b b' r. P b \<longrightarrow> m b = (b', r) \<longrightarrow> (case r of Inl f \<Rightarrow> E f b' | Inr x \<Rightarrow> Q x b'))"

lemma tripleI:
  assumes "\<And>b b' x. P b \<Longrightarrow> m b = (b', Inr x) \<Longrightarrow> Q x b'" "\<And>b b' f. P b \<Longrightarrow> m b = (b', Inl f) \<Longrightarrow> E f b'"
  shows "triple P m Q E"
  using assms by (auto simp: triple_def split: sum.splits)

lemma tripleD:
  assumes "triple P m Q E" "P b" "m b = (b', r)"
  shows "case r of Inl f \<Rightarrow> E f b' | Inr x \<Rightarrow> Q x b'"
  using assms unfolding triple_def by blast

lemma triple_then:
  assumes "triple P m Q E" "\<And>x. triple (Q x) (k x) R E"
  shows "triple P (then_do m k) R E"
proof (rule tripleI)
  fix b b' x
  assume p: "P b" and t: "then_do m k b = (b', Inr x)"
  obtain b1 r1 where m: "m b = (b1, r1)" by (metis surj_pair)
  obtain y where y: "r1 = Inr y" "k y b1 = (b', Inr x)" using t m by (cases r1) (auto simp: then_do_def)
  have "Q y b1" using tripleD [OF assms(1) p m] y by simp
  from tripleD [OF assms(2) this y(2)] show "R x b'" by simp
next
  fix b b' f
  assume p: "P b" and t: "then_do m k b = (b', Inl f)"
  obtain b1 r1 where m: "m b = (b1, r1)" by (metis surj_pair)
  show "E f b'"
  proof (cases r1)
    case (Inl e)
    then show ?thesis using tripleD [OF assms(1) p m] t m by (auto simp: then_do_def)
  next
    case (Inr y)
    then have "Q y b1" "k y b1 = (b', Inl f)" using tripleD [OF assms(1) p m] t m by (simp_all add: then_do_def)
    from tripleD [OF assms(2) this] show ?thesis by simp
  qed
qed

lemma triple_both: "triple P m (\<lambda>_. R) (\<lambda>_. R) \<Longrightarrow> P b \<Longrightarrow> R (fst (m b))"
  using tripleD [of P m "\<lambda>_. R" "\<lambda>_. R" b "fst (m b)" "snd (m b)"] by (cases "m b"; cases "snd (m b)") simp_all

lemma triple_weaken:
  assumes "triple P m Q E" "\<And>b. P' b \<Longrightarrow> P b" "\<And>x b. Q x b \<Longrightarrow> Q' x b" "\<And>f b. E f b \<Longrightarrow> E' f b"
  shows "triple P' m Q' E'"
  using assms unfolding triple_def by (fastforce split: sum.splits)

lemma triple_if:
  assumes "triple (\<lambda>b. P b \<and> c b) m Q E" "triple (\<lambda>b. P b \<and> \<not> c b) n Q E"
  shows "triple P (\<lambda>b. if c b then m b else n b) Q E"
  using assms unfolding triple_def by auto

lemma triple_return: "(\<And>b. P b \<Longrightarrow> Q x (g b)) \<Longrightarrow> triple P (\<lambda>b. (g b, Inr x)) Q E"
  by (auto simp: triple_def)

text \<open>Invariants of a step, kept on both ends.\<close>

definition keeps :: "(c2_bridge \<Rightarrow> bool) \<Rightarrow> 'a c2_step \<Rightarrow> bool" where
  "keeps P m \<longleftrightarrow> triple P m (\<lambda>_. P) (\<lambda>_. P)"

lemma keepsI: "(\<And>b. P b \<Longrightarrow> P (fst (m b))) \<Longrightarrow> keeps P m"
  unfolding keeps_def triple_def by (metis fst_conv sum.case_eq_if)

lemma keepsD: "keeps P m \<Longrightarrow> P b \<Longrightarrow> P (fst (m b))"
  unfolding keeps_def triple_def by (metis prod.collapse sum.case_eq_if)

lemma keeps_then: "keeps P m \<Longrightarrow> (\<And>x. keeps P (k x)) \<Longrightarrow> keeps P (then_do m k)"
  unfolding keeps_def by (rule triple_then)

subsection \<open>The order of what the client is given\<close>

definition rfu_order :: "given list \<Rightarrow> bool" where
  "rfu_order gs \<longleftrightarrow> (\<forall>xs g ys. gs = xs @ g # ys \<and> gv_kind g = Rfu_data \<longrightarrow>
     (\<exists>s \<in> set xs. gv_kind s = Side_ready \<and> gv_proof s = gv_proof g))"

lemma rfu_order_Nil [simp]: "rfu_order []"
  by (simp add: rfu_order_def)

lemma rfu_order_snoc: "rfu_order (gs @ [g]) \<longleftrightarrow> rfu_order gs \<and>
    (gv_kind g = Rfu_data \<longrightarrow> (\<exists>s \<in> set gs. gv_kind s = Side_ready \<and> gv_proof s = gv_proof g))"
proof
  assume o: "rfu_order (gs @ [g])"
  have "rfu_order gs"
    unfolding rfu_order_def
  proof (intro allI impI)
    fix xs h ys
    assume "gs = xs @ h # ys \<and> gv_kind h = Rfu_data"
    then have "gs @ [g] = xs @ h # (ys @ [g]) \<and> gv_kind h = Rfu_data" by simp
    then show "\<exists>s \<in> set xs. gv_kind s = Side_ready \<and> gv_proof s = gv_proof h"
      using o unfolding rfu_order_def by blast
  qed
  with o show "rfu_order gs \<and> (gv_kind g = Rfu_data \<longrightarrow>
      (\<exists>s \<in> set gs. gv_kind s = Side_ready \<and> gv_proof s = gv_proof g))"
    unfolding rfu_order_def by blast
next
  assume a: "rfu_order gs \<and> (gv_kind g = Rfu_data \<longrightarrow>
      (\<exists>s \<in> set gs. gv_kind s = Side_ready \<and> gv_proof s = gv_proof g))"
  show "rfu_order (gs @ [g])"
    unfolding rfu_order_def
  proof (intro allI impI)
    fix xs h ys
    assume h: "gs @ [g] = xs @ h # ys \<and> gv_kind h = Rfu_data"
    show "\<exists>s \<in> set xs. gv_kind s = Side_ready \<and> gv_proof s = gv_proof h"
    proof (cases ys rule: rev_cases)
      case Nil
      then show ?thesis using a h by auto
    next
      case (snoc zs z)
      then have "gs = xs @ h # zs" using h by simp
      then show ?thesis using a h unfolding rfu_order_def by blast
    qed
  qed
qed

definition ready_given :: "nat \<Rightarrow> given list \<Rightarrow> bool" where
  "ready_given p gs \<longleftrightarrow> (\<exists>s \<in> set gs. gv_kind s = Side_ready \<and> gv_proof s = p)"

lemma ready_given_append [simp]: "ready_given p gs \<Longrightarrow> ready_given p (gs @ hs)"
  by (auto simp: ready_given_def)

text \<open>What holds of a bridge at any time, and in addition while it works on a proof generation.\<close>

definition bridge_inv :: "c2_bridge \<Rightarrow> bool" where
  "bridge_inv b \<longleftrightarrow>
     (b_drain b = None \<longrightarrow> rfu_order (k_given (b_client b))) \<and> (b_drain b = None \<longleftrightarrow> \<not> b_sealed b) \<and>
     (b_sealed b \<or> b_canceled b \<longrightarrow> \<not> b_connected b) \<and>
     (b_local_sent b \<noteq> 0 \<longrightarrow> ready_given (b_local_sent b) (k_given (b_client b))) \<and>
     (b_connected b \<longrightarrow> b_local_sent b = b_proof b \<and> b_proof b \<noteq> 0 \<and> b_peer_key b \<noteq> None)"

definition in_proof :: "c2_bridge \<Rightarrow> bool" where
  "in_proof b \<longleftrightarrow> bridge_inv b \<and> \<not> b_sealed b \<and> \<not> b_canceled b \<and> b_proof b = current_proof b"

lemma in_proof_inv: "in_proof b \<Longrightarrow> bridge_inv b"
  by (simp add: in_proof_def)

text \<open>Most fields do not matter to the invariant.\<close>

lemma bridge_inv_same [simp]:
  "bridge_inv (b\<lparr>b_local := l\<rparr>) = bridge_inv b" "bridge_inv (b\<lparr>b_remote := es\<rparr>) = bridge_inv b"
  "bridge_inv (b\<lparr>b_stats := st\<rparr>) = bridge_inv b" "bridge_inv (b\<lparr>b_active := a\<rparr>) = bridge_inv b"
  "bridge_inv (b\<lparr>b_tx := n\<rparr>) = bridge_inv b" "bridge_inv (b\<lparr>b_rx := n\<rparr>) = bridge_inv b"
  "bridge_inv (b\<lparr>b_last_gate := g\<rparr>) = bridge_inv b" "bridge_inv (b\<lparr>b_passed := gs\<rparr>) = bridge_inv b"
  "bridge_inv (b\<lparr>b_failure := f\<rparr>) = bridge_inv b" "bridge_inv (b\<lparr>b_local_gate := lg\<rparr>) = bridge_inv b"
  "bridge_inv (b\<lparr>b_stopped := c\<rparr>) = bridge_inv b"
  "bridge_inv (b\<lparr>b_client := (b_client b)\<lparr>k_inbox := inb\<rparr>\<rparr>) = bridge_inv b"
  by (simp_all add: bridge_inv_def)

lemma in_proof_same [simp]:
  "in_proof (b\<lparr>b_local := l\<rparr>) = in_proof b" "in_proof (b\<lparr>b_remote := es\<rparr>) = in_proof b"
  "in_proof (b\<lparr>b_stats := st\<rparr>) = in_proof b" "in_proof (b\<lparr>b_active := a\<rparr>) = in_proof b"
  "in_proof (b\<lparr>b_tx := n\<rparr>) = in_proof b" "in_proof (b\<lparr>b_rx := n\<rparr>) = in_proof b"
  "in_proof (b\<lparr>b_last_gate := g\<rparr>) = in_proof b" "in_proof (b\<lparr>b_passed := gs\<rparr>) = in_proof b"
  "in_proof (b\<lparr>b_failure := f\<rparr>) = in_proof b" "in_proof (b\<lparr>b_local_gate := lg\<rparr>) = in_proof b"
  "in_proof (b\<lparr>b_client := (b_client b)\<lparr>k_inbox := inb\<rparr>\<rparr>) = in_proof b"
  by (simp_all add: in_proof_def current_proof_def)

lemma client_put_fields:
  assumes "client_put kind payload flags k = Some k'"
  shows "k_given k' = k_given k @ [\<lparr>gv_proof = k_proof k, gv_kind = kind, gv_payload = payload, gv_flags = flags\<rparr>]"
    "k_proof k' = k_proof k" "k_proven k' = k_proven k" "k_error k' = k_error k" "k_inbox k' = k_inbox k"
    "k_launch k' = k_launch k" "k_side_sent k' = k_side_sent k"
  using assms by (auto simp: client_put_def split: if_splits nat.splits)

lemma client_side_ready_fields:
  assumes "client_side_ready payload k = Some k'"
  shows "k_given k' = k_given k @ [\<lparr>gv_proof = k_proof k, gv_kind = Side_ready, gv_payload = payload, gv_flags = 0\<rparr>]"
    "k_proof k' = k_proof k" "k_proven k' = k_proven k" "k_error k' = k_error k" "k_inbox k' = k_inbox k"
    "k_launch k' = k_launch k" "k_side_sent k' = k_proof k" "k_proven k" "k_side_sent k \<noteq> k_proof k"
  using assms client_put_fields
  by (auto simp: client_side_ready_def split: if_splits)

lemma client_rfu_fields:
  assumes "client_rfu payload flags k = Some k'"
  shows "k_given k' = k_given k @ [\<lparr>gv_proof = k_proof k, gv_kind = Rfu_data, gv_payload = payload, gv_flags = flags\<rparr>]"
    "k_proof k' = k_proof k" "k_proven k' = k_proven k" "k_error k' = k_error k" "k_inbox k' = k_inbox k"
    "k_launch k' = k_launch k" "k_side_sent k' = k_side_sent k" "k_proven k"
  using assms client_put_fields [of Rfu_data payload flags k k']
  by (simp_all add: client_rfu_def split: if_splits)

lemma c2_fail_keeps: "P b \<Longrightarrow> (\<And>b f. P b \<Longrightarrow> P (b\<lparr>b_failure := f, b_connected := False, b_active := False\<rparr>)) \<Longrightarrow>
    P (fst (c2_fail code g b))"
  by (simp add: c2_fail_def Let_def)

lemma c2_fail_inv [simp]: "bridge_inv b \<Longrightarrow> bridge_inv (fst (c2_fail code g b))"
  "in_proof b \<Longrightarrow> in_proof (fst (c2_fail code g b))"
  by (auto simp: c2_fail_def Let_def bridge_inv_def in_proof_def current_proof_def)

lemma c2_fail_result [simp]: "snd (c2_fail code g b) = Inl (case b_failure b of None \<Rightarrow> (code, g) | Some f \<Rightarrow> f)"
  by (simp add: c2_fail_def Let_def)

lemma pass_gate_inv [simp]: "bridge_inv (pass_gate g b) = bridge_inv b" "in_proof (pass_gate g b) = in_proof b"
  "b_connected (pass_gate g b) = b_connected b" "b_client (pass_gate g b) = b_client b"
  by (simp_all add: pass_gate_def bridge_inv_def in_proof_def current_proof_def)

lemma send_now_keeps: "keeps (\<lambda>b. in_proof b \<and> b_local_sent b = b_proof b \<and> b_proof b \<noteq> 0) (send_now payload flags)"
proof (rule keepsI)
  fix b
  assume b: "in_proof b \<and> b_local_sent b = b_proof b \<and> b_proof b \<noteq> 0"
  show "in_proof (fst (send_now payload flags b)) \<and>
      b_local_sent (fst (send_now payload flags b)) = b_proof (fst (send_now payload flags b)) \<and>
      b_proof (fst (send_now payload flags b)) \<noteq> 0"
  proof (cases "client_rfu payload flags (b_client b)")
    case None
    then show ?thesis using b by (simp add: send_now_def) (simp add: c2_fail_def Let_def)
  next
    case (Some k)
    note f = client_rfu_fields [OF Some]
    have p: "k_proof (b_client b) = b_proof b" using b f(8) by (simp add: in_proof_def current_proof_def)
    have "ready_given (b_proof b) (k_given (b_client b))" using b by (auto simp: in_proof_def bridge_inv_def)
    then have "rfu_order (k_given (b_client b)) \<longrightarrow> rfu_order (k_given k)"
      by (simp add: f(1) rfu_order_snoc p ready_given_def)
    then show ?thesis using b f(1-3) Some
      by (auto simp: send_now_def in_proof_def bridge_inv_def current_proof_def)
  qed
qed

lemma flush_local_keeps:
  "keeps (\<lambda>b. in_proof b \<and> b_local_sent b = b_proof b \<and> b_proof b \<noteq> 0) (flush_local n)"
proof (induction n)
  case (Suc n)
  show ?case
  proof (rule keepsI)
    fix b
    assume b: "in_proof b \<and> b_local_sent b = b_proof b \<and> b_proof b \<noteq> 0"
    show "in_proof (fst (flush_local (Suc n) b)) \<and>
      b_local_sent (fst (flush_local (Suc n) b)) = b_proof (fst (flush_local (Suc n) b)) \<and>
      b_proof (fst (flush_local (Suc n) b)) \<noteq> 0"
    proof (cases "b_local b")
      case (Cons x rest)
      obtain payload flags where x: "x = (payload, flags)" by force
      have "in_proof (b\<lparr>b_local := rest\<rparr>) \<and> b_local_sent (b\<lparr>b_local := rest\<rparr>) = b_proof (b\<lparr>b_local := rest\<rparr>) \<and>
          b_proof (b\<lparr>b_local := rest\<rparr>) \<noteq> 0"
        using b by simp
      from keepsD [OF keeps_then [OF send_now_keeps Suc] this] show ?thesis by (simp add: Cons x)
    qed (use b in simp)
  qed
qed (simp add: keepsI)

lemma activate_inv: "in_proof b \<Longrightarrow> in_proof (activate b)"
  by (auto simp: activate_def barrier_open_def in_proof_def bridge_inv_def current_proof_def pass_gate_def)

lemma maybe_activate_keeps: "keeps in_proof maybe_activate"
proof (rule keepsI)
  fix b
  assume "in_proof b"
  then have b: "in_proof (activate b)" by (rule activate_inv)
  let ?k = "\<lambda>_ b. (if b_connected b \<and> b_tx b \<noteq> 0 \<and> b_rx b \<noteq> 0 \<and> \<not> b_active b
               then pass_gate C_rfu_active (b\<lparr>b_active := True\<rparr>) else b, Inr ())"
  have k: "keeps in_proof (?k u)" for u :: unit
    by (rule keepsI) simp
  have "keeps in_proof (\<lambda>b. if b_connected b then flush_local flush_batch b else (b, Inr ()))"
  proof (rule keepsI)
    fix c
    assume c: "in_proof c"
    then have "b_connected c \<Longrightarrow> b_local_sent c = b_proof c \<and> b_proof c \<noteq> 0" by (simp add: in_proof_def bridge_inv_def)
    then show "in_proof (fst (if b_connected c then flush_local flush_batch c else (c, Inr ())))"
      using keepsD [OF flush_local_keeps, of c] c by simp
  qed
  from keepsD [OF keeps_then [OF this k] b] show "in_proof (fst (maybe_activate b))"
    by (simp add: maybe_activate_def)
qed

lemma accept_side_ready_keeps: "keeps in_proof (accept_side_ready env e)"
  by (rule keepsI)
    (auto simp: accept_side_ready_def in_proof_def bridge_inv_def current_proof_def c2_fail_def Let_def
      split: sum.splits if_splits)

lemma take_rfu_keeps: "keeps in_proof (take_rfu e)"
  by (rule keepsI)
    (auto simp: take_rfu_def in_proof_def bridge_inv_def current_proof_def c2_fail_def Let_def split: if_splits)

lemma take_envelope_keeps: "keeps in_proof (take_envelope env e)"
proof -
  have "keeps in_proof (c2_fail c g :: unit c2_step)" for c g by (rule keepsI) simp
  moreover have "keeps in_proof (\<lambda>b. (b, Inr ()))" by (rule keepsI) simp
  ultimately show ?thesis
    using keeps_then [OF accept_side_ready_keeps maybe_activate_keeps, of env e] take_rfu_keeps [of e]
    by (simp add: take_envelope_def)
qed

lemma take_all_keeps: "keeps in_proof (take_all env es)"
proof (induction es)
  case (Cons e es)
  show ?case
    using keeps_then [OF take_envelope_keeps Cons, of env e] by (simp add: keeps_def triple_def)
qed (simp add: keepsI)

lemma poll_client_keeps: "keeps in_proof poll_client"
  by (rule keepsI) (simp add: poll_client_def)

lemma sync_proof_inv:
  assumes "bridge_inv b" "\<not> b_sealed b" "\<not> b_canceled b"
  shows "bridge_inv (fst (sync_proof env b))" "snd (sync_proof env b) = Inr u \<Longrightarrow> in_proof (fst (sync_proof env b))"
proof -
  have n: "in_proof (note_proof b)"
    using assms by (auto simp: note_proof_def invalidate_def in_proof_def bridge_inv_def current_proof_def)
  have s: "in_proof (fst (send_own_ready env (note_proof b)))"
  proof -
    let ?b = "note_proof b"
    have "in_proof (fst (case client_side_ready pl (b_client ?b) of
            None \<Rightarrow> c2_fail cd g ?b
          | Some k \<Rightarrow> (?b\<lparr>b_client := k, b_local_sent := b_proof ?b\<rparr>, Inr ())))"
      if "b_proof ?b \<noteq> 0" for pl cd g
    proof (cases "client_side_ready pl (b_client ?b)")
      case (Some k)
      note f = client_side_ready_fields [OF Some]
      have "k_proof (b_client ?b) = b_proof ?b" using n that f(8) by (simp add: in_proof_def current_proof_def)
      then have "ready_given (b_proof ?b) (k_given k)" by (simp add: f(1) ready_given_def)
      then show ?thesis using n Some f(1-3)
        by (auto simp: in_proof_def bridge_inv_def current_proof_def rfu_order_snoc)
    qed (use n in simp)
    then show ?thesis using n
      by (simp add: send_own_ready_def split: option.splits sum.splits)
  qed
  show "bridge_inv (fst (sync_proof env b))" using s assms(1) in_proof_inv by (simp add: sync_proof_def)
  show "snd (sync_proof env b) = Inr u \<Longrightarrow> in_proof (fst (sync_proof env b))"
    using s by (auto simp: sync_proof_def split: if_splits)
qed

lemma pump_triple:
  "triple bridge_inv (pump env) (\<lambda>_ b. bridge_inv b \<and> (b_connected b \<longrightarrow> in_proof b)) (\<lambda>_. bridge_inv)"
proof (rule tripleI)
  have work: "triple (\<lambda>b. bridge_inv b \<and> \<not> b_sealed b \<and> \<not> b_canceled b) (then_do (sync_proof env) (\<lambda>_. then_do poll_client (\<lambda>es.
      then_do (take_all env es) (\<lambda>_. maybe_activate)))) (\<lambda>_. in_proof) (\<lambda>_. bridge_inv)"
  proof (rule triple_then)
    show "triple (\<lambda>b. bridge_inv b \<and> \<not> b_sealed b \<and> \<not> b_canceled b) (sync_proof env) (\<lambda>_. in_proof) (\<lambda>_. bridge_inv)"
      by (rule tripleI) (metis fst_conv snd_conv sync_proof_inv)+
    have "keeps in_proof (then_do poll_client (\<lambda>es. then_do (take_all env es) (\<lambda>_. maybe_activate)))"
      by (intro keeps_then poll_client_keeps take_all_keeps maybe_activate_keeps)
    then show "triple in_proof (then_do poll_client (\<lambda>es. then_do (take_all env es) (\<lambda>_. maybe_activate)))
        (\<lambda>_. in_proof) (\<lambda>_. bridge_inv)"
      unfolding keeps_def by (rule triple_weaken) (simp_all add: in_proof_inv)
  qed
  fix b b'
  assume b: "bridge_inv b"
  { fix x assume p: "pump env b = (b', Inr x)"
    show "bridge_inv b' \<and> (b_connected b' \<longrightarrow> in_proof b')"
    proof (cases "b_sealed b \<or> b_failure b \<noteq> None \<or> b_canceled b")
      case True
      then show ?thesis using b p
        by (auto simp: pump_def bridge_inv_def split: if_splits option.splits)
    next
      case False
      then have f: "\<not> b_sealed b" "b_failure b = None" "\<not> b_canceled b" by (cases "b_failure b", auto)+
      then have "in_proof b'" using tripleD [OF work _, of b b' "Inr x"] b p by (simp add: pump_def)
      then show ?thesis using in_proof_inv by simp
    qed }
  { fix f assume p: "pump env b = (b', Inl f)"
    show "bridge_inv b'"
    proof (cases "b_sealed b \<or> b_failure b \<noteq> None \<or> b_canceled b")
      case True
      then show ?thesis using b p by (auto simp: pump_def split: if_splits option.splits)
    next
      case False
      then have f: "\<not> b_sealed b" "b_failure b = None" "\<not> b_canceled b" by (cases "b_failure b", auto)+
      then show ?thesis using tripleD [OF work _, of b b' "Inl f"] b p by (simp add: pump_def)
    qed }
qed

subsection \<open>Histories of one bridge\<close>

text \<open>
  The calls of the endpoint in any order, and what the thread of the client does between them: it
  may report an error, lose and regain the proof in a later generation, receive, and make room.
\<close>

inductive bridge_step :: "c2_env \<Rightarrow> c2_bridge \<Rightarrow> c2_bridge \<Rightarrow> bool" for env where
  s_ready: "bridge_step env b (fst (mark_local_ready env gate b))"
| s_pump: "bridge_step env b (fst (pump env b))"
| s_send: "bridge_step env b (fst (bridge_send env payload flags b))"
| s_poll: "bridge_step env b (fst (bridge_poll env limit b))"
| s_cancel: "bridge_step env b (bridge_cancel b)"
| s_drain: "bridge_step env b (fst (finish_drain outcome b))"
| s_stop: "bridge_step env b (stop_transport b)"
| s_client: "k_proof (b_client b) \<le> p \<Longrightarrow>
    bridge_step env b (b\<lparr>b_client := (b_client b)\<lparr>k_error := err, k_proven := v, k_proof := p, k_inbox := es,
      k_room := n\<rparr>\<rparr>)"

inductive_simps bridge_step_simps: "bridge_step env b b'"

lemma pump_both: "triple bridge_inv (pump env) (\<lambda>_. bridge_inv) (\<lambda>_. bridge_inv)"
  by (rule triple_weaken [OF pump_triple]) auto

lemma pump_inv: "bridge_inv b \<Longrightarrow> bridge_inv (fst (pump env b))"
  by (rule triple_both [OF pump_both])

lemma mark_local_ready_inv: "bridge_inv b \<Longrightarrow> bridge_inv (fst (mark_local_ready env gate b))"
  by (simp add: mark_local_ready_def pump_inv)

lemma queue_local_inv: "bridge_inv b \<Longrightarrow> bridge_inv (fst (queue_local payload flags b))"
  by (simp add: queue_local_def Let_def)

lemma in_proof_connected: "in_proof b \<Longrightarrow> b_connected b \<Longrightarrow> b_local_sent b = b_proof b \<and> b_proof b \<noteq> 0"
  by (simp add: in_proof_def bridge_inv_def)

lemma bridge_send_inv: "bridge_inv b \<Longrightarrow> bridge_inv (fst (bridge_send env payload flags b))"
proof -
  assume b: "bridge_inv b"
  have "triple (\<lambda>b1. bridge_inv b1 \<and> (b_connected b1 \<longrightarrow> in_proof b1))
      (\<lambda>b1. if b_connected b1 then then_do (send_now payload flags) (\<lambda>_. maybe_activate) b1
            else queue_local payload flags b1) (\<lambda>_. bridge_inv) (\<lambda>_. bridge_inv)"
  proof (rule triple_if)
    have "keeps in_proof maybe_activate" by (rule maybe_activate_keeps)
    then have m: "triple (\<lambda>b. in_proof b \<and> b_local_sent b = b_proof b \<and> b_proof b \<noteq> 0) maybe_activate
        (\<lambda>_. bridge_inv) (\<lambda>_. bridge_inv)"
      unfolding keeps_def by (rule triple_weaken) (simp_all add: in_proof_inv)
    have "triple (\<lambda>b. in_proof b \<and> b_local_sent b = b_proof b \<and> b_proof b \<noteq> 0) (send_now payload flags)
        (\<lambda>_ b. in_proof b \<and> b_local_sent b = b_proof b \<and> b_proof b \<noteq> 0) (\<lambda>_. bridge_inv)"
      using send_now_keeps unfolding keeps_def by (rule triple_weaken) (simp_all add: in_proof_inv)
    from triple_then [OF this m]
    show "triple (\<lambda>b. (bridge_inv b \<and> (b_connected b \<longrightarrow> in_proof b)) \<and> b_connected b)
        (then_do (send_now payload flags) (\<lambda>_. maybe_activate)) (\<lambda>_. bridge_inv) (\<lambda>_. bridge_inv)"
      by (rule triple_weaken) (use in_proof_connected in auto)
    show "triple (\<lambda>b. (bridge_inv b \<and> (b_connected b \<longrightarrow> in_proof b)) \<and> \<not> b_connected b)
        (queue_local payload flags) (\<lambda>_. bridge_inv) (\<lambda>_. bridge_inv)"
      using queue_local_inv by (intro tripleI) (metis fst_conv)+
  qed
  from triple_then [OF pump_triple this]
  have "bridge_inv (fst (then_do (pump env) (\<lambda>_ b1. if b_connected b1 then then_do (send_now payload flags) (\<lambda>_. maybe_activate) b1
            else queue_local payload flags b1) b))"
    using b by (rule triple_both)
  then show ?thesis using b by (simp add: bridge_send_def)
qed

lemma bridge_poll_inv: "bridge_inv b \<Longrightarrow> bridge_inv (fst (bridge_poll env limit b))"
proof -
  assume b: "bridge_inv b"
  obtain b1 r where p: "pump env b = (b1, r)" by (metis surj_pair)
  have "bridge_inv b1" using pump_inv [OF b, of env] p by simp
  then show ?thesis using b p by (cases r) (simp_all add: bridge_poll_def then_do_def)
qed

lemma finish_drain_inv: "bridge_inv b \<Longrightarrow> bridge_inv (fst (finish_drain outcome b))"
proof -
  assume b: "bridge_inv b"
  have k: "\<exists>hs. k_given k' = k_given k @ hs" if "drain_local xs k = (k', n, left, ok)" for xs k k' n left ok
    using that
  proof (induction xs k arbitrary: k' n left ok rule: drain_local.induct)
    case (2 payload flags rest k)
    show ?case
    proof (cases "client_rfu payload flags k")
      case (Some k1)
      obtain k2 m l o' where d: "drain_local rest k1 = (k2, m, l, o')" by (metis surj_pair)
      from 2(1) [OF Some d] show ?thesis using 2(2) Some d client_rfu_fields(1) [OF Some] by auto
    qed (use 2 in simp)
  qed simp
  show ?thesis
  proof (cases "outcome \<in> drain_outcomes \<and> b_drain b = None")
    case True
    obtain k n l c err where d: "drain_parts outcome b = (k, n, l, c, err)" by (metis surj_pair)
    have "\<exists>hs. k_given k = k_given (b_client b) @ hs"
      using d k by (auto simp: drain_parts_def split: if_splits prod.splits)
    then show ?thesis using True b d by (auto simp: finish_drain_def Let_def bridge_inv_def)
  qed (use b in \<open>auto simp: finish_drain_def\<close>)
qed

lemma bridge_step_inv: "bridge_step env b b' \<Longrightarrow> bridge_inv b \<Longrightarrow> bridge_inv b'"
proof (induction rule: bridge_step.induct)
  case (s_cancel b)
  then show ?case by (simp add: bridge_cancel_def bridge_inv_def)
next
  case (s_stop b)
  then show ?case by (simp add: stop_transport_def bridge_inv_def)
next
  case (s_client b p err v es n)
  then show ?case by (simp add: bridge_inv_def)
qed (simp_all add: pump_inv mark_local_ready_inv bridge_send_inv bridge_poll_inv finish_drain_inv)

lemma bridge_new_inv: "c2_bridge_new run attempt seat role activation advert client = Some b \<Longrightarrow>
    k_given client = [] \<Longrightarrow> bridge_inv b"
  by (auto simp: c2_bridge_new_def bridge_inv_def split: if_splits)

lemma bridge_reachable_inv: "(bridge_step env)\<^sup>*\<^sup>* b b' \<Longrightarrow> bridge_inv b \<Longrightarrow> bridge_inv b'"
  by (induction rule: rtranclp_induct) (auto intro: bridge_step_inv)

text \<open>
  C14: In every history of a bridge before its drain, however the tunnel loses and regains its proof,
  each RFU frame the bridge gives to the tunnel comes after a \<open>SIDE_READY\<close> the bridge gave it in
  the same proof generation, and the bridge counts as connected only with a peer's readiness
  accepted and its own sent in the generation it works in.
\<close>

theorem rfu_behind_own_ready:
  assumes "c2_bridge_new run attempt seat role activation advert client = Some b0" "k_given client = []"
    "(bridge_step env)\<^sup>*\<^sup>* b0 b" "b_drain b = None"
  shows "(\<forall>xs g ys. k_given (b_client b) = xs @ g # ys \<and> gv_kind g = Rfu_data \<longrightarrow>
      (\<exists>s \<in> set xs. gv_kind s = Side_ready \<and> gv_proof s = gv_proof g)) \<and>
    (b_connected b \<longrightarrow> b_local_sent b = b_proof b \<and> b_proof b \<noteq> 0 \<and> b_peer_key b \<noteq> None)"
proof -
  have "bridge_inv b" by (rule bridge_reachable_inv [OF assms(3) bridge_new_inv [OF assms(1,2)]])
  then show ?thesis using assms(4) unfolding bridge_inv_def rfu_order_def by blast
qed

subsection \<open>A sealed bridge\<close>

lemma drain_local_count: "drain_local xs k = (k', n, left, ok) \<Longrightarrow>
    length xs = n + (length left + (if ok then 0 else 1)) \<and>
    k_given k' = k_given k @ map (\<lambda>(payload, flags). \<lparr>gv_proof = k_proof k, gv_kind = Rfu_data, gv_payload = payload,
                                    gv_flags = flags\<rparr>) (take n xs)"
proof (induction xs k arbitrary: k' n left ok rule: drain_local.induct)
  case (2 payload flags rest k)
  show ?case
  proof (cases "client_rfu payload flags k")
    case (Some k1)
    obtain k2 m l o' where d: "drain_local rest k1 = (k2, m, l, o')" by (metis surj_pair)
    from 2(1) [OF Some d] show ?thesis using 2(2) Some d client_rfu_fields(1,2) [OF Some] by auto
  qed (use 2 in simp)
qed simp

lemma sealed_pump: "b_sealed b \<Longrightarrow> pump env b = (b, Inr ())"
  by (simp add: pump_def)

lemma sealed_step:
  assumes "bridge_step env b b'" "b_sealed b" "b_drain b = Some d"
  shows "b_sealed b' \<and> b_drain b' = Some d \<and> k_given (b_client b') = k_given (b_client b)"
  using assms
proof (induction rule: bridge_step.induct)
  case (s_ready b gate)
  then show ?case
    by (simp add: mark_local_ready_def sealed_pump pass_gate_def) (simp add: c2_fail_def Let_def)
next
  case (s_drain b outcome)
  then show ?case by (cases d) (simp add: finish_drain_def)
qed (auto simp: sealed_pump bridge_send_def bridge_poll_def bridge_cancel_def stop_transport_def)

lemma sealed_run:
  "(bridge_step env)\<^sup>*\<^sup>* b b' \<Longrightarrow> b_sealed b \<Longrightarrow> b_drain b = Some d \<Longrightarrow>
     b_sealed b' \<and> b_drain b' = Some d \<and> k_given (b_client b') = k_given (b_client b)"
proof (induction rule: rtranclp_induct)
  case (step y z)
  then show ?case using sealed_step [OF step.hyps(2), of d] by simp
qed simp

text \<open>
  C20: The first drain accounts for every local frame still queued, as flushed or discarded, gives
  the flushed ones to the tunnel in their order, and seals the bridge for good: from then on, in
  every history, nothing more is given to the tunnel, sending raises, polling yields nothing and a
  repeated drain of the same outcome answers with the same account.
\<close>

theorem drain_accounts_and_seals:
  assumes "b_drain b = None" "finish_drain outcome b = (b1, Some r)" "(bridge_step env)\<^sup>*\<^sup>* b1 b2"
  shows "dr_pending_local r = dr_flushed r + dr_discarded_local r \<and> dr_pending_local r = length (b_local b) \<and>
    map (\<lambda>g. (gv_payload g, gv_flags g)) (drop (length (k_given (b_client b))) (k_given (b_client b1))) =
      take (dr_flushed r) (b_local b) \<and>
    k_given (b_client b2) = k_given (b_client b1) \<and> snd (bridge_poll env limit b2) = Inr [] \<and>
    bridge_send env payload flags b2 = (b2, Inl (''D_BRIDGE_SEALED'', D3_bridge_drain)) \<and>
    finish_drain outcome b2 = (b2, Some r)"
proof -
  obtain k n l c err where d: "drain_parts outcome b = (k, n, l, c, err)" by (metis surj_pair)
  have o: "outcome \<in> drain_outcomes" using assms(2) by (auto simp: finish_drain_def split: if_splits)
  have b1: "b_client b1 = k" "b_sealed b1" "b_drain b1 = Some (outcome, r)" "dr_pending_local r = length (b_local b)"
      "dr_flushed r = n" "dr_discarded_local r = length l + c"
    using assms(1,2) o d by (auto simp: finish_drain_def Let_def)
  have "length (b_local b) = n + (length l + c) \<and> (\<exists>p. k_given k = k_given (b_client b) @
      map (\<lambda>(payload, flags). \<lparr>gv_proof = p, gv_kind = Rfu_data, gv_payload = payload, gv_flags = flags\<rparr>)
        (take n (b_local b)))"
  proof (cases "outcome = ''completed'' \<and> b_connected b")
    case True
    obtain ok where "drain_local (b_local b) (b_client b) = (k, n, l, ok)" "c = (if ok then 0 else 1)"
      using d True by (auto simp: drain_parts_def split: prod.splits)
    then show ?thesis using drain_local_count by fastforce
  next
    case False
    then show ?thesis using d by (auto simp: drain_parts_def)
  qed
  moreover have "map (\<lambda>g. (gv_payload g, gv_flags g))
      (map (\<lambda>(payload, flags). \<lparr>gv_proof = p, gv_kind = Rfu_data, gv_payload = payload, gv_flags = flags\<rparr>) xs) = xs" for p xs
    by (induction xs) auto
  moreover note run = sealed_run [OF assms(3) b1(2,3)]
  ultimately show ?thesis using b1 o
    by (auto simp: bridge_poll_def bridge_send_def finish_drain_def)
qed

subsection \<open>Where the bridge does not keep the order\<close>

definition rfu_ok :: "bytes \<times> int \<Rightarrow> bool" where
  "rfu_ok x \<longleftrightarrow> fst x \<noteq> [] \<and> length (fst x) \<le> max_rfu_payload \<and> 0 \<le> snd x \<and> snd x \<le> 0xFF"

definition rfu_entry :: "nat \<Rightarrow> bytes \<times> int \<Rightarrow> given" where
  "rfu_entry p x = \<lparr>gv_proof = p, gv_kind = Rfu_data, gv_payload = fst x, gv_flags = snd x\<rparr>"

lemma max_rfu_le: "max_rfu_payload \<le> max_tunnel_payload"
  by (simp add: max_rfu_payload_def max_tunnel_payload_def)

lemma client_rfu_ok:
  assumes "rfu_ok x" "k_proven k" "k_room k = Suc n"
  shows "client_rfu (fst x) (snd x) k = Some (k\<lparr>k_room := n, k_given := k_given k @ [rfu_entry (k_proof k) x]\<rparr>)"
  using assms max_rfu_le by (simp add: client_rfu_def client_put_def rfu_ok_def rfu_entry_def)

text \<open>The parts of the state a flush leaves alone.\<close>

definition flush_frame :: "c2_bridge \<Rightarrow> c2_bridge \<Rightarrow> bool" where
  "flush_frame b b' \<longleftrightarrow> b_connected b' = b_connected b \<and> b_sealed b' = b_sealed b \<and>
     k_proven (b_client b') = k_proven (b_client b) \<and> k_proof (b_client b') = k_proof (b_client b) \<and>
     b_proof b' = b_proof b \<and> b_local_sent b' = b_local_sent b \<and> b_peer_key b' = b_peer_key b"

lemma flush_frame_refl [simp]: "flush_frame b b"
  by (simp add: flush_frame_def)

lemma flush_frame_trans: "flush_frame a b \<Longrightarrow> flush_frame b c \<Longrightarrow> flush_frame a c"
  by (simp add: flush_frame_def)

lemma send_now_ok:
  assumes "rfu_ok x" "k_proven (b_client b)" "k_room (b_client b) = Suc n"
  obtains b' where "send_now (fst x) (snd x) b = (b', Inr ())" "flush_frame b b'" "b_local b' = b_local b"
    "k_given (b_client b') = k_given (b_client b) @ [rfu_entry (k_proof (b_client b)) x]"
    "k_room (b_client b') = n"
  using client_rfu_ok [OF assms] by (simp add: send_now_def flush_frame_def)

lemma flush_local_ok:
  assumes "list_all rfu_ok (take n (b_local b))" "k_proven (b_client b)"
    "length (take n (b_local b)) \<le> k_room (b_client b)"
  obtains b' where "flush_local n b = (b', Inr ())" "flush_frame b b'" "b_local b' = drop n (b_local b)"
    "k_given (b_client b') = k_given (b_client b) @ map (rfu_entry (k_proof (b_client b))) (take n (b_local b))"
    "k_room (b_client b') = k_room (b_client b) - length (take n (b_local b))"
  using assms
proof (induction n arbitrary: b thesis)
  case 0
  then show ?case by simp
next
  case (Suc n)
  show ?case
  proof (cases "b_local b")
    case Nil
    then show ?thesis using Suc.prems(1) [of b] by simp
  next
    case (Cons x rest)
    define c where "c = b\<lparr>b_local := rest\<rparr>"
    obtain m where m: "k_room (b_client b) = Suc m" using Suc.prems(4) Cons by (cases "k_room (b_client b)") auto
    have x: "rfu_ok x" "k_proven (b_client c)" "k_room (b_client c) = Suc m"
      using Suc.prems(2,3) Cons m by (simp_all add: c_def)
    obtain c' where c': "send_now (fst x) (snd x) c = (c', Inr ())" "flush_frame c c'" "b_local c' = b_local c"
        "k_given (b_client c') = k_given (b_client c) @ [rfu_entry (k_proof (b_client c)) x]"
        "k_room (b_client c') = m"
      by (rule send_now_ok [OF x])
    have p: "list_all rfu_ok (take n (b_local c'))" "k_proven (b_client c')"
        "length (take n (b_local c')) \<le> k_room (b_client c')"
      using Suc.prems(2-4) Cons m c'(2,3,5) x(2) by (simp_all add: c_def flush_frame_def)
    obtain d where d: "flush_local n c' = (d, Inr ())" "flush_frame c' d" "b_local d = drop n (b_local c')"
        "k_given (b_client d) = k_given (b_client c') @ map (rfu_entry (k_proof (b_client c'))) (take n (b_local c'))"
        "k_room (b_client d) = k_room (b_client c') - length (take n (b_local c'))"
      using Suc.IH [OF _ p] by blast
    have "flush_local (Suc n) b = (d, Inr ())"
      using Cons c'(1) d(1) by (cases x) (simp add: then_do_def c_def)
    moreover have "flush_frame b d"
      using c'(2) d(2) by (simp add: flush_frame_def c_def)
    ultimately show ?thesis using Suc.prems(1) [of d] Cons c' d m by (simp add: c_def flush_frame_def)
  qed
qed

text \<open>
  C21: A frame can overtake frames the game sent before it: once the barrier is open, sending puts
  the new frame on the tunnel at once, while a call flushes at most 32 of the frames that were
  queued behind the barrier.  The frames from the 33rd queued one on follow after the new frame.
\<close>

theorem queued_frames_are_overtaken:
  assumes "\<not> b_sealed b" "b_failure b = None" "\<not> b_canceled b" "k_error (b_client b) = []"
    "b_proof b = current_proof b" "b_connected b" "b_local_sent b = b_proof b" "b_proof b \<noteq> 0"
    "k_inbox (b_client b) = []" "list_all rfu_ok (b_local b)" "65 \<le> k_room (b_client b)"
    "rfu_ok x" "odd (snd x)"
  shows "\<exists>b'. bridge_send env (fst x) (snd x) b = (b', Inr ()) \<and>
    k_given (b_client b') = k_given (b_client b) @ map (rfu_entry (b_proof b))
      (take 32 (b_local b) @ [x] @ take 32 (drop 32 (b_local b)))"
proof -
  have pv: "k_proven (b_client b)" "k_proof (b_client b) = b_proof b"
    using assms(5,8) by (simp_all add: current_proof_def split: if_splits)
  define c where "c = b\<lparr>b_client := (b_client b)\<lparr>k_inbox := []\<rparr>\<rparr>"
  have sync: "sync_proof env b = (b, Inr ())"
    using assms(4,5,7) by (simp add: sync_proof_def note_proof_def send_own_ready_def split: option.splits)
  have act: "activate d = d" if "b_connected d" for d
    using that by (simp add: activate_def)
  have m: "\<exists>d'. maybe_activate d = (d', Inr ()) \<and> flush_frame d d' \<and> b_local d' = drop 32 (b_local d) \<and>
      k_given (b_client d') = k_given (b_client d) @ map (rfu_entry (k_proof (b_client d))) (take 32 (b_local d)) \<and>
      k_room (b_client d') = k_room (b_client d) - length (take 32 (b_local d))"
    if "b_connected d" "list_all rfu_ok (b_local d)" "k_proven (b_client d)" "32 \<le> k_room (b_client d)" for d
  proof -
    have t: "list_all rfu_ok (take 32 (b_local d))" using that(2) by (auto simp: list_all_iff dest: in_set_takeD)
    have r: "length (take 32 (b_local d)) \<le> k_room (b_client d)" using that(4) by simp
    note pr = that(3)
    obtain e where e: "flush_local 32 d = (e, Inr ())" "flush_frame d e" "b_local e = drop 32 (b_local d)"
        "k_given (b_client e) = k_given (b_client d) @ map (rfu_entry (k_proof (b_client d))) (take 32 (b_local d))"
        "k_room (b_client e) = k_room (b_client d) - length (take 32 (b_local d))"
      by (rule flush_local_ok [OF t pr r])
    then show ?thesis using that(1) act [OF that(1)]
      by (auto simp: maybe_activate_def then_do_def flush_batch_def pass_gate_def flush_frame_def)
  qed
  have c: "b_connected c" "list_all rfu_ok (b_local c)" "k_proven (b_client c)" "65 \<le> k_room (b_client c)"
    using assms(6,10,11) pv by (simp_all add: c_def)
  obtain d where d: "maybe_activate c = (d, Inr ())" "flush_frame c d" "b_local d = drop 32 (b_local c)"
      "k_given (b_client d) = k_given (b_client c) @ map (rfu_entry (k_proof (b_client c))) (take 32 (b_local c))"
      "k_room (b_client d) = k_room (b_client c) - length (take 32 (b_local c))"
    using m [OF c(1-3)] c(4) by auto
  have pump: "pump env b = (d, Inr ())"
    using assms(1-3,9) sync d(1) by (simp add: pump_def then_do_def poll_client_def c_def)
  have dr: "33 \<le> k_room (b_client d)" using d(5) c(4) by simp
  then obtain n where n: "k_room (b_client d) = Suc n" "32 \<le> n" by (cases "k_room (b_client d)") auto
  have dp: "k_proven (b_client d)" "b_connected d" "k_proof (b_client d) = b_proof b"
    using d(2) c(1,3) pv by (simp_all add: flush_frame_def c_def)
  obtain e where e: "send_now (fst x) (snd x) d = (e, Inr ())" "flush_frame d e" "b_local e = b_local d"
      "k_given (b_client e) = k_given (b_client d) @ [rfu_entry (k_proof (b_client d)) x]" "k_room (b_client e) = n"
    by (rule send_now_ok [OF assms(12) dp(1) n(1)])
  have ep: "b_connected e" "list_all rfu_ok (b_local e)" "k_proven (b_client e)" "32 \<le> k_room (b_client e)"
    using dp e(2,3,5) d(3) c(2) n(2) by (auto simp: flush_frame_def list_all_iff dest: in_set_dropD)
  obtain f where f: "maybe_activate e = (f, Inr ())"
      "k_given (b_client f) = k_given (b_client e) @ map (rfu_entry (k_proof (b_client e))) (take 32 (b_local e))"
    using m [OF ep] by auto
  have "bridge_send env (fst x) (snd x) b = (f, Inr ())"
    using assms(1,12,13) pump dp(2) e(1) f(1) by (simp add: bridge_send_def then_do_def rfu_ok_def)
  moreover have "k_given (b_client f) = k_given (b_client b) @ map (rfu_entry (b_proof b))
      (take 32 (b_local b) @ [x] @ take 32 (drop 32 (b_local b)))"
    using f(2) e(2-4) d(3,4) dp(3) pv by (simp add: c_def flush_frame_def)
  ultimately show ?thesis by blast
qed

end
