(* ===== verification/C2_Example.thy ===== *)
theory C2_Example
  imports C2_Props "HOL-Library.Code_Target_Nat" "HOL-Library.Code_Target_Int"
begin

section \<open>A run of one bridge\<close>

text \<open>
  The bridge of member A in an attempt: its peer's readiness is in the inbox, so marking the own
  side ready opens the barrier.  The theorems about the bridge are applied to this run.
\<close>

definition sample_hash :: string where "sample_hash = replicate 64 CHR ''a''"

definition sample_peer_ready :: side_ready where
  "sample_peer_ready = \<lparr>sr_contract = side_ready_contract, sr_attempt = [97], sr_activation = 1, sr_seat = ''member_b'',
     sr_role = ''b_ap_host'', sr_gate = ''B_READY'', sr_run = ''r2'', sr_stage = 1, sr_launch = sample_hash,
     sr_advert = sample_hash, sr_proof = 1\<rparr>"

definition sample_c2_env :: c2_env where
  "sample_c2_env = \<lparr>en_sha = (\<lambda>_. sample_hash), en_parse = (\<lambda>_. Some sample_peer_ready),
     en_canonical_uuid = (\<lambda>_. True), en_launch_hash = (\<lambda>_. sample_hash), en_encode = (\<lambda>_. [7])\<rparr>"

definition sample_client :: c2_client where
  "sample_client = \<lparr>k_error = [], k_proven = True, k_proof = 1, k_side_sent = 0,
     k_inbox = [\<lparr>env_attempt = [97], env_seat = Member_b, env_epoch = 9, env_sequence = 0, env_kind = Side_ready,
       env_payload = [7], env_flags = 0\<rparr>],
     k_room = 100, k_given = [], k_attempt = [97], k_seat = Member_a, k_launch = \<lparr>la_run = ''r1'', la_stage = 1, la_nonce = ''n'', la_pid = 1\<rparr>,
     k_running = True\<rparr>"

definition sample_bridge :: c2_bridge where
  "sample_bridge = the (c2_bridge_new ''r1'' [97] Member_a ''a_room_joiner'' 1 sample_hash sample_client)"

definition bridge_sample :: c2_bridge where
  "bridge_sample = fst (mark_local_ready sample_c2_env ''A_READY'' sample_bridge)"

definition sample_sent :: c2_bridge where
  "sample_sent = fst (bridge_send sample_c2_env [5] 1 bridge_sample)"

text \<open>A connected bridge with 40 frames behind it, the way it is when the barrier opens again.\<close>

definition sample_backlog :: c2_bridge where
  "sample_backlog = bridge_sample\<lparr>b_local := replicate 40 ([1], 1)\<rparr>"

lemma sample_bridge_new:
  "c2_bridge_new ''r1'' [97] Member_a ''a_room_joiner'' 1 sample_hash sample_client = Some sample_bridge"
proof -
  have "c2_bridge_new ''r1'' [97] Member_a ''a_room_joiner'' 1 sample_hash sample_client \<noteq> None" by code_simp
  then show ?thesis by (auto simp: sample_bridge_def)
qed

lemma sample_run:
  "(bridge_step sample_c2_env)\<^sup>*\<^sup>* sample_bridge sample_sent"
  "(bridge_step sample_c2_env)\<^sup>*\<^sup>* b (fst (bridge_send sample_c2_env [5] 1 (bridge_cancel b)))"
  unfolding sample_sent_def bridge_sample_def
  by (rule rtranclp.rtrancl_into_rtrancl [OF r_into_rtranclp]; rule bridge_step.intros)+

lemma sample_sent_given: "k_given (b_client sample_sent) =
    [\<lparr>gv_proof = 1, gv_kind = Side_ready, gv_payload = [7], gv_flags = 0\<rparr>,
     \<lparr>gv_proof = 1, gv_kind = Rfu_data, gv_payload = [5], gv_flags = 1\<rparr>]"
  by code_simp

theorem rfu_behind_own_ready_witness:
  "b_connected sample_sent \<and> b_local_sent sample_sent = b_proof sample_sent \<and>
   gv_kind (hd (k_given (b_client sample_sent))) = Side_ready"
proof -
  have d: "b_drain sample_sent = None" by code_simp
  have c: "b_connected sample_sent" by code_simp
  have g: "k_given sample_client = []" by (simp add: sample_client_def)
  note t = rfu_behind_own_ready [OF sample_bridge_new g sample_run(1) d]
  have "k_given (b_client sample_sent) = [hd (k_given (b_client sample_sent))] @
      \<lparr>gv_proof = 1, gv_kind = Rfu_data, gv_payload = [5], gv_flags = 1\<rparr> # []"
    by (simp add: sample_sent_given)
  then have "\<exists>s \<in> set [hd (k_given (b_client sample_sent))]. gv_kind s = Side_ready \<and> gv_proof s = 1"
    using conjunct1 [OF t] by fastforce
  then show ?thesis using conjunct2 [OF t] c by simp
qed

theorem drain_accounts_and_seals_witness:
  "dr_pending_local (the (snd (finish_drain ''completed'' sample_backlog))) = 40 \<and>
   (let b1 = fst (finish_drain ''completed'' sample_backlog);
        b2 = fst (bridge_send sample_c2_env [5] 1 (bridge_cancel b1))
    in k_given (b_client b2) = k_given (b_client b1) \<and>
       snd (bridge_send sample_c2_env [9] 1 b2) = Inl (''D_BRIDGE_SEALED'', D3_bridge_drain))"
proof -
  have n: "b_drain sample_backlog = None" "length (b_local sample_backlog) = 40" by code_simp+
  have "snd (finish_drain ''completed'' sample_backlog) \<noteq> None" by code_simp
  then have f: "finish_drain ''completed'' sample_backlog =
      (fst (finish_drain ''completed'' sample_backlog), Some (the (snd (finish_drain ''completed'' sample_backlog))))"
    by (auto simp: prod_eq_iff)
  note t = drain_accounts_and_seals [OF n(1) f sample_run(2)]
  from t have "dr_pending_local (the (snd (finish_drain ''completed'' sample_backlog))) = 40"
    unfolding n(2) by blast
  moreover from t have "k_given (b_client (fst (bridge_send sample_c2_env [5] 1 (bridge_cancel
      (fst (finish_drain ''completed'' sample_backlog)))))) =
      k_given (b_client (fst (finish_drain ''completed'' sample_backlog)))"
    by blast
  moreover from t have "bridge_send sample_c2_env [9] 1 (fst (bridge_send sample_c2_env [5] 1 (bridge_cancel
      (fst (finish_drain ''completed'' sample_backlog))))) = (fst (bridge_send sample_c2_env [5] 1 (bridge_cancel
      (fst (finish_drain ''completed'' sample_backlog)))), Inl (''D_BRIDGE_SEALED'', D3_bridge_drain))"
    by blast
  ultimately show ?thesis by (simp add: Let_def)
qed

theorem queued_frames_are_overtaken_witness:
  "map gv_payload (k_given (b_client (fst (bridge_send sample_c2_env [5] 1 sample_backlog)))) =
     [7] # replicate 32 [1] @ [5] # replicate 8 [1]"
proof -
  have p1: "\<not> b_sealed sample_backlog" by code_simp
  have p2: "b_failure sample_backlog = None" by code_simp
  have p3: "\<not> b_canceled sample_backlog" by code_simp
  have p4: "k_error (b_client sample_backlog) = []" by code_simp
  have p5: "b_proof sample_backlog = current_proof sample_backlog" by code_simp
  have p6: "b_connected sample_backlog" by code_simp
  have p7: "b_local_sent sample_backlog = b_proof sample_backlog" by code_simp
  have p8: "b_proof sample_backlog \<noteq> 0" by code_simp
  have p9: "k_inbox (b_client sample_backlog) = []" by code_simp
  have p10: "list_all rfu_ok (b_local sample_backlog)" by code_simp
  have p11: "65 \<le> k_room (b_client sample_backlog)" by code_simp
  have p12: "rfu_ok ([5], 1)" by code_simp
  have o: "odd (snd ([5::8 word], 1::int))" by simp
  have g: "map gv_payload (k_given (b_client sample_backlog)) = [[7]]"
    by code_simp
  have l: "b_local sample_backlog = replicate 40 ([1], 1)"
    by (simp add: sample_backlog_def)
  from queued_frames_are_overtaken [OF p1 p2 p3 p4 p5 p6 p7 p8 p9 p10 p11 p12 o] obtain b' where b':
      "bridge_send sample_c2_env [5] 1 sample_backlog = (b', Inr ())"
      "k_given (b_client b') = k_given (b_client sample_backlog) @ map (rfu_entry (b_proof sample_backlog))
        (take 32 (b_local sample_backlog) @ [([5], 1)] @ take 32 (drop 32 (b_local sample_backlog)))"
    by auto
  have "gv_payload (rfu_entry q x) = fst x" for q x
    by (simp add: rfu_entry_def)
  then show ?thesis using b' g l by simp
qed

end
