(* ===== verification/Pacing.thy ===== *)
theory Pacing
  imports Prelude Complex_Main
begin

section \<open>Rate limit and frame codec of the relay (\<open>framerelay/rate_limit.py\<close>, \<open>common/mwlb.py\<close>)\<close>

text \<open>
  The token bucket that caps relayed frames, with the clock as an argument and times and tokens
  as rationals, and the seven-byte frame of the relay tunnel.
\<close>

subsection \<open>The token bucket\<close>

definition default_rate_fps :: rat where "default_rate_fps = 200"
definition warn_interval_default :: rat where "warn_interval_default = 1"

record bucket_stats =
  bs_frames :: nat
  bs_allowed :: nat
  bs_dropped :: nat
  bs_bytes_in :: int
  bs_bytes_allowed :: int
  bs_bytes_dropped :: int

record token_bucket =
  tb_rate :: rat
  tb_burst :: rat
  tb_logs :: bool
  tb_warn_interval :: rat
  tb_tokens :: rat
  tb_last :: "rat option"
  tb_last_warn :: "rat option"
  tb_stats :: bucket_stats
  tb_warnings :: "(nat \<times> nat) list"

definition token_bucket_new :: "rat \<Rightarrow> rat option \<Rightarrow> bool \<Rightarrow> rat \<Rightarrow> py_error + token_bucket" where
  "token_bucket_new rate burst logs interval =
     (if rate \<le> 0 then Inl ValueError
      else
        let b = (case burst of None \<Rightarrow> rate | Some b \<Rightarrow> b)
        in if b < 1 then Inl ValueError
           else Inr \<lparr>tb_rate = rate, tb_burst = b, tb_logs = logs, tb_warn_interval = interval,
                     tb_tokens = b, tb_last = None, tb_last_warn = None,
                     tb_stats = \<lparr>bs_frames = 0, bs_allowed = 0, bs_dropped = 0, bs_bytes_in = 0,
                                 bs_bytes_allowed = 0, bs_bytes_dropped = 0\<rparr>,
                     tb_warnings = []\<rparr>)"

text \<open>Tokens come back only while the clock moves forward.\<close>

definition bucket_refill :: "token_bucket \<Rightarrow> rat \<Rightarrow> token_bucket" where
  "bucket_refill b now =
     (case tb_last b of
        Some prev \<Rightarrow>
          if prev < now
          then b\<lparr>tb_tokens := min (tb_burst b) (tb_tokens b + (now - prev) * tb_rate b), tb_last := Some now\<rparr>
          else b\<lparr>tb_last := Some now\<rparr>
      | None \<Rightarrow> b\<lparr>tb_last := Some now\<rparr>)"

definition bucket_warn :: "token_bucket \<Rightarrow> rat \<Rightarrow> token_bucket" where
  "bucket_warn b now =
     (if tb_logs b \<and> (case tb_last_warn b of None \<Rightarrow> True | Some w \<Rightarrow> tb_warn_interval b \<le> now - w)
      then b\<lparr>tb_last_warn := Some now,
             tb_warnings := tb_warnings b @ [(bs_dropped (tb_stats b), bs_frames (tb_stats b))]\<rparr>
      else b)"

definition bucket_allow :: "token_bucket \<Rightarrow> rat \<Rightarrow> int \<Rightarrow> token_bucket \<times> bool" where
  "bucket_allow b0 now frame_len =
     (let b = bucket_refill b0 now;
          n = max 0 frame_len;
          s = tb_stats b;
          s = s\<lparr>bs_frames := bs_frames s + 1, bs_bytes_in := bs_bytes_in s + n\<rparr>
      in if 1 \<le> tb_tokens b
         then (b\<lparr>tb_tokens := tb_tokens b - 1,
                 tb_stats := s\<lparr>bs_allowed := bs_allowed s + 1,
                               bs_bytes_allowed := bs_bytes_allowed s + n\<rparr>\<rparr>, True)
         else (bucket_warn
                 (b\<lparr>tb_stats := s\<lparr>bs_dropped := bs_dropped s + 1,
                                  bs_bytes_dropped := bs_bytes_dropped s + n\<rparr>\<rparr>) now, False))"

text \<open>The bucket after frames at the given times with the given lengths.\<close>

fun bucket_run :: "token_bucket \<Rightarrow> (rat \<times> int) list \<Rightarrow> token_bucket \<times> nat" where
  "bucket_run b [] = (b, 0)"
| "bucket_run b ((t, n) # fs) =
     (let (b', ok) = bucket_allow b t n; (b'', k) = bucket_run b' fs
      in (b'', if ok then k + 1 else k))"

definition bucket_ok :: "token_bucket \<Rightarrow> bool" where
  "bucket_ok b \<longleftrightarrow>
     0 < tb_rate b \<and> 1 \<le> tb_burst b \<and> 0 \<le> tb_tokens b \<and> tb_tokens b \<le> tb_burst b \<and>
     bs_frames (tb_stats b) = bs_allowed (tb_stats b) + bs_dropped (tb_stats b) \<and>
     bs_bytes_in (tb_stats b) = bs_bytes_allowed (tb_stats b) + bs_bytes_dropped (tb_stats b)"

lemma bucket_warn_keeps [simp]:
  "tb_rate (bucket_warn b t) = tb_rate b" "tb_burst (bucket_warn b t) = tb_burst b"
  "tb_tokens (bucket_warn b t) = tb_tokens b" "tb_last (bucket_warn b t) = tb_last b"
  "tb_stats (bucket_warn b t) = tb_stats b"
  by (simp_all add: bucket_warn_def)

lemma bucket_refill_keeps [simp]:
  "tb_rate (bucket_refill b t) = tb_rate b" "tb_burst (bucket_refill b t) = tb_burst b"
  "tb_last (bucket_refill b t) = Some t" "tb_stats (bucket_refill b t) = tb_stats b"
  by (simp_all add: bucket_refill_def split: option.splits)

lemma bucket_refill_tokens:
  "bucket_ok b \<Longrightarrow> tb_tokens b \<le> tb_tokens (bucket_refill b t) \<and> tb_tokens (bucket_refill b t) \<le> tb_burst b"
  by (auto simp: bucket_refill_def bucket_ok_def split: option.splits)

lemma bucket_new_ok: "token_bucket_new r m l w = Inr b \<Longrightarrow> bucket_ok b"
  by (auto simp: token_bucket_new_def bucket_ok_def Let_def split: if_splits option.splits)

lemma bucket_allow_keeps:
  assumes "bucket_allow b t n = (b', ok)"
  shows "tb_rate b' = tb_rate b" "tb_burst b' = tb_burst b" "tb_last b' = Some t"
    "tb_tokens b' = tb_tokens (bucket_refill b t) - of_bool ok"
    "ok \<longleftrightarrow> 1 \<le> tb_tokens (bucket_refill b t)"
  using assms by (auto simp: bucket_allow_def Let_def split: if_splits)

lemma bucket_allow_ok:
  assumes "bucket_ok b" "bucket_allow b t n = (b', ok)"
  shows "bucket_ok b'"
proof -
  have s: "bs_frames (tb_stats b') = bs_allowed (tb_stats b') + bs_dropped (tb_stats b')"
      "bs_bytes_in (tb_stats b') = bs_bytes_allowed (tb_stats b') + bs_bytes_dropped (tb_stats b')"
    using assms by (auto simp: bucket_allow_def bucket_ok_def Let_def split: if_splits)
  show ?thesis
    using assms(1) bucket_allow_keeps [OF assms(2)] bucket_refill_tokens [OF assms(1), of t] s
    by (auto simp: bucket_ok_def)
qed

lemma bucket_run_ok: "bucket_ok b \<Longrightarrow> bucket_run b fs = (b', k) \<Longrightarrow> bucket_ok b'"
proof (induction b fs arbitrary: b' k rule: bucket_run.induct)
  case (2 b t n fs)
  obtain c ok where c: "bucket_allow b t n = (c, ok)" by force
  obtain d j where "bucket_run c fs = (d, j)" by force
  with 2 c bucket_allow_ok [OF "2.prems"(1) c] show ?case by auto
qed simp

text \<open>
  Credit: after the last call every frame let through has been paid by a token of the start or
  by the time passed since.
\<close>

lemma bucket_run_credit:
  assumes "bucket_ok b" "tb_last b = Some t0" "sorted (t0 # map fst fs)" "bucket_run b fs = (b', k)"
  shows "of_nat k + tb_tokens b' \<le> tb_tokens b + tb_rate b * (last (t0 # map fst fs) - t0)"
  using assms
proof (induction fs arbitrary: b t0 k)
  case (Cons f fs)
  obtain t n where f: "f = (t, n)" by force
  obtain c ok where c: "bucket_allow b t n = (c, ok)" by force
  obtain d j where d: "bucket_run c fs = (d, j)" by force
  note kc = bucket_allow_keeps [OF c]
  have k: "d = b'" "k = j + of_bool ok" using Cons.prems(4) by (auto simp: f c d)
  have le: "t0 \<le> t" "sorted (t # map fst fs)" using Cons.prems(3) by (auto simp: f)
  have r: "tb_tokens (bucket_refill b t) \<le> tb_tokens b + tb_rate b * (t - t0)"
    using Cons.prems(1,2) le(1) by (auto simp: bucket_refill_def bucket_ok_def algebra_simps)
  have "of_nat j + tb_tokens b' \<le> tb_tokens c + tb_rate b * (last (t # map fst fs) - t)"
    using Cons.IH [OF bucket_allow_ok [OF Cons.prems(1) c] kc(3) le(2)] d k kc(1) by simp
  then have "of_nat k + tb_tokens b' \<le> tb_tokens (bucket_refill b t) + tb_rate b * (last (t # map fst fs) - t)"
    using kc(4) k by simp
  also have "\<dots> \<le> tb_tokens b + tb_rate b * (t - t0) + tb_rate b * (last (t # map fst fs) - t)"
    using r by simp
  finally show ?case by (simp add: f algebra_simps)
qed simp

text \<open>
  In every stretch of frames at non-decreasing times a bucket lets through at most its burst
  and one frame per \<open>1/rate\<close> seconds of the stretch, whatever happened before, and its counters
  add up: a frame is either allowed or dropped, and so are its bytes.
\<close>

theorem bucket_caps_the_rate:
  assumes "token_bucket_new rate burst logs interval = Inr b0" "bucket_run b0 hist = (b, m)"
    "bucket_run b ((t, n) # fs) = (b', k)" "sorted (t # map fst fs)"
  shows "of_nat k \<le> tb_burst b0 + tb_rate b0 * (last (t # map fst fs) - t) \<and> bucket_ok b'"
proof -
  have ok: "bucket_ok b" by (rule bucket_run_ok [OF bucket_new_ok [OF assms(1)] assms(2)])
  have same: "tb_burst b = tb_burst b0 \<and> tb_rate b = tb_rate b0"
    using assms(2)
  proof (induction b0 hist arbitrary: m rule: bucket_run.induct)
    case (2 b0 t n fs)
    obtain c ok where c: "bucket_allow b0 t n = (c, ok)" by force
    obtain d j where "bucket_run c fs = (d, j)" by force
    with 2 c bucket_allow_keeps [OF c] show ?case by auto
  qed simp
  obtain c a where c: "bucket_allow b t n = (c, a)" by force
  obtain d j where d: "bucket_run c fs = (d, j)" by force
  have k: "d = b'" "k = j + of_bool a" using assms(3) by (auto simp: c d)
  note kc = bucket_allow_keeps [OF c]
  have okc: "bucket_ok c" by (rule bucket_allow_ok [OF ok c])
  have "of_nat j + tb_tokens b' \<le> tb_tokens c + tb_rate c * (last (t # map fst fs) - t)"
    by (rule bucket_run_credit [OF okc kc(3) assms(4)]) (simp add: d k)
  moreover have "tb_tokens c + of_bool a \<le> tb_burst b"
    using kc(4) bucket_refill_tokens [OF ok, of t] by simp
  moreover have "bucket_ok b'" using bucket_run_ok [OF okc d] k by simp
  ultimately show ?thesis using same kc(1) k by (auto simp: bucket_ok_def)
qed

lemma bucket_caps_the_rate_witness:
  "\<exists>b0 b k. token_bucket_new 2 (Some 3) False 1 = Inr b0 \<and>
     bucket_run b0 [(0, 60), (0, 60), (0, 60), (0, 60), (1, 60), (1, 60), (1, 60)] = (b, k) \<and>
     of_nat k \<le> (5 :: rat) \<and> bucket_ok b"
proof -
  obtain b0 where n: "token_bucket_new 2 (Some 3) False 1 = Inr b0" by (simp add: token_bucket_new_def)
  then have b0: "tb_burst b0 = 3" "tb_rate b0 = 2" by (auto simp: token_bucket_new_def)
  obtain b k where r: "bucket_run b0 [(0, 60), (0, 60), (0, 60), (0, 60), (1, 60), (1, 60), (1, 60)] = (b, k)"
    by (cases "bucket_run b0 [(0, 60), (0, 60), (0, 60), (0, 60), (1, 60), (1, 60), (1, 60)]")
  have "bucket_run b0 [] = (b0, 0)" by simp
  from bucket_caps_the_rate [OF n this r] have "of_nat k \<le> (5 :: rat) \<and> bucket_ok b" by (simp add: b0)
  with n r show ?thesis by blast
qed

subsection \<open>MWLB frames\<close>

definition mwlb_magic :: bytes where "mwlb_magic = [0x4D, 0x57, 0x4C, 0x42]"
definition mwlb_header_len :: nat where "mwlb_header_len = 7"
definition mwlb_max_payload :: nat where "mwlb_max_payload = 0xFFFF"
definition msg_frame_relay :: int where "msg_frame_relay = 0x20"

definition build_mwlb :: "int \<Rightarrow> bytes \<Rightarrow> py_error + bytes" where
  "build_mwlb msg_type payload =
     (if mwlb_max_payload < length payload then Inl ValueError
      else Inr (mwlb_magic @ [word_of_int (msg_type AND 0xFF)] @ to_be 2 (int (length payload)) @ payload))"

definition parse_mwlb :: "bytes \<Rightarrow> (byte \<times> bytes) option" where
  "parse_mwlb data =
     (if length data < mwlb_header_len then None
      else if take 4 data \<noteq> mwlb_magic then None
      else
        let n = nat (from_be (py_slice data 5 7))
        in if length data - mwlb_header_len < n then None
           else Some (data ! 4, py_slice data mwlb_header_len (mwlb_header_len + n)))"

lemma mwlb_roundtrip:
  assumes "build_mwlb ty p = Inr f"
  shows "parse_mwlb (f @ rest) = Some (word_of_int (ty AND 0xFF), p)"
proof -
  have l: "length p \<le> 65535" and f: "f = mwlb_magic @ [word_of_int (ty AND 0xFF)] @ to_be 2 (int (length p)) @ p"
    using assms by (auto simp: build_mwlb_def mwlb_max_payload_def split: if_splits)
  have n: "nat (from_be (to_be 2 (int (length p)))) = length p"
    using l by (simp add: from_be_to_be)
  have s: "py_slice (f @ rest) 5 7 = to_be 2 (int (length p))"
    by (simp add: f mwlb_magic_def py_slice_def)
  show ?thesis
    unfolding parse_mwlb_def s Let_def n
    by (simp add: f mwlb_magic_def mwlb_header_len_def py_slice_def numeral_eq_Suc)
qed

end
