(* ===== verification/Coordinator.thy ===== *)
theory Coordinator
  imports Main
begin

section \<open>The connection coordinator (\<open>switchtrade/connection/coordinator.py\<close>)\<close>

text \<open>
  One local connection run: its phase, the identities bound to it, the resources it owns, its
  outcome and the evidence of its cleanup.  The record is held in memory and written to disk at
  the end of every command that changes it, together with a pointer to the active run; a new
  process starts from what is on disk.  A command works on the record in memory, in place: a
  command that raises keeps what it had already changed there, and does not write.

  Texts are ASCII strings.  A run identifier is the parsed UUID, \<^term>\<open>None\<close> where
  \<^verbatim>\<open>uuid.UUID\<close> refuses the text; the clock is an argument.  The record on disk is the
  record itself: the JSON text, unreadable files and failing writes are not modelled, nor is the
  queue in front of the single command thread, which only serialises the commands.
\<close>

datatype run_mode =
    Mode_normal | Mode_p0_harness | Mode_direct_a | Mode_direct_b | Mode_c_harness
  | Mode_diagnostic_automated | Mode_diagnostic_a | Mode_diagnostic_b | Mode_diagnostic_suite

datatype run_phase =
    Ph_created | Ph_preflight | Ph_running | Ph_awaiting_user | Ph_closing | Ph_cleaning | Ph_terminal

datatype run_outcome = Out_pending | Out_passed | Out_failed | Out_canceled | Out_interrupted

datatype run_cleanup = Cl_pending | Cl_verified | Cl_failed

datatype conn_error =
    Input_invalid | Run_active | Run_exists | Run_not_found | Transition_invalid | Gate_invalid
  | Authority_required | Identity_mismatch | Wrapper_required | P0_required | Attempt_required
  | Launch_required | Cleanup_retry_invalid | Cleanup_result_mismatch | Outcome_required
  | Recovery_state_invalid

subsection \<open>Reading the arguments\<close>

definition run_mode_of :: "string \<Rightarrow> conn_error + run_mode" where
  "run_mode_of s =
     (if s = ''normal'' then Inr Mode_normal
      else if s = ''p0_harness'' then Inr Mode_p0_harness
      else if s = ''direct_a'' then Inr Mode_direct_a
      else if s = ''direct_b'' then Inr Mode_direct_b
      else if s = ''c_harness'' then Inr Mode_c_harness
      else if s = ''diagnostic_automated'' then Inr Mode_diagnostic_automated
      else if s = ''diagnostic_a'' then Inr Mode_diagnostic_a
      else if s = ''diagnostic_b'' then Inr Mode_diagnostic_b
      else if s = ''diagnostic_suite'' then Inr Mode_diagnostic_suite
      else Inl Input_invalid)"

definition run_phase_of :: "string \<Rightarrow> conn_error + run_phase" where
  "run_phase_of s =
     (if s = ''created'' then Inr Ph_created
      else if s = ''preflight'' then Inr Ph_preflight
      else if s = ''running'' then Inr Ph_running
      else if s = ''awaiting_user'' then Inr Ph_awaiting_user
      else if s = ''closing'' then Inr Ph_closing
      else if s = ''cleaning'' then Inr Ph_cleaning
      else if s = ''terminal'' then Inr Ph_terminal
      else Inl Input_invalid)"

definition run_outcome_of :: "string \<Rightarrow> conn_error + run_outcome" where
  "run_outcome_of s =
     (if s = ''pending'' then Inr Out_pending
      else if s = ''passed'' then Inr Out_passed
      else if s = ''failed'' then Inr Out_failed
      else if s = ''canceled'' then Inr Out_canceled
      else if s = ''interrupted'' then Inr Out_interrupted
      else Inl Input_invalid)"

text \<open>The texts of the seats, roles and directions that are bound into the identity.\<close>

definition authority_seat_of :: "string \<Rightarrow> conn_error + string" where
  "authority_seat_of s = (if s \<in> {''member_a'', ''member_b''} then Inr s else Inl Input_invalid)"

definition switch_role_of :: "string \<Rightarrow> conn_error + string" where
  "switch_role_of s = (if s \<in> {''a_room_joiner'', ''b_ap_host''} then Inr s else Inl Input_invalid)"

definition bounded :: "nat \<Rightarrow> string option \<Rightarrow> conn_error + string" where
  "bounded maximum v =
     (case v of
        None \<Rightarrow> Inl Input_invalid
      | Some t \<Rightarrow> if t = [] \<or> maximum < length t \<or> CHR 0x00 \<in> set t then Inl Input_invalid else Inr t)"

definition bounded_optional :: "nat \<Rightarrow> string option \<Rightarrow> conn_error + string option" where
  "bounded_optional maximum v =
     (case v of
        None \<Rightarrow> Inr None
      | Some t \<Rightarrow> (case bounded maximum (Some t) of Inl e \<Rightarrow> Inl e | Inr t' \<Rightarrow> Inr (Some t')))"

definition upper_char :: "char \<Rightarrow> bool" where
  "upper_char c \<longleftrightarrow> (let n = of_char c :: nat in 65 \<le> n \<and> n \<le> 90)"

definition lower_char :: "char \<Rightarrow> bool" where
  "lower_char c \<longleftrightarrow> (let n = of_char c :: nat in 97 \<le> n \<and> n \<le> 122)"

definition digit_char :: "char \<Rightarrow> bool" where
  "digit_char c \<longleftrightarrow> (let n = of_char c :: nat in 48 \<le> n \<and> n \<le> 57)"

text \<open>\<^verbatim>\<open>[A-Z][A-Z0-9_.-]{0,95}\<close> and \<^verbatim>\<open>[A-Za-z0-9][A-Za-z0-9_.:-]{0,95}\<close>\<close>

definition code_pattern :: "string \<Rightarrow> bool" where
  "code_pattern s \<longleftrightarrow>
     (case s of
        [] \<Rightarrow> False
      | c # cs \<Rightarrow> upper_char c \<and> length cs \<le> 95 \<and>
          list_all (\<lambda>d. upper_char d \<or> digit_char d \<or> d \<in> set ''_.-'') cs)"

definition gate_pattern :: "string \<Rightarrow> bool" where
  "gate_pattern s \<longleftrightarrow>
     (case s of
        [] \<Rightarrow> False
      | c # cs \<Rightarrow> (upper_char c \<or> lower_char c \<or> digit_char c) \<and> length cs \<le> 95 \<and>
          list_all (\<lambda>d. upper_char d \<or> lower_char d \<or> digit_char d \<or> d \<in> set ''_.:-'') cs)"

definition conn_code :: "string option \<Rightarrow> conn_error + string" where
  "conn_code v =
     (case bounded 96 v of
        Inl e \<Rightarrow> Inl e
      | Inr t \<Rightarrow> if code_pattern t then Inr t else Inl Input_invalid)"

definition conn_gate :: "string option \<Rightarrow> conn_error + string" where
  "conn_gate v =
     (case bounded 96 v of
        Inl e \<Rightarrow> Inl e
      | Inr t \<Rightarrow> if gate_pattern t then Inr t else Inl Input_invalid)"

definition positive_int :: "int \<Rightarrow> conn_error + int" where
  "positive_int v = (if v \<le> 0 then Inl Input_invalid else Inr v)"

definition ascii_lower :: "string \<Rightarrow> string" where
  "ascii_lower = map (\<lambda>c. if upper_char c then char_of (of_char c + 32 :: nat) else c)"

text \<open>
  Cleanup evidence: a value is \<^verbatim>\<open>None\<close>, a Boolean or an integer; anything else is refused.
  Python compares a Boolean with an integer by its number.
\<close>

datatype evidence_value = Ev_none | Ev_bool bool | Ev_int int | Ev_other

type_synonym evidence = "(string \<times> evidence_value) list"

definition evidence_ok :: "evidence \<Rightarrow> bool" where
  "evidence_ok ev \<longleftrightarrow> length ev \<le> 64 \<and> list_all (\<lambda>(k, x). gate_pattern k \<and> x \<noteq> Ev_other) ev"

definition conn_evidence :: "evidence option \<Rightarrow> conn_error + evidence" where
  "conn_evidence v =
     (case v of None \<Rightarrow> Inr [] | Some ev \<Rightarrow> if evidence_ok ev then Inr ev else Inl Input_invalid)"

fun evidence_number :: "evidence_value \<Rightarrow> int option" where
  "evidence_number Ev_none = None"
| "evidence_number (Ev_bool b) = Some (of_bool b)"
| "evidence_number (Ev_int n) = Some n"
| "evidence_number Ev_other = None"

definition same_evidence :: "evidence \<Rightarrow> evidence \<Rightarrow> bool" where
  "same_evidence a b \<longleftrightarrow>
     list_all (\<lambda>k. map_option evidence_number (map_of a k) = map_option evidence_number (map_of b k))
       (map fst a @ map fst b)"

lemma same_evidence_refl [simp]: "same_evidence a a"
  by (simp add: same_evidence_def list_all_iff)

subsection \<open>The identity of a run\<close>

datatype id_key =
    Id_room | Id_room_version | Id_attempt | Id_role_lock_version | Id_seat | Id_switch_role
  | Id_ldn_role | Id_tunnel_direction | Id_launch_nonce | Id_wrapper_pid | Id_endpoint_pid
  | Id_start_ticks | Id_endpoint_ticks | Id_adapter | Id_usb | Id_bus | Id_phy | Id_netdev

datatype id_value = Id_text string | Id_number int

type_synonym identity = "id_key \<Rightarrow> id_value option"

text \<open>
  Binding sets the keys that are free and stops at the first key bound to another value; the
  keys set before it stay set.
\<close>

fun bind_once :: "identity \<Rightarrow> (id_key \<times> id_value) list \<Rightarrow> identity + identity \<times> bool" where
  "bind_once idn [] = Inr (idn, False)"
| "bind_once idn ((k, v) # us) =
     (case idn k of
        Some w \<Rightarrow> if w \<noteq> v then Inl idn else bind_once idn us
      | None \<Rightarrow>
          (case bind_once (idn(k \<mapsto> v)) us of
             Inl idn' \<Rightarrow> Inl idn'
           | Inr (idn', _) \<Rightarrow> Inr (idn', True)))"

definition assert_bound :: "identity \<Rightarrow> (id_key \<times> id_value) list \<Rightarrow> bool" where
  "assert_bound idn expected \<longleftrightarrow> list_all (\<lambda>(k, v). idn k = Some v) expected"

definition is_unset :: "identity \<Rightarrow> id_key \<Rightarrow> bool" where
  "is_unset idn k \<longleftrightarrow> idn k = None \<or> idn k = Some (Id_text [])"

subsection \<open>The record of a run\<close>

record history_entry =
  he_revision :: nat
  he_event :: string
  he_phase :: run_phase
  he_gate :: "string option"
  he_utc :: string

record functional_result =
  fu_status :: run_outcome
  fu_code :: "string option"
  fu_message :: "string option"

record cleanup_result =
  cl_status :: run_cleanup
  cl_verified :: bool
  cl_code :: "string option"
  cl_message :: "string option"
  cl_evidence :: evidence
  cl_failures :: "(string option \<times> string option \<times> string) list"

record ownership =
  ow_wrapper_acquired :: bool
  ow_p0_ready :: bool
  ow_launch_reserved :: bool
  ow_endpoint_started :: bool
  ow_wrapper_count :: nat
  ow_launch_count :: nat

record run_record =
  rn_id :: int
  rn_revision :: nat
  rn_created :: string
  rn_updated :: string
  rn_mode :: run_mode
  rn_phase :: run_phase
  rn_gate :: "string option"
  rn_last_gate :: "string option"
  rn_functional :: functional_result
  rn_cleanup :: cleanup_result
  rn_recovery :: bool
  rn_cancel :: bool
  rn_identity :: identity
  rn_owns :: ownership
  rn_history :: "history_entry list"

record coordinator =
  co_current :: "run_record option"
  co_disk :: "int \<Rightarrow> run_record option"
  co_active :: "int option"

definition max_history :: nat where "max_history = 128"

definition released :: "run_record \<Rightarrow> bool" where
  "released r \<longleftrightarrow> rn_phase r = Ph_terminal \<and> cl_verified (rn_cleanup r)"

definition allowed_transitions :: "run_phase \<Rightarrow> run_phase set" where
  "allowed_transitions p =
     (case p of
        Ph_created \<Rightarrow> {Ph_preflight, Ph_closing}
      | Ph_preflight \<Rightarrow> {Ph_running, Ph_closing}
      | Ph_running \<Rightarrow> {Ph_awaiting_user, Ph_closing}
      | Ph_awaiting_user \<Rightarrow> {Ph_running, Ph_closing}
      | Ph_closing \<Rightarrow> {Ph_cleaning}
      | Ph_cleaning \<Rightarrow> {}
      | Ph_terminal \<Rightarrow> {})"

definition direct_modes :: "run_mode set" where
  "direct_modes = {Mode_p0_harness, Mode_direct_a, Mode_direct_b}"

definition set_functional :: "run_outcome \<Rightarrow> string option \<Rightarrow> string option \<Rightarrow> run_record \<Rightarrow> run_record" where
  "set_functional outcome code message r =
     (if fu_status (rn_functional r) = Out_pending
      then r\<lparr>rn_functional := \<lparr>fu_status = outcome, fu_code = code, fu_message = message\<rparr>\<rparr>
      else r)"

subsection \<open>Writing the record\<close>

definition stamp :: "string \<Rightarrow> string \<Rightarrow> run_record \<Rightarrow> run_record" where
  "stamp now event r =
     (let n = rn_revision r + 1;
          h = rn_history r @ [\<lparr>he_revision = n, he_event = event, he_phase = rn_phase r,
                               he_gate = rn_gate r, he_utc = now\<rparr>]
      in r\<lparr>rn_revision := n, rn_updated := now, rn_history := drop (length h - max_history) h\<rparr>)"

definition persist :: "string \<Rightarrow> string \<Rightarrow> coordinator \<Rightarrow> (conn_error + run_record) \<times> coordinator" where
  "persist now event s =
     (case co_current s of
        None \<Rightarrow> (Inl Run_not_found, s)
      | Some r0 \<Rightarrow>
          let r = stamp now event r0
          in (Inr r, s\<lparr>co_current := Some r, co_disk := (co_disk s)(rn_id r \<mapsto> r),
                       co_active := (if released r then None else Some (rn_id r))\<rparr>))"

text \<open>
  What a handler does with the record of its run: it raises, leaving the record as it is by then;
  it answers with the record unchanged; or it writes the changed record under an event name.
\<close>

datatype reaction = Raise conn_error run_record | Answer | Write string run_record

fun checked :: "conn_error + 'a \<Rightarrow> run_record \<Rightarrow> ('a \<Rightarrow> reaction) \<Rightarrow> reaction" where
  "checked (Inl e) r k = Raise e r"
| "checked (Inr x) r k = k x"

definition serve ::
  "string \<Rightarrow> int option \<Rightarrow> (run_record \<Rightarrow> reaction) \<Rightarrow> coordinator
     \<Rightarrow> (conn_error + run_record) \<times> coordinator" where
  "serve now run_id handler s =
     (case run_id of
        None \<Rightarrow> (Inl Input_invalid, s)
      | Some i \<Rightarrow>
          (case co_current s of
             None \<Rightarrow> (Inl Run_not_found, s)
           | Some r \<Rightarrow>
               if rn_id r \<noteq> i then (Inl Run_not_found, s)
               else (case handler r of
                       Raise e r' \<Rightarrow> (Inl e, s\<lparr>co_current := Some r'\<rparr>)
                     | Answer \<Rightarrow> (Inr r, s)
                     | Write event r' \<Rightarrow> persist now event (s\<lparr>co_current := Some r'\<rparr>))))"

definition when_running :: "run_record \<Rightarrow> reaction \<Rightarrow> reaction" where
  "when_running r k = (if rn_phase r \<noteq> Ph_running then Raise Transition_invalid r else k)"

definition bind_all ::
  "run_record \<Rightarrow> (id_key \<times> id_value) list \<Rightarrow> (run_record \<Rightarrow> bool \<Rightarrow> reaction) \<Rightarrow> reaction" where
  "bind_all r us k =
     (case bind_once (rn_identity r) us of
        Inl idn \<Rightarrow> Raise Identity_mismatch (r\<lparr>rn_identity := idn\<rparr>)
      | Inr (idn, changed) \<Rightarrow> k (r\<lparr>rn_identity := idn\<rparr>) changed)"

definition require_bound :: "run_record \<Rightarrow> (id_key \<times> id_value) list \<Rightarrow> reaction \<Rightarrow> reaction" where
  "require_bound r us k = (if assert_bound (rn_identity r) us then k else Raise Identity_mismatch r)"

subsection \<open>The commands\<close>

definition direct_identity :: "run_mode \<Rightarrow> identity \<Rightarrow> identity" where
  "direct_identity mode idn =
     (if mode = Mode_direct_a
      then idn(Id_switch_role \<mapsto> Id_text ''a_room_joiner'', Id_ldn_role \<mapsto> Id_text ''station'')
      else if mode = Mode_direct_b
      then idn(Id_switch_role \<mapsto> Id_text ''b_ap_host'', Id_ldn_role \<mapsto> Id_text ''ap'')
      else idn)"

definition new_run :: "string \<Rightarrow> run_mode \<Rightarrow> string option \<Rightarrow> string option \<Rightarrow> int \<Rightarrow> run_record" where
  "new_run now mode adapter usb i =
     \<lparr>rn_id = i, rn_revision = 0, rn_created = now, rn_updated = now, rn_mode = mode,
      rn_phase = Ph_created, rn_gate = None, rn_last_gate = None,
      rn_functional = \<lparr>fu_status = Out_pending, fu_code = None, fu_message = None\<rparr>,
      rn_cleanup = \<lparr>cl_status = Cl_pending, cl_verified = False, cl_code = None, cl_message = None,
                    cl_evidence = [], cl_failures = []\<rparr>,
      rn_recovery = False, rn_cancel = False,
      rn_identity = direct_identity mode
        (Map.empty(Id_adapter := map_option Id_text adapter, Id_usb := map_option Id_text usb)),
      rn_owns = \<lparr>ow_wrapper_acquired = False, ow_p0_ready = False, ow_launch_reserved = False,
                 ow_endpoint_started = False, ow_wrapper_count = 0, ow_launch_count = 0\<rparr>,
      rn_history = []\<rparr>"

definition has_cleanup_guard :: "coordinator \<Rightarrow> bool" where
  "has_cleanup_guard s \<longleftrightarrow>
     co_active s \<noteq> None \<or> (case co_current s of None \<Rightarrow> False | Some r \<Rightarrow> \<not> released r)"

definition start_adapter ::
  "run_mode \<Rightarrow> string option \<Rightarrow> string option \<Rightarrow> conn_error + string option \<times> string option" where
  "start_adapter mode adapter usb =
     (if mode \<noteq> Mode_c_harness then
        (case bounded 512 adapter of
           Inl e \<Rightarrow> Inl e
         | Inr a \<Rightarrow> (case bounded 32 usb of Inl e \<Rightarrow> Inl e | Inr u \<Rightarrow> Inr (Some a, Some (ascii_lower u))))
      else
        (case bounded_optional 512 adapter of
           Inl e \<Rightarrow> Inl e
         | Inr a \<Rightarrow> (case bounded_optional 32 usb of
                       Inl e \<Rightarrow> Inl e | Inr u \<Rightarrow> Inr (a, map_option ascii_lower u))))"

text \<open>
  The run identifier of \<^verbatim>\<open>start\<close>: not given (then a fresh UUID is drawn), or given and parsed.
\<close>

definition cmd_start ::
  "string \<Rightarrow> int \<Rightarrow> string \<Rightarrow> string option \<Rightarrow> string option \<Rightarrow> int option option \<Rightarrow> coordinator
     \<Rightarrow> (conn_error + run_record) \<times> coordinator" where
  "cmd_start now fresh mode adapter usb run_id s =
     (case run_mode_of mode of
        Inl e \<Rightarrow> (Inl e, s)
      | Inr m \<Rightarrow>
          if has_cleanup_guard s then (Inl Run_active, s)
          else (case start_adapter m adapter usb of
             Inl e \<Rightarrow> (Inl e, s)
           | Inr (a, u) \<Rightarrow>
               (case (case run_id of None \<Rightarrow> Some fresh | Some parsed \<Rightarrow> parsed) of
                  None \<Rightarrow> (Inl Input_invalid, s)
                | Some i \<Rightarrow>
                    if co_disk s i \<noteq> None then (Inl Run_exists, s)
                    else persist now ''run_created'' (s\<lparr>co_current := Some (new_run now m a u i)\<rparr>))))"

definition react_transition :: "string \<Rightarrow> string option \<Rightarrow> run_record \<Rightarrow> reaction" where
  "react_transition phase gate r =
     checked (run_phase_of phase) r (\<lambda>target.
       if target = Ph_terminal then Raise Transition_invalid r
       else checked (case gate of None \<Rightarrow> Inr (rn_gate r) | Some g \<Rightarrow> map_sum id Some (conn_gate (Some g))) r
         (\<lambda>next_gate.
           if target = rn_phase r \<and> next_gate = rn_gate r then Answer
           else if target \<noteq> rn_phase r \<and> target \<notin> allowed_transitions (rn_phase r)
           then Raise Transition_invalid r
           else Write (''phase_'' @ phase) (r\<lparr>rn_phase := target, rn_gate := next_gate\<rparr>)))"

definition react_pass_gate :: "string option \<Rightarrow> run_record \<Rightarrow> reaction" where
  "react_pass_gate gate r =
     (if rn_phase r \<notin> {Ph_preflight, Ph_running, Ph_awaiting_user} then Raise Gate_invalid r
      else checked (conn_gate gate) r (\<lambda>passed.
        if rn_last_gate r = Some passed \<and> rn_gate r = Some passed then Answer
        else Write ''gate_passed'' (r\<lparr>rn_last_gate := Some passed, rn_gate := Some passed\<rparr>)))"

definition react_bind_authority ::
  "string option \<Rightarrow> int \<Rightarrow> string \<Rightarrow> string \<Rightarrow> run_record \<Rightarrow> reaction" where
  "react_bind_authority room room_version seat role r =
     when_running r (
     checked (authority_seat_of seat) r (\<lambda>st.
     checked (switch_role_of role) r (\<lambda>sr.
     checked (bounded 128 room) r (\<lambda>rm.
     checked (positive_int room_version) r (\<lambda>rv.
       bind_all r
         [(Id_room, Id_text rm), (Id_room_version, Id_number rv), (Id_seat, Id_text st),
          (Id_switch_role, Id_text sr),
          (Id_ldn_role, Id_text (if sr = ''a_room_joiner'' then ''station'' else ''ap'')),
          (Id_tunnel_direction, Id_text (if sr = ''a_room_joiner'' then ''a_to_b'' else ''b_to_a''))]
         (\<lambda>r' changed. if changed then Write ''authority_bound'' r' else Answer))))))"

definition react_acquire_wrapper ::
  "int \<Rightarrow> int \<Rightarrow> string option \<Rightarrow> string option \<Rightarrow> string option \<Rightarrow> run_record \<Rightarrow> reaction" where
  "react_acquire_wrapper pid ticks adapter usb bus r =
     when_running r (
       if rn_mode r \<notin> direct_modes \<and> is_unset (rn_identity r) Id_room then Raise Authority_required r
       else
         checked (positive_int pid) r (\<lambda>p. checked (positive_int ticks) r (\<lambda>t.
         checked (bounded 512 adapter) r (\<lambda>a. checked (bounded 32 usb) r (\<lambda>u0.
         checked (bounded 64 bus) r (\<lambda>b.
           let u = ascii_lower u0;
               us = [(Id_wrapper_pid, Id_number p), (Id_start_ticks, Id_number t),
                     (Id_adapter, Id_text a), (Id_usb, Id_text u), (Id_bus, Id_text b)]
           in if \<not> assert_bound (rn_identity r) [(Id_adapter, Id_text a), (Id_usb, Id_text u)]
              then Raise Identity_mismatch r
              else if ow_wrapper_acquired (rn_owns r) then require_bound r us Answer
              else bind_all r us (\<lambda>r' _.
                     Write ''wrapper_acquired''
                       (r'\<lparr>rn_owns := (rn_owns r')\<lparr>ow_wrapper_acquired := True, ow_wrapper_count := 1\<rparr>\<rparr>))))))))"

definition react_mark_p0_ready ::
  "int \<Rightarrow> int \<Rightarrow> string option \<Rightarrow> string option \<Rightarrow> run_record \<Rightarrow> reaction" where
  "react_mark_p0_ready pid ticks phy netdev r =
     when_running r (
       if \<not> ow_wrapper_acquired (rn_owns r) then Raise Wrapper_required r
       else
         checked (positive_int pid) r (\<lambda>p. checked (positive_int ticks) r (\<lambda>t.
         require_bound r [(Id_wrapper_pid, Id_number p), (Id_start_ticks, Id_number t)] (
         checked (bounded 64 phy) r (\<lambda>ph. checked (bounded 64 netdev) r (\<lambda>nd.
           let us = [(Id_phy, Id_text ph), (Id_netdev, Id_text nd)]
           in if ow_p0_ready (rn_owns r) then require_bound r us Answer
              else bind_all r us (\<lambda>r' _.
                     Write ''p0_side_ready''
                       (r'\<lparr>rn_owns := (rn_owns r')\<lparr>ow_p0_ready := True\<rparr>,
                          rn_last_gate := Some ''P0_SIDE_READY'', rn_gate := Some ''P0_SIDE_READY''\<rparr>))))))))"

definition react_lock_attempt :: "string option \<Rightarrow> int \<Rightarrow> run_record \<Rightarrow> reaction" where
  "react_lock_attempt attempt version r =
     when_running r (
       if is_unset (rn_identity r) Id_room \<or> \<not> ow_p0_ready (rn_owns r) then Raise P0_required r
       else
         checked (bounded 128 attempt) r (\<lambda>a. checked (positive_int version) r (\<lambda>v.
           bind_all r [(Id_attempt, Id_text a), (Id_role_lock_version, Id_number v)]
             (\<lambda>r' changed. if changed then Write ''attempt_locked'' r' else Answer))))"

definition react_reserve_launch :: "string option \<Rightarrow> run_record \<Rightarrow> reaction" where
  "react_reserve_launch nonce0 r =
     when_running r (
       if \<not> ow_p0_ready (rn_owns r) then Raise P0_required r
       else if rn_mode r \<notin> direct_modes \<and> is_unset (rn_identity r) Id_attempt then Raise Attempt_required r
       else
         checked (bounded 128 nonce0) r (\<lambda>nonce.
           if length nonce < 32 then Raise Input_invalid r
           else
             let us = [(Id_launch_nonce, Id_text nonce)]
             in if ow_launch_reserved (rn_owns r) then require_bound r us Answer
                else bind_all r us (\<lambda>r' _.
                       Write ''endpoint_launch_reserved''
                         (r'\<lparr>rn_owns := (rn_owns r')\<lparr>ow_launch_reserved := True, ow_launch_count := 1\<rparr>\<rparr>))))"

definition react_acknowledge_endpoint :: "string option \<Rightarrow> int \<Rightarrow> int \<Rightarrow> run_record \<Rightarrow> reaction" where
  "react_acknowledge_endpoint nonce0 pid ticks r =
     when_running r (
       if \<not> ow_launch_reserved (rn_owns r) then Raise Launch_required r
       else
         checked (bounded 128 nonce0) r (\<lambda>nonce.
         require_bound r [(Id_launch_nonce, Id_text nonce)] (
         checked (positive_int pid) r (\<lambda>p. checked (positive_int ticks) r (\<lambda>t.
           let us = [(Id_endpoint_pid, Id_number p), (Id_endpoint_ticks, Id_number t)]
           in if ow_endpoint_started (rn_owns r) then require_bound r us Answer
              else bind_all r us (\<lambda>r' _.
                     Write ''endpoint_started''
                       (r'\<lparr>rn_owns := (rn_owns r')\<lparr>ow_endpoint_started := True\<rparr>\<rparr>)))))))"

definition enter_closing :: "run_record \<Rightarrow> run_record" where
  "enter_closing r =
     (if rn_phase r \<notin> {Ph_closing, Ph_cleaning}
      then r\<lparr>rn_phase := Ph_closing, rn_gate := Some ''D1_CLOSING_INTENT''\<rparr> else r)"

text \<open>The cancel flag is set before the code and the message are looked at.\<close>

definition react_request_cancel :: "string option \<Rightarrow> string option \<Rightarrow> run_record \<Rightarrow> reaction" where
  "react_request_cancel code message r =
     (if rn_phase r = Ph_terminal then Answer
      else if rn_cancel r then Answer
      else
        let r' = r\<lparr>rn_cancel := True\<rparr>
        in checked (conn_code code) r' (\<lambda>c. checked (bounded 500 message) r' (\<lambda>m.
             Write ''cancel_requested'' (enter_closing (set_functional Out_canceled (Some c) (Some m) r')))))"

definition optional_code :: "string option \<Rightarrow> conn_error + string option" where
  "optional_code code =
     (case code of None \<Rightarrow> Inr None | Some c \<Rightarrow> map_sum id Some (conn_code (Some c)))"

definition react_close_run :: "string \<Rightarrow> string option \<Rightarrow> string option \<Rightarrow> run_record \<Rightarrow> reaction" where
  "react_close_run outcome code message r =
     checked (run_outcome_of outcome) r (\<lambda>selected.
       if selected = Out_pending then Raise Input_invalid r
       else
         checked (optional_code code) r (\<lambda>c. checked (bounded_optional 500 message) r (\<lambda>m.
           if selected \<in> {Out_failed, Out_interrupted} \<and> c = None then Raise Input_invalid r
           else if rn_phase r = Ph_terminal then Answer
           else if fu_status (rn_functional r) \<noteq> Out_pending \<and> rn_phase r \<in> {Ph_closing, Ph_cleaning}
           then Answer
           else Write ''closing_intent_recorded'' (enter_closing (set_functional selected c m r)))))"

definition react_begin_cleanup :: "run_record \<Rightarrow> reaction" where
  "react_begin_cleanup r =
     (if rn_phase r = Ph_cleaning then Answer
      else if rn_phase r \<noteq> Ph_closing then Raise Transition_invalid r
      else Write ''cleanup_started'' (r\<lparr>rn_phase := Ph_cleaning, rn_gate := Some ''D8_LOCAL_RELEASE''\<rparr>))"

definition react_retry_cleanup :: "run_record \<Rightarrow> reaction" where
  "react_retry_cleanup r =
     (if rn_phase r = Ph_cleaning then Answer
      else if rn_phase r \<noteq> Ph_terminal \<or> cl_verified (rn_cleanup r) then Raise Cleanup_retry_invalid r
      else Write ''cleanup_retry_started''
             (r\<lparr>rn_phase := Ph_cleaning, rn_gate := Some ''D8_LOCAL_RELEASE'',
                rn_cleanup := (rn_cleanup r)\<lparr>cl_status := Cl_pending\<rparr>\<rparr>))"

definition max_failures :: nat where "max_failures = 16"

definition add_failure ::
  "string \<Rightarrow> bool \<Rightarrow> string option \<Rightarrow> string option \<Rightarrow> cleanup_result
     \<Rightarrow> (string option \<times> string option \<times> string) list" where
  "add_failure now verified code message c =
     (if verified then cl_failures c
      else let fs = cl_failures c @ [(code, message, now)] in drop (length fs - max_failures) fs)"

definition react_complete_cleanup ::
  "string \<Rightarrow> bool \<Rightarrow> evidence option \<Rightarrow> string option \<Rightarrow> string option \<Rightarrow> run_record \<Rightarrow> reaction" where
  "react_complete_cleanup now verified evidence code message r =
     checked (conn_evidence evidence) r (\<lambda>ev.
     checked (optional_code code) r (\<lambda>c. checked (bounded_optional 500 message) r (\<lambda>m.
       let old = rn_cleanup r;
           c' = (if verified then None else c); m' = (if verified then None else m)
       in if rn_phase r = Ph_terminal then
            (if cl_verified old = verified \<and> cl_code old = c' \<and> cl_message old = m'
                 \<and> same_evidence (cl_evidence old) ev
             then Answer else Raise Cleanup_result_mismatch r)
          else if rn_phase r \<noteq> Ph_cleaning then Raise Transition_invalid r
          else if fu_status (rn_functional r) = Out_pending then Raise Outcome_required r
          else if \<not> verified \<and> c = None then Raise Input_invalid r
          else Write (if verified then ''cleanup_verified'' else ''cleanup_failed'')
                 (r\<lparr>rn_cleanup := \<lparr>cl_status = (if verified then Cl_verified else Cl_failed),
                                   cl_verified = verified, cl_code = c', cl_message = m',
                                   cl_evidence = ev, cl_failures = add_failure now verified c m old\<rparr>,
                    rn_recovery := \<not> verified, rn_phase := Ph_terminal,
                    rn_gate := Some (if verified then ''D11_RELEASE'' else ''D_CLEANUP_FAILED'')\<rparr>))))"

subsection \<open>A new process\<close>

definition valid_record :: "run_record \<Rightarrow> bool" where
  "valid_record r \<longleftrightarrow>
     1 \<le> rn_revision r \<and> ow_wrapper_count (rn_owns r) \<in> {0, 1} \<and> ow_launch_count (rn_owns r) \<in> {0, 1}"

definition recovered :: "run_record \<Rightarrow> run_record" where
  "recovered r =
     (set_functional Out_interrupted (Some ''CONNECTION_RUN_INTERRUPTED'')
        (Some ''The previous control process ended before the run became terminal.'') r)
       \<lparr>rn_phase := Ph_cleaning, rn_gate := Some ''D8_LOCAL_RELEASE'',
        rn_cleanup := (rn_cleanup r)\<lparr>cl_status := Cl_pending, cl_verified := False, cl_code := None,
                                      cl_message := None\<rparr>,
        rn_recovery := True\<rparr>"

definition recover :: "string \<Rightarrow> coordinator \<Rightarrow> (conn_error + unit) \<times> coordinator" where
  "recover now s =
     (case co_active s of
        None \<Rightarrow> (Inr (), s)
      | Some i \<Rightarrow>
          (case co_disk s i of
             None \<Rightarrow> (Inl Recovery_state_invalid, s)
           | Some r \<Rightarrow>
               if rn_id r \<noteq> i \<or> \<not> valid_record r then (Inl Recovery_state_invalid, s)
               else if released r then (Inr (), s\<lparr>co_current := Some r, co_active := None\<rparr>)
               else (case persist now ''startup_recovery_required'' (s\<lparr>co_current := Some (recovered r)\<rparr>) of
                       (Inl e, s') \<Rightarrow> (Inl e, s')
                     | (Inr _, s') \<Rightarrow> (Inr (), s'))))"

text \<open>The memory of the old process is gone; the files stay.\<close>

definition restart :: "string \<Rightarrow> coordinator \<Rightarrow> (conn_error + unit) \<times> coordinator" where
  "restart now s = recover now (s\<lparr>co_current := None\<rparr>)"

definition co_snapshot :: "int option option \<Rightarrow> coordinator \<Rightarrow> conn_error + run_record option" where
  "co_snapshot run_id s =
     (case run_id of
        None \<Rightarrow> Inr (co_current s)
      | Some None \<Rightarrow> Inl Input_invalid
      | Some (Some i) \<Rightarrow>
          (case co_current s of
             Some r \<Rightarrow> if rn_id r = i then Inr (Some r)
                       else (case co_disk s i of
                               None \<Rightarrow> Inr None
                             | Some d \<Rightarrow> if rn_id d = i \<and> valid_record d then Inr (Some d)
                                         else Inl Recovery_state_invalid)
           | None \<Rightarrow> (case co_disk s i of
                        None \<Rightarrow> Inr None
                      | Some d \<Rightarrow> if rn_id d = i \<and> valid_record d then Inr (Some d)
                                  else Inl Recovery_state_invalid)))"

subsection \<open>One command of the queue\<close>

datatype conn_command =
    Do_start string "string option" "string option" "int option option"
  | Do_transition "int option" string "string option"
  | Do_pass_gate "int option" "string option"
  | Do_bind_authority "int option" "string option" int string string
  | Do_acquire_wrapper "int option" int int "string option" "string option" "string option"
  | Do_mark_p0_ready "int option" int int "string option" "string option"
  | Do_lock_attempt "int option" "string option" int
  | Do_reserve_launch "int option" "string option"
  | Do_acknowledge_endpoint "int option" "string option" int int
  | Do_request_cancel "int option" "string option" "string option"
  | Do_close_run "int option" string "string option" "string option"
  | Do_begin_cleanup "int option"
  | Do_retry_cleanup "int option"
  | Do_complete_cleanup "int option" bool "evidence option" "string option" "string option"

fun submit ::
  "string \<Rightarrow> int \<Rightarrow> conn_command \<Rightarrow> coordinator \<Rightarrow> (conn_error + run_record) \<times> coordinator" where
  "submit now fresh (Do_start mode adapter usb i) = cmd_start now fresh mode adapter usb i"
| "submit now fresh (Do_transition i phase gate) = serve now i (react_transition phase gate)"
| "submit now fresh (Do_pass_gate i gate) = serve now i (react_pass_gate gate)"
| "submit now fresh (Do_bind_authority i room v seat role) =
     serve now i (react_bind_authority room v seat role)"
| "submit now fresh (Do_acquire_wrapper i pid ticks adapter usb bus) =
     serve now i (react_acquire_wrapper pid ticks adapter usb bus)"
| "submit now fresh (Do_mark_p0_ready i pid ticks phy netdev) =
     serve now i (react_mark_p0_ready pid ticks phy netdev)"
| "submit now fresh (Do_lock_attempt i attempt v) = serve now i (react_lock_attempt attempt v)"
| "submit now fresh (Do_reserve_launch i nonce) = serve now i (react_reserve_launch nonce)"
| "submit now fresh (Do_acknowledge_endpoint i nonce pid ticks) =
     serve now i (react_acknowledge_endpoint nonce pid ticks)"
| "submit now fresh (Do_request_cancel i code message) =
     serve now i (react_request_cancel code message)"
| "submit now fresh (Do_close_run i outcome code message) =
     serve now i (react_close_run outcome code message)"
| "submit now fresh (Do_begin_cleanup i) = serve now i react_begin_cleanup"
| "submit now fresh (Do_retry_cleanup i) = serve now i react_retry_cleanup"
| "submit now fresh (Do_complete_cleanup i verified ev code message) =
     serve now i (react_complete_cleanup now verified ev code message)"

end
