(* ===== verification/Coordinator_Inv.thy ===== *)
theory Coordinator_Inv
  imports Coordinator Prelude
begin

section \<open>What every command of the coordinator keeps\<close>

text \<open>
  A handler's reaction is judged by what it does to the record: a failure may only have bound
  free identity keys or set the cancel flag, a write may only move the record forward.  The
  combinators of the handlers have one introduction rule each (collection \<open>okay\<close>), so that a
  handler is checked by following its own structure.
\<close>

named_theorems okay \<open>introduction rules for reactions\<close>

subsection \<open>Well-formed records\<close>

definition bound :: "identity \<Rightarrow> id_key \<Rightarrow> bool" where
  "bound idn k \<longleftrightarrow> \<not> is_unset idn k"

text \<open>Each stage owns what the stages before it have acquired.\<close>

definition stages_ok :: "run_record \<Rightarrow> bool" where
  "stages_ok r \<longleftrightarrow>
     (let o' = rn_owns r; idn = rn_identity r
      in ow_wrapper_count o' = of_bool (ow_wrapper_acquired o') \<and>
         ow_launch_count o' = of_bool (ow_launch_reserved o') \<and>
         (ow_endpoint_started o' \<longrightarrow> ow_launch_reserved o' \<and> bound idn Id_endpoint_pid) \<and>
         (ow_launch_reserved o' \<longrightarrow> ow_p0_ready o' \<and> bound idn Id_launch_nonce \<and>
            (rn_mode r \<in> direct_modes \<or> bound idn Id_attempt)) \<and>
         (ow_p0_ready o' \<longrightarrow> ow_wrapper_acquired o' \<and> bound idn Id_phy) \<and>
         (ow_wrapper_acquired o' \<longrightarrow> bound idn Id_wrapper_pid \<and>
            (rn_mode r \<in> direct_modes \<or> bound idn Id_room)))"

definition ending_ok :: "run_record \<Rightarrow> bool" where
  "ending_ok r \<longleftrightarrow>
     (rn_phase r = Ph_terminal \<longrightarrow>
        fu_status (rn_functional r) \<noteq> Out_pending \<and> (rn_recovery r \<longleftrightarrow> \<not> cl_verified (rn_cleanup r))) \<and>
     (cl_verified (rn_cleanup r) \<longrightarrow> rn_phase r = Ph_terminal)"

definition history_ok :: "run_record \<Rightarrow> bool" where
  "history_ok r \<longleftrightarrow>
     map he_revision (rn_history r) =
       [Suc (rn_revision r) - length (rn_history r) ..< Suc (rn_revision r)] \<and>
     length (rn_history r) = min (rn_revision r) max_history"

definition good_record :: "run_record \<Rightarrow> bool" where
  "good_record r \<longleftrightarrow> stages_ok r \<and> ending_ok r \<and> history_ok r"

subsection \<open>Records that follow one another\<close>

fun phase_rank :: "run_phase \<Rightarrow> nat" where
  "phase_rank Ph_created = 0"
| "phase_rank Ph_preflight = 1"
| "phase_rank Ph_running = 2"
| "phase_rank Ph_awaiting_user = 2"
| "phase_rank Ph_closing = 3"
| "phase_rank Ph_cleaning = 4"
| "phase_rank Ph_terminal = 4"

definition owns_le :: "ownership \<Rightarrow> ownership \<Rightarrow> bool" where
  "owns_le a b \<longleftrightarrow>
     (ow_wrapper_acquired a \<longrightarrow> ow_wrapper_acquired b) \<and> (ow_p0_ready a \<longrightarrow> ow_p0_ready b) \<and>
     (ow_launch_reserved a \<longrightarrow> ow_launch_reserved b) \<and> (ow_endpoint_started a \<longrightarrow> ow_endpoint_started b)"

text \<open>What one command, or any number of them, may have done to a record.\<close>

definition edits :: "run_record \<Rightarrow> run_record \<Rightarrow> bool" where
  "edits r r' \<longleftrightarrow>
     rn_id r' = rn_id r \<and> rn_created r' = rn_created r \<and> rn_mode r' = rn_mode r \<and>
     rn_identity r \<subseteq>\<^sub>m rn_identity r' \<and> owns_le (rn_owns r) (rn_owns r') \<and>
     (fu_status (rn_functional r) = Out_pending \<or> rn_functional r' = rn_functional r) \<and>
     phase_rank (rn_phase r) \<le> phase_rank (rn_phase r') \<and> (rn_cancel r \<longrightarrow> rn_cancel r')"

definition advance :: "run_record \<Rightarrow> run_record \<Rightarrow> bool" where
  "advance r r' \<longleftrightarrow>
     edits r r' \<and> rn_revision r \<le> rn_revision r' \<and> (rn_revision r = rn_revision r' \<longrightarrow> r' = r) \<and>
     (released r \<longrightarrow> r' = r)"

lemma owns_le_refl [simp]: "owns_le a a"
  by (simp add: owns_le_def)

lemma edits_refl [simp]: "edits r r"
  by (simp add: edits_def)

lemma edits_trans: "edits a b \<Longrightarrow> edits b c \<Longrightarrow> edits a c"
proof -
  assume e: "edits a b" and f: "edits b c"
  have "rn_identity a \<subseteq>\<^sub>m rn_identity c"
    using e f map_le_trans [of "rn_identity a" "rn_identity b" "rn_identity c"] by (simp add: edits_def)
  moreover have "owns_le (rn_owns a) (rn_owns c)"
    using e f by (simp add: edits_def owns_le_def)
  moreover have "phase_rank (rn_phase a) \<le> phase_rank (rn_phase c)"
    using e f unfolding edits_def by (metis le_trans)
  moreover have "fu_status (rn_functional a) = Out_pending \<or> rn_functional c = rn_functional a"
    using e f unfolding edits_def by metis
  ultimately show "edits a c" using e f by (simp add: edits_def)
qed

lemma advance_refl [simp]: "advance r r"
  by (simp add: advance_def)

lemma advance_trans: "advance a b \<Longrightarrow> advance b c \<Longrightarrow> advance a c"
  unfolding advance_def using edits_trans [of a b c] by (metis le_antisym le_trans)

text \<open>What a failing command may leave behind in memory.\<close>

definition soft :: "run_record \<Rightarrow> run_record \<Rightarrow> bool" where
  "soft r r' \<longleftrightarrow>
     rn_id r' = rn_id r \<and> rn_revision r' = rn_revision r \<and> rn_created r' = rn_created r \<and>
     rn_updated r' = rn_updated r \<and> rn_mode r' = rn_mode r \<and> rn_phase r' = rn_phase r \<and>
     rn_gate r' = rn_gate r \<and> rn_last_gate r' = rn_last_gate r \<and>
     rn_functional r' = rn_functional r \<and> rn_cleanup r' = rn_cleanup r \<and>
     rn_recovery r' = rn_recovery r \<and> rn_owns r' = rn_owns r \<and> rn_history r' = rn_history r \<and>
     rn_identity r \<subseteq>\<^sub>m rn_identity r' \<and> (rn_cancel r \<longrightarrow> rn_cancel r')"

lemma soft_refl [simp]: "soft r r"
  by (simp add: soft_def)

lemma soft_trans: "soft a b \<Longrightarrow> soft b c \<Longrightarrow> soft a c"
  unfolding soft_def using map_le_trans [of "rn_identity a" "rn_identity b" "rn_identity c"] by simp

lemma soft_edits: "soft r r' \<Longrightarrow> edits r r'"
  by (auto simp: soft_def edits_def)

lemma soft_same:
  assumes "soft r r'"
  shows "rn_id r' = rn_id r" "rn_revision r' = rn_revision r" "rn_phase r' = rn_phase r"
    "rn_cleanup r' = rn_cleanup r" "rn_functional r' = rn_functional r" "rn_owns r' = rn_owns r"
    "released r' = released r" "history_ok r' = history_ok r" "ending_ok r' = ending_ok r"
    "rn_history r' = rn_history r"
  using assms by (auto simp: soft_def released_def history_ok_def ending_ok_def)

lemma bound_mono: "idn \<subseteq>\<^sub>m idn' \<Longrightarrow> bound idn k \<Longrightarrow> bound idn' k"
  by (auto simp: bound_def is_unset_def map_le_def dom_def)

lemma stages_identity:
  assumes "stages_ok r" "rn_identity r \<subseteq>\<^sub>m rn_identity r'" "rn_owns r' = rn_owns r" "rn_mode r' = rn_mode r"
  shows "stages_ok r'"
  using assms(1) bound_mono [OF assms(2)] unfolding stages_ok_def Let_def assms(3,4) by blast

subsection \<open>Reactions\<close>

definition write_ok :: "run_record \<Rightarrow> run_record \<Rightarrow> bool" where
  "write_ok r r' \<longleftrightarrow>
     edits r r' \<and> \<not> released r \<and> rn_revision r' = rn_revision r \<and> rn_history r' = rn_history r \<and>
     (stages_ok r \<longrightarrow> stages_ok r') \<and> (ending_ok r \<longrightarrow> ending_ok r')"

fun reaction_ok :: "run_record \<Rightarrow> reaction \<Rightarrow> bool" where
  "reaction_ok r (Raise e r') \<longleftrightarrow> soft r r'"
| "reaction_ok r Answer \<longleftrightarrow> True"
| "reaction_ok r (Write event r') \<longleftrightarrow> write_ok r r'"

lemma ok_checked [okay]: "soft r r' \<Longrightarrow> (\<And>x. v = Inr x \<Longrightarrow> reaction_ok r (k x)) \<Longrightarrow> reaction_ok r (checked v r' k)"
  by (cases v) auto

lemma ok_running [okay]: "(rn_phase r = Ph_running \<Longrightarrow> reaction_ok r k) \<Longrightarrow> reaction_ok r (when_running r k)"
  by (simp add: when_running_def)

lemma ok_require [okay]: "reaction_ok r k \<Longrightarrow> reaction_ok r (require_bound r us k)"
  by (simp add: require_bound_def)

lemma ok_raise [okay]: "soft r r' \<Longrightarrow> reaction_ok r (Raise e r')"
  by simp

lemma ok_answer [okay]: "reaction_ok r Answer"
  by simp

lemma ok_if [okay]:
  "(b \<Longrightarrow> reaction_ok r x) \<Longrightarrow> (\<not> b \<Longrightarrow> reaction_ok r y) \<Longrightarrow> reaction_ok r (if b then x else y)"
  by simp

lemma bind_once_extends:
  "bind_once idn us = Inl idn' \<Longrightarrow> idn \<subseteq>\<^sub>m idn'"
  "bind_once idn us = Inr (idn', ch) \<Longrightarrow> idn \<subseteq>\<^sub>m idn' \<and> (\<forall>(k, v) \<in> set us. idn' k = Some v)"
proof (induction idn us arbitrary: idn' ch rule: bind_once.induct)
  case (2 idn k v us)
  have ext: "idn \<subseteq>\<^sub>m x" if "idn k = None" "idn(k \<mapsto> v) \<subseteq>\<^sub>m x" for x
  proof (rule map_le_trans [OF _ that(2)])
    show "idn \<subseteq>\<^sub>m idn(k \<mapsto> v)" using that(1) by (auto simp: map_le_def)
  qed
  { case 1
    show ?case
    proof (cases "idn k")
      case None
      then have "bind_once (idn(k \<mapsto> v)) us = Inl idn'" using 1 by (auto split: sum.splits)
      from ext [OF None "2.IH"(1) [OF None this]] show ?thesis .
    next
      case (Some w)
      with 1 "2.IH"(3) show ?thesis by (auto split: if_splits)
    qed
  next
    case 2
    show ?case
    proof (cases "idn k")
      case None
      then obtain c where r: "bind_once (idn(k \<mapsto> v)) us = Inr (idn', c)"
        using 2 by (auto split: sum.splits)
      from "2.IH"(2) [OF None r]
      have h: "idn(k \<mapsto> v) \<subseteq>\<^sub>m idn'" "\<forall>(k, v) \<in> set us. idn' k = Some v"
        by (blast dest: conjunct1 conjunct2)+
      have "idn' k = Some v" using h(1) by (auto simp: map_le_def)
      with h(2) have "\<forall>(k, v) \<in> set ((k, v) # us). idn' k = Some v" by simp
      with ext [OF None h(1)] show ?thesis by blast
    next
      case (Some w)
      then have w: "w = v" "bind_once idn us = Inr (idn', ch)" using 2 by (auto split: if_splits)
      from "2.IH"(4) [OF Some] w have h: "idn \<subseteq>\<^sub>m idn'" "\<forall>(k, v) \<in> set us. idn' k = Some v"
        by auto
      have "idn' k = Some v" using h(1) Some w by (auto simp: map_le_def dom_def)
      with h show ?thesis by auto
    qed }
qed auto

lemma ok_bind [okay]:
  assumes "\<And>idn ch. rn_identity r \<subseteq>\<^sub>m idn \<Longrightarrow> \<forall>(k, v) \<in> set us. idn k = Some v \<Longrightarrow>
      reaction_ok r (k (r\<lparr>rn_identity := idn\<rparr>) ch)"
  shows "reaction_ok r (bind_all r us k)"
proof (cases "bind_once (rn_identity r) us")
  case (Inl idn)
  then have "soft r (r\<lparr>rn_identity := idn\<rparr>)"
    using bind_once_extends(1) [OF Inl] by (simp add: soft_def)
  with Inl show ?thesis by (simp add: bind_all_def)
next
  case (Inr p)
  then obtain idn ch where p: "bind_once (rn_identity r) us = Inr (idn, ch)" by (cases p) auto
  with bind_once_extends(2) [OF p] assms [of idn ch] show ?thesis by (simp add: bind_all_def)
qed

lemma soft_cancel [simp]: "soft r (r\<lparr>rn_cancel := True\<rparr>)"
  by (simp add: soft_def)

subsection \<open>The handlers\<close>

lemma stages_update [simp]:
  "stages_ok (r\<lparr>rn_phase := p\<rparr>) = stages_ok r" "stages_ok (r\<lparr>rn_gate := g\<rparr>) = stages_ok r"
  "stages_ok (r\<lparr>rn_last_gate := g\<rparr>) = stages_ok r" "stages_ok (r\<lparr>rn_functional := f\<rparr>) = stages_ok r"
  "stages_ok (r\<lparr>rn_cleanup := c\<rparr>) = stages_ok r" "stages_ok (r\<lparr>rn_recovery := b\<rparr>) = stages_ok r"
  "stages_ok (r\<lparr>rn_cancel := b\<rparr>) = stages_ok r"
  by (simp_all add: stages_ok_def)

lemmas write_simps = write_ok_def edits_def released_def ending_ok_def

lemma ok_transition: "reaction_ok r (react_transition phase gate r)"
  unfolding react_transition_def Let_def
  apply (intro okay soft_refl)
  apply (simp add: write_simps allowed_transitions_def; cases "rn_phase r"; auto)
  done

lemma ok_pass_gate: "reaction_ok r (react_pass_gate gate r)"
  unfolding react_pass_gate_def Let_def
  by (intro okay soft_refl) (auto simp: write_simps)

lemma ok_bind_authority: "reaction_ok r (react_bind_authority room v seat role r)"
  unfolding react_bind_authority_def Let_def
  by (intro okay soft_refl)
   (simp_all add: write_simps stages_identity)

lemma bound_some: "idn k = Some (Id_number n) \<Longrightarrow> bound idn k"
  "idn k = Some (Id_text t) \<Longrightarrow> t \<noteq> [] \<Longrightarrow> bound idn k"
  by (simp_all add: bound_def is_unset_def)

lemma bound_bounded: "bounded n v = Inr t \<Longrightarrow> idn k = Some (Id_text t) \<Longrightarrow> bound idn k"
  by (auto simp: bounded_def bound_def is_unset_def split: option.splits if_splits)

lemma stages_rebind: "stages_ok r \<Longrightarrow> rn_identity r \<subseteq>\<^sub>m idn \<Longrightarrow> stages_ok (r\<lparr>rn_identity := idn\<rparr>)"
  by (rule stages_identity) simp_all

lemma stages_acquire:
  assumes "stages_ok r" "rn_identity r \<subseteq>\<^sub>m idn" "bound idn Id_wrapper_pid"
    "rn_mode r \<in> direct_modes \<or> bound (rn_identity r) Id_room"
  shows "stages_ok (r\<lparr>rn_identity := idn,
           rn_owns := (rn_owns r)\<lparr>ow_wrapper_acquired := True, ow_wrapper_count := 1\<rparr>\<rparr>)"
  using stages_rebind [OF assms(1,2)] assms(3,4) bound_mono [OF assms(2), of Id_room]
  by (auto simp: stages_ok_def Let_def)

lemma stages_ready:
  assumes "stages_ok r" "rn_identity r \<subseteq>\<^sub>m idn" "bound idn Id_phy" "ow_wrapper_acquired (rn_owns r)"
  shows "stages_ok (r\<lparr>rn_identity := idn, rn_owns := (rn_owns r)\<lparr>ow_p0_ready := True\<rparr>\<rparr>)"
  using stages_rebind [OF assms(1,2)] assms(3,4) by (simp add: stages_ok_def Let_def)

lemma stages_reserve:
  assumes "stages_ok r" "rn_identity r \<subseteq>\<^sub>m idn" "bound idn Id_launch_nonce" "ow_p0_ready (rn_owns r)"
    "rn_mode r \<in> direct_modes \<or> bound (rn_identity r) Id_attempt"
  shows "stages_ok (r\<lparr>rn_identity := idn,
           rn_owns := (rn_owns r)\<lparr>ow_launch_reserved := True, ow_launch_count := 1\<rparr>\<rparr>)"
  using stages_rebind [OF assms(1,2)] assms(3-5) bound_mono [OF assms(2), of Id_attempt]
  by (auto simp: stages_ok_def Let_def)

lemma stages_started:
  assumes "stages_ok r" "rn_identity r \<subseteq>\<^sub>m idn" "bound idn Id_endpoint_pid" "ow_launch_reserved (rn_owns r)"
  shows "stages_ok (r\<lparr>rn_identity := idn, rn_owns := (rn_owns r)\<lparr>ow_endpoint_started := True\<rparr>\<rparr>)"
  using stages_rebind [OF assms(1,2)] assms(3,4) by (simp add: stages_ok_def Let_def)

lemma stages_gates [simp]:
  "stages_ok (r\<lparr>rn_owns := w, rn_last_gate := g, rn_gate := h\<rparr>) = stages_ok (r\<lparr>rn_owns := w\<rparr>)"
  by (simp add: stages_ok_def)

lemma ok_acquire_wrapper: "reaction_ok r (react_acquire_wrapper pid ticks adapter usb bus r)"
  unfolding react_acquire_wrapper_def Let_def
  by (intro okay soft_refl)
    (auto simp del: One_nat_def simp: write_simps owns_le_def bound_def [symmetric] intro!: stages_acquire bound_some)

lemma ok_mark_p0_ready: "reaction_ok r (react_mark_p0_ready pid ticks phy netdev r)"
  unfolding react_mark_p0_ready_def Let_def
  by (intro okay soft_refl)
    (auto simp del: One_nat_def simp: write_simps owns_le_def intro!: stages_ready intro: bound_bounded)

lemma ok_lock_attempt: "reaction_ok r (react_lock_attempt attempt v r)"
  unfolding react_lock_attempt_def Let_def
  by (intro okay soft_refl) (simp_all add: write_simps stages_rebind)

lemma ok_reserve_launch: "reaction_ok r (react_reserve_launch nonce r)"
  unfolding react_reserve_launch_def Let_def
  by (intro okay soft_refl)
    (auto simp del: One_nat_def simp: write_simps owns_le_def bound_def [symmetric] intro!: stages_reserve
      intro: bound_bounded)

lemma ok_acknowledge_endpoint: "reaction_ok r (react_acknowledge_endpoint nonce pid ticks r)"
  unfolding react_acknowledge_endpoint_def Let_def
  by (intro okay soft_refl) (auto simp del: One_nat_def simp: write_simps owns_le_def intro!: stages_started bound_some)

lemma ok_cancel: "reaction_ok r (react_request_cancel code message r)"
  unfolding react_request_cancel_def Let_def
  by (intro okay soft_refl soft_cancel)
   (simp add: write_simps enter_closing_def set_functional_def; cases "rn_phase r"; simp)

lemma ok_close_run: "reaction_ok r (react_close_run outcome code message r)"
  unfolding react_close_run_def Let_def
  by (intro okay soft_refl)
    (simp add: write_simps enter_closing_def set_functional_def; cases "rn_phase r"; simp)

lemma ok_begin_cleanup: "reaction_ok r (react_begin_cleanup r)"
  unfolding react_begin_cleanup_def by (intro okay soft_refl) (simp add: write_simps)

lemma ok_retry_cleanup: "reaction_ok r (react_retry_cleanup r)"
  unfolding react_retry_cleanup_def by (intro okay soft_refl) (simp add: write_simps)

lemma ok_complete_cleanup: "reaction_ok r (react_complete_cleanup now verified ev code message r)"
  unfolding react_complete_cleanup_def Let_def
  by (intro okay soft_refl) (simp_all add: write_simps)

lemmas handlers_ok = ok_transition ok_pass_gate ok_bind_authority ok_acquire_wrapper ok_mark_p0_ready
  ok_lock_attempt ok_reserve_launch ok_acknowledge_endpoint ok_cancel ok_close_run ok_begin_cleanup
  ok_retry_cleanup ok_complete_cleanup

end
