(* ===== verification/Coordinator_Props.thy ===== *)
theory Coordinator_Props
  imports Coordinator_Inv
begin

section \<open>The coordinator over any sequence of commands and restarts\<close>

text \<open>
  Memory and disk together: every record on disk is well formed, the pointer names the one run
  that is not released, and the record in memory is the one on disk up to what failed commands
  have left behind.  A new process may start at any moment.  The properties of the coordinator
  follow from the invariant and from the relation between the disks of two moments.
\<close>

subsection \<open>The invariant\<close>

definition store_ok :: "coordinator \<Rightarrow> bool" where
  "store_ok s \<longleftrightarrow>
     (\<forall>i d. co_disk s i = Some d \<longrightarrow>
        rn_id d = i \<and> 1 \<le> rn_revision d \<and> good_record d \<and> (\<not> released d \<longrightarrow> co_active s = Some i)) \<and>
     (\<forall>i. co_active s = Some i \<longrightarrow> (\<exists>d. co_disk s i = Some d \<and> \<not> released d))"

definition memory_ok :: "coordinator \<Rightarrow> bool" where
  "memory_ok s \<longleftrightarrow>
     (case co_current s of
        None \<Rightarrow> co_active s = None
      | Some r \<Rightarrow> (\<exists>d. co_disk s (rn_id r) = Some d \<and> soft d r) \<and> (released r \<longrightarrow> co_active s = None))"

definition coord_inv :: "coordinator \<Rightarrow> bool" where
  "coord_inv s \<longleftrightarrow> store_ok s \<and> memory_ok s"

definition disk_follows :: "coordinator \<Rightarrow> coordinator \<Rightarrow> bool" where
  "disk_follows s t \<longleftrightarrow> (\<forall>i d. co_disk s i = Some d \<longrightarrow> (\<exists>d'. co_disk t i = Some d' \<and> advance d d'))"

definition conn_step :: "coordinator \<Rightarrow> coordinator \<Rightarrow> bool" where
  "conn_step s t \<longleftrightarrow>
     (\<exists>now fresh c. t = snd (submit now fresh c s)) \<or> (\<exists>now. t = snd (restart now s))"

text \<open>The coordinator of a machine that has never run a connection.\<close>

definition first_start :: coordinator where
  "first_start = \<lparr>co_current = None, co_disk = Map.empty, co_active = None\<rparr>"

lemma first_start_ok: "coord_inv first_start"
  by (simp add: coord_inv_def store_ok_def memory_ok_def first_start_def)

lemma disk_follows_refl [simp]: "disk_follows s s"
  by (simp add: disk_follows_def)

lemma disk_follows_trans: "disk_follows s t \<Longrightarrow> disk_follows t u \<Longrightarrow> disk_follows s u"
  unfolding disk_follows_def by (meson advance_trans)

lemma memory_disk:
  assumes "coord_inv s" "co_current s = Some r"
  obtains d where "co_disk s (rn_id r) = Some d" "soft d r" "rn_id d = rn_id r" "good_record d"
    "1 \<le> rn_revision d" "released d = released r"
proof -
  obtain d where d: "co_disk s (rn_id r) = Some d" "soft d r"
    using assms by (auto simp: coord_inv_def memory_ok_def)
  then have "rn_id d = rn_id r" "good_record d" "1 \<le> rn_revision d"
    using assms(1) by (auto simp: coord_inv_def store_ok_def)
  moreover have "rn_id r = rn_id d" "released r = released d" using soft_same(1,7) [OF d(2)] .
  ultimately show ?thesis using that [OF d] by metis
qed

lemma soft_good: "soft d r \<Longrightarrow> good_record d \<Longrightarrow> good_record r"
proof -
  assume s: "soft d r" and g: "good_record d"
  have "stages_ok r"
    by (rule stages_identity [of d]) (use s g in \<open>simp_all add: soft_def good_record_def\<close>)
  then show "good_record r" using g soft_same(8,9) [OF s] by (simp add: good_record_def)
qed

subsection \<open>Stamping and writing\<close>

lemma stamp_keeps [simp]:
  "rn_id (stamp t e r) = rn_id r" "rn_phase (stamp t e r) = rn_phase r"
  "rn_cleanup (stamp t e r) = rn_cleanup r" "rn_revision (stamp t e r) = Suc (rn_revision r)"
  "rn_identity (stamp t e r) = rn_identity r" "rn_owns (stamp t e r) = rn_owns r"
  "rn_mode (stamp t e r) = rn_mode r" "rn_functional (stamp t e r) = rn_functional r"
  "rn_recovery (stamp t e r) = rn_recovery r" "rn_cancel (stamp t e r) = rn_cancel r"
  "rn_created (stamp t e r) = rn_created r" "rn_gate (stamp t e r) = rn_gate r"
  "rn_last_gate (stamp t e r) = rn_last_gate r"
  "released (stamp t e r) = released r" "stages_ok (stamp t e r) = stages_ok r"
  "ending_ok (stamp t e r) = ending_ok r"
  by (simp_all add: stamp_def Let_def released_def stages_ok_def ending_ok_def)

lemma edits_stamp [simp]: "edits r (stamp t e r') = edits r r'"
  by (simp add: edits_def)

lemma history_stamp:
  assumes "history_ok r"
  shows "history_ok (stamp t e r)"
proof -
  define n where "n = rn_revision r"
  define l where "l = length (rn_history r)"
  define k where "k = l + 1 - max_history"
  have h: "map he_revision (rn_history r) = [Suc n - l ..< Suc n]" "l = min n max_history"
    using assms by (simp_all add: history_ok_def n_def l_def)
  have ln: "l \<le> n" using h(2) by simp
  have kl: "k \<le> l" by (simp add: k_def max_history_def)
  obtain x where x: "rn_history (stamp t e r) = drop k (rn_history r @ [x])" "he_revision x = Suc n"
    by (simp add: stamp_def Let_def k_def l_def n_def)
  have nh: "map he_revision (rn_history (stamp t e r)) = drop k ([Suc n - l ..< Suc n] @ [Suc n])"
    by (simp only: x drop_map [symmetric] map_append h(1) list.map)
  have "[Suc n - l ..< Suc n] @ [Suc n] = [Suc n - l ..< Suc (Suc n)]"
    using ln by (simp add: upt_Suc_append [symmetric])
  then have m: "map he_revision (rn_history (stamp t e r)) = [Suc n - l + k ..< Suc (Suc n)]"
    using nh by (simp del: upt_Suc)
  have len: "length (rn_history (stamp t e r)) = Suc l - k"
    by (simp add: x l_def)
  have "Suc l - k = min (Suc n) max_history"
    using h(2) by (auto simp: k_def min_def max_history_def)
  moreover have "Suc (Suc n) - (Suc l - k) = Suc n - l + k" using ln kl by simp
  ultimately show ?thesis using m len by (simp add: history_ok_def n_def [symmetric] del: upt_Suc)
qed

text \<open>Writing a well-formed record whose predecessor on disk, if any, it follows.\<close>

lemma persist_ok:
  assumes s: "store_ok s" and c: "co_current s = Some r"
    and g: "stages_ok r" "ending_ok r" "history_ok r"
    and old: "\<And>d. co_disk s (rn_id r) = Some d \<Longrightarrow> edits d r \<and> rn_revision d \<le> rn_revision r \<and> \<not> released d"
    and act: "co_active s = None \<or> co_active s = Some (rn_id r)"
    and p: "persist now event s = (res, t)"
  shows "coord_inv t \<and> disk_follows s t \<and> res = Inr (stamp now event r) \<and> co_current t = Some (stamp now event r)"
proof -
  define w where "w = stamp now event r"
  have ri: "rn_id (stamp now event r) = rn_id r" "released (stamp now event r) = released r" by simp_all
  have e: "persist now event s =
      (Inr w, s\<lparr>co_current := Some w, co_disk := (co_disk s)(rn_id r \<mapsto> w),
                co_active := (if released r then None else Some (rn_id r))\<rparr>)"
    unfolding persist_def c w_def Let_def option.case ri ..
  have t: "co_current t = Some w" "co_disk t = (co_disk s)(rn_id r \<mapsto> w)"
      "co_active t = (if released r then None else Some (rn_id r))"
    using arg_cong [OF p, of snd] unfolding e snd_conv by (auto simp del: fun_upd_apply)
  have res: "res = Inr w" using arg_cong [OF p, of fst] unfolding e fst_conv by (rule sym)
  have good: "good_record w" using g history_stamp [OF g(3)] by (simp add: good_record_def w_def)
  have others: "released d" if "co_disk s i = Some d" "i \<noteq> rn_id r" for i d
  proof (rule ccontr)
    assume "\<not> released d"
    then have "co_active s = Some i" using s that(1) unfolding store_ok_def by blast
    with act that(2) show False by simp
  qed
  have "store_ok t"
    unfolding store_ok_def
  proof (intro conjI allI impI)
    fix i d
    assume d: "co_disk t i = Some d"
    have here: "d = w" if "i = rn_id r" using d that by (simp add: t)
    have there: "co_disk s i = Some d" if "i \<noteq> rn_id r" using d that by (simp add: t)
    have far: "rn_id d = i \<and> 1 \<le> rn_revision d \<and> good_record d" if "i \<noteq> rn_id r"
      using s there [OF that] unfolding store_ok_def by blast
    show "rn_id d = i" using here far by (cases "i = rn_id r") (simp_all add: w_def)
    show "1 \<le> rn_revision d" using here far by (cases "i = rn_id r") (simp_all add: w_def)
    show "good_record d" using here far good by (cases "i = rn_id r") simp_all
    show "co_active t = Some i" if u: "\<not> released d"
    proof (cases "i = rn_id r")
      case True
      then show ?thesis using here u by (simp add: t w_def)
    next
      case False
      then show ?thesis using others [OF there] u by blast
    qed
  next
    fix i
    assume "co_active t = Some i"
    then show "\<exists>d. co_disk t i = Some d \<and> \<not> released d" by (auto simp: t w_def split: if_splits)
  qed
  moreover have "memory_ok t" by (simp add: memory_ok_def t w_def)
  moreover have "disk_follows s t"
    unfolding disk_follows_def
  proof (intro allI impI)
    fix i d
    assume d: "co_disk s i = Some d"
    show "\<exists>d'. co_disk t i = Some d' \<and> advance d d'"
    proof (cases "i = rn_id r")
      case True
      then have "edits d w" "rn_revision d < rn_revision w" "\<not> released d"
        using old d by (auto simp: w_def)
      then show ?thesis using True by (simp add: t advance_def)
    qed (simp add: t d)
  qed
  ultimately show ?thesis using t res by (simp add: coord_inv_def w_def)
qed

subsection \<open>Every command and every restart\<close>

lemma store_only_disk:
  assumes "co_disk t = co_disk s" "co_active t = co_active s"
  shows "store_ok t = store_ok s" "disk_follows s t"
  using assms by (simp_all add: store_ok_def disk_follows_def)

lemma active_current:
  assumes "coord_inv s" "co_current s = Some r"
  shows "co_active s = (if released r then None else Some (rn_id r))"
proof -
  obtain d where d: "co_disk s (rn_id r) = Some d" "released d = released r"
    using memory_disk [OF assms] by metis
  show ?thesis
  proof (cases "released r")
    case False
    then show ?thesis using assms(1) d unfolding coord_inv_def store_ok_def by metis
  next
    case True
    then show ?thesis using assms by (simp add: coord_inv_def memory_ok_def)
  qed
qed

lemma serve_ok:
  assumes inv: "coord_inv s" and h: "\<And>r. reaction_ok r (f r)"
    and r: "serve now i f s = (res, t)"
  shows "coord_inv t \<and> disk_follows s t"
proof -
  consider "t = s" | (found) r where "co_current s = Some r" "i = Some (rn_id r)"
    using r by (auto simp: serve_def split: option.splits if_splits)
  then show ?thesis
  proof cases
    case 1
    then show ?thesis using inv by simp
  next
    case (found r)
    obtain d where d: "co_disk s (rn_id r) = Some d" "soft d r" "good_record d" "released d = released r"
      using memory_disk [OF inv found(1)] by metis
    note good = soft_good [OF d(2,3)]
    show ?thesis
    proof (cases "f r")
      case (Raise e r')
      then have t: "t = s\<lparr>co_current := Some r'\<rparr>" using r found by (simp add: serve_def)
      have "soft r r'" using h [of r] Raise by simp
      then have "soft d r'" "rn_id r' = rn_id r" using soft_trans [OF d(2)] soft_same(1) by blast+
      moreover have "released r' \<longrightarrow> co_active s = None"
        using soft_same(7) [OF \<open>soft r r'\<close>] active_current [OF inv found(1)] by simp
      ultimately have "memory_ok t" using d(1) by (simp add: memory_ok_def t)
      moreover have "store_ok t" "disk_follows s t"
        using store_only_disk [of t s] inv by (simp_all add: t coord_inv_def)
      ultimately show ?thesis by (simp add: coord_inv_def)
    next
      case Answer
      then have "t = s" using r found by (simp add: serve_def)
      then show ?thesis using inv by simp
    next
      case (Write ev r')
      then have p: "persist now ev (s\<lparr>co_current := Some r'\<rparr>) = (res, t)"
        using r found by (simp add: serve_def)
      have w: "write_ok r r'" using h [of r] Write by simp
      then have w': "edits r r'" "\<not> released r" "rn_revision r' = rn_revision r" "rn_history r' = rn_history r"
        "rn_id r' = rn_id r" by (simp_all add: write_ok_def edits_def)
      have g: "stages_ok r'" "ending_ok r'" "history_ok r'"
        using w good by (simp_all add: write_ok_def good_record_def history_ok_def)
      have ed: "edits d r'" by (rule edits_trans [OF soft_edits [OF d(2)] w'(1)])
      have rev: "rn_revision d = rn_revision r'" using soft_same(2) [OF d(2)] w'(3) by simp
      have "coord_inv t \<and> disk_follows (s\<lparr>co_current := Some r'\<rparr>) t"
      proof -
        have "store_ok (s\<lparr>co_current := Some r'\<rparr>)"
          using inv store_only_disk(1) [of "s\<lparr>co_current := Some r'\<rparr>" s] by (simp add: coord_inv_def)
        from persist_ok [OF this _ g _ _ p] show ?thesis
          using d(1,4) ed rev w'(2,5) active_current [OF inv found(1)] by simp
      qed
      then show ?thesis by (simp add: disk_follows_def)
    qed
  qed
qed

lemma new_run_good:
  "stages_ok (new_run now m a u i)" "ending_ok (new_run now m a u i)" "history_ok (new_run now m a u i)"
  by (simp_all add: new_run_def stages_ok_def ending_ok_def history_ok_def)

lemma start_ok:
  assumes inv: "coord_inv s" and r: "cmd_start now fresh mode adapter usb run_id s = (res, t)"
  shows "coord_inv t \<and> disk_follows s t"
proof -
  consider "t = s"
    | (run) m a u i where "\<not> has_cleanup_guard s" "co_disk s i = None"
        "persist now ''run_created'' (s\<lparr>co_current := Some (new_run now m a u i)\<rparr>) = (res, t)"
    using r by (auto simp: cmd_start_def split: sum.splits option.splits if_splits prod.splits)
  then show ?thesis
  proof cases
    case 1
    then show ?thesis using inv by simp
  next
    case (run m a u i)
    let ?s = "s\<lparr>co_current := Some (new_run now m a u i)\<rparr>"
    have "store_ok ?s" using inv store_only_disk(1) [of ?s s] by (simp add: coord_inv_def)
    from persist_ok [OF this _ new_run_good _ _ run(3)]
    have "coord_inv t \<and> disk_follows ?s t"
      using run(1,2) by (simp add: new_run_def has_cleanup_guard_def)
    then show ?thesis by (simp add: disk_follows_def)
  qed
qed

lemma recovered_ok:
  assumes "\<not> released d"
  shows "edits d (recovered d)" "stages_ok (recovered d) = stages_ok d" "ending_ok (recovered d)"
    "rn_revision (recovered d) = rn_revision d" "rn_history (recovered d) = rn_history d"
    "rn_id (recovered d) = rn_id d" "\<not> released (recovered d)"
    "fu_status (rn_functional (recovered d)) \<noteq> Out_pending"
  using assms
  by (simp_all add: recovered_def set_functional_def edits_def ending_ok_def stages_ok_def released_def)
    (cases "rn_phase d"; simp)+

lemma restart_cases:
  assumes "store_ok s" "restart now s = (res, t)"
  shows "co_active s = None \<and> t = s\<lparr>co_current := None\<rparr> \<and> res = Inr () \<or>
    (\<exists>i d. co_active s = Some i \<and> co_disk s i = Some d \<and> \<not> released d \<and> res = Inr () \<and>
       persist now ''startup_recovery_required'' (s\<lparr>co_current := Some (recovered d)\<rparr>) =
         (Inr (stamp now ''startup_recovery_required'' (recovered d)), t))"
proof (cases "co_active s")
  case None
  then show ?thesis using assms(2) by (simp add: restart_def recover_def)
next
  case (Some i)
  then obtain d where d: "co_disk s i = Some d" "\<not> released d" "rn_id d = i" "1 \<le> rn_revision d" "good_record d"
    using assms(1) unfolding store_ok_def by blast
  then have "valid_record d"
    by (auto simp: valid_record_def good_record_def stages_ok_def Let_def)
  then show ?thesis
    using assms(2) Some d by (auto simp: restart_def recover_def persist_def Let_def)
qed

lemma restart_ok:
  assumes st: "store_ok s" and r: "restart now s = (res, t)"
  shows "coord_inv t \<and> disk_follows s t"
  using restart_cases [OF assms]
proof (elim disjE exE conjE)
  assume t: "co_active s = None" "t = s\<lparr>co_current := None\<rparr>"
  then show ?thesis using st store_only_disk [of t s] by (simp add: coord_inv_def memory_ok_def)
next
  fix i d
  assume a: "co_active s = Some i" "co_disk s i = Some d" "\<not> released d"
    and p: "persist now ''startup_recovery_required'' (s\<lparr>co_current := Some (recovered d)\<rparr>) =
         (Inr (stamp now ''startup_recovery_required'' (recovered d)), t)"
  let ?s = "s\<lparr>co_current := Some (recovered d)\<rparr>"
  have s': "store_ok ?s" using st store_only_disk(1) [of ?s s] by simp
  have d: "rn_id d = i" "good_record d" using st a(2) unfolding store_ok_def by blast+
  have g: "stages_ok (recovered d)" "ending_ok (recovered d)" "history_ok (recovered d)"
    using recovered_ok [OF a(3)] d(2) by (simp_all add: good_record_def history_ok_def)
  from persist_ok [OF s' _ g _ _ p] show ?thesis
    using a d recovered_ok [OF a(3)] by (simp add: disk_follows_def)
qed

lemma submit_ok:
  assumes "coord_inv s" "submit now fresh c s = (res, t)"
  shows "coord_inv t \<and> disk_follows s t"
  by (insert assms(2), cases c; simp only: submit.simps;
      (erule start_ok [OF assms(1)] | erule serve_ok [OF assms(1), rotated], rule handlers_ok))

lemma step_ok:
  assumes "conn_step s t" "coord_inv s"
  shows "coord_inv t \<and> disk_follows s t"
proof -
  have st: "store_ok s" using assms(2) by (simp add: coord_inv_def)
  from assms(1) show ?thesis
    unfolding conn_step_def
    by (metis prod.collapse submit_ok [OF assms(2)] restart_ok [OF st])
qed

interpretation conn: transition_follows conn_step coord_inv disk_follows
proof unfold_locales
  show "disk_follows s t \<Longrightarrow> disk_follows t u \<Longrightarrow> disk_follows s u" for s t u
    by (rule disk_follows_trans)
qed (auto dest: step_ok)

subsection \<open>A command repeated\<close>

lemma bind_once_bound: "list_all (\<lambda>(k, v). idn k = Some v) us \<Longrightarrow> bind_once idn us = Inr (idn, False)"
  by (induction idn us rule: bind_once.induct) auto

lemma bind_once_result:
  assumes "bind_once idn us = Inr (idn', ch)"
  shows "assert_bound idn' us" "bind_once idn' us = Inr (idn', False)" "\<not> is_unset idn k \<Longrightarrow> \<not> is_unset idn' k"
proof -
  from bind_once_extends(2) [OF assms]
  have e: "idn \<subseteq>\<^sub>m idn'" and b: "list_all (\<lambda>(k, v). idn' k = Some v) us" by (auto simp: list_all_iff)
  show "assert_bound idn' us" using b by (simp add: assert_bound_def)
  show "bind_once idn' us = Inr (idn', False)" by (rule bind_once_bound [OF b])
  show "\<not> is_unset idn k \<Longrightarrow> \<not> is_unset idn' k" using bound_mono [OF e] by (simp add: bound_def)
qed

lemma write_elims:
  "checked v r0 k = Write ev r' \<longleftrightarrow> (\<exists>x. v = Inr x \<and> k x = Write ev r')"
  "when_running r kk = Write ev r' \<longleftrightarrow> rn_phase r = Ph_running \<and> kk = Write ev r'"
  "require_bound r us kk = Write ev r' \<longleftrightarrow> assert_bound (rn_identity r) us \<and> kk = Write ev r'"
  "bind_all r us kb = Write ev r' \<longleftrightarrow>
     (\<exists>idn ch. bind_once (rn_identity r) us = Inr (idn, ch) \<and> kb (r\<lparr>rn_identity := idn\<rparr>) ch = Write ev r')"
  by (cases v; simp) (auto simp: when_running_def require_bound_def bind_all_def split: sum.splits)

lemma again_transition: "react_transition ph g r = Write ev r' \<Longrightarrow> react_transition ph g (stamp t ev r') = Answer"
  by (auto simp: react_transition_def write_elims split: if_splits option.splits)

lemma again_pass_gate: "react_pass_gate g r = Write ev r' \<Longrightarrow> react_pass_gate g (stamp t ev r') = Answer"
  by (auto simp: react_pass_gate_def write_elims split: if_splits)

lemma again_bind:
  assumes "bind_once (rn_identity r) us = Inr (idn, ch)" "rn_identity r' = idn"
  shows "bind_all r' us k = k (r'\<lparr>rn_identity := idn\<rparr>) False" "require_bound r' us m = m"
  using bind_once_result(1,2) [OF assms(1)] assms(2) by (simp_all add: bind_all_def require_bound_def)

lemma again_assert:
  assumes "bind_once idn us = Inr (idn', ch)" "assert_bound idn vs"
  shows "assert_bound idn' vs"
proof -
  from bind_once_extends(2) [OF assms(1)] have "idn \<subseteq>\<^sub>m idn'" ..
  then have "idn' k = Some v" if "idn k = Some v" for k v using that by (auto simp: map_le_def dom_def)
  with assms(2) show ?thesis by (auto simp: assert_bound_def list_all_iff)
qed

lemmas again_simps = write_elims when_running_def again_bind

lemma again_bind_authority:
  "react_bind_authority rm v st ro r = Write ev r' \<Longrightarrow> react_bind_authority rm v st ro (stamp t ev r') = Answer"
  unfolding react_bind_authority_def write_elims
  by (auto simp: when_running_def again_bind split: if_splits simp del: bind_once.simps)

lemma again_lock_attempt:
  "react_lock_attempt a v r = Write ev r' \<Longrightarrow> react_lock_attempt a v (stamp t ev r') = Answer"
  unfolding react_lock_attempt_def
  by (auto simp: write_elims when_running_def again_bind dest: bind_once_result(3)
      split: if_splits simp del: bind_once.simps)

lemma again_acquire_wrapper:
  "react_acquire_wrapper p tk a u b r = Write ev r' \<Longrightarrow> react_acquire_wrapper p tk a u b (stamp t ev r') = Answer"
  unfolding react_acquire_wrapper_def Let_def
  by (auto simp: again_simps dest: bind_once_result(3) again_assert
      split: if_splits simp del: bind_once.simps)

lemma again_mark_p0_ready:
  "react_mark_p0_ready p tk ph nd r = Write ev r' \<Longrightarrow> react_mark_p0_ready p tk ph nd (stamp t ev r') = Answer"
  unfolding react_mark_p0_ready_def Let_def
  by (auto simp: again_simps dest: again_assert split: if_splits simp del: bind_once.simps)
    (auto simp: require_bound_def dest: again_assert simp del: bind_once.simps)

lemma again_reserve_launch:
  "react_reserve_launch n r = Write ev r' \<Longrightarrow> react_reserve_launch n (stamp t ev r') = Answer"
  unfolding react_reserve_launch_def Let_def
  by (auto simp: again_simps dest: bind_once_result(3) split: if_splits simp del: bind_once.simps)

lemma again_acknowledge_endpoint:
  "react_acknowledge_endpoint n p tk r = Write ev r' \<Longrightarrow>
     react_acknowledge_endpoint n p tk (stamp t ev r') = Answer"
  unfolding react_acknowledge_endpoint_def Let_def
  by (auto simp: again_simps split: if_splits simp del: bind_once.simps)
    (auto simp: require_bound_def dest: again_assert simp del: bind_once.simps)

lemma again_request_cancel:
  "react_request_cancel c m r = Write ev r' \<Longrightarrow> react_request_cancel c m (stamp t ev r') = Answer"
  by (auto simp: react_request_cancel_def write_elims Let_def enter_closing_def set_functional_def split: if_splits)

lemma set_functional_known: "oc \<noteq> Out_pending \<Longrightarrow> fu_status (rn_functional (set_functional oc c m r)) \<noteq> Out_pending"
  by (simp add: set_functional_def)

lemma enter_closing_phase:
  "rn_phase (enter_closing r) = Ph_closing \<or> rn_phase (enter_closing r) = Ph_cleaning"
  "rn_phase (enter_closing r) \<noteq> Ph_terminal" "rn_functional (enter_closing r) = rn_functional r"
  by (auto simp: enter_closing_def)

lemma again_close_run:
  assumes "react_close_run oc c m r = Write ev r'"
  shows "react_close_run oc c m (stamp t ev r') = Answer"
proof -
  obtain x y z where a: "run_outcome_of oc = Inr x" "x \<noteq> Out_pending" "optional_code c = Inr y"
      "bounded_optional 500 m = Inr z" "\<not> (x \<in> {Out_failed, Out_interrupted} \<and> y = None)"
      "r' = enter_closing (set_functional x y z r)"
    using assms unfolding react_close_run_def by (auto simp: write_elims split: if_splits)
  have "fu_status (rn_functional r') \<noteq> Out_pending"
    unfolding a(6) enter_closing_phase(3) by (rule set_functional_known [OF a(2)])
  then show ?thesis
    using a(1-5) enter_closing_phase(1) [of "set_functional x y z r"]
    by (auto simp: react_close_run_def a(6))
qed

lemma again_begin_cleanup: "react_begin_cleanup r = Write ev r' \<Longrightarrow> react_begin_cleanup (stamp t ev r') = Answer"
  by (auto simp: react_begin_cleanup_def split: if_splits)

lemma again_retry_cleanup: "react_retry_cleanup r = Write ev r' \<Longrightarrow> react_retry_cleanup (stamp t ev r') = Answer"
  by (auto simp: react_retry_cleanup_def split: if_splits)

lemma again_complete_cleanup:
  "react_complete_cleanup now v e c m r = Write ev r' \<Longrightarrow>
     react_complete_cleanup now' v e c m (stamp t ev r') = Answer"
  unfolding react_complete_cleanup_def Let_def
  by (cases v) (auto simp: write_elims split: if_splits)

lemmas handlers_again = again_transition again_pass_gate again_bind_authority again_acquire_wrapper
  again_mark_p0_ready again_lock_attempt again_reserve_launch again_acknowledge_endpoint
  again_request_cancel again_close_run again_begin_cleanup again_retry_cleanup again_complete_cleanup

lemma serve_again:
  assumes h: "\<And>r ev r'. f r = Write ev r' \<Longrightarrow> g (stamp now ev r') = Answer"
    and a: "\<And>r. f r = Answer \<Longrightarrow> g r = Answer" and k: "\<And>r ev r'. f r = Write ev r' \<Longrightarrow> rn_id r' = rn_id r"
    and s: "serve now i f s = (Inr r, t)"
  shows "serve now' i g t = (Inr r, t)"
proof -
  obtain q where q: "co_current s = Some q" "i = Some (rn_id q)"
    using s by (auto simp: serve_def split: option.splits if_splits)
  show ?thesis
  proof (cases "f q")
    case (Raise e q')
    then show ?thesis using s q by (simp add: serve_def)
  next
    case Answer
    then have "r = q" "t = s" using s q by (simp_all add: serve_def)
    then show ?thesis using a [OF Answer] q by (simp add: serve_def)
  next
    case (Write ev q')
    then have p: "persist now ev (s\<lparr>co_current := Some q'\<rparr>) = (Inr r, t)" using s q by (simp add: serve_def)
    then have c: "r = stamp now ev q'" "co_current t = Some (stamp now ev q')"
      by (auto simp: persist_def Let_def)
    then show ?thesis using h [OF Write] k [OF Write] q by (simp add: serve_def)
  qed
qed

lemma write_same_run: "reaction_ok r (f r) \<Longrightarrow> f r = Write ev r' \<Longrightarrow> rn_id r' = rn_id r"
  by (simp add: write_ok_def edits_def)

lemma serve_same:
  assumes "serve now i f s = (Inr r, t)" "\<And>r. reaction_ok r (f r)"
    "\<And>r ev r'. f r = Write ev r' \<Longrightarrow> f (stamp now ev r') = Answer"
  shows "serve now' i f t = (Inr r, t)"
  using assms(1)
  by (rule serve_again [rotated 3]) (fact assms(3), assumption, rule write_same_run [OF assms(2)])

lemma complete_answer_time:
  "react_complete_cleanup now v e c m r = Answer \<Longrightarrow> react_complete_cleanup now' v e c m r = Answer"
  by (cases "conn_evidence e"; cases "optional_code c"; cases "bounded_optional 500 m")
    (auto simp: react_complete_cleanup_def Let_def split: if_splits)

lemma serve_complete:
  assumes "serve now i (react_complete_cleanup now v e c m) s = (Inr r, t)"
  shows "serve now' i (react_complete_cleanup now' v e c m) t = (Inr r, t)"
  using assms
  by (rule serve_again [rotated 3])
    (erule again_complete_cleanup, erule complete_answer_time, rule write_same_run [OF ok_complete_cleanup])

subsection \<open>What releases a run\<close>

text \<open>No other command turns the cleanup of a run into a verified one.\<close>

lemma set_functional_cleanup [simp]: "rn_cleanup (set_functional oc c m r) = rn_cleanup r"
  by (simp add: set_functional_def)

lemma enter_closing_cleanup [simp]: "rn_cleanup (enter_closing r) = rn_cleanup r"
  by (simp add: enter_closing_def)

lemma cleanup_untouched:
  "react_transition ph g r = Write ev r' \<Longrightarrow> rn_cleanup r' = rn_cleanup r"
  "react_pass_gate g r = Write ev r' \<Longrightarrow> rn_cleanup r' = rn_cleanup r"
  "react_bind_authority rm v st ro r = Write ev r' \<Longrightarrow> rn_cleanup r' = rn_cleanup r"
  "react_acquire_wrapper p tk a u b r = Write ev r' \<Longrightarrow> rn_cleanup r' = rn_cleanup r"
  "react_mark_p0_ready p tk phy nd r = Write ev r' \<Longrightarrow> rn_cleanup r' = rn_cleanup r"
  "react_lock_attempt att v r = Write ev r' \<Longrightarrow> rn_cleanup r' = rn_cleanup r"
  "react_reserve_launch n r = Write ev r' \<Longrightarrow> rn_cleanup r' = rn_cleanup r"
  "react_acknowledge_endpoint n p tk r = Write ev r' \<Longrightarrow> rn_cleanup r' = rn_cleanup r"
  "react_request_cancel c m r = Write ev r' \<Longrightarrow> rn_cleanup r' = rn_cleanup r"
  "react_close_run oc c m r = Write ev r' \<Longrightarrow> rn_cleanup r' = rn_cleanup r"
  "react_begin_cleanup r = Write ev r' \<Longrightarrow> rn_cleanup r' = rn_cleanup r"
  by (auto simp: react_transition_def react_pass_gate_def react_bind_authority_def
      react_acquire_wrapper_def react_mark_p0_ready_def react_lock_attempt_def
      react_reserve_launch_def react_acknowledge_endpoint_def react_request_cancel_def
      react_close_run_def react_begin_cleanup_def write_elims Let_def
      split: if_splits simp del: bind_once.simps)

lemma cleanup_retried:
  "react_retry_cleanup r = Write ev r' \<Longrightarrow> cl_verified (rn_cleanup r') = cl_verified (rn_cleanup r)"
  by (auto simp: react_retry_cleanup_def split: if_splits)

lemma cleanup_completed:
  "react_complete_cleanup now v e c m r = Write ev r' \<Longrightarrow>
     cl_verified (rn_cleanup r') = v \<and> rn_phase r = Ph_cleaning \<and> fu_status (rn_functional r) \<noteq> Out_pending
       \<and> conn_evidence e = Inr (cl_evidence (rn_cleanup r'))"
  by (auto simp: react_complete_cleanup_def write_elims Let_def split: if_splits)

lemma serve_release:
  assumes "coord_inv s" "serve now j f s = (res, t)" "co_disk s i = Some d" "\<not> released d"
    "co_disk t i = Some d'" "released d'"
  obtains r ev r' where "co_current s = Some r" "j = Some i" "rn_id r = i" "f r = Write ev r'"
    "soft d r" "d' = stamp now ev r'" "\<not> cl_verified (rn_cleanup r)"
proof -
  have "co_disk t \<noteq> co_disk s" using assms(3-6) by auto
  then obtain r ev r' where w: "co_current s = Some r" "j = Some (rn_id r)" "f r = Write ev r'"
      "persist now ev (s\<lparr>co_current := Some r'\<rparr>) = (res, t)"
    using assms(2) by (auto simp: serve_def split: option.splits if_splits reaction.splits)
  have t: "co_disk t = (co_disk s)(rn_id r' \<mapsto> stamp now ev r')"
    using w(4) by (auto simp: persist_def Let_def)
  have i: "rn_id r' = i" using t assms(3-6) by (auto split: if_splits)
  have ii: "rn_id r = i"
  proof -
    obtain e where e: "co_disk s (rn_id r) = Some e" "released e = released r"
      using memory_disk [OF assms(1) w(1)] by metis
    have a: "co_active s = Some i" using assms(1,3,4) unfolding coord_inv_def store_ok_def by blast
    then show ?thesis using active_current [OF assms(1) w(1)] by (auto split: if_splits)
  qed
  have d: "soft d r" using memory_disk [OF assms(1) w(1)] assms(3) ii by (metis option.inject)
  have "ending_ok d" using assms(1,3) unfolding coord_inv_def store_ok_def good_record_def by blast
  then have "\<not> cl_verified (rn_cleanup r)"
    using assms(4) soft_same(4) [OF d] by (auto simp: ending_ok_def released_def)
  moreover have "d' = stamp now ev r'" using t i assms(5) by simp
  ultimately show ?thesis using that w ii d by blast
qed

end
