(* ===== verification/Coordinator_Claims.thy ===== *)
theory Coordinator_Claims
  imports Coordinator_Props
begin

section \<open>Properties of the connection coordinator\<close>

text \<open>
  The statements about the coordinator, each for every state that commands and restarts can lead
  to from an empty directory, and one run whose start and restart serve as their witness.
\<close>

lemma reachable_inv: "conn_step\<^sup>*\<^sup>* first_start s \<Longrightarrow> coord_inv s"
  by (rule conn.runs_inv [OF _ first_start_ok])

lemma reachable_store: "conn_step\<^sup>*\<^sup>* first_start s \<Longrightarrow> store_ok s"
  using reachable_inv by (simp add: coord_inv_def)

subsection \<open>A run that is started and then interrupted\<close>

definition demo_fresh :: run_record where
  "demo_fresh = new_run ''t0'' Mode_direct_a (Some ''usb-1'') (Some ''0bda:1'') 7"

definition demo_saved :: run_record where
  "demo_saved = stamp ''t0'' ''run_created'' demo_fresh"

definition demo_started :: coordinator where
  "demo_started = \<lparr>co_current = Some demo_saved, co_disk = [7 \<mapsto> demo_saved], co_active = Some 7\<rparr>"

definition demo_restarted :: coordinator where
  "demo_restarted = snd (restart ''t1'' demo_started)"

lemma demo_adapter: "start_adapter Mode_direct_a (Some ''usb-1'') (Some ''0BDA:1'') = Inr (Some ''usb-1'', Some ''0bda:1'')"
  by code_simp

lemma demo_unreleased: "\<not> released demo_fresh" "\<not> released demo_saved" "rn_id demo_fresh = 7" "rn_id demo_saved = 7"
  by (simp_all add: demo_fresh_def demo_saved_def released_def new_run_def)

lemma demo_start:
  "submit ''t0'' 7 (Do_start ''direct_a'' (Some ''usb-1'') (Some ''0BDA:1'') None) first_start =
     (Inr demo_saved, demo_started)"
  using demo_unreleased
  by (simp add: cmd_start_def run_mode_of_def has_cleanup_guard_def first_start_def demo_adapter persist_def
      Let_def demo_fresh_def [symmetric] demo_saved_def [symmetric] demo_started_def)

lemma demo_reachable: "conn_step\<^sup>*\<^sup>* first_start demo_started"
proof (rule r_into_rtranclp)
  show "conn_step first_start demo_started"
    unfolding conn_step_def using arg_cong [OF demo_start, of snd] by (metis snd_conv)
qed

lemma demo_restart_step: "conn_step\<^sup>*\<^sup>* demo_started demo_restarted"
  by (rule r_into_rtranclp) (auto simp: conn_step_def demo_restarted_def)

subsection \<open>A complete run\<close>

fun run_all :: "conn_command list \<Rightarrow> coordinator \<Rightarrow> coordinator" where
  "run_all [] s = s"
| "run_all (c # cs) s = run_all cs (snd (submit ''t'' 7 c s))"

lemma run_all_reachable: "conn_step\<^sup>*\<^sup>* s (run_all cs s)"
proof (induction cs arbitrary: s)
  case (Cons c cs)
  have "conn_step s (snd (submit ''t'' 7 c s))" by (auto simp: conn_step_def)
  with Cons show ?case by (simp add: converse_rtranclp_into_rtranclp)
qed simp

definition launch_commands :: "conn_command list" where
  "launch_commands =
     [Do_start ''direct_a'' (Some ''usb-1'') (Some ''0BDA:1'') None,
      Do_transition (Some 7) ''preflight'' None, Do_transition (Some 7) ''running'' None,
      Do_acquire_wrapper (Some 7) 41 5 (Some ''usb-1'') (Some ''0BDA:1'') (Some ''1-1''),
      Do_mark_p0_ready (Some 7) 41 5 (Some ''phy0'') (Some ''wlan0''),
      Do_reserve_launch (Some 7) (Some ''0123456789abcdef0123456789abcdef''),
      Do_acknowledge_endpoint (Some 7) (Some ''0123456789abcdef0123456789abcdef'') 42 6]"

definition closing_commands :: "conn_command list" where
  "closing_commands = launch_commands @
     [Do_close_run (Some 7) ''passed'' None None, Do_begin_cleanup (Some 7)]"

definition launched :: coordinator where "launched = run_all launch_commands first_start"
definition cleaning :: coordinator where "cleaning = run_all closing_commands first_start"

lemma launched_run: "case co_disk launched 7 of None \<Rightarrow> False | Some d \<Rightarrow> ow_endpoint_started (rn_owns d)"
  by code_simp

lemma launched_record:
  obtains d where "co_disk launched 7 = Some d" "ow_endpoint_started (rn_owns d)"
  using launched_run by (auto split: option.splits)

lemma launched_reachable: "conn_step\<^sup>*\<^sup>* first_start launched"
  unfolding launched_def by (rule run_all_reachable)

lemma cleaning_reachable: "conn_step\<^sup>*\<^sup>* first_start cleaning"
  unfolding cleaning_def by (rule run_all_reachable)

lemma cleaning_run:
  "case co_disk cleaning 7 of None \<Rightarrow> False | Some d \<Rightarrow> \<not> released d"
  "case co_disk (snd (submit ''t'' 7 (Do_complete_cleanup (Some 7) True None None None) cleaning)) 7 of
     None \<Rightarrow> False | Some d \<Rightarrow> released d"
  by code_simp+

subsection \<open>Safety over all commands and restarts\<close>

text \<open>
  C9: Whatever commands, refusals and restarts follow, the record of a run on disk only moves
  forward: its identity fields are bound once and never rebound, what it owns is never given back,
  a decided outcome and a cancellation stay, the phase does not fall back, a rewritten record has a
  higher revision, and the record of a released run never changes again.
\<close>

theorem coordinator_never_goes_back:
  assumes "conn_step\<^sup>*\<^sup>* first_start s" "conn_step\<^sup>*\<^sup>* s t" "co_disk s i = Some d"
  shows "\<exists>d'. co_disk t i = Some d' \<and> advance d d'"
  using conn.runs_follow [OF assms(2) reachable_inv [OF assms(1)]] assms(3)
  by (simp add: disk_follows_def)

lemma coordinator_never_goes_back_witness:
  "\<exists>d'. co_disk demo_restarted 7 = Some d' \<and> advance demo_saved d'"
  by (rule coordinator_never_goes_back [OF demo_reachable demo_restart_step]) (simp add: demo_started_def)

text \<open>
  C10: At most one run of a machine is unresolved, and as long as one is, starting another run is
  refused and changes nothing.
\<close>

theorem one_unresolved_run:
  assumes "conn_step\<^sup>*\<^sup>* first_start s" "co_disk s i = Some d" "\<not> released d"
    "co_disk s j = Some e" "\<not> released e" "run_mode_of mode = Inr m"
  shows "i = j \<and> submit now fresh (Do_start mode adapter usb run_id) s = (Inl Run_active, s)"
proof -
  have st: "store_ok s" by (rule reachable_store [OF assms(1)])
  then have a: "co_active s = Some i" "co_active s = Some j"
    using assms(2-5) unfolding store_ok_def by blast+
  then have "has_cleanup_guard s" by (simp add: has_cleanup_guard_def)
  with a assms(6) show ?thesis by (simp add: cmd_start_def)
qed

lemma one_unresolved_run_witness:
  "(7 :: int) = 7 \<and> submit ''t1'' 8 (Do_start ''normal'' None None None) demo_started = (Inl Run_active, demo_started)"
  by (rule one_unresolved_run [OF demo_reachable _ demo_unreleased(2) _ demo_unreleased(2)])
    (simp_all add: demo_started_def run_mode_of_def)

text \<open>
  C11: An endpoint counts as started only after one reserved launch, on one acquired wrapper that
  reached P0 readiness, with its process, wrapper and launch nonce bound; outside the direct modes
  also only with a room bound by the authority and a locked attempt.
\<close>

theorem launch_needs_every_stage:
  assumes "conn_step\<^sup>*\<^sup>* first_start s" "co_disk s i = Some d" "ow_endpoint_started (rn_owns d)"
  shows "ow_launch_count (rn_owns d) = 1 \<and> ow_wrapper_count (rn_owns d) = 1 \<and> ow_p0_ready (rn_owns d) \<and>
    bound (rn_identity d) Id_endpoint_pid \<and> bound (rn_identity d) Id_launch_nonce \<and>
    bound (rn_identity d) Id_wrapper_pid \<and>
    (rn_mode d \<in> direct_modes \<or> bound (rn_identity d) Id_room \<and> bound (rn_identity d) Id_attempt)"
proof -
  have "stages_ok d"
    using reachable_store [OF assms(1)] assms(2) unfolding store_ok_def good_record_def by blast
  with assms(3) show ?thesis by (auto simp: stages_ok_def Let_def)
qed

lemma launch_needs_every_stage_witness:
  "\<exists>d. co_disk launched 7 = Some d \<and> ow_launch_count (rn_owns d) = 1 \<and> bound (rn_identity d) Id_wrapper_pid"
proof -
  obtain d where d: "co_disk launched 7 = Some d" "ow_endpoint_started (rn_owns d)" by (rule launched_record)
  from launch_needs_every_stage [OF launched_reachable d] d(1) show ?thesis by blast
qed

text \<open>
  C24: A run is released by nothing but a completed cleanup that was verified: on the run in its
  cleaning phase, with its outcome decided before, and with the evidence of that command recorded.
\<close>

theorem released_only_by_verified_cleanup:
  assumes "conn_step\<^sup>*\<^sup>* first_start s" "submit now fresh c s = (res, t)"
    "co_disk s i = Some d" "\<not> released d" "co_disk t i = Some d'" "released d'"
  shows "\<exists>ev code message. c = Do_complete_cleanup (Some i) True ev code message \<and>
    rn_phase d = Ph_cleaning \<and> fu_status (rn_functional d) \<noteq> Out_pending \<and>
    conn_evidence ev = Inr (cl_evidence (rn_cleanup d'))"
proof -
  have inv: "coord_inv s" by (rule reachable_inv [OF assms(1)])
  note rel = serve_release [OF inv _ assms(3-6)]
  have v: "cl_verified (rn_cleanup d')" using assms(6) by (simp add: released_def)
  show ?thesis
  proof (cases c)
    case (Do_start mode a u r)
    have "co_disk t i = co_disk s i"
      using assms(2,3) inv Do_start
      by (auto simp: cmd_start_def persist_def Let_def new_run_def
          split: sum.splits option.splits if_splits prod.splits)
    then show ?thesis using assms(3-6) by auto
  next
    case (Do_complete_cleanup j w ev co m)
    then obtain r ev' r' where r: "j = Some i" "react_complete_cleanup now w ev co m r = Write ev' r'"
        "soft d r" "d' = stamp now ev' r'"
      using rel assms(2) by (metis submit.simps(14))
    from cleanup_completed [OF r(2)] soft_same(3,5) [OF r(3)] v show ?thesis
      by (auto simp: Do_complete_cleanup r(1,4))
  next
    case (Do_retry_cleanup j)
    then obtain r ev' r' where "react_retry_cleanup r = Write ev' r'" "d' = stamp now ev' r'"
        "\<not> cl_verified (rn_cleanup r)"
      using rel assms(2) by (metis submit.simps(13))
    then show ?thesis using cleanup_retried [of r ev' r'] v by simp
  qed (use assms(2) v in \<open>auto elim!: rel dest: cleanup_untouched simp del: One_nat_def\<close>)
qed

lemma released_only_by_verified_cleanup_witness:
  "\<exists>d. co_disk cleaning 7 = Some d \<and> rn_phase d = Ph_cleaning \<and> fu_status (rn_functional d) \<noteq> Out_pending"
proof -
  define t where "t = snd (submit ''t'' 7 (Do_complete_cleanup (Some 7) True None None None) cleaning)"
  have t: "submit ''t'' 7 (Do_complete_cleanup (Some 7) True None None None) cleaning =
      (fst (submit ''t'' 7 (Do_complete_cleanup (Some 7) True None None None) cleaning), t)"
    unfolding t_def by (rule prod.collapse [symmetric])
  obtain d where d: "co_disk cleaning 7 = Some d" "\<not> released d"
    using cleaning_run(1) by (auto split: option.splits)
  obtain e where e: "co_disk t 7 = Some e" "released e"
    using cleaning_run(2) unfolding t_def [symmetric] by (auto split: option.splits)
  from released_only_by_verified_cleanup [OF cleaning_reachable t d e] d(1) show ?thesis by blast
qed

subsection \<open>Repetition and recovery\<close>

definition starts_run :: "conn_command \<Rightarrow> bool" where
  "starts_run c = (case c of Do_start _ _ _ _ \<Rightarrow> True | _ \<Rightarrow> False)"

text \<open>
  Every command but the start of a run may be sent again: after it succeeded, the same command,
  whenever it arrives, is answered with the same record and neither memory nor disk changes.
\<close>

theorem repeated_command_is_silent:
  assumes "submit now fresh c s = (Inr r, t)" "\<not> starts_run c"
  shows "submit now' fresh' c t = (Inr r, t)"
proof (cases c)
  case (Do_start mode a u i)
  then show ?thesis using assms(2) by (simp add: starts_run_def)
next
  case (Do_complete_cleanup i v e co m)
  then show ?thesis using assms(1) serve_complete by simp
qed (insert assms(1), (simp only: submit.simps, erule serve_same, rule handlers_ok, erule handlers_again)+)

lemma repeated_command_is_silent_witness:
  "\<exists>r t. submit ''t1'' 8 (Do_begin_cleanup (Some 7)) cleaning = (Inr r, t) \<and>
     submit ''t2'' 9 (Do_begin_cleanup (Some 7)) t = (Inr r, t)"
proof -
  have "case fst (submit ''t1'' 8 (Do_begin_cleanup (Some 7)) cleaning) of Inl _ \<Rightarrow> False | Inr _ \<Rightarrow> True"
    by code_simp
  then obtain r t where s: "submit ''t1'' 8 (Do_begin_cleanup (Some 7)) cleaning = (Inr r, t)"
    by (cases "submit ''t1'' 8 (Do_begin_cleanup (Some 7)) cleaning") (auto split: sum.splits)
  have "\<not> starts_run (Do_begin_cleanup (Some 7))" by (simp add: starts_run_def)
  from repeated_command_is_silent [OF s this] s show ?thesis by blast
qed



subsection \<open>What a refused command leaves behind\<close>

text \<open>
  C40: A cancel request that is refused for its code still marks the run as cancelled in memory: every
  later cancel request, however well formed, is answered as done, and the run goes on in its phase.
\<close>

theorem refused_cancel_blocks_cancel:
  assumes "co_current s = Some r" "rn_phase r \<noteq> Ph_terminal" "\<not> rn_cancel r" "conn_code code = Inl e"
    "submit now fresh (Do_request_cancel (Some (rn_id r)) code message) s = (res, t)"
  shows "res = Inl e \<and> (\<exists>r'. rn_phase r' = rn_phase r \<and>
    submit now' fresh' (Do_request_cancel (Some (rn_id r)) code' message') t = (Inr r', t))"
  using assms by (auto simp: serve_def react_request_cancel_def Let_def)

lemma refused_cancel_blocks_cancel_witness:
  "\<exists>r'. rn_phase r' = Ph_created \<and>
    submit ''t2'' 9 (Do_request_cancel (Some 7) (Some ''CONNECTION_CANCELED'') (Some ''canceled''))
      (snd (submit ''t1'' 9 (Do_request_cancel (Some 7) (Some ''bad'') (Some ''canceled'')) demo_started)) =
    (Inr r', snd (submit ''t1'' 9 (Do_request_cancel (Some 7) (Some ''bad'') (Some ''canceled'')) demo_started))"
proof -
  have c: "conn_code (Some ''bad'') = Inl Input_invalid" by code_simp
  have s: "co_current demo_started = Some demo_saved" "rn_phase demo_saved \<noteq> Ph_terminal"
      "\<not> rn_cancel demo_saved" "rn_phase demo_saved = Ph_created"
    by (simp_all add: demo_started_def demo_saved_def demo_fresh_def new_run_def)
  from refused_cancel_blocks_cancel [OF s(1-3) c prod.collapse [symmetric], where now = "''t1''" and fresh = 9
      and message = "Some ''canceled''" and now' = "''t2''" and fresh' = 9
      and code' = "Some ''CONNECTION_CANCELED''" and message' = "Some ''canceled''"]
  show ?thesis unfolding s(4) demo_unreleased(4) by blast
qed

text \<open>
  An authority binding that is refused for the role still binds the room of the refused request in
  memory: the binding to the right role in any other room is refused from then on.
\<close>

lemma refused_binding_binds_room:
  assumes "co_current s = Some r" "rn_phase r = Ph_running" "rn_identity r Id_room = None"
    "rn_identity r Id_room_version = None" "rn_identity r Id_seat = None"
    "rn_identity r Id_switch_role = Some (Id_text own)" "switch_role_of role = Inr role" "role \<noteq> own"
    "bounded 128 room = Inr room1" "positive_int v = Inr v" "authority_seat_of seat = Inr seat"
    "submit now fresh (Do_bind_authority (Some (rn_id r)) room v seat role) s = (res, t)"
    "bounded 128 other = Inr room2" "room2 \<noteq> room1" "positive_int v' = Inr v'"
    "authority_seat_of seat' = Inr seat'" "switch_role_of own = Inr own"
  shows "res = Inl Identity_mismatch \<and>
    fst (submit now' fresh' (Do_bind_authority (Some (rn_id r)) other v' seat' own) t) = Inl Identity_mismatch"
  using assms
  by (auto simp: serve_def react_bind_authority_def when_running_def bind_all_def)

end
