(* ===== verification/Spec2Isabelle.thy ===== *)
theory Spec2Isabelle
  imports Charmap Block Reliable Ni Barrier Linkstate Linkplayer Mon Authority_Props Authority_Commands
    Trade_Wire Trade_Leave Trade_Peers Relay_Ready Relay_Admission_Props Relay_Rate C2_Example Pacing Coordinator_Claims
begin

text \<open>
  SwitchTrade lets a computer take part in a wireless trade of a game running on a console.
  The bridge (\<^verbatim>\<open>bridge/frlgsim\<close>) speaks the console's link protocol as a child of the console;
  the room service (\<^verbatim>\<open>relay\<close>) brings two such players together and arbitrates the life of
  their trade attempt.  This library models both, layer by layer, from the Python sources.

  \<^bold>\<open>The link, bottom up.\<close>
  \<^item> \<open>Prelude\<close>: Python values (integers, bytes, slices, exceptions as the left summand of a sum),
    endian codecs, and the interfaces the components share as locales: \<open>codec\<close>,
    \<open>canonical_codec\<close>, \<open>machine_inv\<close>, \<open>machine_mono\<close>, \<open>transition_inv\<close>,
    \<open>transition_follows\<close>.  Every one is interpreted on the model's own definitions.
  \<^item> \<open>Charmap\<close>, \<open>Rfu\<close>, \<open>Gbaframe\<close>: the character table (\<^verbatim>\<open>charmap.py\<close>), the 14-byte command
    slot with its rolling tag (\<^verbatim>\<open>rfu.py\<close>) and the emulator frame (\<^verbatim>\<open>gbaframe.py\<close>); round trips.
  \<^item> \<open>Block\<close>: the block reassembler and the acknowledged block sender (\<^verbatim>\<open>block.py\<close>); the
    reassembler converges, the sender completes and stops only when confirmed.
  \<^item> \<open>Reliable\<close>: the sliding-window link (\<^verbatim>\<open>reliable.py\<close>) with 16-bit sequence numbers:
    in-order delivery, window invariant, exact selective acknowledgement, message tiling.
  \<^item> \<open>Ni\<close>, \<open>Barrier\<close>, \<open>Linkstate\<close>: the opening handshake (\<^verbatim>\<open>ni.py\<close>), the standby barrier
    (\<^verbatim>\<open>barrier.py\<close>) and the held-keys state (\<^verbatim>\<open>linkstate.py\<close>) as state machines.
  \<^item> \<open>Linkplayer\<close>, \<open>Stats\<close>, \<open>Mon\<close>: the player block and trainer card, the experience curves and
    base stats, and the encrypted 100-byte mon with its party buffer.

  \<^bold>\<open>The trade engine\<close> (\<^verbatim>\<open>trade.py\<close>).
  \<^item> \<open>Trade_Entry\<close>: LINKCMD opcodes and blocks, the slots to give away, \<^verbatim>\<open>EntryPhase\<close> as the
    linearly ordered type \<open>entry_phase\<close> and the record \<open>room_entry\<close>.
  \<^item> \<open>Trade\<close>: \<^verbatim>\<open>TradeEngine\<close> as the record \<open>engine\<close> and one definition per method; \<^verbatim>\<open>tick\<close> is
    the composition of its stages in source order (\<open>te_tick\<close>), \<^verbatim>\<open>feed_in_frame\<close> that of its
    parts (\<open>feed_in_frame\<close>).  It uses \<open>Block\<close> for the transfers, \<open>Barrier\<close> for the standbys,
    \<open>Linkplayer\<close> and \<open>Mon\<close> for the data.
  \<^item> \<open>Trade_View\<close>: the abstract follower protocol (\<open>trade_step\<close> on \<open>trade_view\<close>) and the
    refinement lemmas, one per operation (\<open>*_runs\<close>).
  \<^item> \<open>Trade_Props\<close>, \<open>Trade_Wire\<close>, \<open>Trade_Leave\<close>, \<open>Trade_Peers\<close>: what follows for sessions: the
    books balance, a cancelled session is over, the slots emitted are well formed, the timers
    run out on time, the engine leaves even a silent host, and the relay acts exactly once.

  \<^bold>\<open>The room authority\<close> (\<^verbatim>\<open>relay/authority.py\<close>).
  \<^item> \<open>Authority\<close>: rooms, members, attempts and the SQLite tables as records and lists; lookups,
    expiry, credentials, replay.  \<open>Authority_Ops\<close>: \<^verbatim>\<open>mutate\<close> and its ten commands.
    \<open>Authority_Closing\<close>: the two-sided closing barrier, the relay's operations, the presence
    sweep.  \<open>Authority_Rooms\<close>: create, join, reconnect, reads.
  \<^item> \<open>Authority_Steps\<close>, \<open>Authority_Inv\<close>, \<open>Authority_Refine\<close>: the abstract transitions \<open>db_step\<close>
    of the document store, their invariant, and the refinement of every call (\<open>serve\<close>) to a run
    of them.  \<open>Authority_Example\<close>: one whole session, evaluated.  \<open>Authority_Props\<close> and
    \<open>Authority_Commands\<close>: the properties.

  \<^bold>\<open>Conventions.\<close>  A method that may raise returns \<^typ>\<open>py_error + 'a\<close>; only the class of an
  exception is kept (for \<^verbatim>\<open>AuthorityError\<close> its status and detail).  Clocks and round-trip
  times are rationals.  Callbacks (the remote hook) are outboxes.  Loops are structural
  recursion or carry a termination proof; the only fuel is in \<open>Ni\<close> (the phase-skip loop, a
  \<open>partial_function\<close>, with a proof that it returns for every non-empty source).

  \<^bold>\<open>Not modelled.\<close>  The transports and harnesses (sockets, threads, subprocesses, radio
  drivers, the web server around the authority) are input and output around this core;
  the SQLite file handling, logging, and the species names read from outside the repository
  are left out as well.
\<close>

end
